(* ===== verification/Kirino_Prelude.thy ===== *)
theory Kirino_Prelude
  imports
    Main
    "HOL-Library.AList"
    "HOL-Library.Char_ord"
    "HOL-Library.List_Lexorder"
    "HOL-Library.Multiset"
    "HOL-Library.Product_Lexorder"
    "HOL-Library.Sublist"
    "HOL-Library.Word"
begin

text \<open>
  The prelude: the error and result types shared by the components, the model of the
  standard library's \<^verbatim>\<open>HashMap\<close>, and the generic lemmas on lists, association lists and
  results that the component theories use.

  A \<^verbatim>\<open>HashMap<K, V>\<close> is an association list with distinct keys. The order of the list
  stands for the unspecified iteration order of the map: every operation whose result could
  depend on it is shown not to, or returns its result as a set. Insertion is
  \<^verbatim>\<open>AList.update\<close>, removal \<^verbatim>\<open>AList.delete\<close>, \<^verbatim>\<open>retain\<close> is \<^verbatim>\<open>filter\<close>, \<^verbatim>\<open>len\<close> is \<^verbatim>\<open>length\<close>.

  Time is an explicit argument. A \<^verbatim>\<open>DateTime<Utc>\<close> and an \<^verbatim>\<open>Instant\<close> are integers
  (nanoseconds); an operation that reads the clock receives the instant it reads. Identifiers
  that the code only compares (\<^verbatim>\<open>Uuid\<close>) are natural numbers.
\<close>

named_theorems hm_simps \<open>how the HashMap operations act on lookups and well-formedness\<close>

type_synonym uuid = nat
type_synonym instant = int
type_synonym byte = "8 word"
type_synonym u16 = "16 word"
type_synonym u32 = "32 word"
type_synonym u64 = "64 word"

text \<open>Whole seconds of a duration, towards zero.\<close>

definition num_seconds :: "int \<Rightarrow> int" where
  "num_seconds d = (if d \<ge> 0 then d div 1000000000 else - ((- d) div 1000000000))"

subsection \<open>Errors and results\<close>

text \<open>
  \<^verbatim>\<open>KirinoError\<close> of \<^verbatim>\<open>src/error.rs\<close>. The formatted text of a constraint violation is kept as
  the values it is built from (which check, which policy or role, which numbers);
  \<open>Store\<close> is any other error that reaches a caller through \<^verbatim>\<open>anyhow::Error\<close>.
\<close>

datatype violation =
    SsdViolated string string nat
  | DsdViolated string string nat
  | DsdSetViolated string "string list"
  | TemporalViolated string
  | CardinalityViolated string nat nat
  | PrerequisiteViolated string string

datatype kirino_error =
    NotFound string
  | Validation string
  | AuthenticationFailed
  | AuthorizationDenied string
  | SessionExpired
  | SessionNotFound
  | ConstraintViolation violation
  | Internal string
  | Store string

type_synonym 'a result = "kirino_error + 'a"

text \<open>The question mark operator: an error returns from the function, a value goes on.\<close>

fun and_then :: "'e + 'a \<Rightarrow> ('a \<Rightarrow> 'e + 'b) \<Rightarrow> 'e + 'b" where
  "and_then (Inl e) f = Inl e"
| "and_then (Inr x) f = f x"

lemma and_then_eq_Inr:
  "and_then r f = Inr y \<longleftrightarrow> (\<exists>x. r = Inr x \<and> f x = Inr y)"
  by (cases r) auto

lemma and_then_eq_Inl:
  "and_then r f = Inl e \<longleftrightarrow> r = Inl e \<or> (\<exists>x. r = Inr x \<and> f x = Inl e)"
  by (cases r) auto

fun is_ok :: "'e + 'a \<Rightarrow> bool" where
  "is_ok (Inl e) = False"
| "is_ok (Inr x) = True"

lemma is_ok_iff: "is_ok r \<longleftrightarrow> (\<exists>x. r = Inr x)"
  by (cases r) auto

subsection \<open>Hash maps as association lists with distinct keys\<close>

type_synonym ('k, 'v) hash_map = "('k \<times> 'v) list"

definition hm_wf :: "('k, 'v) hash_map \<Rightarrow> bool" where
  "hm_wf m \<longleftrightarrow> distinct (map fst m)"

lemma hm_wf_Nil [hm_simps, simp]: "hm_wf []"
  by (simp add: hm_wf_def)

lemma hm_wf_update [hm_simps, simp]: "hm_wf m \<Longrightarrow> hm_wf (AList.update k v m)"
  by (simp add: hm_wf_def distinct_update)

lemma hm_wf_delete [hm_simps, simp]: "hm_wf m \<Longrightarrow> hm_wf (AList.delete k m)"
  by (simp add: hm_wf_def distinct_delete)

lemma hm_wf_filter [hm_simps, simp]: "hm_wf m \<Longrightarrow> hm_wf (filter P m)"
  by (simp add: hm_wf_def distinct_map_filter)

lemma map_of_AList_update [hm_simps]:
  "map_of (AList.update k v m) k' = (if k' = k then Some v else map_of m k')"
  by (simp add: update_conv)

lemma map_of_AList_delete [hm_simps]:
  "map_of (AList.delete k m) k' = (if k' = k then None else map_of m k')"
  by (simp add: delete_conv)

lemma hm_map_of_filter [hm_simps]:
  assumes "hm_wf m"
  shows "map_of (filter P m) k =
    (case map_of m k of None \<Rightarrow> None | Some v \<Rightarrow> if P (k, v) then Some v else None)"
  using assms
proof (induction m)
  case Nil
  then show ?case by simp
next
  case (Cons a m)
  obtain k' v' where a: "a = (k', v')" by force
  from Cons.prems a have wf: "hm_wf m" and notin: "k' \<notin> fst ` set m"
    by (auto simp: hm_wf_def)
  from notin have none: "map_of m k' = None" by (simp add: map_of_eq_None_iff)
  show ?case using Cons.IH [OF wf] none by (auto simp: a split: option.splits)
qed

lemma hm_map_of_SomeI: "hm_wf m \<Longrightarrow> (k, v) \<in> set m \<Longrightarrow> map_of m k = Some v"
  by (simp add: hm_wf_def)

lemma hm_in_set_iff: "hm_wf m \<Longrightarrow> (k, v) \<in> set m \<longleftrightarrow> map_of m k = Some v"
  by (auto simp: hm_wf_def)

subsection \<open>Strings\<close>

text \<open>\<^verbatim>\<open>str::split\<close>: the segments between separators, always at least one.\<close>

fun split_on :: "char \<Rightarrow> string \<Rightarrow> string list" where
  "split_on sep [] = [[]]"
| "split_on sep (c # cs) =
     (if c = sep then [] # split_on sep cs
      else case split_on sep cs of [] \<Rightarrow> [[c]] | seg # segs \<Rightarrow> (c # seg) # segs)"

lemma split_on_append: "sep \<notin> set c \<Longrightarrow> split_on sep (c @ sep # s) = c # split_on sep s"
  by (induction c) auto

lemma split_on_name: "sep \<notin> set c \<Longrightarrow> split_on sep c = [c]"
  by (induction c) auto

text \<open>\<^verbatim>\<open>str::strip_prefix\<close>.\<close>

definition strip_prefix :: "string \<Rightarrow> string \<Rightarrow> string option" where
  "strip_prefix p s = (if take (length p) s = p then Some (drop (length p) s) else None)"

lemma strip_prefix_eq_Some: "strip_prefix p s = Some t \<longleftrightarrow> s = p @ t"
  by (auto simp: strip_prefix_def) (metis append_take_drop_id)

lemma append_at_separator:
  assumes "c \<notin> set xs" "c \<notin> set ys"
  shows "xs @ c # us = ys @ c # vs \<longleftrightarrow> xs = ys \<and> us = vs"
  using assms
proof (induction xs arbitrary: ys)
  case Nil
  then show ?case by (cases ys) auto
next
  case (Cons x xs)
  then show ?case by (cases ys) auto
qed

text \<open>A number in decimal notation.\<close>

fun decimal :: "nat \<Rightarrow> string" where
  "decimal n = (if n < 10 then [''0123456789'' ! n] else decimal (n div 10) @ [''0123456789'' ! (n mod 10)])"

declare decimal.simps [simp del]

lemma set_decimal: "set (decimal n) \<subseteq> set ''0123456789''"
proof (induction n rule: decimal.induct)
  case (1 n)
  have d: "''0123456789'' ! k \<in> set ''0123456789''" if "k < 10" for k
    using that by (intro nth_mem) simp
  show ?case
  proof (cases "n < 10")
    case True
    then show ?thesis by (subst decimal.simps) (use d in simp)
  next
    case False
    with 1 d [of "n mod 10"] show ?thesis by (subst decimal.simps) simp
  qed
qed

lemma hd_decimal: "0 < n \<Longrightarrow> hd (decimal n) \<noteq> CHR ''0''"
proof (induction n rule: decimal.induct)
  case (1 n)
  show ?case
  proof (cases "n < 10")
    case True
    then have "n \<in> {0..<10}" by simp
    with 1(2) show ?thesis by (subst decimal.simps) (auto simp: atLeastLessThan_nat_numeral)
  next
    case False
    moreover from 1 False have "hd (decimal (n div 10)) \<noteq> CHR ''0''" by simp
    moreover have "decimal (n div 10) \<noteq> []" by (subst decimal.simps) simp
    ultimately show ?thesis by (subst decimal.simps) simp
  qed
qed

lemma decimal_not_Nil [simp]: "decimal n \<noteq> []"
  by (subst decimal.simps) simp

lemma length_decimal: "n < 10 ^ k \<Longrightarrow> 0 < k \<Longrightarrow> length (decimal n) \<le> k"
proof (induction n arbitrary: k rule: decimal.induct)
  case (1 n)
  show ?case
  proof (cases "n < 10")
    case True
    with 1(3) show ?thesis by (subst decimal.simps) simp
  next
    case False
    obtain k' where k: "k = Suc k'" using 1(3) by (cases k) auto
    with 1(2) False have "n div 10 < 10 ^ k'" "0 < k'" by (auto intro: gr0I)
    from 1(1) [OF False this] False k show ?thesis by (subst decimal.simps) simp
  qed
qed

subsection \<open>Lists\<close>

text \<open>
  A bounded maximum-heap fed one element at a time keeps the smallest elements: inserting
  into the kept prefix and cutting it again is the same as cutting the whole sorted list.
\<close>

lemma take_insort_take:
  "take n (insort x (take n xs)) = take n (insort x (xs :: 'a::linorder list))"
proof (induction xs arbitrary: n)
  case Nil
  then show ?case by simp
next
  case (Cons a xs)
  show ?case
  proof (cases n)
    case 0
    then show ?thesis by simp
  next
    case (Suc m)
    have "take m (a # take m xs) = take m (a # xs)"
      by (cases m) (simp_all add: take_Cons' min_def)
    then show ?thesis using Suc Cons.IH [of m] by simp
  qed
qed

lemma butlast_conv_take_Suc: "length xs = Suc n \<Longrightarrow> butlast xs = take n xs"
  by (simp add: butlast_conv_take)

lemma sorted_take_drop_le:
  assumes "sorted xs" "x \<in> set (take n xs)" "y \<in> set (drop n xs)"
  shows "x \<le> (y :: 'a::linorder)"
proof -
  have "sorted (take n xs @ drop n xs)" using assms(1) by simp
  then show ?thesis using assms(2,3) by (auto simp: sorted_append simp del: append_take_drop_id)
qed

lemma length_filter_less_iff:
  "length (filter P xs) < length xs \<longleftrightarrow> (\<exists>x \<in> set xs. \<not> P x)"
  by (metis filter_True length_filter_less linorder_neq_iff)


lemma set_map_filter_iff: "y \<in> set (List.map_filter f xs) \<longleftrightarrow> (\<exists>x \<in> set xs. f x = Some y)"
  by (induction xs) (auto simp: map_filter_simps split: option.split)

end
