(* ===== verification/Rbac_Traits.thy ===== *)
theory Rbac_Traits
  imports Kirino_Prelude
begin

text \<open>
  The vocabulary of \<^verbatim>\<open>src/rbac/traits.rs\<close>. A trait object is a record of the methods the
  decision paths call: \<open>permission_ops\<close> for \<^verbatim>\<open>Permission\<close>, \<open>role_registry\<close> for
  \<^verbatim>\<open>RoleRegistry\<close>, \<open>assignment_reads\<close> for the read side of \<^verbatim>\<open>AssignmentStore\<close> (what the
  store answers at the moment of the call, errors included), \<open>grant_resolver\<close> for
  \<^verbatim>\<open>GrantResolver\<close>. The texts of decision reasons are kept as the values they are built from.
  The locale \<open>finite_registry\<close> states what a registry has to promise for a walk over its
  parent links to end.
\<close>

subsection \<open>Permissions\<close>

record 'p permission_ops =
  perm_name :: "'p \<Rightarrow> string"
  ancestry_names :: "'p \<Rightarrow> string list"
  is_branch :: "'p \<Rightarrow> bool"
  perm_all :: "'p list"

text \<open>The trait's default methods: no ancestor but the permission itself, never a branch.\<close>

definition default_permission_ops :: "('p \<Rightarrow> string) \<Rightarrow> 'p permission_ops" where
  "default_permission_ops nm =
     \<lparr>perm_name = nm, ancestry_names = (\<lambda>p. [nm p]), is_branch = (\<lambda>_. False), perm_all = []\<rparr>"

subsection \<open>Registries and stores\<close>

record 'p role_registry =
  get_role_permissions :: "string \<Rightarrow> 'p set option"
  role_parents :: "string \<Rightarrow> string list"
  list_role_names :: "string list"

record ('s, 'p) assignment_reads =
  roles_of :: "'s \<Rightarrow> string list result"
  extra_permissions :: "'s \<Rightarrow> 'p set result"
  denied_permissions :: "'s \<Rightarrow> 'p set result"

subsection \<open>Roles of a subject\<close>

datatype system_role = Admin | Operator | Member | Viewer

fun system_role_as_str :: "system_role \<Rightarrow> string" where
  "system_role_as_str Admin = ''admin''"
| "system_role_as_str Operator = ''operator''"
| "system_role_as_str Member = ''member''"
| "system_role_as_str Viewer = ''viewer''"

definition system_role_from_str_lossy :: "string \<Rightarrow> system_role option" where
  "system_role_from_str_lossy s =
     (if s = ''admin'' then Some Admin
      else if s = ''operator'' then Some Operator
      else if s = ''member'' then Some Member
      else if s = ''viewer'' then Some Viewer
      else None)"

lemma system_role_from_as_str [simp]:
  "system_role_from_str_lossy (system_role_as_str r) = Some r"
  by (cases r) (simp_all add: system_role_from_str_lossy_def)

lemma system_role_from_str_Some:
  "system_role_from_str_lossy s = Some r \<Longrightarrow> s = system_role_as_str r"
  by (auto simp: system_role_from_str_lossy_def split: if_splits)

datatype ctx_workspace_role = CtxViewer | CtxOperator | CtxOwner

subsection \<open>The context of a scoped decision\<close>

record permission_context =
  user_id :: uuid
  system_role :: system_role
  group_ids :: "uuid list"
  workspace_id :: "uuid option"
  workspace_role :: "ctx_workspace_role option"
  session_version :: u64
  current_user_version :: u64

definition is_session_stale :: "permission_context \<Rightarrow> bool" where
  "is_session_stale ctx \<longleftrightarrow> session_version ctx < current_user_version ctx"

subsection \<open>Decisions\<close>

datatype grant_source =
    RoleDefault
  | GlobalGrant
  | GroupGrant
  | UserGrant
  | WorkspaceRoleSource
  | WorkspaceGrant
  | AdminBypass

datatype grant_scope = Global | Group uuid | Workspace uuid

datatype reason =
    StaleSession
  | SystemAdministrator
  | ExplicitDenySet
  | RoleDefaultFor system_role
  | ScopedGrantAt grant_scope
  | NoMatchingGrant

datatype permission_decision =
    Granted reason grant_source
  | Denied reason "grant_source option"

fun is_granted :: "permission_decision \<Rightarrow> bool" where
  "is_granted (Granted r s) = True"
| "is_granted (Denied r s) = False"

record 'p grant_resolver =
  resolve_grant :: "permission_context \<Rightarrow> 'p \<Rightarrow> string option \<Rightarrow> permission_decision result"

subsection \<open>What a registry promises\<close>

text \<open>
  \<open>list_role_names\<close> enumerates every role that has permissions. A walk over parent links
  follows the links of such roles only, so it can visit no more of them than the list holds.
\<close>

definition known_roles :: "'p role_registry \<Rightarrow> string set" where
  "known_roles reg = {r. get_role_permissions reg r \<noteq> None}"

locale finite_registry =
  fixes reg :: "'p role_registry"
  assumes listed: "get_role_permissions reg r \<noteq> None \<Longrightarrow> r \<in> set (list_role_names reg)"
begin

lemma known_subset: "known_roles reg \<subseteq> set (list_role_names reg)"
  using listed by (auto simp: known_roles_def)

lemma finite_known [simp]: "finite (known_roles reg)"
  using finite_subset [OF known_subset] by simp

lemma card_known_le: "card (known_roles reg) \<le> length (list_role_names reg)"
  using card_mono [OF _ known_subset] card_length le_trans by blast

end

end
