(* ===== verification/Rbac_Stores.thy ===== *)
theory Rbac_Stores
  imports Rbac_Traits
begin

text \<open>
  The in-memory stores: \<^verbatim>\<open>src/rbac/store/memory.rs\<close> (\<^verbatim>\<open>InMemoryAssignmentStore\<close>,
  \<^verbatim>\<open>InMemoryRoleStore\<close>) and \<^verbatim>\<open>src/rbac/store/registry.rs\<close> (\<^verbatim>\<open>SimpleRole\<close>,
  \<^verbatim>\<open>StaticPermissionRegistry\<close>, \<^verbatim>\<open>StaticRoleRegistry\<close>, and \<^verbatim>\<open>HierarchyNode\<close> of
  \<^verbatim>\<open>src/rbac/hierarchy/mod.rs\<close> as a role with parents). Each method is one atomic state
  transformer, as each holds one lock for its whole body. The inner \<^verbatim>\<open>HashSet<String>\<close> of
  roles, which the code iterates, is a list without repetitions; a \<^verbatim>\<open>HashSet<P>\<close>, which the
  code only tests and unites, is a set.

  The locale \<open>assignment_store\<close> is the contract of the trait \<^verbatim>\<open>AssignmentStore\<close> as its
  documentation gives it: idempotent writes, whole-set replacement, no effect on other
  subjects. It is interpreted on the in-memory store.
\<close>

subsection \<open>The assignment store\<close>

record 'p in_memory_assignment_store =
  role_assignments :: "(string, string list) hash_map"
  extra_perms :: "(string, 'p set) hash_map"
  denied_perms :: "(string, 'p set) hash_map"

definition assignment_store_new :: "'p in_memory_assignment_store" where
  "assignment_store_new = \<lparr>role_assignments = [], extra_perms = [], denied_perms = []\<rparr>"

definition or_default :: "'a option \<Rightarrow> 'a \<Rightarrow> 'a" where
  "or_default x d = (case x of None \<Rightarrow> d | Some v \<Rightarrow> v)"

lemma or_default_simps [simp]: "or_default None d = d" "or_default (Some v) d = v"
  by (simp_all add: or_default_def)

definition assign_role ::
  "('s \<Rightarrow> string) \<Rightarrow> 's \<Rightarrow> string \<Rightarrow> 'p in_memory_assignment_store \<Rightarrow> 'p in_memory_assignment_store" where
  "assign_role sid s role st =
     (let roles = or_default (map_of (role_assignments st) (sid s)) []
      in st\<lparr>role_assignments := AList.update (sid s) (List.insert role roles) (role_assignments st)\<rparr>)"

definition revoke_role ::
  "('s \<Rightarrow> string) \<Rightarrow> 's \<Rightarrow> string \<Rightarrow> 'p in_memory_assignment_store \<Rightarrow> 'p in_memory_assignment_store" where
  "revoke_role sid s role st =
     (case map_of (role_assignments st) (sid s) of
        None \<Rightarrow> st
      | Some roles \<Rightarrow>
          st\<lparr>role_assignments :=
               AList.update (sid s) (filter (\<lambda>r. r \<noteq> role) roles) (role_assignments st)\<rparr>)"

definition mem_roles_of ::
  "('s \<Rightarrow> string) \<Rightarrow> 'p in_memory_assignment_store \<Rightarrow> 's \<Rightarrow> string list result" where
  "mem_roles_of sid st s = Inr (or_default (map_of (role_assignments st) (sid s)) [])"

definition subjects_with_role :: "'p in_memory_assignment_store \<Rightarrow> string \<Rightarrow> string list result" where
  "subjects_with_role st role =
     Inr (map fst (filter (\<lambda>(_, roles). \<exists>r\<in>set roles. r = role) (role_assignments st)))"

definition mem_extra_permissions ::
  "('s \<Rightarrow> string) \<Rightarrow> 'p in_memory_assignment_store \<Rightarrow> 's \<Rightarrow> 'p set result" where
  "mem_extra_permissions sid st s = Inr (or_default (map_of (extra_perms st) (sid s)) {})"

definition set_extra_permissions ::
  "('s \<Rightarrow> string) \<Rightarrow> 's \<Rightarrow> 'p set \<Rightarrow> 'p in_memory_assignment_store \<Rightarrow> 'p in_memory_assignment_store" where
  "set_extra_permissions sid s perms st =
     st\<lparr>extra_perms := AList.update (sid s) perms (extra_perms st)\<rparr>"

definition mem_denied_permissions ::
  "('s \<Rightarrow> string) \<Rightarrow> 'p in_memory_assignment_store \<Rightarrow> 's \<Rightarrow> 'p set result" where
  "mem_denied_permissions sid st s = Inr (or_default (map_of (denied_perms st) (sid s)) {})"

definition set_denied_permissions ::
  "('s \<Rightarrow> string) \<Rightarrow> 's \<Rightarrow> 'p set \<Rightarrow> 'p in_memory_assignment_store \<Rightarrow> 'p in_memory_assignment_store" where
  "set_denied_permissions sid s perms st =
     st\<lparr>denied_perms := AList.update (sid s) perms (denied_perms st)\<rparr>"

text \<open>The store as the engine sees it at one moment: the trait object's read methods.\<close>

definition mem_reads ::
  "('s \<Rightarrow> string) \<Rightarrow> 'p in_memory_assignment_store \<Rightarrow> ('s, 'p) assignment_reads" where
  "mem_reads sid st =
     \<lparr>roles_of = mem_roles_of sid st,
      extra_permissions = mem_extra_permissions sid st,
      denied_permissions = mem_denied_permissions sid st\<rparr>"

lemmas assignment_store_defs =
  assign_role_def revoke_role_def mem_roles_of_def mem_extra_permissions_def
  set_extra_permissions_def mem_denied_permissions_def set_denied_permissions_def

definition assignment_store_wf :: "'p in_memory_assignment_store \<Rightarrow> bool" where
  "assignment_store_wf st \<longleftrightarrow>
     hm_wf (role_assignments st) \<and> hm_wf (extra_perms st) \<and> hm_wf (denied_perms st) \<and>
     (\<forall>(k, roles) \<in> set (role_assignments st). distinct roles)"

lemma assignment_store_wf_new: "assignment_store_wf assignment_store_new"
  by (simp add: assignment_store_wf_def assignment_store_new_def)

lemma set_AList_update_subset: "x \<in> set (AList.update k v m) \<Longrightarrow> x = (k, v) \<or> x \<in> set m"
  by (induction m) (auto split: if_splits)

lemma assignment_store_wf_assign [simp]:
  assumes "assignment_store_wf st"
  shows "assignment_store_wf (assign_role sid s role st)"
proof -
  have "distinct (or_default (map_of (role_assignments st) (sid s)) [])"
    using assms by (auto simp: assignment_store_wf_def or_default_def
      split: option.splits dest: map_of_SomeD)
  then show ?thesis using assms
    by (auto simp: assignment_store_wf_def assign_role_def Let_def distinct_insert
      dest!: set_AList_update_subset)
qed

lemma assignment_store_wf_revoke [simp]:
  "assignment_store_wf st \<Longrightarrow> assignment_store_wf (revoke_role sid s role st)"
  by (force simp: assignment_store_wf_def revoke_role_def split: option.splits
    dest!: set_AList_update_subset map_of_SomeD)

lemma assignment_store_wf_set_extra [simp]:
  "assignment_store_wf st \<Longrightarrow> assignment_store_wf (set_extra_permissions sid s ps st)"
  by (simp add: assignment_store_wf_def set_extra_permissions_def)

lemma assignment_store_wf_set_denied [simp]:
  "assignment_store_wf st \<Longrightarrow> assignment_store_wf (set_denied_permissions sid s ps st)"
  by (simp add: assignment_store_wf_def set_denied_permissions_def)

subsection \<open>The contract of an assignment store\<close>

text \<open>
  \<open>reads st\<close> is what the engine can ask; the four writes change the answers for one
  subject and leave every other subject's answers alone. \<open>same\<close> says when two subjects are
  the same principal to the store.
\<close>

locale assignment_store =
  fixes inv :: "'st \<Rightarrow> bool"
    and reads :: "'st \<Rightarrow> ('s, 'p) assignment_reads"
    and same :: "'s \<Rightarrow> 's \<Rightarrow> bool"
    and assign :: "'s \<Rightarrow> string \<Rightarrow> 'st \<Rightarrow> 'st"
    and revoke :: "'s \<Rightarrow> string \<Rightarrow> 'st \<Rightarrow> 'st"
    and set_extra :: "'s \<Rightarrow> 'p set \<Rightarrow> 'st \<Rightarrow> 'st"
    and set_denied :: "'s \<Rightarrow> 'p set \<Rightarrow> 'st \<Rightarrow> 'st"
  assumes same_refl: "same s s"
    and inv_assign: "inv st \<Longrightarrow> inv (assign s r st)"
    and inv_revoke: "inv st \<Longrightarrow> inv (revoke s r st)"
    and inv_set_extra: "inv st \<Longrightarrow> inv (set_extra s ps st)"
    and inv_set_denied: "inv st \<Longrightarrow> inv (set_denied s ps st)"
    and total: "inv st \<Longrightarrow> \<exists>rs es ds. roles_of (reads st) s = Inr rs \<and>
      extra_permissions (reads st) s = Inr es \<and> denied_permissions (reads st) s = Inr ds"
    and roles_assign: "inv st \<Longrightarrow> roles_of (reads st) s' = Inr rs \<Longrightarrow>
      \<exists>rs'. roles_of (reads (assign s r st)) s' = Inr rs' \<and>
        set rs' = (if same s s' then insert r (set rs) else set rs)"
    and roles_revoke: "inv st \<Longrightarrow> roles_of (reads st) s' = Inr rs \<Longrightarrow>
      \<exists>rs'. roles_of (reads (revoke s r st)) s' = Inr rs' \<and>
        set rs' = (if same s s' then set rs - {r} else set rs)"
    and perms_assign: "inv st \<Longrightarrow>
      extra_permissions (reads (assign s r st)) = extra_permissions (reads st) \<and>
      denied_permissions (reads (assign s r st)) = denied_permissions (reads st)"
    and perms_revoke: "inv st \<Longrightarrow>
      extra_permissions (reads (revoke s r st)) = extra_permissions (reads st) \<and>
      denied_permissions (reads (revoke s r st)) = denied_permissions (reads st)"
    and reads_set_extra: "inv st \<Longrightarrow>
      roles_of (reads (set_extra s ps st)) = roles_of (reads st) \<and>
      denied_permissions (reads (set_extra s ps st)) = denied_permissions (reads st) \<and>
      extra_permissions (reads (set_extra s ps st)) s' =
        (if same s s' then Inr ps else extra_permissions (reads st) s')"
    and reads_set_denied: "inv st \<Longrightarrow>
      roles_of (reads (set_denied s ps st)) = roles_of (reads st) \<and>
      extra_permissions (reads (set_denied s ps st)) = extra_permissions (reads st) \<and>
      denied_permissions (reads (set_denied s ps st)) s' =
        (if same s s' then Inr ps else denied_permissions (reads st) s')"
begin

lemma revoked_role_gone:
  assumes "inv st" and "roles_of (reads (revoke s r st)) s = Inr rs"
  shows "r \<notin> set rs"
proof -
  obtain rs0 where "roles_of (reads st) s = Inr rs0" using total [OF assms(1)] by blast
  from roles_revoke [OF assms(1) this, of s r] assms(2) same_refl show ?thesis by auto
qed

lemma assigned_role_held:
  assumes "inv st" and "roles_of (reads (assign s r st)) s = Inr rs"
  shows "r \<in> set rs"
proof -
  obtain rs0 where "roles_of (reads st) s = Inr rs0" using total [OF assms(1)] by blast
  from roles_assign [OF assms(1) this, of s r] assms(2) same_refl show ?thesis by auto
qed

end

lemma or_default_map_of_update:
  "or_default (map_of (AList.update k v m) k') d = (if k' = k then v else or_default (map_of m k') d)"
  by (simp add: map_of_AList_update)

interpretation mem_store: assignment_store assignment_store_wf "mem_reads sid"
  "\<lambda>s s'. sid s = sid s'" "assign_role sid" "revoke_role sid"
  "set_extra_permissions sid" "set_denied_permissions sid"
  for sid :: "'s \<Rightarrow> string"
  by (unfold_locales; (simp; fail | auto simp: mem_reads_def assignment_store_defs
      map_of_AList_update fun_eq_iff Let_def split: option.splits))

subsection \<open>The role store\<close>

type_synonym 'p in_memory_role_store = "(string, 'p set) hash_map"

definition create_role :: "string \<Rightarrow> 'p set \<Rightarrow> 'p in_memory_role_store \<Rightarrow> 'p in_memory_role_store" where
  "create_role role perms st = AList.update role perms st"

definition delete_role :: "string \<Rightarrow> 'p in_memory_role_store \<Rightarrow> bool result \<times> 'p in_memory_role_store" where
  "delete_role role st = (Inr (map_of st role \<noteq> None), AList.delete role st)"

definition rs_get_role_permissions :: "'p in_memory_role_store \<Rightarrow> string \<Rightarrow> 'p set option result" where
  "rs_get_role_permissions st role = Inr (map_of st role)"

definition list_roles :: "'p in_memory_role_store \<Rightarrow> string list result" where
  "list_roles st = Inr (map fst st)"

subsection \<open>Static registries\<close>

record 'p simple_role =
  sr_name :: string
  sr_permissions :: "'p set"
  sr_parents :: "string list"

text \<open>A \<^verbatim>\<open>SimpleRole\<close> declares no parents; a \<^verbatim>\<open>HierarchyNode\<close> gets them from \<open>with_parents\<close>.\<close>

definition hierarchy_node_new :: "string \<Rightarrow> 'p set \<Rightarrow> 'p simple_role" where
  "hierarchy_node_new nm perms = \<lparr>sr_name = nm, sr_permissions = perms, sr_parents = []\<rparr>"

definition with_parents :: "string list \<Rightarrow> 'p simple_role \<Rightarrow> 'p simple_role" where
  "with_parents ps r = r\<lparr>sr_parents := ps\<rparr>"

record 'p static_role_registry =
  srr_roles :: "(string, 'p simple_role) hash_map"
  srr_parents :: "(string, string list) hash_map"

definition srr_new :: "'p static_role_registry" where
  "srr_new = \<lparr>srr_roles = [], srr_parents = []\<rparr>"

definition register :: "'p simple_role \<Rightarrow> 'p static_role_registry \<Rightarrow> 'p static_role_registry" where
  "register role reg =
     reg\<lparr>srr_parents := AList.delete (sr_name role) (srr_parents reg),
         srr_roles := AList.update (sr_name role) role (srr_roles reg)\<rparr>"

definition set_parents :: "string \<Rightarrow> string list \<Rightarrow> 'p static_role_registry \<Rightarrow> 'p static_role_registry" where
  "set_parents nm ps reg = reg\<lparr>srr_parents := AList.update nm ps (srr_parents reg)\<rparr>"

definition register_hierarchical :: "'p simple_role \<Rightarrow> 'p static_role_registry \<Rightarrow> 'p static_role_registry" where
  "register_hierarchical role reg =
     reg\<lparr>srr_parents := AList.update (sr_name role) (sr_parents role) (srr_parents reg),
         srr_roles := AList.update (sr_name role) role (srr_roles reg)\<rparr>"

definition static_registry :: "'p static_role_registry \<Rightarrow> 'p role_registry" where
  "static_registry reg =
     \<lparr>get_role_permissions = (\<lambda>r. map_option sr_permissions (map_of (srr_roles reg) r)),
      role_parents = (\<lambda>r. or_default (map_of (srr_parents reg) r) []),
      list_role_names = map fst (srr_roles reg)\<rparr>"

interpretation static_reg: finite_registry "static_registry reg"
  for reg :: "'p static_role_registry"
  by unfold_locales (auto simp: static_registry_def map_of_eq_None_iff)

lemmas static_registry_simps =
  static_registry_def register_def register_hierarchical_def set_parents_def srr_new_def
  hierarchy_node_new_def with_parents_def

record 'p static_permission_registry =
  spr_permissions :: "'p list"
  spr_by_name :: "(string, 'p) hash_map"

definition spr_new :: "('p \<Rightarrow> string) \<Rightarrow> 'p list \<Rightarrow> 'p static_permission_registry" where
  "spr_new nm perms =
     \<lparr>spr_permissions = perms, spr_by_name = fold (\<lambda>p. AList.update (nm p) p) perms []\<rparr>"

definition all_permissions :: "'p static_permission_registry \<Rightarrow> 'p set" where
  "all_permissions reg = set (spr_permissions reg)"

definition get_permission :: "'p static_permission_registry \<Rightarrow> string \<Rightarrow> 'p option" where
  "get_permission reg nm = map_of (spr_by_name reg) nm"

lemma find_append:
  "find P (xs @ ys) = (case find P xs of None \<Rightarrow> find P ys | Some y \<Rightarrow> Some y)"
  by (induction xs) auto

text \<open>Of several permissions with one name the index keeps the last one it meets.\<close>

lemma fold_update_map_of:
  "map_of (fold (\<lambda>p. AList.update (nm p) p) ps m) x =
     (case find (\<lambda>p. nm p = x) (rev ps) of None \<Rightarrow> map_of m x | Some p \<Rightarrow> Some p)"
  by (induction ps arbitrary: m) (auto simp: find_append map_of_AList_update split: option.splits)

lemma get_permission_new:
  "get_permission (spr_new nm ps) x = find (\<lambda>p. nm p = x) (rev ps)"
  by (simp add: get_permission_def spr_new_def fold_update_map_of split: option.splits)

lemma find_Some_D: "find P xs = Some y \<Longrightarrow> y \<in> set xs \<and> P y"
  by (induction xs) (auto split: if_splits)

lemma get_permission_unique:
  assumes "inj_on nm (set ps)" and "p \<in> set ps"
  shows "get_permission (spr_new nm ps) (nm p) = Some p"
proof -
  obtain q where q: "find (\<lambda>q. nm q = nm p) (rev ps) = Some q"
    using assms(2) by (cases "find (\<lambda>q. nm q = nm p) (rev ps)") (auto simp: find_None_iff)
  from find_Some_D [OF q] assms have "q = p" by (auto simp: inj_on_def)
  with q show ?thesis by (simp add: get_permission_new)
qed

end
