(* ===== verification/Role_Hierarchy.thy ===== *)
theory Role_Hierarchy
  imports Rbac_Stores
begin

text \<open>
  The role hierarchy of \<^verbatim>\<open>src/rbac/hierarchy/mod.rs\<close>: \<^verbatim>\<open>resolve_role_chain\<close>, the iterative
  walk that unites the permissions of every reachable ancestor, and \<^verbatim>\<open>dfs\<close> with
  \<^verbatim>\<open>detect_cycle\<close>, the recursive probe for a cycle.

  The walk loops over an explicit stack whose top is the head of the list; it is a
  \<^verbatim>\<open>partial_function\<close>, so a walk that does not end has no value, and
  \<open>resolve_role_chain_returns\<close> shows that it ends over every finite registry. The probe
  recurses under a \<^verbatim>\<open>for\<close> loop; it has a fuel argument, one more than the number of role names
  the registry lists, and \<open>detect_cycle_iff\<close> shows that this is always enough.

  The specification is the relation \<open>parent_edge\<close>: a known role points at its parents.
\<close>

subsection \<open>The definitions\<close>

partial_function (option) resolve_loop ::
  "'p role_registry \<Rightarrow> string list \<Rightarrow> string set \<Rightarrow> 'p set \<Rightarrow> 'p set option" where
  "resolve_loop reg stack visited perms =
     (case stack of
        [] \<Rightarrow> Some perms
      | current # rest \<Rightarrow>
          if current \<in> visited then resolve_loop reg rest visited perms
          else (case get_role_permissions reg current of
                  None \<Rightarrow> resolve_loop reg rest (insert current visited) perms
                | Some ps \<Rightarrow>
                    resolve_loop reg
                      (rev (filter (\<lambda>p. p \<notin> insert current visited) (role_parents reg current)) @ rest)
                      (insert current visited) (perms \<union> ps)))"

definition resolve_role_chain :: "'p role_registry \<Rightarrow> string \<Rightarrow> 'p set option" where
  "resolve_role_chain reg role = resolve_loop reg [role] {} {}"

type_synonym probe = "bool \<times> string set \<times> string set"

fun dfs :: "nat \<Rightarrow> 'p role_registry \<Rightarrow> string \<Rightarrow> string set \<Rightarrow> string set \<Rightarrow> probe option"
  and dfs_parents :: "nat \<Rightarrow> 'p role_registry \<Rightarrow> string list \<Rightarrow> string set \<Rightarrow> string set \<Rightarrow> probe option"
where
  "dfs 0 reg name visited path = None"
| "dfs (Suc n) reg name visited path =
     (if name \<in> path then Some (True, visited, path)
      else if name \<in> visited then Some (False, visited, path)
      else case (if get_role_permissions reg name \<noteq> None
                 then dfs_parents n reg (role_parents reg name) (insert name visited) (insert name path)
                 else Some (False, insert name visited, insert name path)) of
             None \<Rightarrow> None
           | Some (found, visited', path') \<Rightarrow>
               if found then Some (True, visited', path')
               else Some (False, visited', path' - {name}))"
| "dfs_parents n reg [] visited path = Some (False, visited, path)"
| "dfs_parents n reg (parent # ps) visited path =
     (case dfs n reg parent visited path of
        None \<Rightarrow> None
      | Some (found, visited', path') \<Rightarrow>
          if found then Some (True, visited', path')
          else dfs_parents n reg ps visited' path')"

definition detect_cycle :: "'p role_registry \<Rightarrow> string \<Rightarrow> bool option" where
  "detect_cycle reg role =
     map_option fst (dfs (Suc (length (list_role_names reg))) reg role {} {})"

subsection \<open>The specification\<close>

definition parent_edge :: "'p role_registry \<Rightarrow> (string \<times> string) set" where
  "parent_edge reg = {(a, b). get_role_permissions reg a \<noteq> None \<and> b \<in> set (role_parents reg a)}"

definition direct_permissions :: "'p role_registry \<Rightarrow> string \<Rightarrow> 'p set" where
  "direct_permissions reg r = or_default (get_role_permissions reg r) {}"

definition inherited_permissions :: "'p role_registry \<Rightarrow> string \<Rightarrow> 'p set" where
  "inherited_permissions reg r = (\<Union>a \<in> (parent_edge reg)\<^sup>* `` {r}. direct_permissions reg a)"

definition acyclic_from :: "'p role_registry \<Rightarrow> string \<Rightarrow> bool" where
  "acyclic_from reg r \<longleftrightarrow> (\<forall>x. (r, x) \<in> (parent_edge reg)\<^sup>* \<longrightarrow> (x, x) \<notin> (parent_edge reg)\<^sup>+)"

lemma parent_edgeI:
  "get_role_permissions reg a \<noteq> None \<Longrightarrow> b \<in> set (role_parents reg a) \<Longrightarrow> (a, b) \<in> parent_edge reg"
  by (simp add: parent_edge_def)

lemma closed_Image_rtrancl: "E `` V \<subseteq> V \<Longrightarrow> E\<^sup>* `` V = V"
proof (intro equalityI subsetI)
  fix y assume cl: "E `` V \<subseteq> V" and "y \<in> E\<^sup>* `` V"
  then obtain x where "(x, y) \<in> E\<^sup>*" "x \<in> V" by blast
  then show "y \<in> V" by (induction rule: rtrancl_induct) (use cl in blast)+
qed blast

subsection \<open>The walk returns the permissions of every reachable ancestor\<close>

text \<open>
  The loop invariant: every link out of a visited role leads to a visited role or to one on
  the stack, and the permissions are those of the visited roles. When the stack is empty the
  visited roles are closed under the links.
\<close>

definition walk_inv :: "'p role_registry \<Rightarrow> string list \<Rightarrow> string set \<Rightarrow> 'p set \<Rightarrow> bool" where
  "walk_inv reg stack visited perms \<longleftrightarrow>
     parent_edge reg `` visited \<subseteq> visited \<union> set stack \<and>
     perms = (\<Union>a \<in> visited. direct_permissions reg a)"

lemma walk_inv_skip:
  "walk_inv reg (c # rest) V P \<Longrightarrow> c \<in> V \<Longrightarrow> walk_inv reg rest V P"
  by (auto simp: walk_inv_def)

lemma walk_inv_unknown:
  "walk_inv reg (c # rest) V P \<Longrightarrow> get_role_permissions reg c = None \<Longrightarrow>
     walk_inv reg rest (insert c V) P"
  by (auto simp: walk_inv_def parent_edge_def direct_permissions_def)

lemma walk_inv_known:
  "walk_inv reg (c # rest) V P \<Longrightarrow> get_role_permissions reg c = Some ps \<Longrightarrow>
     walk_inv reg (rev (filter (\<lambda>p. p \<notin> insert c V) (role_parents reg c)) @ rest) (insert c V) (P \<union> ps)"
  by (auto simp: walk_inv_def parent_edge_def direct_permissions_def)

lemma resolve_loop_Nil: "resolve_loop reg [] V P = Some P"
  by (simp add: resolve_loop.simps)

lemma resolve_loop_seen:
  "c \<in> V \<Longrightarrow> resolve_loop reg (c # rest) V P = resolve_loop reg rest V P"
  by (subst resolve_loop.simps) simp

lemma resolve_loop_unknown:
  "c \<notin> V \<Longrightarrow> get_role_permissions reg c = None \<Longrightarrow>
     resolve_loop reg (c # rest) V P = resolve_loop reg rest (insert c V) P"
  by (subst resolve_loop.simps) simp

lemma resolve_loop_known:
  "c \<notin> V \<Longrightarrow> get_role_permissions reg c = Some ps \<Longrightarrow>
     resolve_loop reg (c # rest) V P =
       resolve_loop reg (rev (filter (\<lambda>p. p \<notin> insert c V) (role_parents reg c)) @ rest)
         (insert c V) (P \<union> ps)"
  by (subst resolve_loop.simps) simp

lemmas resolve_loop_steps =
  resolve_loop_Nil resolve_loop_seen resolve_loop_unknown resolve_loop_known

text \<open>The walk from the roles \<open>S\<close> returned the permissions of everything reachable from \<open>S\<close>.\<close>

definition walk_result :: "'p role_registry \<Rightarrow> string set \<Rightarrow> 'p set option \<Rightarrow> bool" where
  "walk_result reg S res \<longleftrightarrow>
     (\<exists>W. res = Some (\<Union>a \<in> W. direct_permissions reg a) \<and> S \<subseteq> W \<and>
       parent_edge reg `` W \<subseteq> W \<and> W \<subseteq> (parent_edge reg)\<^sup>* `` S)"

lemma walk_result_shrink:
  assumes "walk_result reg S' res" "S \<subseteq> S'" "S' \<subseteq> (parent_edge reg)\<^sup>* `` S"
  shows "walk_result reg S res"
proof -
  have "(parent_edge reg)\<^sup>* `` S' \<subseteq> (parent_edge reg)\<^sup>* `` S"
  proof
    fix z assume "z \<in> (parent_edge reg)\<^sup>* `` S'"
    then obtain y where y: "y \<in> S'" "(y, z) \<in> (parent_edge reg)\<^sup>*" by (rule ImageE)
    from y(1) assms(3) obtain x where "x \<in> S" "(x, y) \<in> (parent_edge reg)\<^sup>*" by auto
    with y(2) show "z \<in> (parent_edge reg)\<^sup>* `` S" by (meson ImageI rtrancl_trans)
  qed
  moreover obtain W where "res = Some (\<Union>a \<in> W. direct_permissions reg a)" "S' \<subseteq> W"
    "parent_edge reg `` W \<subseteq> W" "W \<subseteq> (parent_edge reg)\<^sup>* `` S'"
    using assms(1) unfolding walk_result_def by blast
  ultimately show ?thesis
    unfolding walk_result_def using assms(2) by (intro exI [of _ W]) (simp, meson subset_trans)
qed

lemma walk_result_inherited:
  assumes "walk_result reg {r} res"
  shows "res = Some (inherited_permissions reg r)"
proof -
  obtain W where W: "res = Some (\<Union>a \<in> W. direct_permissions reg a)" "{r} \<subseteq> W"
    "parent_edge reg `` W \<subseteq> W" "W \<subseteq> (parent_edge reg)\<^sup>* `` {r}"
    using assms unfolding walk_result_def by blast
  have "(parent_edge reg)\<^sup>* `` {r} \<subseteq> (parent_edge reg)\<^sup>* `` W" using W(2) by blast
  with W(3,4) have "W = (parent_edge reg)\<^sup>* `` {r}" by (simp add: closed_Image_rtrancl)
  with W(1) show ?thesis by (simp add: inherited_permissions_def)
qed

context finite_registry
begin

lemma card_known_insert:
  assumes "get_role_permissions reg c \<noteq> None" "c \<notin> V"
  shows "card (known_roles reg - insert c V) < card (known_roles reg - V)"
proof (rule psubset_card_mono)
  show "finite (known_roles reg - V)" by simp
  show "known_roles reg - insert c V \<subset> known_roles reg - V"
    using assms by (auto simp: known_roles_def)
qed

lemma resolve_loop_result:
  "walk_inv reg stack V P \<Longrightarrow> walk_result reg (V \<union> set stack) (resolve_loop reg stack V P)"
proof (induction "(card (known_roles reg - V), length stack)" arbitrary: stack V P
    rule: wf_induct_rule [OF wf_lex_prod [OF wf_less_than wf_less_than]])
  case 1
  note IH = "1.hyps" and inv = "1.prems"
  show ?case
  proof (cases stack)
    case Nil
    with inv show ?thesis
      by (auto simp: walk_result_def resolve_loop_steps walk_inv_def)
  next
    case (Cons c rest)
    consider (seen) "c \<in> V" | (unknown) "c \<notin> V" "get_role_permissions reg c = None"
      | (known) ps where "c \<notin> V" "get_role_permissions reg c = Some ps" by blast
    then show ?thesis
    proof cases
      case seen
      have "walk_result reg (V \<union> set rest) (resolve_loop reg rest V P)"
        by (rule IH) (use Cons seen walk_inv_skip inv in auto)
      then show ?thesis using Cons seen by (simp add: resolve_loop_steps insert_absorb)
    next
      case unknown
      have "known_roles reg - insert c V = known_roles reg - V"
        using unknown by (auto simp: known_roles_def)
      then have "walk_result reg (insert c V \<union> set rest) (resolve_loop reg rest (insert c V) P)"
        by (intro IH) (use Cons unknown walk_inv_unknown inv in auto)
      then show ?thesis using Cons unknown by (simp add: resolve_loop_steps)
    next
      case known
      let ?st = "rev (filter (\<lambda>p. p \<notin> insert c V) (role_parents reg c)) @ rest"
      have "walk_result reg (insert c V \<union> set ?st) (resolve_loop reg ?st (insert c V) (P \<union> ps))"
        by (rule IH) (use Cons known card_known_insert walk_inv_known inv in auto)
      then have "walk_result reg (V \<union> set stack) (resolve_loop reg ?st (insert c V) (P \<union> ps))"
      proof (rule walk_result_shrink)
        have "x \<in> (parent_edge reg)\<^sup>* `` {c}" if "x \<in> set (role_parents reg c)" for x
          using that known parent_edgeI [of reg c x] by auto
        then show "insert c V \<union> set ?st \<subseteq> (parent_edge reg)\<^sup>* `` (V \<union> set stack)"
          using Cons by fastforce
      qed (use Cons in auto)
      then show ?thesis using Cons known by (simp add: resolve_loop_steps)
    qed
  qed
qed

lemma resolve_chain: "resolve_role_chain reg r = Some (inherited_permissions reg r)"
proof -
  have "walk_inv reg [r] {} {}" by (simp add: walk_inv_def)
  from resolve_loop_result [OF this] show ?thesis
    by (simp add: resolve_role_chain_def walk_result_inherited)
qed

end

subsection \<open>The probe finds exactly the cycles\<close>

text \<open>
  Soundness: while every role on the path reaches the current one, meeting a role of the path
  closes a cycle. Completeness: a visited role that is no longer on the path reaches no cycle.
\<close>

definition on_path :: "'p role_registry \<Rightarrow> string set \<Rightarrow> string \<Rightarrow> bool" where
  "on_path reg path name \<longleftrightarrow> (\<forall>x \<in> path. (x, name) \<in> (parent_edge reg)\<^sup>+)"

definition explored :: "'p role_registry \<Rightarrow> string set \<Rightarrow> string set \<Rightarrow> bool" where
  "explored reg visited path \<longleftrightarrow> path \<subseteq> visited \<and> (\<forall>x \<in> visited - path. acyclic_from reg x)"

lemma on_path_step:
  "on_path reg path name \<Longrightarrow> (name, p) \<in> parent_edge reg \<Longrightarrow> on_path reg (insert name path) p"
  by (auto simp: on_path_def intro: trancl_into_trancl)

lemma acyclic_from_step:
  "acyclic_from reg r \<Longrightarrow> (r, p) \<in> parent_edge reg \<Longrightarrow> acyclic_from reg p"
  by (auto simp: acyclic_from_def intro: converse_rtrancl_into_rtrancl)

lemma acyclic_fromI:
  assumes "\<And>p. (r, p) \<in> parent_edge reg \<Longrightarrow> acyclic_from reg p"
  shows "acyclic_from reg r"
  unfolding acyclic_from_def
proof (intro allI impI notI)
  fix x assume rx: "(r, x) \<in> (parent_edge reg)\<^sup>*" and xx: "(x, x) \<in> (parent_edge reg)\<^sup>+"
  have "\<exists>p. (r, p) \<in> parent_edge reg \<and> (p, x) \<in> (parent_edge reg)\<^sup>*"
  proof (cases "r = x")
    case True
    with xx show ?thesis by (metis tranclD)
  next
    case False
    with rx show ?thesis by (metis converse_rtranclE)
  qed
  with assms xx show False by (auto simp: acyclic_from_def)
qed

text \<open>A call that finds nothing leaves the path as it was.\<close>

lemma dfs_path_restored:
  "dfs n reg name visited path = Some (False, v, p) \<Longrightarrow> p = path"
  "dfs_parents n reg ps visited path = Some (False, v, p) \<Longrightarrow> p = path"
proof (induction n reg name visited path and n reg ps visited path
    arbitrary: v p and v p rule: dfs_dfs_parents.induct)
  case (2 n reg name visited path)
  have np: "name \<notin> path" using "2.prems" by (simp split: if_splits)
  show ?case
  proof (cases "name \<in> visited \<or> get_role_permissions reg name = None")
    case True
    with np "2.prems" show ?thesis by (auto split: if_splits)
  next
    case False
    then obtain p' where "dfs_parents n reg (role_parents reg name) (insert name visited)
        (insert name path) = Some (False, v, p')" and "p = p' - {name}"
      using "2.prems" np by (simp split: option.splits if_splits prod.splits)
    with "2.IH" [OF np _ _ this(1)] False np show ?thesis by simp
  qed
next
  case (4 n reg parent ps visited path)
  obtain v' p' where d: "dfs n reg parent visited path = Some (False, v', p')"
    and r: "dfs_parents n reg ps v' p' = Some (False, v, p)"
    using "4.prems" by (auto split: option.splits if_splits)
  from "4.IH"(1) [OF d] have "p' = path" .
  with "4.IH"(2) [OF d refl refl _ r] show ?case by simp
qed simp_all

lemma dfs_sound:
  "dfs n reg name visited path = Some (True, v, p) \<Longrightarrow> on_path reg path name \<Longrightarrow>
     \<not> acyclic_from reg name"
  "dfs_parents n reg ps visited path = Some (True, v, p) \<Longrightarrow>
     (\<forall>q \<in> set ps. on_path reg path q) \<Longrightarrow> \<exists>q \<in> set ps. \<not> acyclic_from reg q"
proof (induction n reg name visited path and n reg ps visited path
    arbitrary: v p and v p rule: dfs_dfs_parents.induct)
  case (2 n reg name visited path)
  show ?case
  proof (cases "name \<in> path")
    case True
    with "2.prems"(2) show ?thesis by (auto simp: on_path_def acyclic_from_def)
  next
    case False
    have known: "get_role_permissions reg name \<noteq> None" and nv: "name \<notin> visited"
      and call: "dfs_parents n reg (role_parents reg name) (insert name visited)
        (insert name path) = Some (True, v, p)"
      using "2.prems"(1) False by (auto split: if_splits option.splits prod.splits)
    have "\<forall>q \<in> set (role_parents reg name). on_path reg (insert name path) q"
      using "2.prems"(2) known on_path_step parent_edgeI by metis
    from "2.IH" [OF False nv known call this] obtain q where
      "q \<in> set (role_parents reg name)" "\<not> acyclic_from reg q" by blast
    with known show ?thesis using acyclic_from_step parent_edgeI by metis
  qed
next
  case (4 n reg parent ps visited path)
  obtain found v' p' where d: "dfs n reg parent visited path = Some (found, v', p')"
    using "4.prems"(1) by (auto split: option.splits)
  show ?case
  proof (cases found)
    case True
    with "4.IH"(1) d "4.prems" show ?thesis by auto
  next
    case False
    then have d': "dfs n reg parent visited path = Some (False, v', path)"
      using d dfs_path_restored(1) [of n reg parent visited path v' p'] by simp
    then have "dfs_parents n reg ps v' path = Some (True, v, p)" using "4.prems"(1) by simp
    with "4.IH"(2) [OF d' refl refl] "4.prems"(2) show ?thesis by auto
  qed
qed auto

lemma dfs_complete:
  "dfs n reg name visited path = Some (False, v, p) \<Longrightarrow> explored reg visited path \<Longrightarrow>
     explored reg v path \<and> acyclic_from reg name"
  "dfs_parents n reg ps visited path = Some (False, v, p) \<Longrightarrow> explored reg visited path \<Longrightarrow>
     explored reg v path \<and> (\<forall>q \<in> set ps. acyclic_from reg q)"
proof (induction n reg name visited path and n reg ps visited path
    arbitrary: v p and v p rule: dfs_dfs_parents.induct)
  case (2 n reg name visited path)
  have np: "name \<notin> path" using "2.prems"(1) by (auto split: if_splits)
  show ?case
  proof (cases "name \<in> visited")
    case True
    with np "2.prems" show ?thesis by (auto simp: explored_def)
  next
    case nv: False
    have ex: "explored reg (insert name visited) (insert name path)"
      using "2.prems"(2) by (auto simp: explored_def)
    have "explored reg v (insert name path) \<and> (\<forall>q. (name, q) \<in> parent_edge reg \<longrightarrow> acyclic_from reg q)"
    proof (cases "get_role_permissions reg name \<noteq> None")
      case True
      then obtain p' where "dfs_parents n reg (role_parents reg name) (insert name visited)
          (insert name path) = Some (False, v, p')"
        using "2.prems"(1) np nv by (auto split: if_splits option.splits)
      from "2.IH" [OF np nv True this ex] show ?thesis by (auto simp: parent_edge_def)
    next
      case False
      then show ?thesis using "2.prems"(1) np nv ex by (auto simp: parent_edge_def)
    qed
    moreover from this have "acyclic_from reg name" by (blast intro: acyclic_fromI)
    ultimately show ?thesis by (auto simp: explored_def)
  qed
next
  case (4 n reg parent ps visited path)
  obtain v' where d: "dfs n reg parent visited path = Some (False, v', path)"
    using "4.prems"(1) dfs_path_restored(1) by (fastforce split: option.splits if_splits)
  with "4.IH"(1) "4.prems"(2) have "explored reg v' path" "acyclic_from reg parent" by auto
  moreover have "dfs_parents n reg ps v' path = Some (False, v, p)" using d "4.prems"(1) by simp
  ultimately show ?case using "4.IH"(2) [OF d refl refl] by auto
qed auto

context finite_registry
begin

lemma dfs_enough_fuel:
  "n > card (known_roles reg - path) \<Longrightarrow> dfs n reg name visited path \<noteq> None"
  "n > card (known_roles reg - path) \<Longrightarrow> dfs_parents n reg ps visited path \<noteq> None"
proof (induction n arbitrary: name visited path ps)
  case 0
  {
    case 1
    then show ?case by simp
  next
    case 2
    then show ?case by simp
  }
next
  case (Suc n)
  have one: "dfs (Suc n) reg name visited path \<noteq> None"
    if "Suc n > card (known_roles reg - path)" for name visited path
  proof (cases "name \<in> path \<or> name \<in> visited \<or> get_role_permissions reg name = None")
    case True
    then show ?thesis by auto
  next
    case False
    with that card_known_insert [of name path] have "n > card (known_roles reg - insert name path)"
      by auto
    from Suc.IH(2) [OF this] False show ?thesis by (auto split: option.split)
  qed
  {
    case 1
    then show ?case by (rule one)
  next
    case 2
    then show ?case
    proof (induction ps arbitrary: visited path)
      case Nil
      then show ?case by simp
    next
      case (Cons a ps)
      obtain f v p where d: "dfs (Suc n) reg a visited path = Some (f, v, p)"
        using one [OF Cons.prems, of a visited] by auto
      show ?case
      proof (cases f)
        case True
        with d show ?thesis by simp
      next
        case False
        with d dfs_path_restored(1) [of "Suc n" reg a visited path v p] have "p = path" by simp
        with d False Cons show ?thesis by (simp del: dfs.simps)
      qed
    qed
  }
qed

lemma detect_cycle_iff: "detect_cycle reg r = Some (\<not> acyclic_from reg r)"
proof -
  let ?n = "Suc (length (list_role_names reg))"
  have "?n > card (known_roles reg - {})" using card_known_le by simp
  then obtain f v p where d: "dfs ?n reg r {} {} = Some (f, v, p)"
    using dfs_enough_fuel(1) [of "{}" ?n r "{}"] by (metis option.exhaust prod_cases3)
  have "f = (\<not> acyclic_from reg r)"
  proof (cases f)
    case True
    have "on_path reg {} r" by (simp add: on_path_def)
    with True d dfs_sound(1) [of ?n reg r "{}" "{}" v p] show ?thesis by simp
  next
    case False
    have "explored reg {} {}" by (simp add: explored_def)
    with False d dfs_complete(1) [of ?n reg r "{}" "{}" v p] show ?thesis by simp
  qed
  with d show ?thesis by (simp add: detect_cycle_def)
qed

end

subsection \<open>The walk and the probe over static registries\<close>

text \<open>
  C16: over a static registry, whatever was registered and with any parent links, also dangling
  or cyclic ones, \<open>resolve_role_chain\<close> returns, and its result is the union of the permissions
  of the role and of every role reachable over parent links.
\<close>

theorem resolve_role_chain_returns_inherited:
  "resolve_role_chain (static_registry reg) r = Some (inherited_permissions (static_registry reg) r)"
  by (rule static_reg.resolve_chain)

text \<open>
  \<open>detect_cycle\<close> returns, and reports a cycle exactly when one is reachable from the role.
\<close>

theorem detect_cycle_exact:
  "detect_cycle (static_registry reg) r = Some (\<not> acyclic_from (static_registry reg) r)"
  by (rule static_reg.detect_cycle_iff)

end
