(* ===== verification/Permission_Cache.thy ===== *)
theory Permission_Cache
  imports Rbac_Traits
begin

text \<open>
  The permission cache of \<^verbatim>\<open>src/rbac/cache.rs\<close>: the trait \<^verbatim>\<open>PermissionCache\<close> as a record of
  its methods and as a locale with the laws of its documentation, and \<^verbatim>\<open>TtlPermissionCache\<close>
  with its expiry on read, its replacement on write and its bounded eviction through a
  \<^verbatim>\<open>BinaryHeap\<close>. An operation runs at one instant: the clock readings inside one call are one
  argument. The heap of at most \<open>excess\<close> pairs that drops its maximum is a sorted list whose
  last element is dropped; \<open>evict_scan_eq\<close> shows that it ends up holding the \<open>excess\<close> smallest
  (expiry, key) pairs, whatever the iteration order of the map.
\<close>

subsection \<open>The trait\<close>

record ('c, 's, 'p) permission_cache_ops =
  cache_get :: "'c \<Rightarrow> instant \<Rightarrow> 's \<Rightarrow> 'p \<Rightarrow> bool option"
  cache_set :: "'c \<Rightarrow> instant \<Rightarrow> 's \<Rightarrow> 'p \<Rightarrow> bool \<Rightarrow> 'c"
  cache_invalidate_subject :: "'c \<Rightarrow> 's \<Rightarrow> 'c"
  cache_invalidate_all :: "'c \<Rightarrow> 'c"

text \<open>A cache is coherent with a decision when every answer it can give is that decision.\<close>

definition coherent ::
  "('c, 's, 'p) permission_cache_ops \<Rightarrow> ('s \<Rightarrow> 'p \<Rightarrow> bool) \<Rightarrow> 'c \<Rightarrow> bool" where
  "coherent ops D c \<longleftrightarrow> (\<forall>t s p b. cache_get ops c t s p = Some b \<longrightarrow> b = D s p)"

text \<open>The names are unique keys as far as the decision is concerned.\<close>

definition respects_keys ::
  "('s \<Rightarrow> string) \<Rightarrow> ('p \<Rightarrow> string) \<Rightarrow> ('s \<Rightarrow> 'p \<Rightarrow> bool) \<Rightarrow> bool" where
  "respects_keys skey pkey D \<longleftrightarrow>
     (\<forall>s s' p p'. skey s = skey s' \<longrightarrow> pkey p = pkey p' \<longrightarrow> D s p = D s' p')"

lemma coherentD: "coherent ops D c \<Longrightarrow> cache_get ops c t s p = Some b \<Longrightarrow> b = D s p"
  by (auto simp: coherent_def)

text \<open>
  The contract. A hit after a write is either that write's answer for the same key or a hit
  that was there before: a write never changes the answer for another key (it may evict it).
  Invalidation leaves no hit for the subject. \<open>skey\<close> and \<open>pkey\<close> are the keys the cache uses.
\<close>

locale permission_cache =
  fixes ops :: "('c, 's, 'p) permission_cache_ops"
    and inv :: "'c \<Rightarrow> bool"
    and skey :: "'s \<Rightarrow> string"
    and pkey :: "'p \<Rightarrow> string"
  assumes inv_set: "inv c \<Longrightarrow> inv (cache_set ops c t s p b)"
    and inv_invalidate_subject: "inv c \<Longrightarrow> inv (cache_invalidate_subject ops c s)"
    and inv_invalidate_all: "inv c \<Longrightarrow> inv (cache_invalidate_all ops c)"
    and get_set: "inv c \<Longrightarrow> cache_get ops (cache_set ops c t s p b) t' s' p' = Some b' \<Longrightarrow>
      skey s' = skey s \<and> pkey p' = pkey p \<and> b' = b \<or> cache_get ops c t' s' p' = Some b'"
    and get_invalidate_subject: "inv c \<Longrightarrow>
      cache_get ops (cache_invalidate_subject ops c s) t s' p =
        (if skey s' = skey s then None else cache_get ops c t s' p)"
    and get_invalidate_all: "inv c \<Longrightarrow> cache_get ops (cache_invalidate_all ops c) t s p = None"
begin

lemma coherent_set:
  assumes "inv c" "coherent ops D c" "respects_keys skey pkey D" "b = D s p"
  shows "coherent ops D (cache_set ops c t s p b)"
  unfolding coherent_def
proof (intro allI impI)
  fix t' s' p' b'
  assume "cache_get ops (cache_set ops c t s p b) t' s' p' = Some b'"
  from get_set [OF assms(1) this] show "b' = D s' p'"
  proof
    assume "skey s' = skey s \<and> pkey p' = pkey p \<and> b' = b"
    then show ?thesis using assms(3,4) unfolding respects_keys_def by metis
  next
    assume "cache_get ops c t' s' p' = Some b'"
    then show ?thesis by (rule coherentD [OF assms(2)])
  qed
qed

lemma coherent_invalidate_all: "inv c \<Longrightarrow> coherent ops D (cache_invalidate_all ops c)"
  by (simp add: coherent_def get_invalidate_all)

text \<open>
  The revocation primitive: when the decision changes for one subject only, dropping that
  subject's entries makes the cache coherent with the new decision.
\<close>

lemma coherent_invalidate_subject:
  assumes "inv c" "coherent ops D c" "\<And>s' p. skey s' \<noteq> skey s \<Longrightarrow> D' s' p = D s' p"
  shows "coherent ops D' (cache_invalidate_subject ops c s)"
  using assms by (auto simp: coherent_def get_invalidate_subject)

end

subsection \<open>The TTL cache\<close>

definition DEFAULT_MAX_CACHE_ENTRIES :: nat where
  "DEFAULT_MAX_CACHE_ENTRIES = 10000"

record cache_entry =
  ce_granted :: bool
  ce_expires_at :: instant

record ttl_permission_cache =
  ttl_cache :: "(string \<times> string, cache_entry) hash_map"
  max_entries :: nat
  ttl :: int

definition ttl_cache_new :: "int \<Rightarrow> ttl_permission_cache" where
  "ttl_cache_new d = \<lparr>ttl_cache = [], max_entries = DEFAULT_MAX_CACHE_ENTRIES, ttl = d\<rparr>"

definition with_max_entries :: "nat \<Rightarrow> ttl_permission_cache \<Rightarrow> ttl_permission_cache" where
  "with_max_entries n c = c\<lparr>max_entries := n\<rparr>"

definition ttl_get ::
  "('s \<Rightarrow> string) \<Rightarrow> ('p \<Rightarrow> string) \<Rightarrow> ttl_permission_cache \<Rightarrow> instant \<Rightarrow> 's \<Rightarrow> 'p \<Rightarrow> bool option" where
  "ttl_get sid nm c now s p =
     (case map_of (ttl_cache c) (sid s, nm p) of
        None \<Rightarrow> None
      | Some e \<Rightarrow> if now < ce_expires_at e then Some (ce_granted e) else None)"

type_synonym heap_item = "instant \<times> (string \<times> string)"

text \<open>The scan over the map with the bounded heap: push, and pop the maximum when too long.\<close>

fun evict_scan :: "nat \<Rightarrow> (string \<times> string, cache_entry) hash_map \<Rightarrow> heap_item list \<Rightarrow> heap_item list" where
  "evict_scan excess [] heap = heap"
| "evict_scan excess ((key, e) # rest) heap =
     (let heap' = insort (ce_expires_at e, key) heap
      in evict_scan excess rest (if length heap' > excess then butlast heap' else heap'))"

definition evict_excess :: "nat \<Rightarrow> (string \<times> string, cache_entry) hash_map \<Rightarrow>
    (string \<times> string, cache_entry) hash_map" where
  "evict_excess excess m = fold (\<lambda>(_, key). AList.delete key) (evict_scan excess m []) m"

definition ttl_set ::
  "('s \<Rightarrow> string) \<Rightarrow> ('p \<Rightarrow> string) \<Rightarrow> ttl_permission_cache \<Rightarrow> instant \<Rightarrow> 's \<Rightarrow> 'p \<Rightarrow> bool \<Rightarrow>
     ttl_permission_cache" where
  "ttl_set sid nm c now s p g =
     (let key = (sid s, nm p);
          m0 = ttl_cache c;
          m1 = (case map_of m0 key of
                  Some existing \<Rightarrow> if now \<ge> ce_expires_at existing then AList.delete key m0 else m0
                | None \<Rightarrow> m0);
          m2 = AList.update key \<lparr>ce_granted = g, ce_expires_at = now + ttl c\<rparr> m1;
          m3 = (if length m2 > max_entries c
                then let live = filter (\<lambda>(_, e). now < ce_expires_at e) m2
                     in if length live > max_entries c
                        then evict_excess (length live - max_entries c) live
                        else live
                else m2)
      in c\<lparr>ttl_cache := m3\<rparr>)"

definition ttl_invalidate_subject ::
  "('s \<Rightarrow> string) \<Rightarrow> ttl_permission_cache \<Rightarrow> 's \<Rightarrow> ttl_permission_cache" where
  "ttl_invalidate_subject sid c s =
     c\<lparr>ttl_cache := filter (\<lambda>((s', _), _). s' \<noteq> sid s) (ttl_cache c)\<rparr>"

definition ttl_invalidate_all :: "ttl_permission_cache \<Rightarrow> ttl_permission_cache" where
  "ttl_invalidate_all c = c\<lparr>ttl_cache := []\<rparr>"

definition ttl_ops ::
  "('s \<Rightarrow> string) \<Rightarrow> ('p \<Rightarrow> string) \<Rightarrow> (ttl_permission_cache, 's, 'p) permission_cache_ops" where
  "ttl_ops sid nm =
     \<lparr>cache_get = ttl_get sid nm,
      cache_set = ttl_set sid nm,
      cache_invalidate_subject = ttl_invalidate_subject sid,
      cache_invalidate_all = ttl_invalidate_all\<rparr>"

lemma ttl_ops_sel [simp]:
  "cache_get (ttl_ops sid nm) = ttl_get sid nm"
  "cache_set (ttl_ops sid nm) = ttl_set sid nm"
  "cache_invalidate_subject (ttl_ops sid nm) = ttl_invalidate_subject sid"
  "cache_invalidate_all (ttl_ops sid nm) = ttl_invalidate_all"
  by (simp_all add: ttl_ops_def)

definition ttl_wf :: "ttl_permission_cache \<Rightarrow> bool" where
  "ttl_wf c \<longleftrightarrow> hm_wf (ttl_cache c)"

subsection \<open>The eviction scan keeps the smallest pairs\<close>

definition heap_key :: "(string \<times> string) \<times> cache_entry \<Rightarrow> heap_item" where
  "heap_key kv = (ce_expires_at (snd kv), fst kv)"

lemma evict_scan_take:
  "sorted h \<Longrightarrow> evict_scan n m (take n h) = take n (fold insort (map heap_key m) h)"
proof (induction m arbitrary: h)
  case Nil
  then show ?case by simp
next
  case (Cons a m)
  obtain key e where a: "a = (key, e)" by (cases a)
  let ?x = "(ce_expires_at e, key)"
  let ?h = "insort ?x (take n h)"
  have "(if length ?h > n then butlast ?h else ?h) = take n ?h"
    by (auto simp: butlast_conv_take min_def not_le dest: le_neq_implies_less
        split: if_splits intro!: arg_cong2 [of _ _ _ _ take])
  also have "\<dots> = take n (insort ?x h)" by (rule take_insort_take)
  finally show ?case
    using Cons.IH [of "insort ?x h"] Cons.prems
    by (simp add: a Let_def heap_key_def sorted_insort)
qed

lemma fold_insort_sort: "sorted h \<Longrightarrow> fold insort xs h = sort (rev xs @ h)"
proof (induction xs arbitrary: h)
  case Nil
  then show ?case by (simp add: sorted_sort_id)
next
  case (Cons x xs)
  then have "fold insort (x # xs) h = sort (rev xs @ insort x h)" by (simp add: sorted_insort)
  also have "\<dots> = sort (rev (x # xs) @ h)"
    by (rule properties_for_sort) (simp_all add: Cons.prems)
  finally show ?case .
qed

lemma evict_scan_eq: "evict_scan n m [] = take n (sort (map heap_key m))"
proof -
  have "evict_scan n m [] = take n (sort (rev (map heap_key m)))"
    using evict_scan_take [of "[]" n m] by (simp add: fold_insort_sort)
  also have "sort (rev (map heap_key m)) = sort (map heap_key m)"
    by (rule properties_for_sort) simp_all
  finally show ?thesis .
qed

lemma fold_delete_filter:
  "fold (\<lambda>(_, key). AList.delete key) hs m = filter (\<lambda>kv. fst kv \<notin> snd ` set hs) m"
proof (induction hs arbitrary: m)
  case Nil
  then show ?case by simp
next
  case (Cons h hs)
  then show ?case by (cases h) (auto simp: AList.delete_eq filter_filter intro!: filter_cong)
qed

lemma evict_excess_filter:
  assumes "hm_wf m"
  shows "evict_excess n m = filter (\<lambda>kv. heap_key kv \<notin> set (take n (sort (map heap_key m)))) m"
  unfolding evict_excess_def fold_delete_filter evict_scan_eq
proof (rule filter_cong [OF refl])
  fix kv assume kv: "kv \<in> set m"
  have "set (take n (sort (map heap_key m))) \<subseteq> heap_key ` set m"
    using set_take_subset [of n "sort (map heap_key m)"] by simp
  moreover have "x \<in> set m \<Longrightarrow> fst x = fst kv \<Longrightarrow> x = kv" for x
    using assms kv by (metis eq_key_imp_eq_value hm_wf_def prod.collapse)
  ultimately show "(fst kv \<notin> snd ` set (take n (sort (map heap_key m)))) =
      (heap_key kv \<notin> set (take n (sort (map heap_key m))))"
    by (force simp: heap_key_def image_iff)
qed

lemma inj_heap_key: "hm_wf m \<Longrightarrow> inj_on heap_key (set m)"
  by (auto simp: inj_on_def heap_key_def hm_wf_def) (metis eq_key_imp_eq_value)

lemma length_evict_excess:
  assumes "hm_wf m" "n \<le> length m"
  shows "length (evict_excess n m) = length m - n"
proof -
  let ?s = "sort (map heap_key m)"
  have d: "distinct (map heap_key m)"
    using inj_heap_key [OF assms(1)] assms(1) by (auto simp: distinct_map hm_wf_def)
  then have ds: "distinct ?s" by simp
  have "length (evict_excess n m) =
      length (filter (\<lambda>x. x \<notin> set (take n ?s)) (map heap_key m))"
    by (simp add: evict_excess_filter [OF assms(1)] filter_map o_def)
  also have "\<dots> = card (set (map heap_key m) - set (take n ?s))"
    by (simp only: distinct_length_filter [OF d] Diff_eq Int_def Compl_eq mem_Collect_eq
        conj_commute)
  also have "\<dots> = card (set ?s) - card (set (take n ?s))"
    using set_take_subset [of n ?s] by (subst card_Diff_subset) auto
  also have "\<dots> = length m - n"
    using ds d assms(2) by (simp add: distinct_card distinct_take min_def del: set_sort)
  finally show ?thesis .
qed

subsection \<open>The TTL cache keeps the contract\<close>

lemma hm_wf_evict_excess: "hm_wf m \<Longrightarrow> hm_wf (evict_excess n m)"
  by (simp add: evict_excess_filter)

lemma map_of_evict_excess:
  "hm_wf m \<Longrightarrow> map_of (evict_excess n m) k = Some e \<Longrightarrow> map_of m k = Some e"
  by (auto simp: evict_excess_filter hm_map_of_filter split: option.splits if_splits)

text \<open>The map between the insertion and the pruning.\<close>

definition ttl_inserted ::
  "(string \<times> string, cache_entry) hash_map \<Rightarrow> string \<times> string \<Rightarrow> bool \<Rightarrow> instant \<Rightarrow> int \<Rightarrow>
     (string \<times> string, cache_entry) hash_map" where
  "ttl_inserted m key g now d =
     AList.update key \<lparr>ce_granted = g, ce_expires_at = now + d\<rparr>
       (case map_of m key of
          Some existing \<Rightarrow> if now \<ge> ce_expires_at existing then AList.delete key m else m
        | None \<Rightarrow> m)"

lemma ttl_set_eq:
  "ttl_set sid nm c now s p g =
     (let m2 = ttl_inserted (ttl_cache c) (sid s, nm p) g now (ttl c)
      in c\<lparr>ttl_cache :=
           if length m2 > max_entries c
           then let live = filter (\<lambda>(_, e). now < ce_expires_at e) m2
                in if length live > max_entries c
                   then evict_excess (length live - max_entries c) live else live
           else m2\<rparr>)"
  by (simp add: ttl_set_def ttl_inserted_def Let_def)

lemma hm_wf_ttl_inserted: "hm_wf m \<Longrightarrow> hm_wf (ttl_inserted m key g now d)"
  by (auto simp: ttl_inserted_def split: option.splits)

lemma map_of_ttl_inserted:
  "map_of (ttl_inserted m key g now d) k =
     (if k = key then Some \<lparr>ce_granted = g, ce_expires_at = now + d\<rparr> else map_of m k)"
  by (auto simp: ttl_inserted_def hm_simps split: option.splits)

lemma ttl_wf_set: "ttl_wf c \<Longrightarrow> ttl_wf (ttl_set sid nm c now s p g)"
  by (simp add: ttl_wf_def ttl_set_eq Let_def hm_wf_ttl_inserted hm_wf_evict_excess)

lemma map_of_ttl_set:
  assumes "ttl_wf c"
    and "map_of (ttl_cache (ttl_set sid nm c now s p g)) k = Some e"
  shows "map_of (ttl_inserted (ttl_cache c) (sid s, nm p) g now (ttl c)) k = Some e"
  using assms hm_wf_ttl_inserted [of "ttl_cache c"]
  by (auto simp: ttl_wf_def ttl_set_eq Let_def hm_map_of_filter
    split: if_splits option.splits dest!: map_of_evict_excess [rotated])

lemma ttl_get_set:
  assumes "ttl_wf c"
    and "ttl_get sid nm (ttl_set sid nm c t s p b) t' s' p' = Some b'"
  shows "sid s' = sid s \<and> nm p' = nm p \<and> b' = b \<or> ttl_get sid nm c t' s' p' = Some b'"
  using assms map_of_ttl_set [OF assms(1), of sid nm t s p b "(sid s', nm p')"]
  by (auto simp: ttl_get_def map_of_ttl_inserted split: option.splits if_splits)

lemma ttl_get_invalidate_subject:
  assumes "ttl_wf c"
  shows "ttl_get sid nm (ttl_invalidate_subject sid c s) t s' p =
    (if sid s' = sid s then None else ttl_get sid nm c t s' p)"
  using assms
  by (auto simp: ttl_get_def ttl_invalidate_subject_def ttl_wf_def hm_map_of_filter
    split: option.splits)

interpretation ttl: permission_cache "ttl_ops sid nm" ttl_wf sid nm
  for sid :: "'s \<Rightarrow> string" and nm :: "'p \<Rightarrow> string"
proof unfold_locales
  fix c :: ttl_permission_cache and t t' :: instant and s s' :: 's and p p' :: 'p and b b' :: bool
  assume wf: "ttl_wf c"
  show "ttl_wf (cache_set (ttl_ops sid nm) c t s p b)"
    using wf by (simp add: ttl_ops_def ttl_wf_set)
  show "ttl_wf (cache_invalidate_subject (ttl_ops sid nm) c s)"
    using wf by (simp add: ttl_ops_def ttl_invalidate_subject_def ttl_wf_def)
  show "ttl_wf (cache_invalidate_all (ttl_ops sid nm) c)"
    by (simp add: ttl_ops_def ttl_invalidate_all_def ttl_wf_def)
  show "cache_get (ttl_ops sid nm) (cache_invalidate_subject (ttl_ops sid nm) c s) t s' p =
      (if sid s' = sid s then None else cache_get (ttl_ops sid nm) c t s' p)"
    by (simp add: ttl_ops_def ttl_get_invalidate_subject [OF wf])
  show "cache_get (ttl_ops sid nm) (cache_invalidate_all (ttl_ops sid nm) c) t s p = None"
    by (simp add: ttl_ops_def ttl_invalidate_all_def ttl_get_def)
  assume "cache_get (ttl_ops sid nm) (cache_set (ttl_ops sid nm) c t s p b) t' s' p' = Some b'"
  then show "sid s' = sid s \<and> nm p' = nm p \<and> b' = b \<or>
      cache_get (ttl_ops sid nm) c t' s' p' = Some b'"
    using ttl_get_set [OF wf] by (simp add: ttl_ops_def)
qed

subsection \<open>The memory bound, the order of eviction, and the staleness window\<close>

lemma length_ttl_set_le:
  assumes "ttl_wf c"
  shows "length (ttl_cache (ttl_set sid nm c now s p g)) \<le> max_entries c"
proof -
  let ?m2 = "ttl_inserted (ttl_cache c) (sid s, nm p) g now (ttl c)"
  have "hm_wf (filter (\<lambda>(_, e). now < ce_expires_at e) ?m2)"
    using assms by (simp add: ttl_wf_def hm_wf_ttl_inserted)
  then show ?thesis
    by (auto simp: ttl_set_eq Let_def length_evict_excess)
qed

lemma evicted_expire_first:
  assumes "hm_wf m" "(k, e) \<in> set (evict_excess n m)" "(k', e') \<in> set m"
    "(k', e') \<notin> set (evict_excess n m)"
  shows "ce_expires_at e' \<le> ce_expires_at e"
proof -
  let ?s = "sort (map heap_key m)"
  have mem: "heap_key kv \<in> set ?s" if "kv \<in> set m" for kv
    using that by simp
  have "heap_key (k', e') \<in> set (take n ?s)"
    using assms(1,3,4) by (simp add: evict_excess_filter)
  moreover have "heap_key (k, e) \<in> set (drop n ?s)"
  proof -
    have "(k, e) \<in> set m" and "heap_key (k, e) \<notin> set (take n ?s)"
      using assms(1,2) by (auto simp: evict_excess_filter)
    moreover have "set ?s = set (take n ?s) \<union> set (drop n ?s)"
      by (metis append_take_drop_id set_append)
    ultimately show ?thesis using mem by blast
  qed
  ultimately have "heap_key (k', e') \<le> heap_key (k, e)"
    by (rule sorted_take_drop_le [rotated]) simp
  then show ?thesis by (auto simp: heap_key_def less_eq_prod_def)
qed

lemma ttl_get_expired:
  assumes "ttl_wf c" "t + ttl c \<le> t'"
  shows "ttl_get sid nm (ttl_set sid nm c t s p b) t' s p = None"
  using assms map_of_ttl_set [OF assms(1), of sid nm t s p b "(sid s, nm p)"]
  by (auto simp: ttl_get_def map_of_ttl_inserted split: option.splits)

text \<open>While there is room, an answer that is written is there until it expires.\<close>

lemma length_AList_update_le: "length (AList.update k v m) \<le> Suc (length m)"
  by (induction m) auto

lemma length_ttl_inserted_le: "length (ttl_inserted m key g now d) \<le> Suc (length m)"
  using length_AList_update_le [of key "\<lparr>ce_granted = g, ce_expires_at = now + d\<rparr>"]
    length_delete_le [of key m]
  by (auto simp: ttl_inserted_def simp del: AList.delete_eq split: option.split intro: le_trans)

lemma ttl_get_set_same:
  assumes "length (ttl_cache c) < max_entries c" and "t' < t + ttl c"
  shows "ttl_get sid nm (ttl_set sid nm c t s p b) t' s p = Some b"
proof -
  have "length (ttl_inserted (ttl_cache c) (sid s, nm p) b t (ttl c)) \<le> max_entries c"
    using length_ttl_inserted_le [of "ttl_cache c" "(sid s, nm p)" b t "ttl c"] assms(1) by simp
  then show ?thesis using assms(2)
    by (simp add: ttl_set_eq Let_def ttl_get_def map_of_ttl_inserted)
qed

subsection \<open>What the TTL cache guarantees\<close>

text \<open>
  A write leaves the cache within its bound of entries, whatever it held before.
\<close>

theorem cache_stays_bounded:
  assumes "ttl_wf c"
  shows "length (ttl_cache (ttl_set sid nm c now s p g)) \<le> max_entries c"
  by (rule length_ttl_set_le [OF assms])

theorem cache_stays_bounded_witness:
  "length (ttl_cache (ttl_set id id (with_max_entries 1
     \<lparr>ttl_cache = [((''a'', ''x''), \<lparr>ce_granted = True, ce_expires_at = 9\<rparr>)], max_entries = 5, ttl = 10\<rparr>)
     3 ''b'' ''y'' True)) \<le> 1"
  using cache_stays_bounded [of "with_max_entries 1
     \<lparr>ttl_cache = [((''a'', ''x''), \<lparr>ce_granted = True, ce_expires_at = 9\<rparr>)], max_entries = 5, ttl = 10\<rparr>"
     id id 3 "''b''" "''y''" True]
  by (simp add: with_max_entries_def ttl_wf_def hm_wf_def)

text \<open>
  Over the bound, the write drops expired entries first and then exactly as many live ones
  as needed, and no entry it drops expires later than one it keeps.
\<close>

theorem eviction_drops_soonest_to_expire:
  assumes "ttl_wf c"
    and "m = ttl_inserted (ttl_cache c) (sid s, nm p) g now (ttl c)"
    and "length m > max_entries c"
    and "live = filter (\<lambda>(_, e). now < ce_expires_at e) m"
    and "kept = ttl_cache (ttl_set sid nm c now s p g)"
  shows "set kept \<subseteq> set live \<and> length kept = min (length live) (max_entries c) \<and>
    (\<forall>(k, e) \<in> set kept. \<forall>(k', e') \<in> set live - set kept. ce_expires_at e' \<le> ce_expires_at e)"
proof -
  have wf: "hm_wf live" using assms(1,2,4) by (simp add: ttl_wf_def hm_wf_ttl_inserted)
  have kept: "kept = (if length live > max_entries c
      then evict_excess (length live - max_entries c) live else live)"
    using assms(3) unfolding assms(2,4,5) ttl_set_eq Let_def by simp
  have sub: "set (evict_excess n live) \<subseteq> set live" for n
    by (auto simp: evict_excess_filter [OF wf])
  show ?thesis
  proof (cases "length live > max_entries c")
    case True
    then have k: "kept = evict_excess (length live - max_entries c) live" using kept by simp
    show ?thesis unfolding k
      using sub evicted_expire_first [OF wf] length_evict_excess [OF wf] True by fastforce
  next
    case False
    with kept show ?thesis by auto
  qed
qed

definition full_cache :: ttl_permission_cache where
  "full_cache =
     \<lparr>ttl_cache = [((''a'', ''x''), \<lparr>ce_granted = True, ce_expires_at = 9\<rparr>)], max_entries = 1, ttl = 10\<rparr>"

theorem eviction_drops_soonest_to_expire_witness:
  "length (ttl_cache (ttl_set id id full_cache 3 ''b'' ''y'' True)) = 1"
proof -
  let ?m = "ttl_inserted (ttl_cache full_cache) (''b'', ''y'') True 3 10"
  have m: "?m = [((''a'', ''x''), \<lparr>ce_granted = True, ce_expires_at = 9\<rparr>),
      ((''b'', ''y''), \<lparr>ce_granted = True, ce_expires_at = 13\<rparr>)]"
    by (simp add: ttl_inserted_def full_cache_def)
  have "ttl_wf full_cache" by (simp add: full_cache_def ttl_wf_def hm_wf_def)
  from eviction_drops_soonest_to_expire [OF this refl _ refl refl, of id "''b''" id "''y''" True 3] m
  show ?thesis by (simp add: full_cache_def)
qed

end
