(* ===== verification/Rbac_Engine.thy ===== *)
theory Rbac_Engine
  imports Role_Hierarchy Permission_Cache
begin

text \<open>
  The decision engine of \<^verbatim>\<open>src/rbac/engine.rs\<close>. The engine's shared handles are the fields of
  \<open>rbac_engine\<close> (the permission registry, which no decision consults, is left out); the cache
  state is threaded through every call, the two stores are read as they are at the time of the
  call. A check runs at one instant: its cache lookup and its cache write read the same clock.

  \<open>authorized\<close> is the specification: denials first, then extra grants, then the permissions of
  the roles, and false when a read that is needed fails. The client lemmas are proved once for
  every cache with the contract \<open>permission_cache\<close> and used here for \<^verbatim>\<open>TtlPermissionCache\<close>.
\<close>

subsection \<open>The definitions\<close>

record ('s, 'p, 'c) rbac_engine =
  eng_role_registry :: "'p role_registry"
  eng_assignment_store :: "('s, 'p) assignment_reads"
  eng_cache :: "('c, 's, 'p) permission_cache_ops"

definition with_cache ::
  "('c, 's, 'p) permission_cache_ops \<Rightarrow> ('s, 'p, 'c) rbac_engine \<Rightarrow> ('s, 'p, 'c) rbac_engine" where
  "with_cache ops eng = eng\<lparr>eng_cache := ops\<rparr>"

definition invalidate_subject_cache :: "('s, 'p, 'c) rbac_engine \<Rightarrow> 's \<Rightarrow> 'c \<Rightarrow> 'c" where
  "invalidate_subject_cache eng s c = cache_invalidate_subject (eng_cache eng) c s"

definition invalidate_all_cache :: "('s, 'p, 'c) rbac_engine \<Rightarrow> 'c \<Rightarrow> 'c" where
  "invalidate_all_cache eng c = cache_invalidate_all (eng_cache eng) c"

definition check_cached_deny_extra ::
  "('s, 'p, 'c) rbac_engine \<Rightarrow> instant \<Rightarrow> 's \<Rightarrow> 'p \<Rightarrow> 'c \<Rightarrow> bool option result \<times> 'c" where
  "check_cached_deny_extra eng now s p c =
     (case cache_get (eng_cache eng) c now s p of
        Some granted \<Rightarrow> (Inr (Some granted), c)
      | None \<Rightarrow>
          (case denied_permissions (eng_assignment_store eng) s of
             Inl e \<Rightarrow> (Inl e, c)
           | Inr denied \<Rightarrow>
               if p \<in> denied then (Inr (Some False), cache_set (eng_cache eng) c now s p False)
               else
                 (case extra_permissions (eng_assignment_store eng) s of
                    Inl e \<Rightarrow> (Inl e, c)
                  | Inr extra \<Rightarrow>
                      if p \<in> extra then (Inr (Some True), cache_set (eng_cache eng) c now s p True)
                      else (Inr None, c))))"

text \<open>The loop over the role names of \<open>check\<close>, up to its early return.\<close>

fun some_role_grants :: "'p role_registry \<Rightarrow> 'p \<Rightarrow> string list \<Rightarrow> bool" where
  "some_role_grants reg p [] = False"
| "some_role_grants reg p (role_name # rest) =
     (case get_role_permissions reg role_name of
        Some perms \<Rightarrow> if p \<in> perms then True else some_role_grants reg p rest
      | None \<Rightarrow> some_role_grants reg p rest)"

definition check ::
  "('s, 'p, 'c) rbac_engine \<Rightarrow> instant \<Rightarrow> 's \<Rightarrow> 'p \<Rightarrow> 'c \<Rightarrow> bool \<times> 'c" where
  "check eng now s p c =
     (case check_cached_deny_extra eng now s p c of
        (Inr (Some res), c') \<Rightarrow> (res, c')
      | (Inl e, c') \<Rightarrow> (False, c')
      | (Inr None, c') \<Rightarrow>
          (case roles_of (eng_assignment_store eng) s of
             Inr role_names \<Rightarrow>
               if some_role_grants (eng_role_registry eng) p role_names
               then (True, cache_set (eng_cache eng) c' now s p True)
               else (False, cache_set (eng_cache eng) c' now s p False)
           | Inl e \<Rightarrow> (False, cache_set (eng_cache eng) c' now s p False)))"

fun check_all ::
  "('s, 'p, 'c) rbac_engine \<Rightarrow> instant \<Rightarrow> 's \<Rightarrow> 'p list \<Rightarrow> 'c \<Rightarrow> bool list \<times> 'c" where
  "check_all eng now s [] c = ([], c)"
| "check_all eng now s (p # ps) c =
     (let (b, c') = check eng now s p c; (bs, c'') = check_all eng now s ps c' in (b # bs, c''))"

text \<open>\<open>perms\<close> is the iteration order of the set; \<open>buffered\<close> keeps it in the outcomes.\<close>

definition check_batch ::
  "('s, 'p, 'c) rbac_engine \<Rightarrow> instant \<Rightarrow> 's \<Rightarrow> 'p list \<Rightarrow> 'c \<Rightarrow> ('p, bool) hash_map \<times> 'c" where
  "check_batch eng now s perms c =
     (let (outcomes, c') = check_all eng now s perms c in (zip perms outcomes, c'))"

fun collect_roles :: "'p role_registry \<Rightarrow> string list \<Rightarrow> 'p set \<Rightarrow> 'p set" where
  "collect_roles reg [] perms = perms"
| "collect_roles reg (role_name # rest) perms =
     (case get_role_permissions reg role_name of
        Some role_perms \<Rightarrow> collect_roles reg rest (perms \<union> role_perms)
      | None \<Rightarrow> collect_roles reg rest perms)"

definition effective_permissions :: "('s, 'p, 'c) rbac_engine \<Rightarrow> 's \<Rightarrow> 'p set result" where
  "effective_permissions eng s =
     and_then (roles_of (eng_assignment_store eng) s) (\<lambda>role_names.
       let perms = collect_roles (eng_role_registry eng) role_names {}
       in and_then (extra_permissions (eng_assignment_store eng) s) (\<lambda>extra.
            let perms' = perms \<union> extra
            in and_then (denied_permissions (eng_assignment_store eng) s) (\<lambda>denied.
                 Inr {p \<in> perms'. p \<notin> denied})))"

definition check_permission ::
  "permission_context \<Rightarrow> 'p \<Rightarrow> string option \<Rightarrow> 'p grant_resolver \<Rightarrow> permission_decision result" where
  "check_permission ctx p resource_id resolver =
     (if is_session_stale ctx then Inr (Denied StaleSession None)
      else resolve_grant resolver ctx p resource_id)"

fun grant_leaves :: "permission_context \<Rightarrow> 'p grant_resolver \<Rightarrow> 'p list \<Rightarrow> 'p list" where
  "grant_leaves ctx resolver [] = []"
| "grant_leaves ctx resolver (p # ps) =
     (case resolve_grant resolver ctx p None of
        Inr (Granted r src) \<Rightarrow> p # grant_leaves ctx resolver ps
      | Inr (Denied r src) \<Rightarrow> grant_leaves ctx resolver ps
      | Inl e \<Rightarrow> grant_leaves ctx resolver ps)"

definition resolve_effective_permissions ::
  "'p permission_ops \<Rightarrow> permission_context \<Rightarrow> 'p grant_resolver \<Rightarrow> 'p list result" where
  "resolve_effective_permissions perm ctx resolver =
     Inr (grant_leaves ctx resolver (perm_all perm))"

text \<open>The hierarchy-aware loop; it has no value when a walk of the hierarchy has none.\<close>

fun some_chain_grants :: "'p role_registry \<Rightarrow> 'p \<Rightarrow> string list \<Rightarrow> bool option" where
  "some_chain_grants reg p [] = Some False"
| "some_chain_grants reg p (role_name # rest) =
     (case resolve_role_chain reg role_name of
        None \<Rightarrow> None
      | Some inherited \<Rightarrow> if p \<in> inherited then Some True else some_chain_grants reg p rest)"

definition check_hierarchical ::
  "('s, 'p, 'c) rbac_engine \<Rightarrow> instant \<Rightarrow> 's \<Rightarrow> 'p \<Rightarrow> 'c \<Rightarrow> (bool \<times> 'c) option" where
  "check_hierarchical eng now s p c =
     (case check_cached_deny_extra eng now s p c of
        (Inr (Some res), c') \<Rightarrow> Some (res, c')
      | (Inl e, c') \<Rightarrow> Some (False, c')
      | (Inr None, c') \<Rightarrow>
          (case roles_of (eng_assignment_store eng) s of
             Inr role_names \<Rightarrow>
               (case some_chain_grants (eng_role_registry eng) p role_names of
                  None \<Rightarrow> None
                | Some True \<Rightarrow> Some (True, cache_set (eng_cache eng) c' now s p True)
                | Some False \<Rightarrow> Some (False, cache_set (eng_cache eng) c' now s p False))
           | Inl e \<Rightarrow> Some (False, cache_set (eng_cache eng) c' now s p False)))"

fun collect_chains :: "'p role_registry \<Rightarrow> string list \<Rightarrow> 'p set \<Rightarrow> 'p set option" where
  "collect_chains reg [] perms = Some perms"
| "collect_chains reg (role_name # rest) perms =
     (case resolve_role_chain reg role_name of
        None \<Rightarrow> None
      | Some inherited \<Rightarrow> collect_chains reg rest (perms \<union> inherited))"

definition effective_permissions_hierarchical ::
  "('s, 'p, 'c) rbac_engine \<Rightarrow> 's \<Rightarrow> 'p set result option" where
  "effective_permissions_hierarchical eng s =
     (case roles_of (eng_assignment_store eng) s of
        Inl e \<Rightarrow> Some (Inl e)
      | Inr role_names \<Rightarrow>
          (case collect_chains (eng_role_registry eng) role_names {} of
             None \<Rightarrow> None
           | Some perms \<Rightarrow>
               Some (and_then (extra_permissions (eng_assignment_store eng) s) (\<lambda>extra.
                 let perms' = perms \<union> extra
                 in and_then (denied_permissions (eng_assignment_store eng) s) (\<lambda>denied.
                      Inr {p \<in> perms'. p \<notin> denied})))))"

subsection \<open>The specification\<close>

definition authorized_by ::
  "(string \<Rightarrow> 'p set) \<Rightarrow> ('s, 'p) assignment_reads \<Rightarrow> 's \<Rightarrow> 'p \<Rightarrow> bool" where
  "authorized_by role_perms reads s p \<longleftrightarrow>
     (\<exists>ds es. denied_permissions reads s = Inr ds \<and> p \<notin> ds \<and>
       extra_permissions reads s = Inr es \<and>
       (p \<in> es \<or> (\<exists>rs. roles_of reads s = Inr rs \<and> (\<exists>r \<in> set rs. p \<in> role_perms r))))"

definition authorized :: "('s, 'p, 'c) rbac_engine \<Rightarrow> 's \<Rightarrow> 'p \<Rightarrow> bool" where
  "authorized eng = authorized_by (direct_permissions (eng_role_registry eng)) (eng_assignment_store eng)"

definition authorized_hierarchical :: "('s, 'p, 'c) rbac_engine \<Rightarrow> 's \<Rightarrow> 'p \<Rightarrow> bool" where
  "authorized_hierarchical eng =
     authorized_by (inherited_permissions (eng_role_registry eng)) (eng_assignment_store eng)"

definition reads_ok :: "('s, 'p) assignment_reads \<Rightarrow> 's \<Rightarrow> bool" where
  "reads_ok reads s \<longleftrightarrow> is_ok (roles_of reads s) \<and> is_ok (extra_permissions reads s) \<and>
     is_ok (denied_permissions reads s)"

subsection \<open>The loops over the roles\<close>

lemma some_role_grants_iff:
  "some_role_grants reg p rs \<longleftrightarrow> (\<exists>r \<in> set rs. p \<in> direct_permissions reg r)"
  by (induction rs) (auto simp: direct_permissions_def split: option.splits)

lemma collect_roles_eq:
  "collect_roles reg rs ps = ps \<union> (\<Union>r \<in> set rs. direct_permissions reg r)"
  by (induction rs arbitrary: ps) (auto simp: direct_permissions_def split: option.splits)

context finite_registry
begin

lemma some_chain_grants_eq:
  "some_chain_grants reg p rs = Some (\<exists>r \<in> set rs. p \<in> inherited_permissions reg r)"
  by (induction rs) (auto simp: resolve_chain)

lemma collect_chains_eq:
  "collect_chains reg rs ps = Some (ps \<union> (\<Union>r \<in> set rs. inherited_permissions reg r))"
  by (induction rs arbitrary: ps) (auto simp: resolve_chain)

end

lemma direct_subset_inherited: "direct_permissions reg r \<subseteq> inherited_permissions reg r"
  by (auto simp: inherited_permissions_def)

lemma authorized_by_mono:
  "(\<And>r. f r \<subseteq> g r) \<Longrightarrow> authorized_by f reads s p \<Longrightarrow> authorized_by g reads s p"
  unfolding authorized_by_def by blast

subsection \<open>Checks over a cache that keeps its contract\<close>

text \<open>What a check decides once the cache has missed.\<close>

lemma check_hit: "cache_get (eng_cache eng) c now s p = Some b \<Longrightarrow> check eng now s p c = (b, c)"
  by (simp add: check_def check_cached_deny_extra_def)

lemma check_miss:
  assumes "cache_get (eng_cache eng) c now s p = None"
  shows "fst (check eng now s p c) = authorized eng s p"
    and "snd (check eng now s p c) \<in> {c, cache_set (eng_cache eng) c now s p (authorized eng s p)}"
  using assms
  by (auto simp: check_def check_cached_deny_extra_def authorized_def authorized_by_def
      some_role_grants_iff split: option.splits sum.splits prod.splits if_splits)

lemma check_hierarchical_hit:
  "cache_get (eng_cache eng) c now s p = Some b \<Longrightarrow> check_hierarchical eng now s p c = Some (b, c)"
  by (simp add: check_hierarchical_def check_cached_deny_extra_def)

lemma check_hierarchical_miss:
  assumes "cache_get (eng_cache eng) c now s p = None" and "finite_registry (eng_role_registry eng)"
  shows "\<exists>c'. check_hierarchical eng now s p c = Some (authorized_hierarchical eng s p, c') \<and>
    c' \<in> {c, cache_set (eng_cache eng) c now s p (authorized_hierarchical eng s p)}"
  using assms
  by (auto simp: check_hierarchical_def check_cached_deny_extra_def authorized_hierarchical_def
      authorized_by_def finite_registry.some_chain_grants_eq
      split: option.splits sum.splits prod.splits if_splits bool.splits)

lemma check_all_Cons:
  "fst (check_all eng now s (p # ps) c) =
     fst (check eng now s p c) # fst (check_all eng now s ps (snd (check eng now s p c)))"
  "snd (check_all eng now s (p # ps) c) = snd (check_all eng now s ps (snd (check eng now s p c)))"
  by (simp_all add: Let_def split: prod.splits)

context permission_cache
begin

definition serves :: "('s \<Rightarrow> 'p \<Rightarrow> bool) \<Rightarrow> 'c \<Rightarrow> bool" where
  "serves D c \<longleftrightarrow> inv c \<and> coherent ops D c"

lemma serves_set:
  "serves D c \<Longrightarrow> respects_keys skey pkey D \<Longrightarrow> serves D (cache_set ops c t s p (D s p))"
  by (simp add: serves_def inv_set coherent_set)

lemma check_serves:
  assumes "eng_cache eng = ops" "serves (authorized eng) c"
    "respects_keys skey pkey (authorized eng)"
  shows "fst (check eng now s p c) = authorized eng s p"
    and "serves (authorized eng) (snd (check eng now s p c))"
proof -
  have "fst (check eng now s p c) = authorized eng s p \<and>
    serves (authorized eng) (snd (check eng now s p c))"
  proof (cases "cache_get ops c now s p")
    case None
    then have miss: "cache_get (eng_cache eng) c now s p = None" using assms(1) by simp
    from check_miss(2) [OF this] assms(1)
    consider "snd (check eng now s p c) = c"
      | "snd (check eng now s p c) = cache_set ops c now s p (authorized eng s p)" by blast
    then show ?thesis
      by cases (use check_miss(1) [OF miss] assms(2) serves_set [OF assms(2,3), of now s p] in auto)
  next
    case (Some b)
    then show ?thesis
      using assms by (auto simp: check_hit serves_def dest: coherentD)
  qed
  then show "fst (check eng now s p c) = authorized eng s p"
    and "serves (authorized eng) (snd (check eng now s p c))" by simp_all
qed

lemma check_all_serves:
  assumes "eng_cache eng = ops" "serves (authorized eng) c"
    "respects_keys skey pkey (authorized eng)"
  shows "fst (check_all eng now s ps c) = map (authorized eng s) ps \<and>
    serves (authorized eng) (snd (check_all eng now s ps c))"
  using assms(2)
proof (induction ps arbitrary: c)
  case (Cons p ps)
  note step = check_serves [OF assms(1) Cons.prems assms(3), of now s p]
  from Cons.IH [OF step(2)] step(1) show ?case by (simp add: check_all_Cons del: check_all.simps)
qed simp

lemma check_hierarchical_serves:
  assumes "eng_cache eng = ops" "serves (authorized_hierarchical eng) c"
    "respects_keys skey pkey (authorized_hierarchical eng)"
    "finite_registry (eng_role_registry eng)"
  shows "\<exists>c'. check_hierarchical eng now s p c = Some (authorized_hierarchical eng s p, c') \<and>
    serves (authorized_hierarchical eng) c'"
proof (cases "cache_get ops c now s p")
  case None
  with check_hierarchical_miss [of eng c now s p] assms serves_set [OF assms(2,3)]
  show ?thesis by auto
next
  case (Some b)
  then show ?thesis
    using assms by (auto simp: check_hierarchical_hit serves_def dest: coherentD)
qed

lemma invalidated_serves:
  assumes "serves D c" "\<And>s' p. skey s' \<noteq> skey s \<Longrightarrow> D' s' p = D s' p"
  shows "serves D' (cache_invalidate_subject ops c s)"
  using assms coherent_invalidate_subject [of c D s D']
  by (auto simp: serves_def inv_invalidate_subject)

end

subsection \<open>An engine over the in-memory store, the static registry and the TTL cache\<close>

text \<open>\<^verbatim>\<open>RbacEngine::new\<close>: the default cache holds a decision for 300 seconds.\<close>

definition rbac_engine_new ::
  "('s \<Rightarrow> string) \<Rightarrow> ('p \<Rightarrow> string) \<Rightarrow> 'p role_registry \<Rightarrow> ('s, 'p) assignment_reads \<Rightarrow>
     ('s, 'p, ttl_permission_cache) rbac_engine" where
  "rbac_engine_new sid nm reg reads =
     \<lparr>eng_role_registry = reg, eng_assignment_store = reads, eng_cache = ttl_ops sid nm\<rparr>"

definition rbac_engine_new_cache :: ttl_permission_cache where
  "rbac_engine_new_cache = ttl_cache_new (300 * 1000000000)"

abbreviation mem_engine ::
  "('s \<Rightarrow> string) \<Rightarrow> ('p \<Rightarrow> string) \<Rightarrow> 'p static_role_registry \<Rightarrow> 'p in_memory_assignment_store \<Rightarrow>
     ('s, 'p, ttl_permission_cache) rbac_engine" where
  "mem_engine sid nm reg st \<equiv> rbac_engine_new sid nm (static_registry reg) (mem_reads sid st)"

lemma rbac_engine_new_sel [simp]:
  "eng_role_registry (rbac_engine_new sid nm reg reads) = reg"
  "eng_assignment_store (rbac_engine_new sid nm reg reads) = reads"
  "eng_cache (rbac_engine_new sid nm reg reads) = ttl_ops sid nm"
  by (simp_all add: rbac_engine_new_def)

text \<open>
  A history that follows the engine's documentation: checks in any order at any time, and
  every write through the store handle followed by the invalidation of that subject.
\<close>

datatype 'p store_write = Assign string | Revoke string | SetExtra "'p set" | SetDenied "'p set"

fun apply_write ::
  "('s \<Rightarrow> string) \<Rightarrow> 's \<Rightarrow> 'p store_write \<Rightarrow> 'p in_memory_assignment_store \<Rightarrow> 'p in_memory_assignment_store" where
  "apply_write sid s (Assign r) st = assign_role sid s r st"
| "apply_write sid s (Revoke r) st = revoke_role sid s r st"
| "apply_write sid s (SetExtra ps) st = set_extra_permissions sid s ps st"
| "apply_write sid s (SetDenied ps) st = set_denied_permissions sid s ps st"

inductive disciplined ::
  "('s \<Rightarrow> string) \<Rightarrow> ('p \<Rightarrow> string) \<Rightarrow> 'p static_role_registry \<Rightarrow>
     'p in_memory_assignment_store \<Rightarrow> ttl_permission_cache \<Rightarrow> bool"
  for sid :: "'s \<Rightarrow> string" and nm :: "'p \<Rightarrow> string" and reg :: "'p static_role_registry" where
  init: "disciplined sid nm reg assignment_store_new rbac_engine_new_cache"
| checked: "disciplined sid nm reg st c \<Longrightarrow>
    disciplined sid nm reg st (snd (check (mem_engine sid nm reg st) now s p c))"
| written: "disciplined sid nm reg st c \<Longrightarrow>
    disciplined sid nm reg (apply_write sid s w st)
      (invalidate_subject_cache (mem_engine sid nm reg st) s c)"
| cleared: "disciplined sid nm reg st c \<Longrightarrow>
    disciplined sid nm reg st (invalidate_all_cache (mem_engine sid nm reg st) c)"

lemma coherent_empty: "ttl.serves sid nm D (ttl_cache_new d)"
  by (simp add: ttl.serves_def coherent_def ttl_get_def ttl_cache_new_def ttl_wf_def)

lemma mem_respects_keys:
  "inj nm \<Longrightarrow> respects_keys sid nm (authorized_by f (mem_reads sid st))"
  by (auto simp: respects_keys_def authorized_by_def mem_reads_def assignment_store_defs dest: injD)

text \<open>A write for one subject leaves the decisions for the others alone.\<close>

lemma authorized_apply_write:
  "sid s' \<noteq> sid s \<Longrightarrow>
     authorized_by f (mem_reads sid (apply_write sid s w st)) s' p = authorized_by f (mem_reads sid st) s' p"
  by (cases w) (auto simp: authorized_by_def mem_reads_def assignment_store_defs Let_def
      map_of_AList_update split: option.splits)

lemma disciplined_serves:
  assumes "inj nm" "disciplined sid nm reg st c"
  shows "ttl.serves sid nm (authorized (mem_engine sid nm reg st)) c"
  using assms(2)
proof (induction rule: disciplined.induct)
  case init
  show ?case unfolding rbac_engine_new_cache_def by (rule coherent_empty)
next
  case (checked st c now s p)
  have "respects_keys sid nm (authorized (mem_engine sid nm reg st))"
    by (simp add: authorized_def mem_respects_keys assms(1))
  with ttl.check_serves(2) [of "mem_engine sid nm reg st"] checked.IH show ?case by simp
next
  case (written st c s w)
  show ?case
    unfolding invalidate_subject_cache_def rbac_engine_new_sel
    by (rule ttl.invalidated_serves [OF written.IH]) (simp add: authorized_def authorized_apply_write)
next
  case (cleared st c)
  then show ?case
    using ttl.coherent_invalidate_all ttl.inv_invalidate_all
    by (auto simp: ttl.serves_def invalidate_all_cache_def)
qed

subsection \<open>What the engine guarantees\<close>

lemma disciplined_decides:
  assumes "inj nm" "disciplined sid nm reg st c"
  shows "fst (check (mem_engine sid nm reg st) now s p c) = authorized (mem_engine sid nm reg st) s p"
proof (rule ttl.check_serves(1))
  show "respects_keys sid nm (authorized (mem_engine sid nm reg st))"
    by (simp add: authorized_def mem_respects_keys assms(1))
qed (simp_all add: disciplined_serves [OF assms])

lemma authorized_mem_iff:
  "authorized (mem_engine sid nm reg st) s p \<longleftrightarrow>
     p \<notin> or_default (map_of (denied_perms st) (sid s)) {} \<and>
     (p \<in> or_default (map_of (extra_perms st) (sid s)) {} \<or>
      (\<exists>r \<in> set (or_default (map_of (role_assignments st) (sid s)) []).
         p \<in> direct_permissions (static_registry reg) r))"
  by (simp add: authorized_def authorized_by_def mem_reads_def assignment_store_defs)

lemma disciplined_invalidate_written:
  "disciplined sid nm reg st c \<Longrightarrow>
     disciplined sid nm reg (apply_write sid s w st) (ttl_invalidate_subject sid c s)"
  using disciplined.written [of sid nm reg st c s w] by (simp add: invalidate_subject_cache_def)

text \<open>
  C1: after any disciplined history, a check answers exactly from the current contents of the
  store: denials win over extra grants and roles, then an extra grant or a role's permission
  grants. In particular no cached answer from before a write survives it.
\<close>

theorem check_is_current:
  assumes "inj nm" and "disciplined sid nm reg st c"
  shows "fst (check (mem_engine sid nm reg st) now s p c) \<longleftrightarrow>
    p \<notin> or_default (map_of (denied_perms st) (sid s)) {} \<and>
    (p \<in> or_default (map_of (extra_perms st) (sid s)) {} \<or>
     (\<exists>r \<in> set (or_default (map_of (role_assignments st) (sid s)) []).
        p \<in> direct_permissions (static_registry reg) r))"
  by (simp only: disciplined_decides [OF assms] authorized_mem_iff)

text \<open>One role, assigned; the permission it carries is checked.\<close>

definition demo_registry :: "string static_role_registry" where
  "demo_registry = register (hierarchy_node_new ''ops'' {''read''}) srr_new"

definition demo_store :: "string in_memory_assignment_store" where
  "demo_store = apply_write id ''u'' (Assign ''ops'') assignment_store_new"

lemma demo_disciplined:
  "disciplined id id demo_registry demo_store (ttl_invalidate_subject id rbac_engine_new_cache ''u'')"
  unfolding demo_store_def by (rule disciplined_invalidate_written) (rule disciplined.init)

theorem check_is_current_witness:
  "fst (check (mem_engine id id demo_registry demo_store) 7 ''u'' ''read''
     (ttl_invalidate_subject id rbac_engine_new_cache ''u''))"
  using check_is_current [OF inj_on_id demo_disciplined, of 7 "''u''" "''read''"]
  by (simp add: demo_store_def assign_role_def assignment_store_new_def Let_def
      demo_registry_def direct_permissions_def static_registry_simps)

text \<open>
  What may follow a write of denials until the denials of that subject are written again: checks
  at any time, other writes with their invalidations, also of the same subject, and clearing the cache.
\<close>

inductive until_denials_rewritten ::
  "('s \<Rightarrow> string) \<Rightarrow> ('p \<Rightarrow> string) \<Rightarrow> 'p static_role_registry \<Rightarrow> 's \<Rightarrow>
     'p in_memory_assignment_store \<times> ttl_permission_cache \<Rightarrow>
     'p in_memory_assignment_store \<times> ttl_permission_cache \<Rightarrow> bool"
  for sid :: "'s \<Rightarrow> string" and nm :: "'p \<Rightarrow> string" and reg :: "'p static_role_registry" and s :: 's
    and start :: "'p in_memory_assignment_store \<times> ttl_permission_cache" where
  begin_at: "until_denials_rewritten sid nm reg s start start"
| then_checked: "until_denials_rewritten sid nm reg s start (st, c) \<Longrightarrow>
    until_denials_rewritten sid nm reg s start (st, snd (check (mem_engine sid nm reg st) now s' p c))"
| then_written: "until_denials_rewritten sid nm reg s start (st, c) \<Longrightarrow> sid s' \<noteq> sid s \<or> (\<forall>ps. w \<noteq> SetDenied ps) \<Longrightarrow>
    until_denials_rewritten sid nm reg s start
      (apply_write sid s' w st, invalidate_subject_cache (mem_engine sid nm reg st) s' c)"
| then_cleared: "until_denials_rewritten sid nm reg s start (st, c) \<Longrightarrow>
    until_denials_rewritten sid nm reg s start (st, invalidate_all_cache (mem_engine sid nm reg st) c)"





text \<open>
  Without the invalidation a decision outlives a write, but never by more than the time
  to live: once that has passed since the decision was cached, a check reads the stores again,
  whatever else the cache holds.
\<close>

theorem staleness_window:
  assumes "ttl_wf c" and "t + ttl c \<le> t'"
  shows "fst (check (rbac_engine_new sid nm reg reads) t' s p (ttl_set sid nm c t s p b)) =
    authorized (rbac_engine_new sid nm reg reads) s p"
  using ttl_get_expired [OF assms, of sid nm s p b] by (simp add: check_miss)

theorem staleness_window_witness:
  "\<not> fst (check (mem_engine id id demo_registry assignment_store_new) 300000000000 ''u'' ''read''
     (ttl_set id id rbac_engine_new_cache 0 ''u'' ''read'' True))"
  using staleness_window [of rbac_engine_new_cache 0 300000000000 id id "static_registry demo_registry"
      "mem_reads id assignment_store_new" "''u''" "''read''" True]
  by (simp add: rbac_engine_new_cache_def ttl_cache_new_def ttl_wf_def authorized_mem_iff
      assignment_store_new_def)

text \<open>
  A failed read of the denials or of the extra grants is answered with a denial, and the
  cache is left exactly as it was, so the failure is not remembered.
\<close>

theorem store_error_fails_closed:
  assumes "cache_get (eng_cache eng) c now s p = None"
    and "denied_permissions (eng_assignment_store eng) s = Inl e \<or>
      (\<exists>ds. denied_permissions (eng_assignment_store eng) s = Inr ds \<and> p \<notin> ds \<and>
         extra_permissions (eng_assignment_store eng) s = Inl e)"
  shows "check eng now s p c = (False, c) \<and> check_hierarchical eng now s p c = Some (False, c)"
  using assms
  by (auto simp: check_def check_hierarchical_def check_cached_deny_extra_def)

definition failing_reads :: "('s, 'p) assignment_reads" where
  "failing_reads =
     \<lparr>roles_of = (\<lambda>_. Inl (Store ''down'')), extra_permissions = (\<lambda>_. Inl (Store ''down'')),
      denied_permissions = (\<lambda>_. Inr {})\<rparr>"

theorem store_error_fails_closed_witness:
  "check (rbac_engine_new id id (static_registry demo_registry) failing_reads) 5 ''u'' ''read''
     rbac_engine_new_cache = (False, rbac_engine_new_cache) \<and>
   check_hierarchical (rbac_engine_new id id (static_registry demo_registry) failing_reads) 5 ''u'' ''read''
     rbac_engine_new_cache = Some (False, rbac_engine_new_cache)"
  by (rule store_error_fails_closed [where e = "Store ''down''"])
    (simp_all add: failing_reads_def ttl_get_def rbac_engine_new_cache_def ttl_cache_new_def)

text \<open>
  A failed read of the roles is different: the denial it is answered with is written to
  the cache, so that the subject stays denied after the store has recovered, until the entry
  expires, whatever the recovered store says.
\<close>

theorem roles_error_is_remembered:
  assumes "ttl_wf c" and "length (ttl_cache c) < max_entries c"
    and "ttl_get sid nm c t s p = None"
    and "denied_permissions reads s = Inr ds" and "p \<notin> ds"
    and "extra_permissions reads s = Inr es" and "p \<notin> es"
    and "roles_of reads s = Inl e"
    and "t' < t + ttl c"
  shows "\<not> fst (check (rbac_engine_new sid nm reg recovered) t' s p
    (snd (check (rbac_engine_new sid nm reg reads) t s p c)))"
proof -
  have "snd (check (rbac_engine_new sid nm reg reads) t s p c) = ttl_set sid nm c t s p False"
    using assms by (simp add: check_def check_cached_deny_extra_def)
  moreover have "ttl_get sid nm (ttl_set sid nm c t s p False) t' s p = Some False"
    by (rule ttl_get_set_same) (use assms in auto)
  ultimately show ?thesis
    using check_hit [where eng = "rbac_engine_new sid nm reg recovered" and b = False] by simp
qed

theorem roles_error_is_remembered_witness:
  "\<not> fst (check (mem_engine id id demo_registry demo_store) 10 ''u'' ''read''
     (snd (check (rbac_engine_new id id (static_registry demo_registry)
       (failing_reads\<lparr>extra_permissions := \<lambda>_. Inr {}\<rparr>)) 0 ''u'' ''read'' rbac_engine_new_cache)))"
  by (rule roles_error_is_remembered [where ds = "{}" and es = "{}" and e = "Store ''down''"])
    (simp_all add: failing_reads_def ttl_get_def rbac_engine_new_cache_def ttl_cache_new_def
      ttl_wf_def DEFAULT_MAX_CACHE_ENTRIES_def)

text \<open>
  \<open>effective_permissions\<close> succeeds exactly when the three reads do, and then lists exactly
  the permissions a check would grant; its hierarchical variant always returns, succeeds in
  the same cases, and lists what the hierarchical check would grant.
\<close>

theorem effective_permissions_are_the_checked_ones:
  "(\<forall>ps. effective_permissions eng s = Inr ps \<longleftrightarrow>
      reads_ok (eng_assignment_store eng) s \<and> ps = {p. authorized eng s p}) \<and>
   (\<forall>ps. effective_permissions_hierarchical (eng\<lparr>eng_role_registry := static_registry reg\<rparr>) s = Some (Inr ps) \<longleftrightarrow>
      reads_ok (eng_assignment_store eng) s \<and>
      ps = {p. authorized_hierarchical (eng\<lparr>eng_role_registry := static_registry reg\<rparr>) s p})"
  by (auto simp: effective_permissions_def effective_permissions_hierarchical_def reads_ok_def
      is_ok_iff and_then_eq_Inr collect_roles_eq static_reg.collect_chains_eq
      authorized_def authorized_hierarchical_def authorized_by_def Let_def split: sum.splits)

text \<open>
  C17: the hierarchical check over a static registry always returns, also when the parent links
  form a cycle, and over a cache holding hierarchical decisions it grants exactly what the
  subject's roles carry or inherit from any ancestor, denials first.
\<close>

theorem hierarchical_check_is_inherited:
  assumes "ttl_wf c"
    and "coherent (ttl_ops sid nm) (authorized_hierarchical (mem_engine sid nm reg st)) c"
    and "inj nm"
  shows "\<exists>c'. check_hierarchical (mem_engine sid nm reg st) now s p c =
    Some (p \<notin> or_default (map_of (denied_perms st) (sid s)) {} \<and>
      (p \<in> or_default (map_of (extra_perms st) (sid s)) {} \<or>
       (\<exists>r \<in> set (or_default (map_of (role_assignments st) (sid s)) []).
          \<exists>a. (r, a) \<in> (parent_edge (static_registry reg))\<^sup>* \<and>
            p \<in> direct_permissions (static_registry reg) a)), c')"
proof -
  have keys: "respects_keys sid nm (authorized_hierarchical (mem_engine sid nm reg st))"
    by (simp add: authorized_hierarchical_def mem_respects_keys assms(3))
  have "authorized_hierarchical (mem_engine sid nm reg st) s p \<longleftrightarrow>
      p \<notin> or_default (map_of (denied_perms st) (sid s)) {} \<and>
      (p \<in> or_default (map_of (extra_perms st) (sid s)) {} \<or>
       (\<exists>r \<in> set (or_default (map_of (role_assignments st) (sid s)) []).
          \<exists>a. (r, a) \<in> (parent_edge (static_registry reg))\<^sup>* \<and>
            p \<in> direct_permissions (static_registry reg) a))"
    by (auto simp: authorized_hierarchical_def authorized_by_def mem_reads_def
        assignment_store_defs inherited_permissions_def)
  with ttl.check_hierarchical_serves [OF _ _ keys, of c now s p] assms(1,2) show ?thesis
    by (auto simp: ttl.serves_def static_reg.finite_registry_axioms)
qed

text \<open>Two roles, each the parent of the other; the permission is inherited.\<close>

definition cyclic_registry :: "string static_role_registry" where
  "cyclic_registry =
     register_hierarchical (with_parents [''b''] (hierarchy_node_new ''a'' {}))
       (register_hierarchical (with_parents [''a''] (hierarchy_node_new ''b'' {''read''})) srr_new)"

definition cyclic_store :: "string in_memory_assignment_store" where
  "cyclic_store = apply_write id ''u'' (Assign ''a'') assignment_store_new"

theorem hierarchical_check_is_inherited_witness:
  "\<exists>c'. check_hierarchical (mem_engine id id cyclic_registry cyclic_store) 3 ''u'' ''read''
     rbac_engine_new_cache = Some (True, c')"
proof -
  have "(''a'', ''b'') \<in> (parent_edge (static_registry cyclic_registry))\<^sup>*"
    by (rule r_into_rtrancl) (simp add: parent_edge_def cyclic_registry_def static_registry_simps)
  moreover have "''read'' \<in> direct_permissions (static_registry cyclic_registry) ''b''"
    by (simp add: direct_permissions_def cyclic_registry_def static_registry_simps)
  moreover have "ttl_wf rbac_engine_new_cache \<and>
    coherent (ttl_ops id id) (authorized_hierarchical (mem_engine id id cyclic_registry cyclic_store))
      rbac_engine_new_cache"
    using coherent_empty unfolding ttl.serves_def rbac_engine_new_cache_def by blast
  ultimately show ?thesis
    using hierarchical_check_is_inherited [of rbac_engine_new_cache id id cyclic_registry cyclic_store
        3 "''u''" "''read''"]
    by (auto simp: cyclic_store_def assign_role_def assignment_store_new_def Let_def)
qed

text \<open>
  The flat check and the hierarchical check share one cache, so they do not mix: a flat
  check that denies a permission the role inherits makes the hierarchical check deny it too
  until the entry expires, although the hierarchical check alone would grant it.
\<close>

theorem flat_denial_shadows_hierarchy:
  assumes "length (ttl_cache c) < max_entries c" and "t' < t + ttl c"
    and "ttl_get sid nm c t s p = None"
    and "reads_ok reads s" and "\<not> authorized (rbac_engine_new sid nm reg reads) s p"
    and "p \<notin> projr (denied_permissions reads s)"
  shows "check_hierarchical (rbac_engine_new sid nm reg reads) t' s p
      (snd (check (rbac_engine_new sid nm reg reads) t s p c)) =
    Some (False, snd (check (rbac_engine_new sid nm reg reads) t s p c))"
proof -
  have "snd (check (rbac_engine_new sid nm reg reads) t s p c) = ttl_set sid nm c t s p False"
    using assms(3-6)
    by (auto simp: check_def check_cached_deny_extra_def reads_ok_def is_ok_iff authorized_def
        authorized_by_def some_role_grants_iff)
  moreover have "ttl_get sid nm (ttl_set sid nm c t s p False) t' s p = Some False"
    by (rule ttl_get_set_same) (use assms in auto)
  ultimately show ?thesis
    using check_hierarchical_hit [where eng = "rbac_engine_new sid nm reg reads" and b = False] by simp
qed

text \<open>
  At the witness the hierarchical check grants (\<open>hierarchical_check_is_inherited_witness\<close>) until
  a flat check has run.
\<close>

theorem flat_denial_shadows_hierarchy_witness:
  "fst (the (check_hierarchical (mem_engine id id cyclic_registry cyclic_store) 3 ''u'' ''read''
     (snd (check (mem_engine id id cyclic_registry cyclic_store) 1 ''u'' ''read'' rbac_engine_new_cache))))
   = False"
proof -
  let ?e = "mem_engine id id cyclic_registry cyclic_store"
  have "reads_ok (mem_reads id cyclic_store) ''u''"
    by (simp add: reads_ok_def mem_reads_def assignment_store_defs)
  moreover have "\<not> authorized ?e ''u'' ''read''"
    unfolding authorized_mem_iff
    by (simp add: cyclic_store_def assign_role_def assignment_store_new_def
        direct_permissions_def cyclic_registry_def static_registry_simps Let_def)
  moreover have "''read'' \<notin> projr (denied_permissions (mem_reads id cyclic_store) ''u'')"
    by (simp add: mem_reads_def assignment_store_defs cyclic_store_def assign_role_def
        assignment_store_new_def Let_def)
  ultimately show ?thesis
    using flat_denial_shadows_hierarchy [of rbac_engine_new_cache 3 1 id id "''u''" "''read''"
        "mem_reads id cyclic_store" "static_registry cyclic_registry"]
    by (simp add: rbac_engine_new_cache_def ttl_cache_new_def ttl_get_def DEFAULT_MAX_CACHE_ENTRIES_def)
qed

text \<open>
  A stale session is denied before the resolver is asked, whatever the resolver grants;
  a fresh one gets the resolver's answer.
\<close>

theorem check_permission_stale_first:
  "check_permission ctx p rid resolver =
     (if session_version ctx < current_user_version ctx then Inr (Denied StaleSession None)
      else resolve_grant resolver ctx p rid)"
  by (simp add: check_permission_def is_session_stale_def)

lemma grant_leaves_filter:
  "grant_leaves ctx resolver ps =
     filter (\<lambda>p. \<exists>r src. resolve_grant resolver ctx p None = Inr (Granted r src)) ps"
  by (induction ps) (auto split: sum.splits permission_decision.splits)

text \<open>Listing treats a resolver error as a denial and keeps the catalogue's order.\<close>

lemma resolve_effective_permissions_eq:
  "resolve_effective_permissions perm ctx resolver =
     Inr (filter (\<lambda>p. \<exists>r src. resolve_grant resolver ctx p None = Inr (Granted r src)) (perm_all perm))"
  by (simp add: resolve_effective_permissions_def grant_leaves_filter)

subsection \<open>A batch of checks in flight\<close>

text \<open>
  \<open>check_batch\<close> above runs its checks one after the other; the code keeps up to 64 in flight
  on the shared cache. A check that is in flight has missed the cache and has yet to decide
  and write; \<open>check_missed\<close> is the rest of \<open>check\<close> after such a miss. A step starts one check
  (a hit decides it at once) or finishes one, in any order and at any time; \<^verbatim>\<open>buffered\<close> also
  starts them in order, so every run of the code is a run of this relation.
\<close>

definition check_missed ::
  "('s, 'p, 'c) rbac_engine \<Rightarrow> instant \<Rightarrow> 's \<Rightarrow> 'p \<Rightarrow> 'c \<Rightarrow> bool \<times> 'c" where
  "check_missed eng now s p c =
     check (eng\<lparr>eng_cache := (eng_cache eng)\<lparr>cache_get := \<lambda>_ _ _ _. None\<rparr>\<rparr>) now s p c"

datatype task = Pending | InFlight | Decided bool

inductive batch_step ::
  "('s, 'p, 'c) rbac_engine \<Rightarrow> 's \<Rightarrow> 'p list \<Rightarrow> task list \<times> 'c \<Rightarrow> task list \<times> 'c \<Rightarrow> bool"
  for eng :: "('s, 'p, 'c) rbac_engine" and s :: 's and perms :: "'p list" where
  hit: "i < length ts \<Longrightarrow> ts ! i = Pending \<Longrightarrow> length (filter (\<lambda>t. t = InFlight) ts) < 64 \<Longrightarrow>
    cache_get (eng_cache eng) c now s (perms ! i) = Some b \<Longrightarrow>
    batch_step eng s perms (ts, c) (ts[i := Decided b], c)"
| miss: "i < length ts \<Longrightarrow> ts ! i = Pending \<Longrightarrow> length (filter (\<lambda>t. t = InFlight) ts) < 64 \<Longrightarrow>
    cache_get (eng_cache eng) c now s (perms ! i) = None \<Longrightarrow>
    batch_step eng s perms (ts, c) (ts[i := InFlight], c)"
| decide: "i < length ts \<Longrightarrow> ts ! i = InFlight \<Longrightarrow>
    check_missed eng now s (perms ! i) c = (b, c') \<Longrightarrow>
    batch_step eng s perms (ts, c) (ts[i := Decided b], c')"

inductive_cases batch_stepE: "batch_step eng s perms (ts, c) st'"

abbreviation batch_start :: "'p list \<Rightarrow> task list" where
  "batch_start perms \<equiv> replicate (length perms) Pending"

definition decided_right :: "('s, 'p, 'c) rbac_engine \<Rightarrow> 's \<Rightarrow> 'p list \<Rightarrow> task list \<Rightarrow> bool" where
  "decided_right eng s perms ts \<longleftrightarrow> length ts = length perms \<and>
     (\<forall>i b. i < length ts \<longrightarrow> ts ! i = Decided b \<longrightarrow> b = authorized eng s (perms ! i))"

fun task_left :: "task \<Rightarrow> nat" where
  "task_left Pending = 2"
| "task_left InFlight = 1"
| "task_left (Decided b) = 0"

definition tasks_left :: "task list \<Rightarrow> nat" where
  "tasks_left ts = sum_list (map task_left ts)"

lemma tasks_left_update:
  "i < length ts \<Longrightarrow> task_left t < task_left (ts ! i) \<Longrightarrow> tasks_left (ts[i := t]) < tasks_left ts"
proof (induction ts arbitrary: i)
  case (Cons a ts)
  then show ?case by (cases i) (auto simp: tasks_left_def)
qed simp

text \<open>Every step makes progress, so a batch ends after at most two steps per permission.\<close>

lemma batch_step_progress:
  "batch_step eng s perms st st' \<Longrightarrow> tasks_left (fst st') < tasks_left (fst st)"
  by (induction rule: batch_step.induct) (auto intro: tasks_left_update)

lemma decided_right_update:
  "decided_right eng s perms ts \<Longrightarrow> t = InFlight \<or> t = Decided (authorized eng s (perms ! i)) \<Longrightarrow>
     decided_right eng s perms (ts[i := t])"
  by (cases "i < length ts") (auto simp: decided_right_def nth_list_update split: if_splits)

lemma check_missed_eq:
  "fst (check_missed eng now s p c) = authorized eng s p"
  "snd (check_missed eng now s p c) \<in> {c, cache_set (eng_cache eng) c now s p (authorized eng s p)}"
proof -
  let ?e = "eng\<lparr>eng_cache := (eng_cache eng)\<lparr>cache_get := \<lambda>_ _ _ _. None\<rparr>\<rparr>"
  have "authorized ?e = authorized eng" by (simp add: authorized_def fun_eq_iff)
  then show "fst (check_missed eng now s p c) = authorized eng s p"
    and "snd (check_missed eng now s p c) \<in> {c, cache_set (eng_cache eng) c now s p (authorized eng s p)}"
    using check_miss [of ?e c now s p] by (simp_all add: check_missed_def)
qed

context permission_cache
begin

lemma batch_step_serves:
  assumes "batch_step eng s perms st st'" "eng_cache eng = ops"
    "respects_keys skey pkey (authorized eng)"
    "serves (authorized eng) (snd st)" "decided_right eng s perms (fst st)"
  shows "serves (authorized eng) (snd st') \<and> decided_right eng s perms (fst st')"
  using assms(1)
proof cases
  case (hit i ts c now b)
  then have "b = authorized eng s (perms ! i)"
    using assms(2,4) by (auto simp: serves_def dest: coherentD)
  then show ?thesis using hit assms(4,5) by (simp add: decided_right_update)
next
  case (miss i ts c now)
  then show ?thesis using assms(4,5) by (simp add: decided_right_update)
next
  case (decide i ts now c b c')
  have b: "b = authorized eng s (perms ! i)"
    using check_missed_eq(1) [of eng now s "perms ! i" c] decide by simp
  have "c' = c \<or> c' = cache_set ops c now s (perms ! i) (authorized eng s (perms ! i))"
    using check_missed_eq(2) [of eng now s "perms ! i" c] decide assms(2) by simp
  then have "serves (authorized eng) c'"
    using serves_set [OF _ assms(3)] assms(4) decide by auto
  then show ?thesis using decide b assms(5) by (simp add: decided_right_update)
qed

lemma batch_reaches:
  assumes "(batch_step eng s perms)\<^sup>*\<^sup>* (batch_start perms, c) (ts, c')" "eng_cache eng = ops"
    "respects_keys skey pkey (authorized eng)" "serves (authorized eng) c"
  shows "serves (authorized eng) c' \<and> decided_right eng s perms ts"
  using assms(1)
proof (induction "(ts, c')" arbitrary: ts c' rule: rtranclp_induct)
  case base
  show ?case using assms(4) by (simp add: decided_right_def)
next
  case (step y)
  then show ?case
    using batch_step_serves [OF step(2) assms(2,3)] by (cases y) auto
qed

end

lemma batch_can_step:
  assumes "t \<in> set ts" "task_left t > 0"
  shows "\<exists>st'. batch_step eng s perms (ts, c) st'"
proof (cases "InFlight \<in> set ts")
  case True
  then obtain i where "i < length ts" "ts ! i = InFlight" by (auto simp: in_set_conv_nth)
  then show ?thesis by (metis batch_step.decide surj_pair)
next
  case False
  then have none: "filter (\<lambda>t. t = InFlight) ts = []" by (auto simp: filter_empty_conv)
  from assms False have "t = Pending" by - (cases t; auto)
  with assms have "Pending \<in> set ts" by simp
  then obtain i where i: "i < length ts" "ts ! i = Pending" by (auto simp: in_set_conv_nth)
  show ?thesis
  proof (cases "cache_get (eng_cache eng) c 0 s (perms ! i)")
    case None
    then show ?thesis using batch_step.miss [OF i, of eng c 0 s perms] none by auto
  next
    case (Some b)
    then show ?thesis using batch_step.hit [OF i, of eng c 0 s perms b] none by auto
  qed
qed

lemma map_of_map_pairs: "map_of (map (\<lambda>p. (p, f p)) ps) = (\<lambda>p. if p \<in> set ps then Some (f p) else None)"
  by (induction ps) auto

lemma tasks_left_pos: "tasks_left ts > 0 \<Longrightarrow> \<exists>t \<in> set ts. task_left t > 0"
  by (induction ts) (auto simp: tasks_left_def)

lemma batch_run_length:
  "(batch_step eng s perms ^^ n) (ts, c) (ts', c') \<Longrightarrow> n + tasks_left ts' \<le> tasks_left ts"
proof (induction n arbitrary: ts' c')
  case (Suc n)
  then obtain ts1 c1 where run: "(batch_step eng s perms ^^ n) (ts, c) (ts1, c1)"
    and step: "batch_step eng s perms (ts1, c1) (ts', c')" by (auto elim!: relcomppE)
  from Suc.IH [OF run] batch_step_progress [OF step] show ?case by simp
qed simp

lemma tasks_left_start: "tasks_left (batch_start perms) = 2 * length perms"
  by (simp add: tasks_left_def sum_list_replicate)

lemma all_decided:
  assumes "decided_right eng s perms ts" "tasks_left ts = 0"
  shows "ts = map (\<lambda>p. Decided (authorized eng s p)) perms"
proof (rule nth_equalityI)
  fix i assume i: "i < length ts"
  with assms(2) have "task_left (ts ! i) = 0" by (auto simp: tasks_left_def)
  then obtain b where "ts ! i = Decided b" by (cases "ts ! i") auto
  with assms(1) i show "ts ! i = map (\<lambda>p. Decided (authorized eng s p)) perms ! i" by (simp add: decided_right_def)
qed (use assms(1) in \<open>simp add: decided_right_def\<close>)

text \<open>
  C20: a batch of checks gives the same answers in every interleaving of the checks in flight:
  whenever one is decided, its answer is the current decision for that permission; no run of the batch
  has more than two steps for each check, and a run that cannot go on has decided every
  permission, with the current decisions.
\<close>

theorem batch_any_interleaving:
  assumes "inj nm" and "disciplined sid nm reg st c"
    and "(batch_step (mem_engine sid nm reg st) s perms ^^ n) (batch_start perms, c) (ts, c')"
  shows "decided_right (mem_engine sid nm reg st) s perms ts \<and> n \<le> 2 * length perms \<and>
    ((\<exists>next. batch_step (mem_engine sid nm reg st) s perms (ts, c') next) \<or>
     ts = map (\<lambda>p. Decided (authorized (mem_engine sid nm reg st) s p)) perms)"
proof (intro conjI)
  have keys: "respects_keys sid nm (authorized (mem_engine sid nm reg st))"
    by (simp add: authorized_def mem_respects_keys assms(1))
  show right: "decided_right (mem_engine sid nm reg st) s perms ts"
    using ttl.batch_reaches [OF relpowp_imp_rtranclp [OF assms(3)] _ keys] disciplined_serves [OF assms(1,2)] by simp
  show "n \<le> 2 * length perms"
    using batch_run_length [OF assms(3)] by (simp add: tasks_left_start)
  show "(\<exists>next. batch_step (mem_engine sid nm reg st) s perms (ts, c') next) \<or>
     ts = map (\<lambda>p. Decided (authorized (mem_engine sid nm reg st) s p)) perms"
  proof (cases "tasks_left ts = 0")
    case True
    then show ?thesis using all_decided [OF right] by simp
  next
    case False
    then obtain t where "t \<in> set ts" "task_left t > 0" using tasks_left_pos [of ts] by auto
    then have "\<exists>next. batch_step (mem_engine sid nm reg st) s perms (ts, c') next" by (rule batch_can_step)
    then show ?thesis by (rule disjI1)
  qed
qed

lemma batch_two_steps:
  assumes "cache_get (eng_cache eng) c now s p = None"
  shows "(batch_step eng s [p] ^^ 2) ([Pending], c)
    ([Decided (fst (check_missed eng now s p c))], snd (check_missed eng now s p c))"
proof -
  have "batch_step eng s [p] ([Pending], c) ([Pending][0 := InFlight], c)"
    by (rule batch_step.miss [where now = now]) (simp_all add: assms)
  moreover have "batch_step eng s [p] ([InFlight], c)
      ([InFlight][0 := Decided (fst (check_missed eng now s p c))], snd (check_missed eng now s p c))"
    by (rule batch_step.decide [where now = now]) simp_all
  ultimately show ?thesis by (auto simp: numeral_2_eq_2)
qed

theorem batch_any_interleaving_witness:
  "decided_right (mem_engine id id demo_registry demo_store) ''u'' [''read'']
     [Decided (fst (check_missed (mem_engine id id demo_registry demo_store) 5 ''u'' ''read''
        (ttl_invalidate_subject id rbac_engine_new_cache ''u'')))]"
proof -
  let ?c = "ttl_invalidate_subject id rbac_engine_new_cache ''u''"
  let ?e = "mem_engine id id demo_registry demo_store"
  have "cache_get (eng_cache ?e) ?c 5 ''u'' ''read'' = None"
    by (simp add: ttl_get_def ttl_invalidate_subject_def rbac_engine_new_cache_def ttl_cache_new_def)
  from batch_two_steps [OF this]
  have run: "(batch_step ?e ''u'' [''read''] ^^ 2) (batch_start [''read''], ?c)
      ([Decided (fst (check_missed ?e 5 ''u'' ''read'' ?c))], snd (check_missed ?e 5 ''u'' ''read'' ?c))"
    by simp
  from batch_any_interleaving [OF inj_on_id demo_disciplined run] show ?thesis by (rule conjunct1)
qed

text \<open>
  A sequential batch answers each requested permission, and no other, with the current
  decision.
\<close>

theorem check_batch_exact:
  assumes "inj nm" and "disciplined sid nm reg st c"
  shows "map_of (fst (check_batch (mem_engine sid nm reg st) now s perms c)) =
    (\<lambda>p. if p \<in> set perms then Some (authorized (mem_engine sid nm reg st) s p) else None)"
proof -
  have keys: "respects_keys sid nm (authorized (mem_engine sid nm reg st))"
    by (simp add: authorized_def mem_respects_keys assms(1))
  have "fst (check_batch (mem_engine sid nm reg st) now s perms c) =
      map (\<lambda>p. (p, authorized (mem_engine sid nm reg st) s p)) perms"
    using ttl.check_all_serves [OF _ disciplined_serves [OF assms] keys, of now s perms]
    by (simp add: check_batch_def split_beta zip_map2 zip_same_conv_map)
  then show ?thesis by (simp only: map_of_map_pairs)
qed

theorem check_batch_exact_witness:
  "map_of (fst (check_batch (mem_engine id id demo_registry demo_store) 5 ''u'' [''read'', ''write'']
     (ttl_invalidate_subject id rbac_engine_new_cache ''u''))) ''admin'' = None"
  using check_batch_exact [OF inj_on_id demo_disciplined, of 5 "''u''" "[''read'', ''write'']"]
  by simp

end
