(* ===== verification/Scoped_Grants.thy ===== *)
theory Scoped_Grants
  imports Rbac_Stores
begin

text \<open>
  Scoped grants, \<^verbatim>\<open>src/rbac/scope.rs\<close>: the scope of a grant and where it applies, the
  in-memory grant store, and \<^verbatim>\<open>ScopedGrantResolver::resolve\<close>. The store a resolver reads is the
  record \<open>scoped_grant_store\<close> of its three queries, each of which may fail. A permission is
  compared through the methods of its trait, the record \<open>permission_ops\<close>.

  The specification names the decision by the grants that apply: a grant is usable when its
  scope applies and its permission matches, and the label is that of the most specific one.
\<close>

subsection \<open>Scopes and grants\<close>

fun specificity :: "grant_scope \<Rightarrow> nat" where
  "specificity Global = 0"
| "specificity (Group g) = 1"
| "specificity (Workspace w) = 2"

fun applies_to :: "permission_context \<Rightarrow> grant_scope \<Rightarrow> bool" where
  "applies_to ctx Global \<longleftrightarrow> True"
| "applies_to ctx (Group g) \<longleftrightarrow> g \<in> set (group_ids ctx)"
| "applies_to ctx (Workspace w) \<longleftrightarrow> workspace_id ctx = Some w"

record 'p scoped_grant =
  sg_permission :: 'p
  sg_scope :: grant_scope

definition scoped_grant_new :: "'p \<Rightarrow> grant_scope \<Rightarrow> 'p scoped_grant" where
  "scoped_grant_new p sc = \<lparr>sg_permission = p, sg_scope = sc\<rparr>"

definition grant_matches :: "'p permission_ops \<Rightarrow> 'p \<Rightarrow> 'p \<Rightarrow> bool" where
  "grant_matches ops grant requested \<longleftrightarrow>
     perm_name ops grant = perm_name ops requested \<or>
     is_branch ops grant \<and> perm_name ops grant \<in> set (ancestry_names ops requested)"

record 'p scoped_grant_store =
  user_grants :: "uuid \<Rightarrow> 'p scoped_grant list result"
  group_grants :: "uuid \<Rightarrow> 'p scoped_grant list result"
  denied_set :: "uuid \<Rightarrow> 'p set result"

subsection \<open>The in-memory store\<close>

record 'p memory_scoped_grant_store =
  msg_user :: "(uuid, 'p scoped_grant list) hash_map"
  msg_group :: "(uuid, 'p scoped_grant list) hash_map"
  msg_denies :: "(uuid, 'p set) hash_map"

definition msg_new :: "'p memory_scoped_grant_store" where
  "msg_new = \<lparr>msg_user = [], msg_group = [], msg_denies = []\<rparr>"

definition grant_user ::
  "uuid \<Rightarrow> 'p scoped_grant \<Rightarrow> 'p memory_scoped_grant_store \<Rightarrow> 'p memory_scoped_grant_store" where
  "grant_user u g st =
     st\<lparr>msg_user := AList.update u (or_default (map_of (msg_user st) u) [] @ [g]) (msg_user st)\<rparr>"

definition grant_group ::
  "uuid \<Rightarrow> 'p scoped_grant \<Rightarrow> 'p memory_scoped_grant_store \<Rightarrow> 'p memory_scoped_grant_store" where
  "grant_group gid g st =
     st\<lparr>msg_group := AList.update gid (or_default (map_of (msg_group st) gid) [] @ [g]) (msg_group st)\<rparr>"

definition deny :: "uuid \<Rightarrow> 'p \<Rightarrow> 'p memory_scoped_grant_store \<Rightarrow> 'p memory_scoped_grant_store" where
  "deny u p st =
     st\<lparr>msg_denies := AList.update u (insert p (or_default (map_of (msg_denies st) u) {})) (msg_denies st)\<rparr>"

definition memory_scoped_store :: "'p memory_scoped_grant_store \<Rightarrow> 'p scoped_grant_store" where
  "memory_scoped_store st =
     \<lparr>user_grants = (\<lambda>u. Inr (or_default (map_of (msg_user st) u) [])),
      group_grants = (\<lambda>g. Inr (or_default (map_of (msg_group st) g) [])),
      denied_set = (\<lambda>u. Inr (or_default (map_of (msg_denies st) u) {}))\<rparr>"

subsection \<open>The resolver\<close>

datatype attachment = AttachedUser | AttachedGroup

fun label_source :: "attachment \<Rightarrow> grant_scope \<Rightarrow> grant_source" where
  "label_source a (Workspace w) = WorkspaceGrant"
| "label_source AttachedUser sc = UserGrant"
| "label_source AttachedGroup sc = GroupGrant"

record 'p scoped_grant_resolver =
  sgr_store :: "'p scoped_grant_store"
  sgr_roles :: "'p role_registry"

text \<open>The loop over the groups of the context: it extends the candidates group by group.\<close>

fun collect_group_grants ::
  "'p scoped_grant_store \<Rightarrow> uuid list \<Rightarrow> (attachment \<times> 'p scoped_grant) list \<Rightarrow>
     (attachment \<times> 'p scoped_grant) list result" where
  "collect_group_grants store [] candidates = Inr candidates"
| "collect_group_grants store (g # gs) candidates =
     and_then (group_grants store g) (\<lambda>grants.
       collect_group_grants store gs (candidates @ map (Pair AttachedGroup) grants))"

text \<open>The loop over the candidates that keeps the first of the most specific ones.\<close>

fun best_candidate ::
  "'p permission_ops \<Rightarrow> permission_context \<Rightarrow> 'p \<Rightarrow> (attachment \<times> 'p scoped_grant) list \<Rightarrow>
     (attachment \<times> 'p scoped_grant) option \<Rightarrow> (attachment \<times> 'p scoped_grant) option" where
  "best_candidate ops ctx p [] best = best"
| "best_candidate ops ctx p ((a, g) # rest) best =
     (if applies_to ctx (sg_scope g) \<and> grant_matches ops (sg_permission g) p
      then
        if (case best of None \<Rightarrow> True
            | Some (_, b) \<Rightarrow> specificity (sg_scope g) > specificity (sg_scope b))
        then best_candidate ops ctx p rest (Some (a, g))
        else best_candidate ops ctx p rest best
      else best_candidate ops ctx p rest best)"

definition scoped_resolve ::
  "'p permission_ops \<Rightarrow> 'p scoped_grant_resolver \<Rightarrow> permission_context \<Rightarrow> 'p \<Rightarrow> string option \<Rightarrow>
     permission_decision result" where
  "scoped_resolve ops res ctx p resource_id =
     (if is_session_stale ctx then Inr (Denied StaleSession None)
      else if system_role ctx = Admin then Inr (Granted SystemAdministrator AdminBypass)
      else and_then (denied_set (sgr_store res) (user_id ctx)) (\<lambda>denied.
        if \<exists>d\<in>denied. grant_matches ops d p then Inr (Denied ExplicitDenySet None)
        else if (case get_role_permissions (sgr_roles res) (system_role_as_str (system_role ctx)) of
                   Some perms \<Rightarrow> \<exists>q\<in>perms. grant_matches ops q p
                 | None \<Rightarrow> False)
        then Inr (Granted (RoleDefaultFor (system_role ctx)) RoleDefault)
        else and_then (user_grants (sgr_store res) (user_id ctx)) (\<lambda>grants.
          and_then (collect_group_grants (sgr_store res) (group_ids ctx)
              (map (Pair AttachedUser) grants)) (\<lambda>candidates.
            case best_candidate ops ctx p candidates None of
              Some (a, g) \<Rightarrow> Inr (Granted (ScopedGrantAt (sg_scope g)) (label_source a (sg_scope g)))
            | None \<Rightarrow> Inr (Denied NoMatchingGrant None)))))"

text \<open>The resolver as the engine holds it.\<close>

definition scoped_resolver ::
  "'p permission_ops \<Rightarrow> 'p scoped_grant_resolver \<Rightarrow> 'p grant_resolver" where
  "scoped_resolver ops res = \<lparr>resolve_grant = scoped_resolve ops res\<rparr>"

subsection \<open>The loops\<close>

definition usable :: "'p permission_ops \<Rightarrow> permission_context \<Rightarrow> 'p \<Rightarrow> attachment \<times> 'p scoped_grant \<Rightarrow> bool" where
  "usable ops ctx p cand \<longleftrightarrow>
     applies_to ctx (sg_scope (snd cand)) \<and> grant_matches ops (sg_permission (snd cand)) p"

abbreviation rank :: "attachment \<times> 'p scoped_grant \<Rightarrow> nat" where
  "rank cand \<equiv> specificity (sg_scope (snd cand))"

text \<open>What the loop keeps: the first candidate, of the usable ones, of the highest rank.\<close>

fun first_max :: "('a \<Rightarrow> nat) \<Rightarrow> 'a list \<Rightarrow> 'a option" where
  "first_max f [] = None"
| "first_max f (x # xs) =
     (case first_max f xs of None \<Rightarrow> Some x | Some y \<Rightarrow> if f y > f x then Some y else Some x)"

lemma first_max_None: "first_max f xs = None \<longleftrightarrow> xs = []"
  by (cases xs) (auto split: option.splits)

lemma first_max_Some:
  "first_max f xs = Some y \<Longrightarrow> y \<in> set xs \<and> (\<forall>x \<in> set xs. f x \<le> f y)"
proof (induction xs arbitrary: y)
  case (Cons x xs)
  show ?case
  proof (cases "first_max f xs")
    case None
    with Cons.prems show ?thesis by (simp add: first_max_None)
  next
    case (Some z)
    with Cons.prems Cons.IH [OF Some] show ?thesis by (force split: if_splits)
  qed
qed simp

lemma best_candidate_first_max:
  "best_candidate ops ctx p cs best =
     (case first_max rank (filter (usable ops ctx p) cs) of
        None \<Rightarrow> best
      | Some c \<Rightarrow> (case best of None \<Rightarrow> Some c | Some b \<Rightarrow> if rank c > rank b then Some c else best))"
proof (induction cs arbitrary: best)
  case (Cons c cs)
  obtain a g where c: "c = (a, g)" by (cases c)
  show ?case
    by (cases best) (auto simp: c Cons.IH usable_def split: option.splits)
qed simp

text \<open>Among equals the earlier candidate is kept.\<close>

lemma first_max_append:
  "first_max f (xs @ ys) =
     (case first_max f xs of None \<Rightarrow> first_max f ys
      | Some x \<Rightarrow> (case first_max f ys of None \<Rightarrow> Some x | Some y \<Rightarrow> if f y > f x then Some y else Some x))"
  by (induction xs) (auto split: option.splits)

lemma collect_group_grants_eq:
  "collect_group_grants store gs cs = Inr cs' \<longleftrightarrow>
     (\<forall>g \<in> set gs. is_ok (group_grants store g)) \<and>
     cs' = cs @ concat (map (\<lambda>g. map (Pair AttachedGroup) (projr (group_grants store g))) gs)"
  by (induction gs arbitrary: cs) (auto simp: and_then_eq_Inr is_ok_iff)

text \<open>The candidates, when every query succeeds.\<close>

definition candidates_of ::
  "'p scoped_grant_store \<Rightarrow> permission_context \<Rightarrow> (attachment \<times> 'p scoped_grant) list" where
  "candidates_of store ctx =
     map (Pair AttachedUser) (projr (user_grants store (user_id ctx))) @
     concat (map (\<lambda>g. map (Pair AttachedGroup) (projr (group_grants store g))) (group_ids ctx))"

definition store_answers :: "'p scoped_grant_store \<Rightarrow> permission_context \<Rightarrow> bool" where
  "store_answers store ctx \<longleftrightarrow> is_ok (denied_set store (user_id ctx)) \<and>
     is_ok (user_grants store (user_id ctx)) \<and>
     (\<forall>g \<in> set (group_ids ctx). is_ok (group_grants store g))"

definition role_default :: "'p permission_ops \<Rightarrow> 'p scoped_grant_resolver \<Rightarrow> permission_context \<Rightarrow> 'p \<Rightarrow> bool" where
  "role_default ops res ctx p \<longleftrightarrow>
     (\<exists>q \<in> or_default (get_role_permissions (sgr_roles res) (system_role_as_str (system_role ctx))) {}.
        grant_matches ops q p)"

definition explicitly_denied ::
  "'p permission_ops \<Rightarrow> 'p scoped_grant_resolver \<Rightarrow> permission_context \<Rightarrow> 'p \<Rightarrow> bool" where
  "explicitly_denied ops res ctx p \<longleftrightarrow>
     (\<exists>ds. denied_set (sgr_store res) (user_id ctx) = Inr ds \<and> (\<exists>d \<in> ds. grant_matches ops d p))"

lemma scoped_resolve_answers:
  assumes "store_answers (sgr_store res) ctx" "\<not> is_session_stale ctx" "system_role ctx \<noteq> Admin"
  shows "scoped_resolve ops res ctx p rid = Inr
    (if explicitly_denied ops res ctx p then Denied ExplicitDenySet None
     else if role_default ops res ctx p then Granted (RoleDefaultFor (system_role ctx)) RoleDefault
     else case first_max rank (filter (usable ops ctx p) (candidates_of (sgr_store res) ctx)) of
            None \<Rightarrow> Denied NoMatchingGrant None
          | Some (a, g) \<Rightarrow> Granted (ScopedGrantAt (sg_scope g)) (label_source a (sg_scope g)))"
proof -
  obtain ds us where ds: "denied_set (sgr_store res) (user_id ctx) = Inr ds"
    and us: "user_grants (sgr_store res) (user_id ctx) = Inr us"
    using assms(1) by (auto simp: store_answers_def is_ok_iff)
  have "collect_group_grants (sgr_store res) (group_ids ctx) (map (Pair AttachedUser) us) =
      Inr (candidates_of (sgr_store res) ctx)"
    using assms(1) us by (simp add: collect_group_grants_eq candidates_of_def store_answers_def)
  then show ?thesis
    using assms(2,3) ds us
    by (auto simp: scoped_resolve_def explicitly_denied_def role_default_def
        best_candidate_first_max or_default_def split: option.splits prod.splits)
qed

subsection \<open>What the resolver guarantees\<close>

lemma scoped_resolve_stale:
  "is_session_stale ctx \<Longrightarrow> scoped_resolve ops res ctx p rid = Inr (Denied StaleSession None)"
  by (simp add: scoped_resolve_def)

lemma scoped_resolve_admin:
  "\<not> is_session_stale ctx \<Longrightarrow> system_role ctx = Admin \<Longrightarrow>
     scoped_resolve ops res ctx p rid = Inr (Granted SystemAdministrator AdminBypass)"
  by (simp add: scoped_resolve_def)

lemma is_granted_case:
  "is_granted (case x of None \<Rightarrow> Denied r None | Some (a, g) \<Rightarrow> Granted (f a g) (h a g)) \<longleftrightarrow> x \<noteq> None"
  by (cases x) auto

lemma scoped_resolve_rule_core:
  assumes "store_answers (sgr_store res) ctx"
  shows "\<exists>d. scoped_resolve ops res ctx p rid = Inr d \<and>
    (is_granted d \<longleftrightarrow> \<not> is_session_stale ctx \<and>
       (system_role ctx = Admin \<or>
        \<not> explicitly_denied ops res ctx p \<and>
        (role_default ops res ctx p \<or>
         (\<exists>c \<in> set (candidates_of (sgr_store res) ctx). usable ops ctx p c))))"
proof -
  consider (stale) "is_session_stale ctx" | (admin) "\<not> is_session_stale ctx" "system_role ctx = Admin"
    | (other) "\<not> is_session_stale ctx" "system_role ctx \<noteq> Admin" by blast
  then show ?thesis
  proof cases
    case other
    then show ?thesis
      by (simp add: scoped_resolve_answers [OF assms] is_granted_case first_max_None
          filter_empty_conv del: not_None_eq)
  qed (simp_all add: scoped_resolve_stale scoped_resolve_admin)
qed

text \<open>
  C9: with a store that answers, the resolver decides exactly by this rule: a stale session
  denies; an administrator is granted; a matching entry of the deny set denies; otherwise a
  matching role default or any matching grant whose scope applies grants.
\<close>

theorem scoped_resolve_rule:
  assumes "store_answers (sgr_store res) ctx"
  shows "\<exists>d. scoped_resolve ops res ctx p rid = Inr d \<and>
    (is_granted d \<longleftrightarrow> \<not> is_session_stale ctx \<and>
       (system_role ctx = Admin \<or>
        \<not> explicitly_denied ops res ctx p \<and>
        (role_default ops res ctx p \<or>
         (\<exists>c \<in> set (candidates_of (sgr_store res) ctx). usable ops ctx p c))))"
  by (rule scoped_resolve_rule_core [OF assms])

text \<open>
  Whatever the store answers or fails to answer, a grant other than the administrator's
  comes with a deny set that was read and does not match: a failed query never grants.
\<close>

theorem scoped_grant_not_denied:
  assumes "scoped_resolve ops res ctx p rid = Inr (Granted r src)" and "src \<noteq> AdminBypass"
  shows "\<exists>ds. denied_set (sgr_store res) (user_id ctx) = Inr ds \<and>
    (\<forall>d \<in> ds. \<not> grant_matches ops d p) \<and>
    (src = RoleDefault \<or> store_answers (sgr_store res) ctx)"
proof -
  have ns: "\<not> is_session_stale ctx" and na: "system_role ctx \<noteq> Admin"
    using assms by (auto simp: scoped_resolve_def split: if_splits)
  obtain ds where ds: "denied_set (sgr_store res) (user_id ctx) = Inr ds"
    using assms ns na by (auto simp: scoped_resolve_def and_then_eq_Inr)
  have nd: "\<not> (\<exists>d \<in> ds. grant_matches ops d p)"
    using assms(1) ns na ds by (simp add: scoped_resolve_def split: if_splits)
  show ?thesis
  proof (cases "src = RoleDefault")
    case True
    with ds nd show ?thesis by blast
  next
    case False
    then have "store_answers (sgr_store res) ctx"
      using assms(1) ns na ds nd
      by (auto simp: scoped_resolve_def and_then_eq_Inr collect_group_grants_eq store_answers_def
          is_ok_iff split: option.splits if_splits)
    with ds nd show ?thesis by blast
  qed
qed

text \<open>
  A decision granted by a scoped grant is labelled with a usable grant of the highest
  specificity among all usable ones: workspace over group over global.
\<close>

theorem scoped_grant_most_specific:
  assumes "scoped_resolve ops res ctx p rid = Inr (Granted (ScopedGrantAt sc) src)"
  shows "\<exists>a g. (a, g) \<in> set (candidates_of (sgr_store res) ctx) \<and> usable ops ctx p (a, g) \<and>
    sg_scope g = sc \<and> src = label_source a sc \<and>
    (\<forall>c \<in> set (candidates_of (sgr_store res) ctx). usable ops ctx p c \<longrightarrow> rank c \<le> specificity sc)"
proof -
  have ns: "\<not> is_session_stale ctx" and na: "system_role ctx \<noteq> Admin"
    using assms by (auto simp: scoped_resolve_def split: if_splits)
  have "src \<noteq> AdminBypass" "src \<noteq> RoleDefault"
    using assms ns na by (auto simp: scoped_resolve_def and_then_eq_Inr
        split: if_splits option.splits elim!: label_source.elims)
  with scoped_grant_not_denied [OF assms] have ans: "store_answers (sgr_store res) ctx" by blast
  from assms obtain a g where
    fm: "first_max rank (filter (usable ops ctx p) (candidates_of (sgr_store res) ctx)) = Some (a, g)"
    and "sg_scope g = sc" "src = label_source a (sg_scope g)"
    by (auto simp: scoped_resolve_answers [OF ans ns na] split: if_splits option.splits)
  with first_max_Some [OF fm] show ?thesis by (intro exI [of _ a] exI [of _ g]) auto
qed

lemma candidates_of_mono:
  assumes "\<And>u. set (projr (user_grants store u)) \<subseteq> set (projr (user_grants store' u))"
    and "\<And>g. set (projr (group_grants store g)) \<subseteq> set (projr (group_grants store' g))"
  shows "set (candidates_of store ctx) \<subseteq> set (candidates_of store' ctx)"
  unfolding candidates_of_def set_append set_map set_concat image_image
  by (intro Un_mono image_mono UN_mono order_refl assms)

text \<open>
  Grants only unite: in the in-memory store, adding a grant to any user or group never
  turns a granted decision into a denied one, in any context.
\<close>

theorem scoped_grants_unite:
  assumes "scoped_resolve ops \<lparr>sgr_store = memory_scoped_store st, sgr_roles = reg\<rparr> ctx p rid = Inr d"
    and "is_granted d" and "st' = grant_user u g st \<or> st' = grant_group gid g st"
  shows "\<exists>d'. scoped_resolve ops \<lparr>sgr_store = memory_scoped_store st', sgr_roles = reg\<rparr> ctx p rid = Inr d' \<and>
    is_granted d'"
proof -
  let ?r = "\<lparr>sgr_store = memory_scoped_store st, sgr_roles = reg\<rparr>"
  let ?r' = "\<lparr>sgr_store = memory_scoped_store st', sgr_roles = reg\<rparr>"
  have ans: "store_answers (sgr_store ?r) ctx" "store_answers (sgr_store ?r') ctx"
    by (simp_all add: store_answers_def memory_scoped_store_def)
  have same: "explicitly_denied ops ?r' ctx p = explicitly_denied ops ?r ctx p"
    "role_default ops ?r' ctx p = role_default ops ?r ctx p"
    using assms(3) by (auto simp: explicitly_denied_def role_default_def memory_scoped_store_def
        grant_user_def grant_group_def)
  have sub: "set (candidates_of (sgr_store ?r) ctx) \<subseteq> set (candidates_of (sgr_store ?r') ctx)"
    by (rule candidates_of_mono)
      (use assms(3) in \<open>auto simp: memory_scoped_store_def grant_user_def grant_group_def
        or_default_map_of_update\<close>)
  note old = scoped_resolve_rule_core [OF ans(1), of ops p rid]
  note new = scoped_resolve_rule_core [OF ans(2), of ops p rid]
  from old assms(1,2) have "\<not> is_session_stale ctx \<and> (system_role ctx = Admin \<or>
      \<not> explicitly_denied ops ?r ctx p \<and> (role_default ops ?r ctx p \<or>
        (\<exists>c \<in> set (candidates_of (sgr_store ?r) ctx). usable ops ctx p c)))" by auto
  with sub have "\<not> is_session_stale ctx \<and> (system_role ctx = Admin \<or>
      \<not> explicitly_denied ops ?r' ctx p \<and> (role_default ops ?r' ctx p \<or>
        (\<exists>c \<in> set (candidates_of (sgr_store ?r') ctx). usable ops ctx p c)))"
    unfolding same by blast
  with new show ?thesis by blast
qed

subsection \<open>Witnesses\<close>

text \<open>A branch \<open>plugin\<close> with one leaf; a member of group 7 in workspace 3.\<close>

definition demo_ops :: "string permission_ops" where
  "demo_ops =
     \<lparr>perm_name = id,
      ancestry_names = (\<lambda>p. if p = ''plugin.read'' then [''plugin.read'', ''plugin''] else [p]),
      is_branch = (\<lambda>p. p = ''plugin''), perm_all = [''plugin.read'']\<rparr>"

definition demo_ctx :: permission_context where
  "demo_ctx =
     \<lparr>user_id = 1, system_role = Member, group_ids = [7], workspace_id = Some 3,
      workspace_role = None, session_version = 5, current_user_version = 5\<rparr>"

definition demo_grants :: "string memory_scoped_grant_store" where
  "demo_grants =
     grant_user 1 (scoped_grant_new ''plugin.read'' Global)
       (grant_group 7 (scoped_grant_new ''plugin'' (Workspace 3)) msg_new)"

definition demo_scoped :: "string scoped_grant_resolver" where
  "demo_scoped = \<lparr>sgr_store = memory_scoped_store demo_grants, sgr_roles = static_registry srr_new\<rparr>"

lemma demo_scoped_answers: "store_answers (sgr_store demo_scoped) demo_ctx"
  by (simp add: store_answers_def demo_scoped_def memory_scoped_store_def)

lemmas demo_scoped_defs =
  demo_scoped_def demo_grants_def demo_ctx_def demo_ops_def memory_scoped_store_def grant_user_def
  grant_group_def scoped_grant_new_def msg_new_def static_registry_simps is_session_stale_def
  usable_def grant_matches_def explicitly_denied_def role_default_def candidates_of_def

lemma demo_scoped_decision:
  "scoped_resolve demo_ops demo_scoped demo_ctx ''plugin.read'' None =
     Inr (Granted (ScopedGrantAt (Workspace 3)) WorkspaceGrant)"
  by (subst scoped_resolve_answers [OF demo_scoped_answers]) (simp_all add: demo_scoped_defs)

theorem scoped_resolve_rule_witness:
  "\<exists>d. scoped_resolve demo_ops demo_scoped demo_ctx ''plugin.read'' None = Inr d \<and> is_granted d"
  using scoped_resolve_rule [OF demo_scoped_answers, of demo_ops "''plugin.read''" None]
  by (simp add: demo_scoped_defs)

theorem scoped_grant_not_denied_witness:
  "\<exists>ds. denied_set (sgr_store demo_scoped) (user_id demo_ctx) = Inr ds \<and>
    (\<forall>d \<in> ds. \<not> grant_matches demo_ops d ''plugin.read'')"
  using scoped_grant_not_denied [OF demo_scoped_decision] by auto

theorem scoped_grant_most_specific_witness:
  "\<exists>a g. usable demo_ops demo_ctx ''plugin.read'' (a, g) \<and> sg_scope g = Workspace 3"
  using scoped_grant_most_specific [OF demo_scoped_decision] by blast

theorem scoped_grants_unite_witness:
  "\<exists>d. scoped_resolve demo_ops \<lparr>sgr_store = memory_scoped_store
       (grant_user 1 (scoped_grant_new ''other'' Global) demo_grants),
     sgr_roles = static_registry srr_new\<rparr> demo_ctx ''plugin.read'' None = Inr d \<and> is_granted d"
  by (rule scoped_grants_unite [OF demo_scoped_decision [unfolded demo_scoped_def], where u = 1 and gid = 0 and g = "scoped_grant_new ''other'' Global"])
    simp_all

end
