(* ===== verification/Permission_Catalog.thy ===== *)
theory Permission_Catalog
  imports Rbac_Engine Scoped_Grants
begin

text \<open>
  The typed permission catalogue: the functions that the macro \<^verbatim>\<open>hierarchical_permission!\<close> of
  \<^verbatim>\<open>packages/kirino-macro/src/lib.rs\<close> generates from a list of domains, and the catalogue of
  \<^verbatim>\<open>src/rbac/permission.rs\<close> it is applied to, with that type's implementation of the trait.

  A declaration is the list of domain identifiers with their action identifiers; a value of the
  generated enum is the pair of its two identifiers. Identifiers and paths are ASCII strings.
  The generated \<^verbatim>\<open>match\<close> expressions try their arms in order.
\<close>

subsection \<open>The macro\<close>

type_synonym catalog_decl = "(string \<times> string list) list"
type_synonym leaf = "string \<times> string"

definition ascii_upper :: "char \<Rightarrow> bool" where
  "ascii_upper c \<longleftrightarrow> 65 \<le> (of_char c :: nat) \<and> (of_char c :: nat) \<le> 90"

definition ascii_lower :: "char \<Rightarrow> char" where
  "ascii_lower c = (if ascii_upper c then char_of ((of_char c :: nat) + 32) else c)"

fun snake_from :: "nat \<Rightarrow> string \<Rightarrow> string" where
  "snake_from i [] = []"
| "snake_from i (ch # rest) =
     (if ascii_upper ch then (if i > 0 then ''_'' else []) @ [ascii_lower ch] else [ch])
     @ snake_from (Suc i) rest"

definition domain_snake :: "string \<Rightarrow> string" where
  "domain_snake nm = snake_from 0 nm"

definition action_snake :: "string \<Rightarrow> string" where
  "action_snake nm = map ascii_lower nm"

definition leaves :: "catalog_decl \<Rightarrow> leaf list" where
  "leaves decl = concat (map (\<lambda>(d, actions). map (Pair d) actions) decl)"

definition leaf_name :: "leaf \<Rightarrow> string" where
  "leaf_name p = domain_snake (fst p) @ ''.'' @ action_snake (snd p)"

definition leaf_domain :: "leaf \<Rightarrow> string" where
  "leaf_domain p = domain_snake (fst p)"

definition leaf_path_segments :: "leaf \<Rightarrow> string list" where
  "leaf_path_segments p = [domain_snake (fst p), action_snake (snd p)]"

definition leaf_ancestry_names :: "leaf \<Rightarrow> string list" where
  "leaf_ancestry_names p = [leaf_domain p, leaf_name p]"

definition leaf_matches_pattern :: "leaf \<Rightarrow> string \<Rightarrow> bool" where
  "leaf_matches_pattern p pat \<longleftrightarrow> pat = leaf_domain p \<or> pat = leaf_name p"

definition all_domains :: "catalog_decl \<Rightarrow> string list" where
  "all_domains decl = map (\<lambda>(d, _). domain_snake d) decl"

definition from_path :: "catalog_decl \<Rightarrow> string \<Rightarrow> leaf option" where
  "from_path decl path = find (\<lambda>p. leaf_name p = path) (leaves decl)"

fun expand_domain :: "catalog_decl \<Rightarrow> string \<Rightarrow> leaf list" where
  "expand_domain [] s = []"
| "expand_domain ((d, actions) # rest) s =
     (if domain_snake d = s then map (Pair d) actions else expand_domain rest s)"

subsection \<open>The catalogue\<close>

definition catalog :: catalog_decl where
  "catalog =
     [(''Agent'', [''Read'', ''Write'', ''Execute'']),
      (''Config'', [''Read'', ''Write'']),
      (''Knowledge'', [''Read'', ''Write'']),
      (''Container'', [''Read'', ''Write'']),
      (''System'', [''Read'', ''Write'']),
      (''Deploy'', [''Read'', ''Execute'']),
      (''Provider'', [''List'', ''Create'', ''Update'', ''Delete'', ''Use'']),
      (''Mcp'', [''List'', ''Create'', ''Update'', ''Delete'', ''Use'']),
      (''Channel'', [''List'', ''Create'', ''Update'', ''Delete'', ''Use'']),
      (''Yolo'', [''Use'']),
      (''Workspace'', [''List'', ''Create'', ''Manage'']),
      (''Device'', [''List'', ''Connect'']),
      (''Rbac'', [''Manage'']),
      (''Oauth'', [''Read'', ''Write'']),
      (''Plugin'', [''Read'', ''Install'', ''Publish'', ''Manage''])]"

definition PLUGIN_PATHS :: "string list" where
  "PLUGIN_PATHS = [''plugin.read'', ''plugin.install'', ''plugin.publish'', ''plugin.manage'']"

text \<open>The implementation of the trait overrides \<^verbatim>\<open>name\<close> and \<^verbatim>\<open>domain\<close> and nothing else.\<close>

definition catalog_ops :: "leaf permission_ops" where
  "catalog_ops = default_permission_ops leaf_name"

subsection \<open>Parsing and printing\<close>

lemma from_path_sound: "from_path decl s = Some p \<Longrightarrow> p \<in> set (leaves decl) \<and> leaf_name p = s"
  by (auto simp: from_path_def dest: find_Some_D)

lemma from_path_name:
  assumes "distinct (map leaf_name (leaves decl))" "p \<in> set (leaves decl)"
  shows "from_path decl (leaf_name p) = Some p"
proof (cases "from_path decl (leaf_name p)")
  case None
  with assms(2) show ?thesis unfolding from_path_def find_None_iff by blast
next
  case (Some q)
  from from_path_sound [OF this] assms have "q = p" by (auto simp: distinct_map dest: inj_onD)
  with Some show ?thesis by simp
qed

lemma expand_domain_filter:
  "distinct (all_domains decl) \<Longrightarrow>
     expand_domain decl s = filter (\<lambda>p. leaf_domain p = s) (leaves decl)"
proof (induction decl)
  case (Cons da decl)
  obtain d actions where da: "da = (d, actions)" by (cases da)
  have none: "filter (\<lambda>p. leaf_domain p = s) (leaves decl) = []" if "domain_snake d = s"
    using Cons.prems that
    by (force simp: da all_domains_def leaves_def leaf_domain_def filter_empty_conv)
  show ?case
    using Cons none by (auto simp: da leaves_def leaf_domain_def all_domains_def filter_empty_conv)
qed (simp add: leaves_def)

text \<open>The catalogue, evaluated.\<close>

lemma catalog_names:
  "map leaf_name (leaves catalog) =
     [''agent.read'', ''agent.write'', ''agent.execute'', ''config.read'', ''config.write'',
      ''knowledge.read'', ''knowledge.write'', ''container.read'', ''container.write'',
      ''system.read'', ''system.write'', ''deploy.read'', ''deploy.execute'', ''provider.list'',
      ''provider.create'', ''provider.update'', ''provider.delete'', ''provider.use'',
      ''mcp.list'', ''mcp.create'', ''mcp.update'', ''mcp.delete'', ''mcp.use'', ''channel.list'',
      ''channel.create'', ''channel.update'', ''channel.delete'', ''channel.use'', ''yolo.use'',
      ''workspace.list'', ''workspace.create'', ''workspace.manage'', ''device.list'',
      ''device.connect'', ''rbac.manage'', ''oauth.read'', ''oauth.write'', ''plugin.read'',
      ''plugin.install'', ''plugin.publish'', ''plugin.manage'']"
  by (simp add: leaves_def catalog_def leaf_name_def domain_snake_def action_snake_def
      ascii_lower_def ascii_upper_def char_of_def bit_0)

lemma catalog_domain_names:
  "all_domains catalog =
     [''agent'', ''config'', ''knowledge'', ''container'', ''system'', ''deploy'', ''provider'',
      ''mcp'', ''channel'', ''yolo'', ''workspace'', ''device'', ''rbac'', ''oauth'', ''plugin'']"
  by (simp add: all_domains_def catalog_def domain_snake_def ascii_lower_def ascii_upper_def
      char_of_def bit_0)

lemma distinct_leaf_names: "distinct (map leaf_name (leaves catalog))"
  unfolding catalog_names by simp

lemma distinct_domains: "distinct (all_domains catalog)"
  unfolding catalog_domain_names by simp

lemma domains_are_not_leaves: "d \<in> set (all_domains catalog) \<Longrightarrow> from_path catalog d = None"
proof -
  assume "d \<in> set (all_domains catalog)"
  then have "d \<notin> set (map leaf_name (leaves catalog))"
    unfolding catalog_names catalog_domain_names by auto
  then show ?thesis by (auto simp: from_path_def find_None_iff)
qed

lemma plugin_expands: "map leaf_name (expand_domain catalog ''plugin'') = PLUGIN_PATHS"
  by (simp add: catalog_def PLUGIN_PATHS_def leaf_name_def domain_snake_def action_snake_def
      ascii_lower_def ascii_upper_def char_of_def bit_0)

text \<open>
  Paths and permissions of the catalogue correspond one to one: a path parses to a
  permission exactly when it is that permission's name, so that an unknown path is rejected.
\<close>

theorem catalog_path_roundtrip:
  "from_path catalog s = Some p \<longleftrightarrow> p \<in> set (leaves catalog) \<and> leaf_name p = s"
  using from_path_sound from_path_name [OF distinct_leaf_names] by blast

text \<open>
  Expanding a domain lists exactly the permissions of the catalogue in that domain, in
  order; the name of a domain that expands to something is never itself a permission's path;
  and the plugin domain is the four plugin points.
\<close>

theorem catalog_domains:
  "expand_domain catalog s = filter (\<lambda>p. leaf_domain p = s) (leaves catalog) \<and>
   (expand_domain catalog s \<noteq> [] \<longrightarrow> from_path catalog s = None) \<and>
   map leaf_name (expand_domain catalog ''plugin'') = PLUGIN_PATHS"
proof (intro conjI impI)
  show e: "expand_domain catalog s = filter (\<lambda>p. leaf_domain p = s) (leaves catalog)"
    by (rule expand_domain_filter [OF distinct_domains])
  show "from_path catalog s = None" if "expand_domain catalog s \<noteq> []"
  proof (rule domains_are_not_leaves)
    from that e obtain p where "p \<in> set (leaves catalog)" "leaf_domain p = s"
      by (auto simp: filter_empty_conv)
    then show "s \<in> set (all_domains catalog)"
      by (force simp: leaves_def all_domains_def leaf_domain_def)
  qed
qed (rule plugin_expands)

theorem catalog_domains_witness: "from_path catalog ''plugin'' = None"
proof -
  have "map leaf_name (expand_domain catalog ''plugin'') \<noteq> []"
    unfolding plugin_expands by (simp add: PLUGIN_PATHS_def)
  with catalog_domains [of "''plugin''"] show ?thesis by auto
qed

subsection \<open>The catalogue behind the trait\<close>

text \<open>
  The generated \<^verbatim>\<open>all\<close> is not the trait's: the catalogue type inherits the trait's empty
  default, so listing a subject's permissions through the engine is empty for every context
  and every resolver, also one that grants everything; and no catalogue permission acts as a
  branch, so a scoped grant matches its exact name only.
\<close>

theorem catalog_trait_defaults:
  "resolve_effective_permissions catalog_ops ctx resolver = Inr [] \<and>
   (grant_matches catalog_ops g p \<longleftrightarrow> leaf_name g = leaf_name p)"
  by (simp add: resolve_effective_permissions_def catalog_ops_def default_permission_ops_def
      grant_matches_def)

end
