(* ===== verification/Grant_Resolution.thy ===== *)
theory Grant_Resolution
  imports Permission_Catalog
begin

text \<open>
  The fold of grant rows into a permission set, \<^verbatim>\<open>src/rbac/grant_resolution.rs\<close>: which
  strings count as permissions, how a row's permission field expands, and how the user, group
  and global tiers combine. The map from permission names to pending verdicts is a
  \<^verbatim>\<open>HashMap\<close> with a nested option, as in the code; the evaluation instant is an argument, as
  in the code.

  The specification says which verdicts reach a permission and takes the conjunction of those
  at the most specific tier; it does not mention an order of rows.
\<close>

subsection \<open>The definitions\<close>

definition ascii_lower_letter :: "char \<Rightarrow> bool" where
  "ascii_lower_letter c \<longleftrightarrow> 97 \<le> (of_char c :: nat) \<and> (of_char c :: nat) \<le> 122"

definition ascii_digit :: "char \<Rightarrow> bool" where
  "ascii_digit c \<longleftrightarrow> 48 \<le> (of_char c :: nat) \<and> (of_char c :: nat) \<le> 57"

definition is_opaque_permission_path :: "string \<Rightarrow> bool" where
  "is_opaque_permission_path s \<longleftrightarrow>
     s \<noteq> [] \<and> (case s of [] \<Rightarrow> False | c # _ \<Rightarrow> ascii_lower_letter c) \<and>
     (\<forall>seg \<in> set (split_on CHR ''.'' s). seg \<noteq> [] \<and>
        (\<forall>c \<in> set seg. ascii_lower_letter c \<or> ascii_digit c \<or> c = CHR ''_'' \<or> c = CHR ''-''))"

definition scope_tier :: "string \<Rightarrow> nat" where
  "scope_tier scope = (if scope = ''user'' then 0 else if scope = ''group'' then 1 else 2)"

type_synonym verdict = "(nat \<times> bool) option"

definition fold_tiered :: "verdict \<Rightarrow> nat \<Rightarrow> bool \<Rightarrow> verdict" where
  "fold_tiered decision tier granted =
     (case decision of
        Some (t, v) \<Rightarrow>
          if t < tier then decision
          else if t = tier then (if v then Some (tier, granted) else decision)
          else Some (tier, granted)
      | None \<Rightarrow> Some (tier, granted))"

definition expand_grant_permission :: "string \<Rightarrow> string list" where
  "expand_grant_permission raw =
     (if from_path catalog raw \<noteq> None then [raw]
      else let expanded = map leaf_name (expand_domain catalog raw)
           in if expanded \<noteq> [] then expanded
              else if is_opaque_permission_path raw then [raw] else [])"

record grant_row =
  gr_scope :: string
  gr_permission :: string
  gr_granted :: bool
  gr_resource_id :: "string option"
  gr_expires_at :: "instant option"

definition grant_row_flat :: "string \<Rightarrow> string \<Rightarrow> bool \<Rightarrow> grant_row" where
  "grant_row_flat scope perm g =
     \<lparr>gr_scope = scope, gr_permission = perm, gr_granted = g, gr_resource_id = None,
      gr_expires_at = None\<rparr>"

definition with_expiry :: "instant \<Rightarrow> grant_row \<Rightarrow> grant_row" where
  "with_expiry at row = row\<lparr>gr_expires_at := Some at\<rparr>"

definition is_visible_at :: "grant_row \<Rightarrow> instant \<Rightarrow> bool" where
  "is_visible_at row now = (case gr_expires_at row of None \<Rightarrow> True | Some deadline \<Rightarrow> now < deadline)"

type_synonym decisions = "(string, verdict) hash_map"

fun fold_perms :: "nat \<Rightarrow> bool \<Rightarrow> string list \<Rightarrow> decisions \<Rightarrow> decisions" where
  "fold_perms tier g [] ds = ds"
| "fold_perms tier g (perm # perms) ds =
     (let decision = (case map_of ds perm of None \<Rightarrow> None | Some v \<Rightarrow> v);
          ds' = AList.delete perm ds;
          decision' = (if decision = None then Some (tier, g) else fold_tiered decision tier g)
      in fold_perms tier g perms
           (case decision' of Some d \<Rightarrow> AList.update perm (Some d) ds' | None \<Rightarrow> ds'))"

fun fold_rows :: "instant \<Rightarrow> grant_row list \<Rightarrow> decisions \<Rightarrow> decisions" where
  "fold_rows now [] ds = ds"
| "fold_rows now (grant # grants) ds =
     (if gr_resource_id grant \<noteq> None \<or> \<not> is_visible_at grant now then fold_rows now grants ds
      else fold_rows now grants
        (fold_perms (scope_tier (gr_scope grant)) (gr_granted grant)
           (expand_grant_permission (gr_permission grant)) ds))"

definition default_decisions :: "string list \<Rightarrow> decisions" where
  "default_decisions defaults =
     fold (\<lambda>p. AList.update p (Some (scope_tier ''group'', True))) defaults []"

definition resolve_grant_rows_at :: "string list \<Rightarrow> grant_row list \<Rightarrow> instant \<Rightarrow> string list" where
  "resolve_grant_rows_at defaults grants now =
     (let ds = fold_rows now grants (default_decisions defaults)
      in sort (map fst (filter (\<lambda>(_, v). case v of Some (_, g) \<Rightarrow> g | None \<Rightarrow> False) ds)))"

subsection \<open>The specification\<close>

text \<open>The verdicts that reach a permission: (tier, granted) pairs.\<close>

definition row_verdicts :: "instant \<Rightarrow> string \<Rightarrow> grant_row \<Rightarrow> (nat \<times> bool) list" where
  "row_verdicts now p row =
     (if gr_resource_id row = None \<and> is_visible_at row now
      then map (\<lambda>_. (scope_tier (gr_scope row), gr_granted row))
        (filter (\<lambda>q. q = p) (expand_grant_permission (gr_permission row)))
      else [])"

definition verdicts :: "string list \<Rightarrow> grant_row list \<Rightarrow> instant \<Rightarrow> string \<Rightarrow> (nat \<times> bool) set" where
  "verdicts defaults rows now p =
     (if p \<in> set defaults then {(1, True)} else {}) \<union> (\<Union>row \<in> set rows. set (row_verdicts now p row))"

definition effective :: "(nat \<times> bool) set \<Rightarrow> bool" where
  "effective V \<longleftrightarrow> (\<exists>t. (t, True) \<in> V \<and> (t, False) \<notin> V \<and> (\<forall>(t', v) \<in> V. t \<le> t'))"

subsection \<open>The fold computes the most specific verdict\<close>

text \<open>\<open>summary V d\<close>: \<open>d\<close> is the pending verdict after the verdicts \<open>V\<close>.\<close>

definition summary :: "(nat \<times> bool) set \<Rightarrow> verdict \<Rightarrow> bool" where
  "summary V d \<longleftrightarrow>
     (case d of None \<Rightarrow> V = {}
      | Some (t, g) \<Rightarrow> (t, g) \<in> V \<and> (\<forall>(t', v) \<in> V. t \<le> t') \<and> (g \<longrightarrow> (t, False) \<notin> V))"

lemma summary_empty: "summary {} None"
  by (simp add: summary_def)

lemma summary_Some:
  "summary V (Some (t, g)) \<longleftrightarrow>
     (t, g) \<in> V \<and> (\<forall>t' v. (t', v) \<in> V \<longrightarrow> t \<le> t') \<and> (g \<longrightarrow> (t, False) \<notin> V)"
  by (auto simp: summary_def)

lemma summary_fold_tiered:
  assumes "summary V d"
  shows "summary (insert (tier, g) V) (fold_tiered d tier g)"
proof (cases d)
  case None
  with assms show ?thesis by (simp add: summary_def fold_tiered_def)
next
  case (Some td)
  obtain t v where td: "td = (t, v)" by (cases td)
  have s: "(t, v) \<in> V" "\<And>t' v. (t', v) \<in> V \<Longrightarrow> t \<le> t'" "v \<Longrightarrow> (t, False) \<notin> V"
    using assms Some td by (auto simp: summary_Some)
  consider "t < tier" | "t = tier" v | "t = tier" "\<not> v" | "tier < t" by fastforce
  then show ?thesis
  proof cases
    case 1
    then have "fold_tiered d tier g = Some (t, v)" by (simp add: fold_tiered_def Some td)
    with 1 s show ?thesis by (auto simp: summary_Some)
  next
    case 2
    then have "fold_tiered d tier g = Some (tier, g)" by (simp add: fold_tiered_def Some td)
    with 2 s show ?thesis by (auto simp: summary_Some)
  next
    case 3
    then have "fold_tiered d tier g = Some (tier, False)" by (simp add: fold_tiered_def Some td)
    with 3 s show ?thesis by (auto simp: summary_Some)
  next
    case 4
    then have f: "fold_tiered d tier g = Some (tier, g)" by (simp add: fold_tiered_def Some td)
    have "(tier, False) \<notin> V" using s(2) [of tier False] 4 by auto
    moreover have "tier \<le> t'" if "(t', w) \<in> V" for t' w using s(2) [OF that] 4 by simp
    ultimately show ?thesis using f by (auto simp: summary_Some)
  qed
qed

lemma summary_effective:
  assumes "summary V (Some (t, g))"
  shows "effective V \<longleftrightarrow> g"
proof
  assume "effective V"
  then obtain u where u: "(u, True) \<in> V" "(u, False) \<notin> V" "\<And>t' v. (t', v) \<in> V \<Longrightarrow> u \<le> t'"
    unfolding effective_def by blast
  have "u = t" using u(1,3) assms by (meson summary_Some le_antisym)
  with u assms show g by (cases g) (auto simp: summary_Some)
next
  assume g
  with assms show "effective V" unfolding effective_def summary_Some by (intro exI [of _ t]) auto
qed

lemma summary_None_effective: "summary V None \<Longrightarrow> \<not> effective V"
  by (simp add: summary_def effective_def)

lemma fold_tiered_None: "fold_tiered None tier g = Some (tier, g)"
  by (simp add: fold_tiered_def)

lemma fold_tiered_Some: "\<exists>d'. fold_tiered d tier g = Some d'"
  by (auto simp: fold_tiered_def split: option.splits)

abbreviation pending :: "decisions \<Rightarrow> string \<Rightarrow> verdict" where
  "pending ds p \<equiv> (case map_of ds p of None \<Rightarrow> None | Some v \<Rightarrow> v)"

lemma fold_perms_step:
  "fold_perms tier g (perm # perms) ds =
     fold_perms tier g perms (AList.update perm (fold_tiered (pending ds perm) tier g) (AList.delete perm ds))"
proof -
  obtain d where "fold_tiered (pending ds perm) tier g = Some d" using fold_tiered_Some by blast
  then show ?thesis by (auto simp: Let_def fold_tiered_None)
qed

text \<open>One verdict for each time the name occurs in the expansion.\<close>

lemma pending_fold_perms:
  "summary V (pending ds p) \<Longrightarrow> hm_wf ds \<Longrightarrow>
     summary (V \<union> set (map (\<lambda>_. (tier, g)) (filter (\<lambda>q. q = p) perms)))
       (pending (fold_perms tier g perms ds) p) \<and> hm_wf (fold_perms tier g perms ds)"
proof (induction perms arbitrary: ds V)
  case (Cons perm perms)
  let ?ds = "AList.update perm (fold_tiered (pending ds perm) tier g) (AList.delete perm ds)"
  have wf: "hm_wf ?ds" using Cons.prems(2) by simp
  show ?case
  proof (cases "perm = p")
    case True
    then have "summary (insert (tier, g) V) (pending ?ds p)"
      using summary_fold_tiered [OF Cons.prems(1)] by (simp add: hm_simps)
    from Cons.IH [OF this wf] True show ?thesis by (simp add: fold_perms_step del: fold_perms.simps)
  next
    case False
    then have "summary V (pending ?ds p)" using Cons.prems(1) by (simp add: hm_simps)
    from Cons.IH [OF this wf] False show ?thesis by (simp add: fold_perms_step del: fold_perms.simps)
  qed
qed simp

lemma pending_fold_rows:
  "summary V (pending ds p) \<Longrightarrow> hm_wf ds \<Longrightarrow>
     summary (V \<union> (\<Union>row \<in> set rows. set (row_verdicts now p row))) (pending (fold_rows now rows ds) p) \<and>
     hm_wf (fold_rows now rows ds)"
proof (induction rows arbitrary: ds V)
  case (Cons row rows)
  show ?case
  proof (cases "gr_resource_id row \<noteq> None \<or> \<not> is_visible_at row now")
    case True
    then show ?thesis using Cons.IH [OF Cons.prems] by (auto simp: row_verdicts_def)
  next
    case False
    let ?ds = "fold_perms (scope_tier (gr_scope row)) (gr_granted row)
      (expand_grant_permission (gr_permission row)) ds"
    have "summary (V \<union> set (row_verdicts now p row)) (pending ?ds p)" "hm_wf ?ds"
      using pending_fold_perms [OF Cons.prems] False by (auto simp: row_verdicts_def)
    from Cons.IH [OF this] False show ?thesis by (simp add: Un_assoc)
  qed
qed simp

lemma pending_default:
  "summary (if p \<in> set defaults then {(1, True)} else {}) (pending (default_decisions defaults) p) \<and>
     hm_wf (default_decisions defaults)"
proof -
  have "hm_wf (fold (\<lambda>p. AList.update p (Some (scope_tier ''group'', True))) defaults m) \<and>
      map_of (fold (\<lambda>p. AList.update p (Some (scope_tier ''group'', True))) defaults m) p =
        (if p \<in> set defaults then Some (Some (scope_tier ''group'', True)) else map_of m p)"
    if "hm_wf m" for m :: decisions
    using that by (induction defaults arbitrary: m) (auto simp: hm_simps)
  from this [of "[]"] show ?thesis
    by (simp add: default_decisions_def summary_def scope_tier_def)
qed

lemma pending_resolved:
  "summary (verdicts defaults rows now p) (pending (fold_rows now rows (default_decisions defaults)) p)"
  "hm_wf (fold_rows now rows (default_decisions defaults))"
  using pending_fold_rows pending_default unfolding verdicts_def by blast+

lemma in_resolved_iff:
  "p \<in> set (resolve_grant_rows_at defaults rows now) \<longleftrightarrow> effective (verdicts defaults rows now p)"
proof -
  let ?ds = "fold_rows now rows (default_decisions defaults)"
  note sm = pending_resolved(1) [of defaults rows now p]
  have "p \<in> set (resolve_grant_rows_at defaults rows now) \<longleftrightarrow>
      (\<exists>t. map_of ?ds p = Some (Some (t, True)))"
    by (force simp: resolve_grant_rows_at_def Let_def hm_in_set_iff [OF pending_resolved(2)]
        split: option.splits)
  also have "\<dots> \<longleftrightarrow> effective (verdicts defaults rows now p)"
  proof (cases "map_of ?ds p")
    case None
    with sm show ?thesis by (simp add: summary_None_effective)
  next
    case (Some v)
    show ?thesis
    proof (cases v)
      case None
      with sm Some show ?thesis by (simp add: summary_None_effective)
    next
      case (Some td)
      with sm \<open>map_of ?ds p = Some v\<close> show ?thesis by (cases td) (simp add: summary_effective)
    qed
  qed
  finally show ?thesis .
qed

lemma sorted_distinct_resolved:
  "sorted (resolve_grant_rows_at defaults rows now) \<and> distinct (resolve_grant_rows_at defaults rows now)"
  using pending_resolved(2) [of now rows defaults]
  by (simp add: resolve_grant_rows_at_def Let_def hm_wf_def distinct_map_filter)

subsection \<open>What the fold guarantees\<close>

text \<open>
  C10: the resolved names are exactly those whose most specific verdicts all grant: the rows'
  verdicts, each at the tier of its scope, together with one group-tier grant for a default;
  the result is sorted and has no duplicates.
\<close>

theorem resolve_grant_rows_exact:
  "sorted (resolve_grant_rows_at defaults rows now) \<and>
   distinct (resolve_grant_rows_at defaults rows now) \<and>
   (p \<in> set (resolve_grant_rows_at defaults rows now) \<longleftrightarrow> effective (verdicts defaults rows now p))"
  using sorted_distinct_resolved [of defaults rows now] in_resolved_iff [of p defaults rows now]
  by blast

lemma resolved_eqI:
  assumes "\<And>p. verdicts defaults rows now p = verdicts defaults' rows' now' p"
  shows "resolve_grant_rows_at defaults rows now = resolve_grant_rows_at defaults' rows' now'"
proof (rule sorted_distinct_set_unique)
  show "set (resolve_grant_rows_at defaults rows now) = set (resolve_grant_rows_at defaults' rows' now')"
    by (auto simp: in_resolved_iff assms)
qed (use sorted_distinct_resolved in blast)+

text \<open>
  The result depends neither on the order of the rows, nor on their repetition, nor on the
  order of the defaults.
\<close>

theorem resolve_grant_rows_order_free:
  assumes "set rows = set rows'" and "set defaults = set defaults'"
  shows "resolve_grant_rows_at defaults rows now = resolve_grant_rows_at defaults' rows' now"
  by (rule resolved_eqI) (simp add: verdicts_def assms)

theorem resolve_grant_rows_order_free_witness:
  "resolve_grant_rows_at [''a''] [grant_row_flat ''user'' ''b'' True, grant_row_flat ''global'' ''a'' False] 5 =
   resolve_grant_rows_at [''a'', ''a''] [grant_row_flat ''global'' ''a'' False, grant_row_flat ''user'' ''b'' True] 5"
  by (rule resolve_grant_rows_order_free) auto

text \<open>
  An expired row is exactly as if it did not exist, at its deadline too, whether it grants
  or denies; and so is a row pinned to a resource.
\<close>

theorem dead_rows_invisible:
  "resolve_grant_rows_at defaults rows now =
   resolve_grant_rows_at defaults
     (filter (\<lambda>row. gr_resource_id row = None \<and>
        (case gr_expires_at row of None \<Rightarrow> True | Some deadline \<Rightarrow> now < deadline)) rows) now"
  by (rule resolved_eqI) (auto simp: verdicts_def row_verdicts_def is_visible_at_def)

lemma expand_self:
  "p \<in> set (expand_grant_permission raw) \<Longrightarrow> g = gr_granted row \<Longrightarrow> gr_permission row = raw \<Longrightarrow>
     gr_resource_id row = None \<Longrightarrow> is_visible_at row now \<Longrightarrow>
     (scope_tier (gr_scope row), g) \<in> set (row_verdicts now p row)"
  by (auto simp: row_verdicts_def)

text \<open>
  A live denial at the user tier wins over every other row and every default, wherever it
  stands among the rows.
\<close>

theorem user_denial_wins:
  assumes "row \<in> set rows" and "gr_scope row = ''user''" and "\<not> gr_granted row"
    and "gr_resource_id row = None" and "is_visible_at row now"
    and "p \<in> set (expand_grant_permission (gr_permission row))"
  shows "p \<notin> set (resolve_grant_rows_at defaults rows now)"
proof -
  have "(0, False) \<in> verdicts defaults rows now p"
    using expand_self [OF assms(6) refl refl assms(4,5)] assms(1-3)
    by (auto simp: verdicts_def scope_tier_def)
  then show ?thesis unfolding in_resolved_iff effective_def by force
qed

text \<open>
  A builtin default that no live user or group row denies is always kept: a denial at the
  global scope, or at an unknown one, cannot revoke it.
\<close>

theorem default_survives_global_denial:
  assumes "p \<in> set defaults"
    and "\<And>row. row \<in> set rows \<Longrightarrow> gr_scope row = ''user'' \<or> gr_scope row = ''group'' \<Longrightarrow>
      gr_resource_id row = None \<Longrightarrow> is_visible_at row now \<Longrightarrow>
      p \<in> set (expand_grant_permission (gr_permission row)) \<Longrightarrow> gr_granted row"
  shows "p \<in> set (resolve_grant_rows_at defaults rows now)"
proof -
  let ?V = "verdicts defaults rows now p"
  have low: "v" if "(t, v) \<in> ?V" "t < 2" for t v
    using that assms(2)
    by (auto simp: verdicts_def row_verdicts_def scope_tier_def split: if_splits)
  have one: "(1, True) \<in> ?V" using assms(1) by (simp add: verdicts_def)
  let ?t = "LEAST t. (t, True) \<in> ?V"
  have least: "(?t, True) \<in> ?V" "?t \<le> 1" using one by (auto intro: LeastI Least_le)
  have "?t \<le> t" if "(t, v) \<in> ?V" for t v
  proof (cases "t < 2")
    case True
    with low [OF that] that have "(t, True) \<in> ?V" by simp
    then show ?thesis by (rule Least_le)
  next
    case False
    with least(2) show ?thesis by simp
  qed
  moreover have "(?t, False) \<notin> ?V" using low [of ?t False] least(2) by auto
  ultimately have "effective ?V" unfolding effective_def using least(1) by blast
  then show ?thesis by (simp add: in_resolved_iff)
qed

lemma opaque_usage: "p = ''usage.read.self'' \<Longrightarrow> expand_grant_permission p = [p]"
proof -
  assume p: "p = ''usage.read.self''"
  have "from_path catalog p = None"
  proof -
    have "p \<notin> set (map leaf_name (leaves catalog))" unfolding catalog_names p by simp
    then show ?thesis by (auto simp: from_path_def find_None_iff)
  qed
  moreover have "expand_domain catalog p = []"
  proof -
    have "p \<notin> set (all_domains catalog)" unfolding catalog_domain_names p by simp
    then show ?thesis
      by (auto simp: expand_domain_filter [OF distinct_domains] filter_empty_conv all_domains_def
          leaves_def leaf_domain_def)
  qed
  moreover have "is_opaque_permission_path p"
    by (simp add: p is_opaque_permission_path_def ascii_lower_letter_def)
  ultimately show ?thesis by (simp add: expand_grant_permission_def)
qed

theorem user_denial_wins_witness:
  "''usage.read.self'' \<notin> set (resolve_grant_rows_at [''usage.read.self'']
     [grant_row_flat ''global'' ''usage.read.self'' True,
      with_expiry 9 (grant_row_flat ''user'' ''usage.read.self'' False)] 8)"
  by (rule user_denial_wins [where row = "with_expiry 9 (grant_row_flat ''user'' ''usage.read.self'' False)"])
    (simp_all add: with_expiry_def grant_row_flat_def is_visible_at_def opaque_usage)

theorem default_survives_global_denial_witness:
  "''usage.read.self'' \<in> set (resolve_grant_rows_at [''usage.read.self'']
     [grant_row_flat ''global'' ''usage.read.self'' False] 8)"
  by (rule default_survives_global_denial) (auto simp: grant_row_flat_def)

end
