(* ===== verification/Constraints.thy ===== *)
theory Constraints
  imports Kirino_Prelude
begin

text \<open>
  The constraint gate: the policies and their predicates
  (\<^verbatim>\<open>src/rbac/constraints/policies.rs\<close>), the in-memory store
  (\<^verbatim>\<open>src/rbac/constraints/store.rs\<close>) and the validator
  (\<^verbatim>\<open>src/rbac/constraints/validator.rs\<close>). The two separation-of-duty policies are expansions of
  one macro and are one type here. A validator reads its store through the record
  \<open>constraint_reads\<close>, whose queries may fail; the clock is an argument.

  A policy is satisfied by a role set when fewer than \<open>cardinality\<close> of its roles occur in it:
  the cardinality is the first forbidden count.
\<close>

subsection \<open>Policies\<close>

record sod_policy =
  sod_name :: string
  sod_roles :: "string set"
  sod_cardinality :: nat

definition sod_new :: "string \<Rightarrow> string set \<Rightarrow> nat \<Rightarrow> sod_policy" where
  "sod_new nm roles k = \<lparr>sod_name = nm, sod_roles = roles, sod_cardinality = max k 1\<rparr>"

definition sod_validate :: "sod_policy \<Rightarrow> string list \<Rightarrow> bool" where
  "sod_validate pol roles \<longleftrightarrow>
     length (filter (\<lambda>r. r \<in> sod_roles pol) roles) < sod_cardinality pol"

record cardinality_constraint =
  cc_role :: string
  cc_max_subjects :: nat

definition cc_new :: "string \<Rightarrow> nat \<Rightarrow> cardinality_constraint" where
  "cc_new role n = \<lparr>cc_role = role, cc_max_subjects = max n 1\<rparr>"

definition cc_validate :: "cardinality_constraint \<Rightarrow> nat \<Rightarrow> bool" where
  "cc_validate c n \<longleftrightarrow> n < cc_max_subjects c"

record prerequisite_constraint =
  pc_role :: string
  pc_requires :: string

definition pc_new :: "string \<Rightarrow> string \<Rightarrow> prerequisite_constraint" where
  "pc_new role req = \<lparr>pc_role = role, pc_requires = req\<rparr>"

definition pc_validate :: "prerequisite_constraint \<Rightarrow> string list \<Rightarrow> bool" where
  "pc_validate c assigned \<longleftrightarrow> pc_requires c \<in> set assigned"

record temporal_constraint =
  tc_role :: string
  tc_valid_from :: instant
  tc_valid_until :: instant

definition tc_new :: "string \<Rightarrow> instant \<Rightarrow> instant \<Rightarrow> temporal_constraint result" where
  "tc_new role vf vu =
     (if vf \<ge> vu then Inl (Validation ''TemporalConstraint'')
      else Inr \<lparr>tc_role = role, tc_valid_from = vf, tc_valid_until = vu\<rparr>)"

definition tc_is_valid :: "instant \<Rightarrow> temporal_constraint \<Rightarrow> bool" where
  "tc_is_valid now c \<longleftrightarrow> now \<ge> tc_valid_from c \<and> now \<le> tc_valid_until c"

subsection \<open>The in-memory store\<close>

record constraint_store =
  ssd_policies :: "sod_policy list"
  dsd_policies :: "sod_policy list"
  cardinality :: "cardinality_constraint list"
  prerequisites :: "prerequisite_constraint list"
  temporal :: "temporal_constraint list"

definition constraint_store_new :: constraint_store where
  "constraint_store_new =
     \<lparr>ssd_policies = [], dsd_policies = [], cardinality = [], prerequisites = [], temporal = []\<rparr>"

definition add_ssd_policy :: "sod_policy \<Rightarrow> constraint_store \<Rightarrow> unit result \<times> constraint_store" where
  "add_ssd_policy p st =
     (if \<exists>q \<in> set (ssd_policies st). sod_name q = sod_name p then (Inl (Store ''exists''), st)
      else (Inr (), st\<lparr>ssd_policies := ssd_policies st @ [p]\<rparr>))"

definition remove_ssd_policy :: "string \<Rightarrow> constraint_store \<Rightarrow> bool result \<times> constraint_store" where
  "remove_ssd_policy nm st =
     (let ps = filter (\<lambda>p. sod_name p \<noteq> nm) (ssd_policies st)
      in (Inr (length ps < length (ssd_policies st)), st\<lparr>ssd_policies := ps\<rparr>))"

definition add_dsd_policy :: "sod_policy \<Rightarrow> constraint_store \<Rightarrow> unit result \<times> constraint_store" where
  "add_dsd_policy p st =
     (if \<exists>q \<in> set (dsd_policies st). sod_name q = sod_name p then (Inl (Store ''exists''), st)
      else (Inr (), st\<lparr>dsd_policies := dsd_policies st @ [p]\<rparr>))"

definition remove_dsd_policy :: "string \<Rightarrow> constraint_store \<Rightarrow> bool result \<times> constraint_store" where
  "remove_dsd_policy nm st =
     (let ps = filter (\<lambda>p. sod_name p \<noteq> nm) (dsd_policies st)
      in (Inr (length ps < length (dsd_policies st)), st\<lparr>dsd_policies := ps\<rparr>))"

definition add_cardinality_constraint ::
  "cardinality_constraint \<Rightarrow> constraint_store \<Rightarrow> unit result \<times> constraint_store" where
  "add_cardinality_constraint c st =
     (if \<exists>d \<in> set (cardinality st). cc_role d = cc_role c then (Inl (Store ''exists''), st)
      else (Inr (), st\<lparr>cardinality := cardinality st @ [c]\<rparr>))"

definition remove_cardinality_constraint :: "string \<Rightarrow> constraint_store \<Rightarrow> bool result \<times> constraint_store" where
  "remove_cardinality_constraint role st =
     (let cs = filter (\<lambda>c. cc_role c \<noteq> role) (cardinality st)
      in (Inr (length cs < length (cardinality st)), st\<lparr>cardinality := cs\<rparr>))"

definition add_prerequisite_constraint ::
  "prerequisite_constraint \<Rightarrow> constraint_store \<Rightarrow> unit result \<times> constraint_store" where
  "add_prerequisite_constraint c st =
     (if \<exists>d \<in> set (prerequisites st). pc_role d = pc_role c \<and> pc_requires d = pc_requires c
      then (Inl (Store ''exists''), st)
      else (Inr (), st\<lparr>prerequisites := prerequisites st @ [c]\<rparr>))"

definition remove_prerequisite_constraint :: "string \<Rightarrow> constraint_store \<Rightarrow> bool result \<times> constraint_store" where
  "remove_prerequisite_constraint role st =
     (let cs = filter (\<lambda>c. pc_role c \<noteq> role) (prerequisites st)
      in (Inr (length cs < length (prerequisites st)), st\<lparr>prerequisites := cs\<rparr>))"

definition remove_prerequisite_constraint_for ::
  "string \<Rightarrow> string \<Rightarrow> constraint_store \<Rightarrow> bool result \<times> constraint_store" where
  "remove_prerequisite_constraint_for role req st =
     (let cs = filter (\<lambda>c. \<not> (pc_role c = role \<and> pc_requires c = req)) (prerequisites st)
      in (Inr (length cs < length (prerequisites st)), st\<lparr>prerequisites := cs\<rparr>))"

definition add_temporal_constraint ::
  "temporal_constraint \<Rightarrow> constraint_store \<Rightarrow> unit result \<times> constraint_store" where
  "add_temporal_constraint c st =
     (if \<exists>d \<in> set (temporal st). tc_role d = tc_role c \<and> tc_valid_from d = tc_valid_from c \<and>
           tc_valid_until d = tc_valid_until c
      then (Inl (Store ''exists''), st)
      else (Inr (), st\<lparr>temporal := temporal st @ [c]\<rparr>))"

definition remove_temporal_constraint :: "string \<Rightarrow> constraint_store \<Rightarrow> bool result \<times> constraint_store" where
  "remove_temporal_constraint role st =
     (let cs = filter (\<lambda>c. tc_role c \<noteq> role) (temporal st)
      in (Inr (length cs < length (temporal st)), st\<lparr>temporal := cs\<rparr>))"

definition remove_temporal_constraint_for ::
  "string \<Rightarrow> instant \<Rightarrow> instant \<Rightarrow> constraint_store \<Rightarrow> bool result \<times> constraint_store" where
  "remove_temporal_constraint_for role vf vu st =
     (let cs = filter (\<lambda>c. \<not> (tc_role c = role \<and> tc_valid_from c = vf \<and> tc_valid_until c = vu)) (temporal st)
      in (Inr (length cs < length (temporal st)), st\<lparr>temporal := cs\<rparr>))"

text \<open>The store as the validator reads it: each list query, which may fail.\<close>

record constraint_reads =
  list_ssd :: "sod_policy list result"
  list_dsd :: "sod_policy list result"
  list_cardinality :: "cardinality_constraint list result"
  list_prerequisite :: "prerequisite_constraint list result"
  list_temporal :: "temporal_constraint list result"

definition memory_constraint_reads :: "constraint_store \<Rightarrow> constraint_reads" where
  "memory_constraint_reads st =
     \<lparr>list_ssd = Inr (ssd_policies st), list_dsd = Inr (dsd_policies st),
      list_cardinality = Inr (cardinality st), list_prerequisite = Inr (prerequisites st),
      list_temporal = Inr (temporal st)\<rparr>"

subsection \<open>The validator\<close>

text \<open>A loop that returns the first violation.\<close>

fun first_violation :: "('a \<Rightarrow> bool) \<Rightarrow> ('a \<Rightarrow> violation) \<Rightarrow> 'a list \<Rightarrow> unit result" where
  "first_violation ok viol [] = Inr ()"
| "first_violation ok viol (x # xs) =
     (if \<not> ok x then Inl (ConstraintViolation (viol x)) else first_violation ok viol xs)"

definition validate_ssd :: "constraint_reads \<Rightarrow> string list \<Rightarrow> string \<Rightarrow> unit result" where
  "validate_ssd st current_roles new_role =
     and_then (list_ssd st) (\<lambda>policies.
       if new_role \<in> set current_roles then Inr ()
       else let test_roles = current_roles @ [new_role]
            in first_violation (\<lambda>p. sod_validate p test_roles)
                 (\<lambda>p. SsdViolated (sod_name p) new_role (sod_cardinality p)) policies)"

definition validate_dsd :: "constraint_reads \<Rightarrow> string list \<Rightarrow> string \<Rightarrow> unit result" where
  "validate_dsd st active_roles new_role =
     and_then (list_dsd st) (\<lambda>policies.
       if new_role \<in> set active_roles then Inr ()
       else let test_roles = active_roles @ [new_role]
            in first_violation (\<lambda>p. sod_validate p test_roles)
                 (\<lambda>p. DsdViolated (sod_name p) new_role (sod_cardinality p)) policies)"

definition validate_temporal :: "constraint_reads \<Rightarrow> instant \<Rightarrow> string \<Rightarrow> unit result" where
  "validate_temporal st now role =
     and_then (list_temporal st) (\<lambda>constraints.
       first_violation (\<lambda>c. \<not> (tc_role c = role \<and> \<not> tc_is_valid now c))
         (\<lambda>c. TemporalViolated role) constraints)"

definition validate_cardinality :: "constraint_reads \<Rightarrow> string \<Rightarrow> nat \<Rightarrow> unit result" where
  "validate_cardinality st role n =
     and_then (list_cardinality st) (\<lambda>constraints.
       first_violation (\<lambda>c. \<not> (cc_role c = role \<and> \<not> cc_validate c n))
         (\<lambda>c. CardinalityViolated role n (cc_max_subjects c)) constraints)"

definition validate_prerequisite :: "constraint_reads \<Rightarrow> string \<Rightarrow> string list \<Rightarrow> unit result" where
  "validate_prerequisite st role current_roles =
     and_then (list_prerequisite st) (\<lambda>constraints.
       first_violation (\<lambda>c. \<not> (pc_role c = role \<and> \<not> pc_validate c current_roles))
         (\<lambda>c. PrerequisiteViolated role (pc_requires c)) constraints)"

definition validate_assignment ::
  "constraint_reads \<Rightarrow> instant \<Rightarrow> string list \<Rightarrow> string \<Rightarrow> nat \<Rightarrow> unit result" where
  "validate_assignment st now current_roles new_role n =
     and_then (validate_ssd st current_roles new_role) (\<lambda>_.
       and_then (validate_cardinality st new_role n) (\<lambda>_.
         and_then (validate_prerequisite st new_role current_roles) (\<lambda>_.
           and_then (validate_temporal st now new_role) (\<lambda>_. Inr ()))))"

subsection \<open>Lemmas\<close>

lemma first_violation_ok: "first_violation ok viol xs = Inr u \<longleftrightarrow> (\<forall>x \<in> set xs. ok x)"
  by (induction xs) auto

lemma first_violation_find:
  "first_violation ok viol xs =
     (case find (\<lambda>x. \<not> ok x) xs of None \<Rightarrow> Inr () | Some x \<Rightarrow> Inl (ConstraintViolation (viol x)))"
  by (induction xs) auto

lemma first_violation_Inl: "first_violation ok viol xs = Inl e \<Longrightarrow> \<exists>v. e = ConstraintViolation v"
  by (auto simp: first_violation_find split: option.splits)

text \<open>The errors of one check: the store's, or a violation.\<close>

lemma validate_Inl:
  "validate_ssd st current new_role = Inl e \<Longrightarrow> list_ssd st = Inl e \<or> (\<exists>v. e = ConstraintViolation v)"
  "validate_cardinality st role n = Inl e \<Longrightarrow> list_cardinality st = Inl e \<or> (\<exists>v. e = ConstraintViolation v)"
  "validate_prerequisite st role current = Inl e \<Longrightarrow>
     list_prerequisite st = Inl e \<or> (\<exists>v. e = ConstraintViolation v)"
  "validate_temporal st now role = Inl e \<Longrightarrow> list_temporal st = Inl e \<or> (\<exists>v. e = ConstraintViolation v)"
  unfolding validate_ssd_def validate_cardinality_def validate_prerequisite_def validate_temporal_def
    and_then_eq_Inl Let_def
  by (auto dest: first_violation_Inl split: if_splits)

lemma sod_validate_mono:
  "sod_validate p roles \<Longrightarrow> sod_validate p (filter P roles)"
proof -
  have "length (filter Q (filter P roles)) \<le> length (filter Q roles)" for Q
    by (induction roles) auto
  then show "sod_validate p roles \<Longrightarrow> sod_validate p (filter P roles)"
    unfolding sod_validate_def by (rule le_less_trans)
qed

lemma sod_validate_card:
  "distinct roles \<Longrightarrow> sod_validate p roles \<longleftrightarrow> card (set roles \<inter> sod_roles p) < sod_cardinality p"
  by (simp add: sod_validate_def distinct_card [symmetric] Int_def conj_commute)

text \<open>The policies of a set of roles: the sizes that are allowed.\<close>

definition sod_satisfied :: "sod_policy list \<Rightarrow> string set \<Rightarrow> bool" where
  "sod_satisfied policies roles \<longleftrightarrow>
     (\<forall>p \<in> set policies. card (roles \<inter> sod_roles p) < sod_cardinality p)"

definition cardinality_ok :: "constraint_store \<Rightarrow> string \<Rightarrow> nat \<Rightarrow> bool" where
  "cardinality_ok st role n \<longleftrightarrow> (\<forall>c \<in> set (cardinality st). cc_role c = role \<longrightarrow> n < cc_max_subjects c)"

definition prerequisites_ok :: "constraint_store \<Rightarrow> string \<Rightarrow> string set \<Rightarrow> bool" where
  "prerequisites_ok st role held \<longleftrightarrow>
     (\<forall>c \<in> set (prerequisites st). pc_role c = role \<longrightarrow> pc_requires c \<in> held)"

definition temporal_ok :: "constraint_store \<Rightarrow> instant \<Rightarrow> string \<Rightarrow> bool" where
  "temporal_ok st now role \<longleftrightarrow>
     (\<forall>c \<in> set (temporal st). tc_role c = role \<longrightarrow> tc_valid_from c \<le> now \<and> now \<le> tc_valid_until c)"

lemma sod_all_validate:
  "distinct roles \<Longrightarrow> (\<forall>p \<in> set policies. sod_validate p roles) \<longleftrightarrow> sod_satisfied policies (set roles)"
  by (simp add: sod_satisfied_def sod_validate_card)

lemma sod_satisfied_subset:
  assumes "sod_satisfied policies R" "R' \<subseteq> R" "finite R"
  shows "sod_satisfied policies R'"
  unfolding sod_satisfied_def
proof
  fix p assume "p \<in> set policies"
  then have "card (R \<inter> sod_roles p) < sod_cardinality p" using assms(1) by (simp add: sod_satisfied_def)
  moreover have "card (R' \<inter> sod_roles p) \<le> card (R \<inter> sod_roles p)"
    using assms(2,3) by (intro card_mono) auto
  ultimately show "card (R' \<inter> sod_roles p) < sod_cardinality p" by simp
qed

text \<open>
  Over the in-memory store, an assignment of a new role passes exactly when afterwards
  every static separation policy still has fewer of its roles held than its cardinality, the
  role's bound is not reached, every prerequisite is held and every window of the role is open.
\<close>

theorem validate_assignment_exact:
  assumes "distinct current" and "new_role \<notin> set current"
  shows "validate_assignment (memory_constraint_reads st) now current new_role n = Inr () \<longleftrightarrow>
    sod_satisfied (ssd_policies st) (insert new_role (set current)) \<and>
    cardinality_ok st new_role n \<and> prerequisites_ok st new_role (set current) \<and>
    temporal_ok st now new_role"
proof -
  have "(\<forall>p \<in> set (ssd_policies st). sod_validate p (current @ [new_role])) \<longleftrightarrow>
      sod_satisfied (ssd_policies st) (insert new_role (set current))"
    using sod_all_validate [of "current @ [new_role]"] assms by simp
  then show ?thesis
    using assms(2)
    by (auto simp: validate_assignment_def validate_ssd_def validate_cardinality_def
        validate_prerequisite_def validate_temporal_def and_then_eq_Inr first_violation_ok
        memory_constraint_reads_def cardinality_ok_def prerequisites_ok_def temporal_ok_def
        cc_validate_def pc_validate_def tc_is_valid_def Let_def)
qed

text \<open>
  The gate fails closed: when any of the four lists cannot be read, an assignment is never
  accepted, and its error is either that failure or a violation found before it.
\<close>

theorem validate_assignment_fails_closed:
  assumes "\<not> is_ok (list_ssd st) \<or> \<not> is_ok (list_cardinality st) \<or> \<not> is_ok (list_prerequisite st) \<or>
    \<not> is_ok (list_temporal st)"
  shows "\<exists>e. validate_assignment st now current new_role n = Inl e \<and>
    (e \<in> {e. list_ssd st = Inl e \<or> list_cardinality st = Inl e \<or> list_prerequisite st = Inl e \<or>
       list_temporal st = Inl e} \<or> (\<exists>v. e = ConstraintViolation v))"
proof (cases "validate_assignment st now current new_role n")
  case (Inl e)
  then have "validate_ssd st current new_role = Inl e \<or> validate_cardinality st new_role n = Inl e \<or>
      validate_prerequisite st new_role current = Inl e \<or> validate_temporal st now new_role = Inl e"
    unfolding validate_assignment_def and_then_eq_Inl by auto
  with Inl show ?thesis using validate_Inl by blast
next
  case (Inr u)
  then have False
    using assms by (auto simp: validate_assignment_def validate_ssd_def validate_cardinality_def
        validate_prerequisite_def validate_temporal_def and_then_eq_Inr is_ok_iff)
  then show ?thesis ..
qed

text \<open>A payments policy: nobody may both create and approve.\<close>

definition demo_constraints :: constraint_store where
  "demo_constraints =
     snd (add_prerequisite_constraint (pc_new ''approve'' ''staff'')
       (snd (add_cardinality_constraint (cc_new ''approve'' 3)
         (snd (add_ssd_policy (sod_new ''pay'' {''create'', ''approve''} 2) constraint_store_new)))))"

lemma demo_constraints_eq:
  "demo_constraints =
     \<lparr>ssd_policies = [sod_new ''pay'' {''create'', ''approve''} 2], dsd_policies = [],
      cardinality = [cc_new ''approve'' 3], prerequisites = [pc_new ''approve'' ''staff''],
      temporal = []\<rparr>"
  by (simp add: demo_constraints_def add_prerequisite_constraint_def add_cardinality_constraint_def
      add_ssd_policy_def constraint_store_new_def)

theorem validate_assignment_exact_witness:
  "validate_assignment (memory_constraint_reads demo_constraints) 5 [''staff''] ''approve'' 2 = Inr ()"
proof -
  have "sod_satisfied (ssd_policies demo_constraints) (insert ''approve'' (set [''staff'']))"
    by (simp add: demo_constraints_eq sod_satisfied_def sod_new_def)
  then show ?thesis
    by (subst validate_assignment_exact)
      (simp_all add: demo_constraints_eq cardinality_ok_def prerequisites_ok_def temporal_ok_def
        cc_new_def pc_new_def)
qed

theorem validate_assignment_fails_closed_witness:
  "\<exists>e. validate_assignment ((memory_constraint_reads demo_constraints)\<lparr>list_temporal := Inl (Store ''down'')\<rparr>)
     5 [''staff''] ''approve'' 2 = Inl e"
  using validate_assignment_fails_closed
    [of "(memory_constraint_reads demo_constraints)\<lparr>list_temporal := Inl (Store ''down'')\<rparr>" 5 "[''staff'']"
      "''approve''" 2] by auto

end
