(* ===== verification/Rbac_Session.thy ===== *)
theory Rbac_Session
  imports Constraints Rbac_Traits
begin

text \<open>
  Role-activation sessions, \<^verbatim>\<open>src/rbac/session/mod.rs\<close>: \<^verbatim>\<open>InMemorySessionManager\<close> and the
  dynamic separation-of-duty gate in front of it. The manager's two maps are its state; the
  assignment store and the optional constraint store are read as they are at the time of the
  call; the clock and the fresh session identifier are arguments. A method that returns an
  error leaves the state as it was. The active roles, a \<^verbatim>\<open>HashSet<String>\<close>, are a list without
  repetitions, because the gate counts them in a vector.

  The reachable states are those of any sequence of calls over stores that may change between
  calls, with the set of policies fixed. The version counter is a 64-bit word that wraps.
\<close>

subsection \<open>The definitions\<close>

record 's session =
  session_id :: uuid
  session_subject :: 's
  active_roles :: "string list"
  session_ver :: u64
  session_created_at :: instant
  session_expires_at :: instant

definition session_is_expired :: "instant \<Rightarrow> 's session \<Rightarrow> bool" where
  "session_is_expired now s \<longleftrightarrow> now > session_expires_at s"

record 's session_manager =
  sessions :: "(uuid, 's session) hash_map"
  subject_versions :: "(string, u64) hash_map"

definition session_manager_new :: "'s session_manager" where
  "session_manager_new = \<lparr>sessions = [], subject_versions = []\<rparr>"

definition validate_dsd_with_store :: "string list \<Rightarrow> constraint_reads \<Rightarrow> unit result" where
  "validate_dsd_with_store roles cs =
     and_then (list_dsd cs) (\<lambda>policies.
       first_violation (\<lambda>p. sod_validate p roles) (\<lambda>p. DsdSetViolated (sod_name p) roles) policies)"

definition cleanup_expired :: "instant \<Rightarrow> 's session_manager \<Rightarrow> nat \<times> 's session_manager" where
  "cleanup_expired now m =
     (let kept = filter (\<lambda>(_, s). \<not> session_is_expired now s) (sessions m)
      in (length (sessions m) - length kept, m\<lparr>sessions := kept\<rparr>))"

definition version_of :: "('s \<Rightarrow> string) \<Rightarrow> 's session_manager \<Rightarrow> 's \<Rightarrow> u64" where
  "version_of sid m s = (case map_of (subject_versions m) (sid s) of Some v \<Rightarrow> v | None \<Rightarrow> 0)"

definition create_session ::
  "('s \<Rightarrow> string) \<Rightarrow> ('s \<Rightarrow> string list result) \<Rightarrow> constraint_reads option \<Rightarrow> uuid \<Rightarrow> instant \<Rightarrow>
     's \<Rightarrow> string list \<Rightarrow> int \<Rightarrow> 's session_manager \<Rightarrow> 's session result \<times> 's session_manager" where
  "create_session sid roles_of_s cs fresh now subject requested ttl m =
     (case roles_of_s subject of
        Inl e \<Rightarrow> (Inl e, m)
      | Inr assigned \<Rightarrow>
          let roles = filter (\<lambda>r. r \<in> set assigned) requested
          in case (case cs of Some store \<Rightarrow> validate_dsd_with_store roles store | None \<Rightarrow> Inr ()) of
               Inl e \<Rightarrow> (Inl e, m)
             | Inr u \<Rightarrow>
                 let session = \<lparr>session_id = fresh, session_subject = subject, active_roles = roles,
                       session_ver = version_of sid m subject, session_created_at = now,
                       session_expires_at = now + ttl\<rparr>
                 in (Inr session, m\<lparr>sessions := AList.update fresh session (sessions m)\<rparr>))"

definition activate_role ::
  "('s \<Rightarrow> string list result) \<Rightarrow> constraint_reads option \<Rightarrow> instant \<Rightarrow> uuid \<Rightarrow> string \<Rightarrow>
     's session_manager \<Rightarrow> unit result \<times> 's session_manager" where
  "activate_role roles_of_s cs now sess role m =
     (case map_of (sessions m) sess of
        None \<Rightarrow> (Inl SessionNotFound, m)
      | Some session \<Rightarrow>
          if session_is_expired now session then (Inl SessionExpired, m)
          else if role \<in> set (active_roles session) then (Inr (), m)
          else (case roles_of_s (session_subject session) of
                  Inl e \<Rightarrow> (Inl e, m)
                | Inr assigned \<Rightarrow>
                    if role \<notin> set assigned then (Inl (NotFound role), m)
                    else
                      let test_roles = List.insert role (active_roles session)
                      in case (case cs of Some store \<Rightarrow> validate_dsd_with_store test_roles store
                               | None \<Rightarrow> Inr ()) of
                           Inl e \<Rightarrow> (Inl e, m)
                         | Inr u \<Rightarrow>
                             (Inr (), m\<lparr>sessions := AList.update sess
                                (session\<lparr>active_roles := List.insert role (active_roles session)\<rparr>)
                                (sessions m)\<rparr>)))"

definition deactivate_role ::
  "instant \<Rightarrow> uuid \<Rightarrow> string \<Rightarrow> 's session_manager \<Rightarrow> unit result \<times> 's session_manager" where
  "deactivate_role now sess role m =
     (case map_of (sessions m) sess of
        None \<Rightarrow> (Inl SessionNotFound, m)
      | Some session \<Rightarrow>
          if session_is_expired now session then (Inl SessionExpired, m)
          else (Inr (), m\<lparr>sessions := AList.update sess
                 (session\<lparr>active_roles := filter (\<lambda>r. r \<noteq> role) (active_roles session)\<rparr>)
                 (sessions m)\<rparr>))"

definition get_session :: "uuid \<Rightarrow> 's session_manager \<Rightarrow> 's session option result" where
  "get_session sess m = Inr (map_of (sessions m) sess)"

definition destroy_session :: "uuid \<Rightarrow> 's session_manager \<Rightarrow> unit result \<times> 's session_manager" where
  "destroy_session sess m = (Inr (), m\<lparr>sessions := AList.delete sess (sessions m)\<rparr>)"

definition revoke_all_for_subject ::
  "('s \<Rightarrow> string) \<Rightarrow> 's \<Rightarrow> 's session_manager \<Rightarrow> nat result \<times> 's session_manager" where
  "revoke_all_for_subject sid subject m =
     (let kept = filter (\<lambda>(_, s). sid (session_subject s) \<noteq> sid subject) (sessions m)
      in (Inr (length (sessions m) - length kept), m\<lparr>sessions := kept\<rparr>))"

definition current_version :: "('s \<Rightarrow> string) \<Rightarrow> 's \<Rightarrow> 's session_manager \<Rightarrow> u64 result" where
  "current_version sid subject m = Inr (version_of sid m subject)"

definition bump_version_for_subject ::
  "('s \<Rightarrow> string) \<Rightarrow> 's \<Rightarrow> 's session_manager \<Rightarrow> u64 result \<times> 's session_manager" where
  "bump_version_for_subject sid subject m =
     (let v = version_of sid m subject + 1
      in (Inr v, m\<lparr>subject_versions := AList.update (sid subject) v (subject_versions m)\<rparr>))"

subsection \<open>Reachable states\<close>

text \<open>
  \<open>policies\<close> are the dynamic policies of the attached store; \<open>roles_of_s\<close> is the assignment
  store at the time of a call, and \<open>cs\<close> the constraint store, which may also fail.
\<close>

definition enforces :: "sod_policy list \<Rightarrow> constraint_reads option \<Rightarrow> bool" where
  "enforces policies cs \<longleftrightarrow>
     (\<exists>store. cs = Some store \<and> (is_ok (list_dsd store) \<longrightarrow> list_dsd store = Inr policies))"

inductive managed :: "('s \<Rightarrow> string) \<Rightarrow> sod_policy list \<Rightarrow> 's session_manager \<Rightarrow> bool"
  for sid :: "'s \<Rightarrow> string" and policies :: "sod_policy list" where
  init: "managed sid policies session_manager_new"
| create: "managed sid policies m \<Longrightarrow> enforces policies cs \<Longrightarrow> distinct requested \<Longrightarrow>
    managed sid policies (snd (create_session sid roles_of_s cs fresh now subject requested ttl m))"
| activate: "managed sid policies m \<Longrightarrow> enforces policies cs \<Longrightarrow>
    managed sid policies (snd (activate_role roles_of_s cs now sess role m))"
| deactivate: "managed sid policies m \<Longrightarrow>
    managed sid policies (snd (deactivate_role now sess role m))"
| destroy: "managed sid policies m \<Longrightarrow> managed sid policies (snd (destroy_session sess m))"
| revoke: "managed sid policies m \<Longrightarrow>
    managed sid policies (snd (revoke_all_for_subject sid subject m))"
| cleanup: "managed sid policies m \<Longrightarrow> managed sid policies (snd (cleanup_expired now m))"
| bump: "managed sid policies m \<Longrightarrow> version_of sid m subject \<noteq> - 1 \<Longrightarrow>
    managed sid policies (snd (bump_version_for_subject sid subject m))"

text \<open>The invariant, session by session.\<close>

definition session_ok :: "('s \<Rightarrow> string) \<Rightarrow> sod_policy list \<Rightarrow> 's session_manager \<Rightarrow> 's session \<Rightarrow> bool" where
  "session_ok sid policies m s \<longleftrightarrow>
     distinct (active_roles s) \<and> sod_satisfied policies (set (active_roles s)) \<and>
     session_ver s \<le> version_of sid m (session_subject s)"

definition manager_inv :: "('s \<Rightarrow> string) \<Rightarrow> sod_policy list \<Rightarrow> 's session_manager \<Rightarrow> bool" where
  "manager_inv sid policies m \<longleftrightarrow> hm_wf (sessions m) \<and>
     (\<forall>k s. map_of (sessions m) k = Some s \<longrightarrow> session_ok sid policies m s)"

lemma gate_ok:
  assumes "enforces policies cs" "distinct roles"
    and "(case cs of Some store \<Rightarrow> validate_dsd_with_store roles store | None \<Rightarrow> Inr ()) = Inr u"
  shows "sod_satisfied policies (set roles)"
  using assms
  by (auto simp: enforces_def validate_dsd_with_store_def and_then_eq_Inr first_violation_ok
      sod_all_validate is_ok_iff)

lemma session_ok_same_versions:
  "subject_versions m' = subject_versions m \<Longrightarrow> session_ok sid policies m' s = session_ok sid policies m s"
  by (simp add: session_ok_def version_of_def)

lemma manager_inv_update:
  assumes "manager_inv sid policies m" "session_ok sid policies m s"
  shows "manager_inv sid policies (m\<lparr>sessions := AList.update k s (sessions m)\<rparr>)"
  using assms by (auto simp: manager_inv_def hm_simps session_ok_def version_of_def)

lemma manager_inv_filter:
  "manager_inv sid policies m \<Longrightarrow> manager_inv sid policies (m\<lparr>sessions := filter P (sessions m)\<rparr>)"
  by (auto simp: manager_inv_def hm_map_of_filter session_ok_def version_of_def
      split: option.splits if_splits)

lemma manager_inv_delete:
  "manager_inv sid policies m \<Longrightarrow> manager_inv sid policies (m\<lparr>sessions := AList.delete k (sessions m)\<rparr>)"
  by (auto simp: manager_inv_def hm_simps session_ok_def version_of_def split: if_splits)

lemma word_less_add_one: "(v :: u64) \<noteq> - 1 \<Longrightarrow> v < v + 1"
  by (metis add.commute add_eq_0_iff lessI unatSuc word_less_nat_alt)

lemma manager_inv_bump:
  assumes "manager_inv sid policies m" "version_of sid m subject \<noteq> - 1"
  shows "manager_inv sid policies (snd (bump_version_for_subject sid subject m))"
proof -
  let ?m = "snd (bump_version_for_subject sid subject m)"
  have "version_of sid m s \<le> version_of sid ?m s" for s
    using word_less_add_one [OF assms(2)]
    by (auto simp: bump_version_for_subject_def Let_def version_of_def hm_simps split: option.splits)
  then have "session_ok sid policies m s \<Longrightarrow> session_ok sid policies ?m s" for s
    unfolding session_ok_def by (meson order_trans)
  moreover have "sessions ?m = sessions m" by (simp add: bump_version_for_subject_def Let_def)
  ultimately show ?thesis using assms(1) by (simp add: manager_inv_def)
qed

lemma managed_inv: "managed sid policies m \<Longrightarrow> manager_inv sid policies m"
proof (induction rule: managed.induct)
  case init
  show ?case by (simp add: manager_inv_def session_manager_new_def)
next
  case (create m cs requested roles_of_s fresh now subject ttl)
  show ?case
  proof (cases "fst (create_session sid roles_of_s cs fresh now subject requested ttl m)")
    case (Inl e)
    then show ?thesis using create.IH
      by (simp add: create_session_def Let_def split: sum.splits)
  next
    case (Inr s)
    then have "session_ok sid policies m s" and
      "snd (create_session sid roles_of_s cs fresh now subject requested ttl m) =
        m\<lparr>sessions := AList.update fresh s (sessions m)\<rparr>"
      using gate_ok [OF create.hyps(2)] create.hyps(3)
      by (auto simp: create_session_def Let_def session_ok_def simp del: set_filter split: sum.splits)
    with create.IH show ?thesis by (simp add: manager_inv_update)
  qed
next
  case (activate m cs roles_of_s now sess role)
  show ?case
  proof (cases "snd (activate_role roles_of_s cs now sess role m) = m")
    case False
    then obtain s u where s: "map_of (sessions m) sess = Some s"
      and gate: "(case cs of Some store \<Rightarrow> validate_dsd_with_store (List.insert role (active_roles s)) store
         | None \<Rightarrow> Inr ()) = Inr u"
      and eq: "snd (activate_role roles_of_s cs now sess role m) = m\<lparr>sessions := AList.update sess
         (s\<lparr>active_roles := List.insert role (active_roles s)\<rparr>) (sessions m)\<rparr>"
      by (auto simp: activate_role_def Let_def split: option.splits sum.splits if_splits)
    have ok: "session_ok sid policies m s" using activate.IH s by (simp add: manager_inv_def)
    have "distinct (List.insert role (active_roles s))"
      using ok by (simp add: session_ok_def distinct_insert)
    from gate_ok [OF activate.hyps(2) this gate] ok have
      "session_ok sid policies m (s\<lparr>active_roles := List.insert role (active_roles s)\<rparr>)"
      by (simp add: session_ok_def distinct_insert)
    with eq activate.IH show ?thesis by (simp add: manager_inv_update)
  qed (use activate.IH in simp)
next
  case (deactivate m now sess role)
  show ?case
  proof (cases "snd (deactivate_role now sess role m) = m")
    case False
    then obtain s where s: "map_of (sessions m) sess = Some s"
      and eq: "snd (deactivate_role now sess role m) = m\<lparr>sessions := AList.update sess
         (s\<lparr>active_roles := filter (\<lambda>r. r \<noteq> role) (active_roles s)\<rparr>) (sessions m)\<rparr>"
      by (auto simp: deactivate_role_def split: option.splits if_splits)
    have ok: "session_ok sid policies m s" using deactivate.IH s by (simp add: manager_inv_def)
    then have "session_ok sid policies m (s\<lparr>active_roles := filter (\<lambda>r. r \<noteq> role) (active_roles s)\<rparr>)"
      using sod_satisfied_subset [of policies "set (active_roles s)" "set (filter (\<lambda>r. r \<noteq> role) (active_roles s))"]
      by (auto simp: session_ok_def)
    with eq deactivate.IH show ?thesis by (simp add: manager_inv_update)
  qed (use deactivate.IH in simp)
next
  case (destroy m sess)
  then show ?case by (simp add: destroy_session_def manager_inv_delete)
next
  case (revoke m subject)
  then show ?case by (simp add: revoke_all_for_subject_def Let_def manager_inv_filter)
next
  case (cleanup m now)
  then show ?case by (simp add: cleanup_expired_def Let_def manager_inv_filter)
next
  case (bump m subject)
  then show ?case by (simp add: manager_inv_bump)
qed

subsection \<open>What the manager guarantees\<close>

text \<open>
  C3: in every reachable state, no session ever has a set of active roles that breaks a
  dynamic separation policy of the attached store, whatever was requested, activated or
  deactivated, and whether or not the stores failed in between.
\<close>

theorem no_session_breaks_dsd:
  assumes "managed sid policies m" and "map_of (sessions m) k = Some s" and "p \<in> set policies"
  shows "card (set (active_roles s) \<inter> sod_roles p) < sod_cardinality p"
  using managed_inv [OF assms(1)] assms(2,3)
  by (auto simp: manager_inv_def session_ok_def sod_satisfied_def)

text \<open>
  Bumping a subject's version makes every session of that subject that exists at that
  moment stale, short of the wrap of the counter, and makes no other subject's session stale.
\<close>

theorem bump_makes_all_stale:
  assumes "managed sid policies m" and "version_of sid m subject \<noteq> - 1"
    and "bump_version_for_subject sid subject m = (r, m')"
    and "map_of (sessions m') k = Some s"
  shows "r = Inr (version_of sid m' subject) \<and>
    (if sid (session_subject s) = sid subject
     then session_ver s < version_of sid m' (session_subject s)
     else version_of sid m' (session_subject s) = version_of sid m (session_subject s))"
proof -
  have m': "sessions m' = sessions m" "r = Inr (version_of sid m subject + 1)"
    "subject_versions m' = AList.update (sid subject) (version_of sid m subject + 1) (subject_versions m)"
    using assms(3) by (auto simp: bump_version_for_subject_def Let_def)
  have v: "version_of sid m' x = (if sid x = sid subject then version_of sid m subject + 1
      else version_of sid m x)" for x
    by (simp add: version_of_def m' hm_simps)
  have "session_ver s \<le> version_of sid m (session_subject s)"
    using managed_inv [OF assms(1)] assms(4) by (simp add: m' manager_inv_def session_ok_def)
  moreover have "version_of sid m (session_subject s) = version_of sid m subject"
    if "sid (session_subject s) = sid subject" using that by (simp add: version_of_def)
  ultimately show ?thesis
    using word_less_add_one [OF assms(2)] by (auto simp: v m' intro: le_less_trans)
qed

text \<open>
  At the wrap the mechanism fails: bumping the last version yields 0, and no session, of
  whatever version, is stale against it.
\<close>

theorem bump_wraps_to_no_stale:
  assumes "version_of sid m subject = - 1"
  shows "fst (bump_version_for_subject sid subject m) = Inr 0 \<and>
    \<not> v < version_of sid (snd (bump_version_for_subject sid subject m)) subject"
  using assms by (simp add: bump_version_for_subject_def Let_def version_of_def hm_simps)

text \<open>
  A created session's roles are the requested ones that the subject holds; revoking a
  subject removes exactly that subject's sessions and counts them.
\<close>

theorem create_filters_revoke_clears:
  "(fst (create_session sid roles_of_s cs fresh now subject requested ttl m) = Inr s \<longrightarrow>
      (\<exists>assigned. roles_of_s subject = Inr assigned \<and>
         set (active_roles s) = set requested \<inter> set assigned \<and>
         session_ver s = version_of sid m subject \<and> session_expires_at s = now + ttl)) \<and>
   (hm_wf (sessions m) \<longrightarrow>
      (\<forall>k. map_of (sessions (snd (revoke_all_for_subject sid subject m))) k =
         (case map_of (sessions m) k of None \<Rightarrow> None
          | Some x \<Rightarrow> if sid (session_subject x) = sid subject then None else Some x)))"
  by (auto simp: create_session_def Let_def revoke_all_for_subject_def hm_map_of_filter
      split: sum.splits option.splits)

subsection \<open>Witnesses\<close>

definition demo_dsd :: "sod_policy list" where
  "demo_dsd = [sod_new ''pay'' {''create'', ''approve''} 2]"

definition demo_dsd_reads :: constraint_reads where
  "demo_dsd_reads = memory_constraint_reads (constraint_store_new\<lparr>dsd_policies := demo_dsd\<rparr>)"

definition demo_manager :: "string session_manager" where
  "demo_manager = snd (create_session id (\<lambda>_. Inr [''create'', ''approve'']) (Some demo_dsd_reads) 1 0
     ''u'' [''create''] 100 session_manager_new)"

lemma demo_enforces: "enforces demo_dsd (Some demo_dsd_reads)"
  by (simp add: enforces_def demo_dsd_reads_def memory_constraint_reads_def)

lemma demo_managed: "managed id demo_dsd demo_manager"
  unfolding demo_manager_def by (intro managed.create managed.init demo_enforces) simp

lemma demo_manager_sessions:
  "sessions demo_manager = [(1, \<lparr>session_id = 1, session_subject = ''u'', active_roles = [''create''],
     session_ver = 0, session_created_at = 0, session_expires_at = 100\<rparr>)]"
  "subject_versions demo_manager = []"
  by (simp_all add: demo_manager_def create_session_def session_manager_new_def demo_dsd_reads_def
      memory_constraint_reads_def validate_dsd_with_store_def demo_dsd_def sod_validate_def sod_new_def
      version_of_def Let_def)

theorem no_session_breaks_dsd_witness:
  "card (set [''create''] \<inter> sod_roles (sod_new ''pay'' {''create'', ''approve''} 2)) < 2 \<and>
   managed id demo_dsd (snd (activate_role (\<lambda>_. Inr [''create'', ''approve'']) (Some demo_dsd_reads) 5 1
     ''approve'' demo_manager))"
proof
  show "card (set [''create''] \<inter> sod_roles (sod_new ''pay'' {''create'', ''approve''} 2)) < 2"
    using no_session_breaks_dsd [OF demo_managed, of 1, unfolded demo_manager_sessions]
    by (simp add: demo_dsd_def sod_new_def)
qed (intro managed.activate demo_managed demo_enforces)

theorem bump_makes_all_stale_witness:
  "session_ver (the (map_of (sessions demo_manager) 1)) <
   version_of id (snd (bump_version_for_subject id ''u'' demo_manager)) ''u''"
proof -
  have v: "version_of id demo_manager ''u'' \<noteq> - 1"
    by (simp add: version_of_def demo_manager_sessions)
  have s: "map_of (sessions (snd (bump_version_for_subject id ''u'' demo_manager))) 1 =
      Some (the (map_of (sessions demo_manager) 1))"
    by (simp add: bump_version_for_subject_def Let_def demo_manager_sessions)
  from bump_makes_all_stale [OF demo_managed v surjective_pairing s] show ?thesis
    by (simp add: demo_manager_sessions)
qed

theorem bump_wraps_to_no_stale_witness:
  "fst (bump_version_for_subject id ''u'' (demo_manager\<lparr>subject_versions := [(''u'', - 1)]\<rparr>)) = Inr 0"
  using bump_wraps_to_no_stale [of id "demo_manager\<lparr>subject_versions := [(''u'', - 1)]\<rparr>" "''u''"]
  by (simp add: version_of_def)

theorem create_filters_revoke_clears_witness:
  "map_of (sessions (snd (revoke_all_for_subject id ''u'' demo_manager))) 1 = None"
  using create_filters_revoke_clears [where sid = id and m = demo_manager and subject = "''u''"]
  by (simp add: demo_manager_sessions hm_wf_def)

end
