(* ===== verification/Db_Session.thy ===== *)
theory Db_Session
  imports Rbac_Session
begin

text \<open>
  \<^verbatim>\<open>src/rbac/session/db.rs\<close>: sessions in a store that several replicas share. The store, the trait
  \<^verbatim>\<open>PersistentSessionStore\<close> of \<^verbatim>\<open>src/rbac/store/persistence.rs\<close>, is a record of its operations on
  a state of any type; what its documentation promises is \<open>rows_safe\<close> (an operation touches
  the rows it names only, whether or not it succeeds) and \<open>rows_exact\<close> (the operations of a store
  that does not fail). Activation and deactivation read a row and write it later, in two
  accesses, so the replicas are a step relation over the writes they still have to do.
\<close>

subsection \<open>The store\<close>

record session_row =
  sr_id :: uuid
  sr_subject_id :: string
  sr_active_roles :: "string list"
  sr_context :: "string option"
  sr_version :: u64
  sr_expires_at :: instant
  sr_created_at :: instant

record 'st session_rows =
  pr_save :: "session_row \<Rightarrow> 'st \<Rightarrow> unit result \<times> 'st"
  pr_load :: "uuid \<Rightarrow> 'st \<Rightarrow> session_row option result"
  pr_delete :: "uuid \<Rightarrow> 'st \<Rightarrow> unit result \<times> 'st"
  pr_update_roles :: "uuid \<Rightarrow> string list \<Rightarrow> 'st \<Rightarrow> unit result \<times> 'st"
  pr_cleanup :: "instant \<Rightarrow> 'st \<Rightarrow> nat result \<times> 'st"
  pr_metadata :: "string \<Rightarrow> 'st \<Rightarrow> session_row option result"
  pr_bump :: "string \<Rightarrow> u64 \<Rightarrow> 'st \<Rightarrow> unit result \<times> 'st"

text \<open>A session as it is rebuilt from a row keeps the context of the row.\<close>

record 's db_session = "'s session" +
  session_context :: "string option"

subsection \<open>The manager\<close>

definition dsd_gate :: "constraint_reads option \<Rightarrow> string list \<Rightarrow> unit result" where
  "dsd_gate cs roles = (case cs of Some store \<Rightarrow> validate_dsd_with_store roles store | None \<Rightarrow> Inr ())"

definition db_create_session ::
  "'st session_rows \<Rightarrow> ('s \<Rightarrow> string) \<Rightarrow> ('s \<Rightarrow> string list result) \<Rightarrow> constraint_reads option \<Rightarrow> uuid \<Rightarrow>
   instant \<Rightarrow> 's \<Rightarrow> string list \<Rightarrow> int \<Rightarrow> 'st \<Rightarrow> 's db_session result \<times> 'st" where
  "db_create_session ops sid roles_of_s cs fresh now subject requested ttl st =
     (case roles_of_s subject of
        Inl e \<Rightarrow> (Inl e, st)
      | Inr assigned \<Rightarrow>
          let roles = filter (\<lambda>r. r \<in> set assigned) requested
          in case dsd_gate cs roles of
               Inl e \<Rightarrow> (Inl e, st)
             | Inr u \<Rightarrow>
                 let session = \<lparr>session_id = fresh, session_subject = subject, active_roles = roles,
                       session_ver = 0, session_created_at = now, session_expires_at = now + ttl,
                       session_context = None\<rparr>;
                     row = \<lparr>sr_id = fresh, sr_subject_id = sid subject, sr_active_roles = roles,
                       sr_context = None, sr_version = 0, sr_expires_at = now + ttl, sr_created_at = now\<rparr>
                 in (case pr_save ops row st of
                       (Inl e, st') \<Rightarrow> (Inl e, st')
                     | (Inr v, st') \<Rightarrow> (Inr session, st')))"

text \<open>A subject identifier of a row, read back.\<close>

definition row_subject :: "(string \<Rightarrow> 's result) \<Rightarrow> session_row \<Rightarrow> 's result" where
  "row_subject parse row =
     (case parse (sr_subject_id row) of Inl _ \<Rightarrow> Inl (Store ''invalid subject_id in session'') | Inr s \<Rightarrow> Inr s)"

text \<open>The first access of an activation: done already, or the list to write.\<close>

definition db_activate_load ::
  "'st session_rows \<Rightarrow> (string \<Rightarrow> 's result) \<Rightarrow> ('s \<Rightarrow> string list result) \<Rightarrow> constraint_reads option \<Rightarrow>
   instant \<Rightarrow> uuid \<Rightarrow> string \<Rightarrow> 'st \<Rightarrow> string list option result" where
  "db_activate_load ops parse roles_of_s cs now sess role st =
     and_then (pr_load ops sess st) (\<lambda>found.
       case found of
         None \<Rightarrow> Inl SessionNotFound
       | Some row \<Rightarrow>
           if now > sr_expires_at row then Inl SessionExpired
           else
             let roles = remdups (sr_active_roles row)
             in if role \<in> set roles then Inr None
                else
                  and_then (row_subject parse row) (\<lambda>subject.
                  and_then (roles_of_s subject) (\<lambda>assigned.
                    if role \<notin> set assigned then Inl (NotFound role)
                    else
                      let roles' = List.insert role roles
                      in and_then (dsd_gate cs roles') (\<lambda>_. Inr (Some roles')))))"

definition db_activate_role ::
  "'st session_rows \<Rightarrow> (string \<Rightarrow> 's result) \<Rightarrow> ('s \<Rightarrow> string list result) \<Rightarrow> constraint_reads option \<Rightarrow>
   instant \<Rightarrow> uuid \<Rightarrow> string \<Rightarrow> 'st \<Rightarrow> unit result \<times> 'st" where
  "db_activate_role ops parse roles_of_s cs now sess role st =
     (case db_activate_load ops parse roles_of_s cs now sess role st of
        Inl e \<Rightarrow> (Inl e, st)
      | Inr None \<Rightarrow> (Inr (), st)
      | Inr (Some roles) \<Rightarrow> pr_update_roles ops sess roles st)"

definition db_deactivate_load ::
  "'st session_rows \<Rightarrow> instant \<Rightarrow> uuid \<Rightarrow> string \<Rightarrow> 'st \<Rightarrow> string list result" where
  "db_deactivate_load ops now sess role st =
     and_then (pr_load ops sess st) (\<lambda>found.
       case found of
         None \<Rightarrow> Inl SessionNotFound
       | Some row \<Rightarrow>
           if now > sr_expires_at row then Inl SessionExpired
           else Inr (filter (\<lambda>r. r \<noteq> role) (remdups (sr_active_roles row))))"

definition db_deactivate_role ::
  "'st session_rows \<Rightarrow> instant \<Rightarrow> uuid \<Rightarrow> string \<Rightarrow> 'st \<Rightarrow> unit result \<times> 'st" where
  "db_deactivate_role ops now sess role st =
     (case db_deactivate_load ops now sess role st of
        Inl e \<Rightarrow> (Inl e, st)
      | Inr roles \<Rightarrow> pr_update_roles ops sess roles st)"

definition db_get_session ::
  "'st session_rows \<Rightarrow> (string \<Rightarrow> 's result) \<Rightarrow> uuid \<Rightarrow> 'st \<Rightarrow> 's db_session option result" where
  "db_get_session ops parse sess st =
     and_then (pr_load ops sess st) (\<lambda>found.
       case found of
         None \<Rightarrow> Inr None
       | Some r \<Rightarrow>
           and_then (row_subject parse r) (\<lambda>subject.
             Inr (Some \<lparr>session_id = sr_id r, session_subject = subject,
               active_roles = remdups (sr_active_roles r), session_ver = sr_version r,
               session_created_at = sr_created_at r, session_expires_at = sr_expires_at r,
               session_context = sr_context r\<rparr>)))"

definition db_destroy_session :: "'st session_rows \<Rightarrow> uuid \<Rightarrow> 'st \<Rightarrow> unit result \<times> 'st" where
  "db_destroy_session ops sess st = pr_delete ops sess st"

definition db_cleanup_expired :: "'st session_rows \<Rightarrow> instant \<Rightarrow> 'st \<Rightarrow> nat result \<times> 'st" where
  "db_cleanup_expired ops now st = pr_cleanup ops now st"

text \<open>Revoking a subject works on the assignment store: its roles go, one by one.\<close>

fun revoke_roles :: "('s \<Rightarrow> string \<Rightarrow> 'a \<Rightarrow> unit result \<times> 'a) \<Rightarrow> 's \<Rightarrow> string list \<Rightarrow> 'a \<Rightarrow> unit result \<times> 'a" where
  "revoke_roles revoke subject [] a = (Inr (), a)"
| "revoke_roles revoke subject (role # roles) a =
     (case revoke subject role a of
        (Inl e, a') \<Rightarrow> (Inl e, a')
      | (Inr u, a') \<Rightarrow> revoke_roles revoke subject roles a')"

definition db_revoke_all_for_subject ::
  "('a \<Rightarrow> 's \<Rightarrow> string list result) \<Rightarrow> ('s \<Rightarrow> string \<Rightarrow> 'a \<Rightarrow> unit result \<times> 'a) \<Rightarrow> 's \<Rightarrow> 'a \<Rightarrow>
   nat result \<times> 'a" where
  "db_revoke_all_for_subject roles_in revoke subject a =
     (case roles_in a subject of
        Inl e \<Rightarrow> (Inl e, a)
      | Inr assignments \<Rightarrow>
          (case revoke_roles revoke subject assignments a of
             (Inl e, a') \<Rightarrow> (Inl e, a')
           | (Inr u, a') \<Rightarrow> (Inr (length assignments), a')))"

definition db_current_version :: "'st session_rows \<Rightarrow> ('s \<Rightarrow> string) \<Rightarrow> 's \<Rightarrow> 'st \<Rightarrow> u64 result" where
  "db_current_version ops sid subject st =
     and_then (pr_metadata ops (sid subject) st) (\<lambda>session.
       Inr (case session of Some s \<Rightarrow> sr_version s | None \<Rightarrow> 0))"

definition db_bump_version_for_subject ::
  "'st session_rows \<Rightarrow> ('s \<Rightarrow> string) \<Rightarrow> 's \<Rightarrow> 'st \<Rightarrow> u64 result \<times> 'st" where
  "db_bump_version_for_subject ops sid subject st =
     (case db_current_version ops sid subject st of
        Inl e \<Rightarrow> (Inl e, st)
      | Inr current \<Rightarrow>
          let next = current + 1
          in (case pr_bump ops (sid subject) next st of
                (Inl e, st') \<Rightarrow> (Inl e, st')
              | (Inr u, st') \<Rightarrow> (Inr next, st')))"

subsection \<open>What the store promises\<close>

text \<open>
  \<open>view\<close> is what the store holds. A call that fails may or may not have taken effect; a new
  version may touch rows, but not their roles.
\<close>

definition roles_at :: "(uuid \<Rightarrow> session_row option) \<Rightarrow> uuid \<Rightarrow> string list option" where
  "roles_at v i = map_option sr_active_roles (v i)"

definition rows_safe :: "'st session_rows \<Rightarrow> ('st \<Rightarrow> uuid \<Rightarrow> session_row option) \<Rightarrow> bool" where
  "rows_safe ops view \<longleftrightarrow>
     (\<forall>i st x. pr_load ops i st = Inr x \<longrightarrow> x = view st i) \<and>
     (\<forall>row st i. roles_at (view (snd (pr_save ops row st))) i \<in>
        {roles_at (view st) i, if i = sr_id row then Some (sr_active_roles row) else roles_at (view st) i}) \<and>
     (\<forall>sess st i. roles_at (view (snd (pr_delete ops sess st))) i \<in> {roles_at (view st) i, None}) \<and>
     (\<forall>now st i. roles_at (view (snd (pr_cleanup ops now st))) i \<in> {roles_at (view st) i, None}) \<and>
     (\<forall>s v st i. roles_at (view (snd (pr_bump ops s v st))) i = roles_at (view st) i) \<and>
     (\<forall>sess roles st i. roles_at (view (snd (pr_update_roles ops sess roles st))) i \<in>
        {roles_at (view st) i, if i = sess then Some roles else roles_at (view st) i})"

definition rows_exact :: "'st session_rows \<Rightarrow> ('st \<Rightarrow> uuid \<Rightarrow> session_row option) \<Rightarrow> bool" where
  "rows_exact ops view \<longleftrightarrow>
     (\<forall>i st. pr_load ops i st = Inr (view st i)) \<and>
     (\<forall>row st. fst (pr_save ops row st) = Inr () \<and> view (snd (pr_save ops row st)) = (view st)(sr_id row \<mapsto> row)) \<and>
     (\<forall>sess st. fst (pr_delete ops sess st) = Inr () \<and> view (snd (pr_delete ops sess st)) = (view st)(sess := None)) \<and>
     (\<forall>sess roles st row. view st sess = Some row \<longrightarrow> fst (pr_update_roles ops sess roles st) = Inr () \<and>
        view (snd (pr_update_roles ops sess roles st)) = (view st)(sess \<mapsto> row\<lparr>sr_active_roles := roles\<rparr>))"

text \<open>A table that satisfies both: the rows, and the versions of the subjects.\<close>

type_synonym session_table = "(uuid, session_row) hash_map \<times> (string, u64) hash_map"

definition table_rows :: "session_table session_rows" where
  "table_rows = \<lparr>
     pr_save = \<lambda>row (rows, vs). (Inr (), (AList.update (sr_id row) row rows, vs)),
     pr_load = \<lambda>i (rows, vs). Inr (map_of rows i),
     pr_delete = \<lambda>i (rows, vs). (Inr (), (AList.delete i rows, vs)),
     pr_update_roles = \<lambda>i roles (rows, vs).
       (case map_of rows i of
          None \<Rightarrow> (Inl SessionNotFound, (rows, vs))
        | Some row \<Rightarrow> (Inr (), (AList.update i (row\<lparr>sr_active_roles := roles\<rparr>) rows, vs))),
     pr_cleanup = \<lambda>now (rows, vs).
       (Inr (length (filter (\<lambda>(_, r). now > sr_expires_at r) rows)),
        (AList.restrict {i. \<exists>r. map_of rows i = Some r \<and> \<not> now > sr_expires_at r} rows, vs)),
     pr_metadata = \<lambda>s (rows, vs). Inr (map_option (\<lambda>v. \<lparr>sr_id = 0, sr_subject_id = s, sr_active_roles = [],
       sr_context = None, sr_version = v, sr_expires_at = 0, sr_created_at = 0\<rparr>) (map_of vs s)),
     pr_bump = \<lambda>s v (rows, vs). (Inr (), (rows, AList.update s v vs))\<rparr>"

lemma table_rows_exact: "rows_exact table_rows (map_of \<circ> fst)"
  by (auto simp: rows_exact_def table_rows_def hm_simps fun_eq_iff)

lemma table_rows_safe: "rows_safe table_rows (map_of \<circ> fst)"
  by (auto simp: rows_safe_def table_rows_def roles_at_def hm_simps AList.restr_conv restrict_map_def split: option.splits)

subsection \<open>Replicas\<close>

text \<open>
  A configuration is the store with the writes that replicas have decided on and not done yet. A
  replica may also never write, the order of writes is free, and the stores for assignments and
  constraints may change or fail between steps, with the policies fixed.
\<close>

inductive db_step ::
  "'st session_rows \<Rightarrow> ('s \<Rightarrow> string) \<Rightarrow> (string \<Rightarrow> 's result) \<Rightarrow> sod_policy list \<Rightarrow>
   'st \<times> (uuid \<times> string list) list \<Rightarrow> 'st \<times> (uuid \<times> string list) list \<Rightarrow> bool"
  for ops :: "'st session_rows" and sid :: "'s \<Rightarrow> string" and parse :: "string \<Rightarrow> 's result"
    and policies :: "sod_policy list" where
  create: "enforces policies cs \<Longrightarrow> distinct requested \<Longrightarrow>
    db_step ops sid parse policies (st, ws)
      (snd (db_create_session ops sid roles_of_s cs fresh now subject requested ttl st), ws)"
| activate: "enforces policies cs \<Longrightarrow>
    db_activate_load ops parse roles_of_s cs now sess role st = Inr (Some roles) \<Longrightarrow>
    db_step ops sid parse policies (st, ws) (st, (sess, roles) # ws)"
| deactivate: "db_deactivate_load ops now sess role st = Inr roles \<Longrightarrow>
    db_step ops sid parse policies (st, ws) (st, (sess, roles) # ws)"
| write_roles: "(sess, roles) \<in> set ws \<Longrightarrow>
    db_step ops sid parse policies (st, ws) (snd (pr_update_roles ops sess roles st), remove1 (sess, roles) ws)"
| destroy: "db_step ops sid parse policies (st, ws) (snd (db_destroy_session ops sess st), ws)"
| cleanup: "db_step ops sid parse policies (st, ws) (snd (db_cleanup_expired ops now st), ws)"
| bump: "db_step ops sid parse policies (st, ws) (snd (pr_bump ops s v st), ws)"

definition roles_good :: "sod_policy list \<Rightarrow> string list \<Rightarrow> bool" where
  "roles_good policies roles \<longleftrightarrow> sod_satisfied policies (set roles)"

definition db_inv ::
  "sod_policy list \<Rightarrow> (uuid \<Rightarrow> string list option) \<Rightarrow> (uuid \<times> string list) list \<Rightarrow> bool" where
  "db_inv policies stored ws \<longleftrightarrow>
     (\<forall>i roles. stored i = Some roles \<longrightarrow> roles_good policies roles) \<and>
     (\<forall>w \<in> set ws. roles_good policies (snd w))"

lemma db_inv_change:
  assumes "db_inv policies f ws"
    and "\<And>i. g i = f i \<or> g i = None \<or> (\<exists>roles. g i = Some roles \<and> roles_good policies roles)"
    and "set ws' \<subseteq> set ws"
  shows "db_inv policies g ws'"
  unfolding db_inv_def
proof (intro conjI allI impI ballI)
  fix i roles assume "g i = Some roles"
  with assms(1) assms(2) [of i] show "roles_good policies roles" by (auto simp: db_inv_def)
next
  fix w assume "w \<in> set ws'"
  with assms(1,3) show "roles_good policies (snd w)" by (auto simp: db_inv_def)
qed

lemma gate_good:
  "enforces policies cs \<Longrightarrow> distinct roles \<Longrightarrow> dsd_gate cs roles = Inr u \<Longrightarrow> roles_good policies roles"
  unfolding dsd_gate_def roles_good_def by (rule gate_ok)

lemma db_step_inv:
  assumes "db_step ops sid parse policies (st, ws) (st', ws')"
    and safe: "rows_safe ops view" and inv: "db_inv policies (roles_at (view st)) ws"
  shows "db_inv policies (roles_at (view st')) ws'"
  using assms(1)
proof cases
  case (create cs requested roles_of_s fresh now subject ttl)
  show ?thesis
  proof (cases "\<exists>assigned u. roles_of_s subject = Inr assigned \<and>
      dsd_gate cs (filter (\<lambda>r. r \<in> set assigned) requested) = Inr u")
    case True
    then obtain assigned u where a: "roles_of_s subject = Inr assigned"
      "dsd_gate cs (filter (\<lambda>r. r \<in> set assigned) requested) = Inr u" by blast
    let ?row = "\<lparr>sr_id = fresh, sr_subject_id = sid subject, sr_active_roles = filter (\<lambda>r. r \<in> set assigned) requested,
      sr_context = None, sr_version = 0, sr_expires_at = now + ttl, sr_created_at = now\<rparr>"
    have st': "st' = snd (pr_save ops ?row st)"
      using create a by (simp add: db_create_session_def Let_def split: prod.split sum.split)
    have good: "roles_good policies (filter (\<lambda>r. r \<in> set assigned) requested)"
      using gate_good [OF _ _ a(2)] create by simp
    have upd: "roles_at (view st') i \<in> {roles_at (view st) i, if i = fresh then Some (sr_active_roles ?row) else roles_at (view st) i}" for i
      using safe unfolding rows_safe_def st' by (metis session_row.select_convs(1))
    have "roles_at (view st') i = roles_at (view st) i \<or> roles_at (view st') i = None \<or>
        (\<exists>roles. roles_at (view st') i = Some roles \<and> roles_good policies roles)" for i
      using good upd [of i] by (auto split: if_splits)
    from db_inv_change [OF inv this] create show ?thesis by simp
  next
    case False
    with create have "st' = st" by (auto simp: db_create_session_def Let_def split: sum.splits)
    with create inv show ?thesis by simp
  qed
next
  case (activate cs roles_of_s now sess role roles)
  then obtain row where "dsd_gate cs roles = Inr ()" "distinct roles"
    by (auto simp: db_activate_load_def and_then_eq_Inr Let_def distinct_insert split: option.splits if_splits)
  with gate_good activate inv show ?thesis by (auto simp: db_inv_def)
next
  case (deactivate now sess role roles)
  then obtain row where row: "pr_load ops sess st = Inr (Some row)"
    "roles = filter (\<lambda>r. r \<noteq> role) (remdups (sr_active_roles row))"
    by (auto simp: db_deactivate_load_def and_then_eq_Inr split: option.splits if_splits)
  with safe have "roles_at (view st) sess = Some (sr_active_roles row)"
    unfolding rows_safe_def roles_at_def by (metis option.simps(9))
  with inv have "roles_good policies (sr_active_roles row)" by (simp add: db_inv_def)
  then have "roles_good policies roles"
    using sod_satisfied_subset [of policies "set (sr_active_roles row)" "set roles"] row(2)
    by (auto simp: roles_good_def)
  with deactivate inv show ?thesis by (auto simp: db_inv_def)
next
  case (write_roles sess roles)
  have upd: "roles_at (view st') i \<in> {roles_at (view st) i, if i = sess then Some roles else roles_at (view st) i}" for i
    using safe write_roles unfolding rows_safe_def by simp
  have "roles_good policies roles" using inv write_roles by (auto simp: db_inv_def)
  then have "roles_at (view st') i = roles_at (view st) i \<or> roles_at (view st') i = None \<or>
      (\<exists>roles. roles_at (view st') i = Some roles \<and> roles_good policies roles)" for i
    using upd [of i] by (auto split: if_splits)
  from db_inv_change [OF inv this set_remove1_subset] write_roles show ?thesis by simp
next
  case (destroy sess)
  have upd: "roles_at (view st') i \<in> {roles_at (view st) i, None}" for i
    using safe destroy unfolding rows_safe_def db_destroy_session_def by simp
  have "roles_at (view st') i = roles_at (view st) i \<or> roles_at (view st') i = None \<or>
      (\<exists>roles. roles_at (view st') i = Some roles \<and> roles_good policies roles)" for i using upd [of i] by auto
  from db_inv_change [OF inv this] destroy show ?thesis by simp
next
  case (cleanup now)
  have upd: "roles_at (view st') i \<in> {roles_at (view st) i, None}" for i
    using safe cleanup unfolding rows_safe_def db_cleanup_expired_def by simp
  have "roles_at (view st') i = roles_at (view st) i \<or> roles_at (view st') i = None \<or>
      (\<exists>roles. roles_at (view st') i = Some roles \<and> roles_good policies roles)" for i using upd [of i] by auto
  from db_inv_change [OF inv this] cleanup show ?thesis by simp
next
  case (bump s v)
  have "roles_at (view st') i = roles_at (view st) i" for i
    using safe bump unfolding rows_safe_def by simp
  with inv bump show ?thesis by (simp add: db_inv_def)
qed

lemma db_steps_inv:
  assumes "(db_step ops sid parse policies)\<^sup>*\<^sup>* c c'" "rows_safe ops view"
    and "db_inv policies (roles_at (view (fst c))) (snd c)"
  shows "db_inv policies (roles_at (view (fst c'))) (snd c')"
  using assms(1,3)
proof (induction rule: rtranclp_induct)
  case (step c' c'')
  then show ?case
    using db_step_inv [OF _ assms(2), of sid parse policies "fst c'" "snd c'" "fst c''" "snd c''"] by simp
qed

text \<open>
  C35: separation of duty holds in the shared store. However many replicas create, activate,
  deactivate, destroy and clean up at the same time, with their reads and writes interleaved in any
  order, and whatever calls of the stores fail, with or without taking effect: no session that is
  read back ever has active roles that break a dynamic policy.
\<close>

theorem replicas_keep_dsd:
  assumes "rows_safe ops view" "view st0 = Map.empty"
    and "(db_step ops sid parse policies)\<^sup>*\<^sup>* (st0, []) (st, ws)"
    and "pr_load ops i st = Inr (Some row)" "p \<in> set policies"
  shows "card (set (sr_active_roles row) \<inter> sod_roles p) < sod_cardinality p"
proof -
  have "db_inv policies (roles_at (view st0)) []" using assms(2) by (simp add: db_inv_def roles_at_def)
  with db_steps_inv [OF assms(3,1)] have "db_inv policies (roles_at (view st)) ws" by simp
  moreover have "view st i = Some row" using assms(1,4) unfolding rows_safe_def by metis
  ultimately have "sod_satisfied policies (set (sr_active_roles row))"
    by (auto simp: db_inv_def roles_at_def roles_good_def)
  with assms(5) show ?thesis by (simp add: sod_satisfied_def)
qed

definition demo_row :: session_row where
  "demo_row = \<lparr>sr_id = 1, sr_subject_id = ''ann'', sr_active_roles = [''create''], sr_context = None,
     sr_version = 0, sr_expires_at = 9, sr_created_at = 0\<rparr>"

definition both_roles :: "string \<Rightarrow> string list result" where
  "both_roles s = Inr [''create'', ''approve'']"

lemma demo_create:
  "db_create_session table_rows id both_roles (Some demo_dsd_reads) 1 0 ''ann'' [''create''] 9 ([], []) =
    (Inr \<lparr>session_id = 1, session_subject = ''ann'', active_roles = [''create''], session_ver = 0,
       session_created_at = 0, session_expires_at = 9, session_context = None\<rparr>, ([(1, demo_row)], []))"
  by (simp add: Let_def db_create_session_def both_roles_def dsd_gate_def validate_dsd_with_store_def demo_dsd_reads_def
    memory_constraint_reads_def demo_dsd_def sod_new_def sod_validate_def table_rows_def demo_row_def)

theorem replicas_keep_dsd_witness:
  "pr_load table_rows 1 ([(1, demo_row)], []) = Inr (Some demo_row) \<and>
    card (set (sr_active_roles demo_row) \<inter> {''create'', ''approve''}) < 2"
proof -
  have "db_step table_rows id Inr demo_dsd (([], []), []) (([(1, demo_row)], []), [])"
    using db_step.create [OF demo_enforces, of "[''create'']" table_rows id Inr "([], [])" "[]" both_roles 1 0 "''ann''" 9]
    unfolding demo_create by simp
  then have run: "(db_step table_rows id Inr demo_dsd)\<^sup>*\<^sup>* (([], []), []) (([(1, demo_row)], []), [])" by simp
  have load: "pr_load table_rows 1 ([(1, demo_row)], []) = Inr (Some demo_row)" by (simp add: table_rows_def)
  have empty: "(map_of \<circ> fst) (([], []) :: session_table) = Map.empty" by (simp add: fun_eq_iff)
  from replicas_keep_dsd [OF table_rows_safe empty run load, of "hd demo_dsd"] load show ?thesis
    by (simp add: demo_dsd_def sod_new_def)
qed

text \<open>
  A write of the whole list loses what another replica wrote in between: here one replica
  prepares the activation of a second role, another removes the first role, which succeeds,
  and the write brings the removed role back.
\<close>

lemma deactivation_is_lost:
  "let st = ([(1, demo_row)], []);
       pending = db_activate_load table_rows Inr both_roles None 5 1 ''approve'' st;
       (r, st') = db_deactivate_role table_rows 5 1 ''create'' st
   in r = Inr () \<and> map_option sr_active_roles (map_of (fst st') 1) = Some [] \<and>
     (\<exists>roles. pending = Inr (Some roles) \<and>
       map_option sr_active_roles (map_of (fst (snd (pr_update_roles table_rows 1 roles st'))) 1) =
         Some [''approve'', ''create''])"
  by (simp add: db_activate_load_def db_deactivate_role_def db_deactivate_load_def table_rows_def demo_row_def
    both_roles_def dsd_gate_def row_subject_def)

subsection \<open>Versions\<close>

text \<open>
  A session is created with version 0 whatever the version of its subject is. Once that version has been
  bumped, every session created later is stale from the start.
\<close>

lemma sessions_after_bump_are_stale:
  assumes "fst (db_create_session ops sid roles_of_s cs fresh now subject requested ttl st) = Inr s"
    and "db_current_version ops sid subject st' = Inr v" "v \<noteq> 0"
  shows "session_ver s < v"
proof -
  have "session_ver s = 0"
    using assms(1) by (auto simp: db_create_session_def Let_def split: sum.splits prod.splits)
  with assms(3) show ?thesis by (simp add: word_neq_0_conv)
qed

subsection \<open>The manager and the one in memory\<close>

definition row_of :: "('s \<Rightarrow> string) \<Rightarrow> 's session \<Rightarrow> session_row" where
  "row_of sid s = \<lparr>sr_id = session_id s, sr_subject_id = sid (session_subject s), sr_active_roles = active_roles s,
     sr_context = None, sr_version = session_ver s, sr_expires_at = session_expires_at s,
     sr_created_at = session_created_at s\<rparr>"

definition same_sessions :: "('s \<Rightarrow> string) \<Rightarrow> 's session_manager \<Rightarrow> (uuid \<Rightarrow> session_row option) \<Rightarrow> bool" where
  "same_sessions sid m stored \<longleftrightarrow>
     (\<forall>i. stored i = map_option (row_of sid) (map_of (sessions m) i)) \<and>
     (\<forall>i s. map_of (sessions m) i = Some s \<longrightarrow> session_id s = i \<and> distinct (active_roles s))"

lemma row_of_sel [simp]:
  "sr_active_roles (row_of sid s) = active_roles s" "sr_expires_at (row_of sid s) = session_expires_at s"
  "sr_id (row_of sid s) = session_id s" "sr_version (row_of sid s) = session_ver s"
  "sr_created_at (row_of sid s) = session_created_at s" "sr_context (row_of sid s) = None"
  by (simp_all add: row_of_def)

lemma same_sessions_update:
  assumes "same_sessions sid m stored" "session_id s = i" "distinct (active_roles s)" "sessions m' = AList.update i s (sessions m)"
  shows "same_sessions sid m' (stored(i \<mapsto> row_of sid s))"
  using assms by (auto simp: same_sessions_def hm_simps)

lemma same_sessions_lookup:
  assumes "same_sessions sid m stored"
  shows "map_of (sessions m) i = None \<and> stored i = None \<or>
    (\<exists>s. map_of (sessions m) i = Some s \<and> stored i = Some (row_of sid s) \<and> session_id s = i \<and> distinct (active_roles s))"
  using assms by (cases "map_of (sessions m) i") (auto simp: same_sessions_def)

lemma db_activate_refines:
  assumes ex: "rows_exact ops view" and same: "same_sessions sid m (view st)"
    and parse: "\<And>s. map_of (sessions m) sess = Some s \<Longrightarrow> parse (sid (session_subject s)) = Inr (session_subject s)"
    and act: "activate_role roles_of_s cs now sess role m = (r, m')"
    and db: "db_activate_role ops parse roles_of_s cs now sess role st = (r', st')"
  shows "r' = r \<and> same_sessions sid m' (view st')"
  using same_sessions_lookup [OF same, of sess]
proof (elim disjE exE conjE)
  assume none: "map_of (sessions m) sess = None" "view st sess = None"
  then have "pr_load ops sess st = Inr None" using ex by (simp add: rows_exact_def)
  then have "db_activate_load ops parse roles_of_s cs now sess role st = Inl SessionNotFound"
    by (simp add: db_activate_load_def)
  with none act db same show ?thesis by (auto simp: activate_role_def db_activate_role_def)
next
  fix s assume s: "map_of (sessions m) sess = Some s" "view st sess = Some (row_of sid s)"
    "session_id s = sess" "distinct (active_roles s)"
  have load: "pr_load ops sess st = Inr (Some (row_of sid s))" using ex s(2) by (simp add: rows_exact_def)
  have upd: "fst (pr_update_roles ops sess roles st) = Inr ()"
    "view (snd (pr_update_roles ops sess roles st)) = (view st)(sess \<mapsto> row_of sid (s\<lparr>active_roles := roles\<rparr>))" for roles
    using ex s(2) unfolding rows_exact_def by (simp_all add: row_of_def)
  have sub: "row_subject parse (row_of sid s) = Inr (session_subject s)"
    by (simp add: row_subject_def row_of_def parse [OF s(1)])
  have rem: "remdups (sr_active_roles (row_of sid s)) = active_roles s" using s(4) by (simp add: distinct_remdups_id)
  let ?roles = "List.insert role (active_roles s)"
  have eq: "db_activate_load ops parse roles_of_s cs now sess role st =
    (if session_is_expired now s then Inl SessionExpired
     else if role \<in> set (active_roles s) then Inr None
     else and_then (roles_of_s (session_subject s)) (\<lambda>assigned.
       if role \<notin> set assigned then Inl (NotFound role)
       else and_then (dsd_gate cs ?roles) (\<lambda>_. Inr (Some ?roles))))"
    unfolding db_activate_load_def Let_def load and_then.simps option.case rem
    by (simp add: sub session_is_expired_def)
  have ins: "same_sessions sid (m\<lparr>sessions := AList.update sess (s\<lparr>active_roles := ?roles\<rparr>) (sessions m)\<rparr>)
      ((view st)(sess \<mapsto> row_of sid (s\<lparr>active_roles := ?roles\<rparr>)))"
    using s by (intro same_sessions_update [OF same]) (simp_all add: distinct_insert)
  define x where "x = db_activate_load ops parse roles_of_s cs now sess role st"
  have mem: "activate_role roles_of_s cs now sess role m =
    (case x of Inl e \<Rightarrow> (Inl e, m) | Inr None \<Rightarrow> (Inr (), m)
     | Inr (Some roles) \<Rightarrow> (Inr (), m\<lparr>sessions := AList.update sess (s\<lparr>active_roles := ?roles\<rparr>) (sessions m)\<rparr>))"
    unfolding x_def eq
    by (cases "roles_of_s (session_subject s)"; cases "dsd_gate cs ?roles")
      (simp_all add: activate_role_def s(1) Let_def dsd_gate_def [symmetric] del: in_set_insert not_in_set_insert)
  have "roles = ?roles" if "x = Inr (Some roles)" for roles
    using that unfolding x_def eq by (auto simp: and_then_eq_Inr split: if_splits)
  then have "db_activate_role ops parse roles_of_s cs now sess role st =
    (case x of Inl e \<Rightarrow> (Inl e, st) | Inr None \<Rightarrow> (Inr (), st) | Inr (Some roles) \<Rightarrow> pr_update_roles ops sess ?roles st)"
    unfolding db_activate_role_def x_def [symmetric] by (auto split: sum.split option.split)
  with mem act db upd [of ?roles] ins same show ?thesis by (auto split: sum.splits option.splits)
qed

lemma db_deactivate_refines:
  assumes ex: "rows_exact ops view" and same: "same_sessions sid m (view st)"
    and act: "deactivate_role now sess role m = (r, m')"
    and db: "db_deactivate_role ops now sess role st = (r', st')"
  shows "r' = r \<and> same_sessions sid m' (view st')"
  using same_sessions_lookup [OF same, of sess]
proof (elim disjE exE conjE)
  assume none: "map_of (sessions m) sess = None" "view st sess = None"
  then have "pr_load ops sess st = Inr None" using ex by (simp add: rows_exact_def)
  with none act db same show ?thesis
    by (auto simp: deactivate_role_def db_deactivate_role_def db_deactivate_load_def)
next
  fix s assume s: "map_of (sessions m) sess = Some s" "view st sess = Some (row_of sid s)"
    "session_id s = sess" "distinct (active_roles s)"
  have load: "pr_load ops sess st = Inr (Some (row_of sid s))" using ex s(2) by (simp add: rows_exact_def)
  let ?roles = "filter (\<lambda>r. r \<noteq> role) (active_roles s)"
  have upd: "fst (pr_update_roles ops sess ?roles st) = Inr ()"
    "view (snd (pr_update_roles ops sess ?roles st)) = (view st)(sess \<mapsto> row_of sid (s\<lparr>active_roles := ?roles\<rparr>))"
    using ex s(2) unfolding rows_exact_def by (simp_all add: row_of_def)
  have eq: "db_deactivate_load ops now sess role st =
    (if session_is_expired now s then Inl SessionExpired else Inr ?roles)"
    using s(4) by (simp add: db_deactivate_load_def load session_is_expired_def distinct_remdups_id)
  have "same_sessions sid (m\<lparr>sessions := AList.update sess (s\<lparr>active_roles := ?roles\<rparr>) (sessions m)\<rparr>)
      ((view st)(sess \<mapsto> row_of sid (s\<lparr>active_roles := ?roles\<rparr>)))"
    using s by (intro same_sessions_update [OF same]) simp_all
  with upd act db eq s same show ?thesis
    by (auto simp: deactivate_role_def db_deactivate_role_def split: if_splits)
qed

text \<open>
  C36: over a store that does what its documentation says, the shared manager is the manager in
  memory: activation, deactivation and destruction give the same results, errors included, and keep the
  two states the same, and a session read back is the one in memory; creation of a session with
  distinct roles does so for a subject whose version was never bumped. The one thing asked of the
  subjects is that the identity of the session in question, where memory holds it, reads back from its
  stored text; what happens otherwise is the lemma after this.
\<close>

theorem db_manager_refines_memory:
  assumes "rows_exact ops view" "same_sessions sid m (view st)"
    and "\<And>s. map_of (sessions m) sess = Some s \<Longrightarrow> parse (sid (session_subject s)) = Inr (session_subject s)"
    and "version_of sid m subject = 0" "distinct requested"
  shows "(case (activate_role roles_of_s cs now sess role m, db_activate_role ops parse roles_of_s cs now sess role st) of
      ((r, m'), (r', st')) \<Rightarrow> r' = r \<and> same_sessions sid m' (view st')) \<and>
    (case (deactivate_role now sess role m, db_deactivate_role ops now sess role st) of
      ((r, m'), (r', st')) \<Rightarrow> r' = r \<and> same_sessions sid m' (view st')) \<and>
    (case (destroy_session sess m, db_destroy_session ops sess st) of
      ((r, m'), (r', st')) \<Rightarrow> r' = r \<and> (hm_wf (sessions m) \<longrightarrow> same_sessions sid m' (view st'))) \<and>
    db_get_session ops parse sess st =
      Inr (map_option (\<lambda>s. session.extend s \<lparr>session_context = None\<rparr>) (map_of (sessions m) sess)) \<and>
    (case (create_session sid roles_of_s cs fresh now subject requested ttl m,
           db_create_session ops sid roles_of_s cs fresh now subject requested ttl st) of
      ((r, m'), (r', st')) \<Rightarrow> map_sum id session.truncate r' = map_sum id session.truncate r \<and>
        same_sessions sid m' (view st'))"
proof (intro conjI)
  show "case (activate_role roles_of_s cs now sess role m, db_activate_role ops parse roles_of_s cs now sess role st) of
      ((r, m'), (r', st')) \<Rightarrow> r' = r \<and> same_sessions sid m' (view st')"
    using db_activate_refines [OF assms(1-3)] by (auto split: prod.split)
  show "case (deactivate_role now sess role m, db_deactivate_role ops now sess role st) of
      ((r, m'), (r', st')) \<Rightarrow> r' = r \<and> same_sessions sid m' (view st')"
    using db_deactivate_refines [OF assms(1,2)] by (auto split: prod.split)
  have "fst (pr_delete ops sess st) = Inr ()" "view (snd (pr_delete ops sess st)) = (view st)(sess := None)"
    using assms(1) by (auto simp: rows_exact_def)
  then show "case (destroy_session sess m, db_destroy_session ops sess st) of
      ((r, m'), (r', st')) \<Rightarrow> r' = r \<and> (hm_wf (sessions m) \<longrightarrow> same_sessions sid m' (view st'))"
    using assms(2)
    by (auto simp: destroy_session_def db_destroy_session_def same_sessions_def hm_simps split: prod.split)
  have load: "pr_load ops sess st = Inr (view st sess)" using assms(1) by (simp add: rows_exact_def)
  have sub: "row_subject parse (row_of sid s) = Inr (session_subject s)" if "map_of (sessions m) sess = Some s" for s
    by (simp add: row_subject_def row_of_def assms(3) [OF that])
  show "db_get_session ops parse sess st =
      Inr (map_option (\<lambda>s. session.extend s \<lparr>session_context = None\<rparr>) (map_of (sessions m) sess))"
    using same_sessions_lookup [OF assms(2), of sess]
    by (auto simp: db_get_session_def load sub session.defs distinct_remdups_id)
  show "case (create_session sid roles_of_s cs fresh now subject requested ttl m,
           db_create_session ops sid roles_of_s cs fresh now subject requested ttl st) of
      ((r, m'), (r', st')) \<Rightarrow> map_sum id session.truncate r' = map_sum id session.truncate r \<and>
        same_sessions sid m' (view st')"
  proof (cases "\<exists>assigned u. roles_of_s subject = Inr assigned \<and>
      dsd_gate cs (filter (\<lambda>r. r \<in> set assigned) requested) = Inr u")
    case True
    then obtain assigned where a: "roles_of_s subject = Inr assigned"
      "dsd_gate cs (filter (\<lambda>r. r \<in> set assigned) requested) = Inr ()" by auto
    let ?s = "\<lparr>session_id = fresh, session_subject = subject, active_roles = filter (\<lambda>r. r \<in> set assigned) requested,
      session_ver = 0, session_created_at = now, session_expires_at = now + ttl\<rparr>"
    obtain st' where save: "pr_save ops (row_of sid ?s) st = (Inr (), st')" "view st' = (view st)(fresh \<mapsto> row_of sid ?s)"
      using assms(1) unfolding rows_exact_def row_of_def by (metis (no_types, lifting) prod.collapse session_row.select_convs(1) session.select_convs(1))
    have db: "db_create_session ops sid roles_of_s cs fresh now subject requested ttl st =
        (Inr (session.extend ?s \<lparr>session_context = None\<rparr>), st')"
      using a save(1) by (simp add: db_create_session_def Let_def row_of_def session.defs)
    have mem: "create_session sid roles_of_s cs fresh now subject requested ttl m =
        (Inr ?s, m\<lparr>sessions := AList.update fresh ?s (sessions m)\<rparr>)"
      using a assms(4) by (simp add: create_session_def Let_def dsd_gate_def)
    have "same_sessions sid (m\<lparr>sessions := AList.update fresh ?s (sessions m)\<rparr>) (view st')"
      unfolding save(2) using assms(5) by (intro same_sessions_update [OF assms(2)]) simp_all
    then show ?thesis by (simp add: db mem session.defs)
  next
    case False
    have "\<exists>e. create_session sid roles_of_s cs fresh now subject requested ttl m = (Inl e, m) \<and>
      db_create_session ops sid roles_of_s cs fresh now subject requested ttl st = (Inl e, st)"
    proof (cases "roles_of_s subject")
      case (Inr assigned)
      with False obtain e where "dsd_gate cs (filter (\<lambda>r. r \<in> set assigned) requested) = Inl e"
        by (cases "dsd_gate cs (filter (\<lambda>r. r \<in> set assigned) requested)") auto
      with Inr show ?thesis by (simp add: create_session_def db_create_session_def Let_def dsd_gate_def)
    qed (simp add: create_session_def db_create_session_def)
    with assms(2) show ?thesis by auto
  qed
qed

definition demo_memory :: "string session_manager" where
  "demo_memory = \<lparr>sessions = [(1, \<lparr>session_id = 1, session_subject = ''ann'', active_roles = [''create''],
     session_ver = 0, session_created_at = 0, session_expires_at = 9\<rparr>)], subject_versions = []\<rparr>"

definition parse_ann :: "string \<Rightarrow> string result" where
  "parse_ann t = (if t = ''ann'' then Inr t else Inl (Store ''unknown subject''))"

theorem db_manager_refines_memory_witness:
  "fst (db_activate_role table_rows parse_ann both_roles None 5 1 ''approve'' ([(1, demo_row)], [])) =
    fst (activate_role both_roles None 5 1 ''approve'' demo_memory)"
proof -
  have same: "same_sessions id demo_memory ((map_of \<circ> fst) ([(1, demo_row)], []))"
    by (simp add: same_sessions_def demo_memory_def demo_row_def row_of_def)
  have "parse_ann (id (session_subject s)) = Inr (session_subject s)" if "map_of (sessions demo_memory) 1 = Some s" for s
    using that by (auto simp: demo_memory_def parse_ann_def)
  moreover have "version_of id demo_memory ''ann'' = 0" by (simp add: version_of_def demo_memory_def)
  ultimately have "case (activate_role both_roles None 5 1 ''approve'' demo_memory,
      db_activate_role table_rows parse_ann both_roles None 5 1 ''approve'' ([(1, demo_row)], [])) of
      ((r, m'), (r', st')) \<Rightarrow> r' = r \<and> same_sessions id m' ((map_of \<circ> fst) st')"
    by (rule db_manager_refines_memory [OF table_rows_exact same _ _ distinct.simps(1) [THEN iffD2, OF TrueI],
      THEN conjunct1])
  then show ?thesis by (auto split: prod.splits)
qed

text \<open>
  A session whose subject does not read back is stored, but it is neither read back nor given
  another role, where the manager in memory does both.
\<close>

lemma unreadable_subject_is_stuck:
  assumes "rows_exact ops view" "view st sess = Some (row_of sid s)" "parse (sid (session_subject s)) = Inl e"
    and "\<not> session_is_expired now s" "role \<notin> set (active_roles s)"
  shows "\<not> is_ok (db_get_session ops parse sess st) \<and>
    \<not> is_ok (fst (db_activate_role ops parse roles_of_s cs now sess role st))"
proof -
  have "pr_load ops sess st = Inr (Some (row_of sid s))" using assms(1,2) by (simp add: rows_exact_def)
  with assms(3-5) show ?thesis
    by (simp add: db_get_session_def db_activate_role_def db_activate_load_def row_subject_def row_of_def
      session_is_expired_def)
qed

text \<open>
  Revoking a subject removes its roles one by one; it reports how many there were only after
  each of them was revoked.
\<close>

lemma revoke_roles_ok:
  "revoke_roles revoke subject roles a = (Inr (), a') \<Longrightarrow> a' = fold (\<lambda>role a. snd (revoke subject role a)) roles a"
  by (induction revoke subject roles a rule: revoke_roles.induct) (auto split: prod.splits sum.splits)

lemma revoke_all_reports_after_all:
  assumes "db_revoke_all_for_subject roles_in revoke subject a = (Inr n, a')"
  shows "\<exists>roles. roles_in a subject = Inr roles \<and> n = length roles \<and>
    a' = fold (\<lambda>role a. snd (revoke subject role a)) roles a"
  using assms by (auto simp: db_revoke_all_for_subject_def dest: revoke_roles_ok split: prod.splits sum.splits)

end
