(* ===== verification/Workspace_Guard.thy ===== *)
theory Workspace_Guard
  imports Kirino_Prelude
begin

text \<open>
  The workspace guard, \<^verbatim>\<open>src/rbac/workspace_guard.rs\<close>: the three workspace roles and what they
  may do, the guard's check over a store that may fail, and the in-memory store. The trait
  \<^verbatim>\<open>WorkspaceStore\<close> is the record of its three queries. A permission is its name.
\<close>

subsection \<open>The definitions\<close>

datatype workspace_role = Viewer | Operator | Owner

fun workspace_role_as_str :: "workspace_role \<Rightarrow> string" where
  "workspace_role_as_str Viewer = ''viewer''"
| "workspace_role_as_str Operator = ''operator''"
| "workspace_role_as_str Owner = ''owner''"

definition workspace_role_from_str_lossy :: "string \<Rightarrow> workspace_role option" where
  "workspace_role_from_str_lossy s =
     (if s = ''owner'' then Some Owner
      else if s = ''operator'' then Some Operator
      else if s = ''viewer'' then Some Viewer
      else None)"

text \<open>The derived order is the declaration order.\<close>

fun privilege :: "workspace_role \<Rightarrow> nat" where
  "privilege Viewer = 0"
| "privilege Operator = 1"
| "privilege Owner = 2"

instantiation workspace_role :: linorder
begin

definition less_eq_workspace_role :: "workspace_role \<Rightarrow> workspace_role \<Rightarrow> bool" where
  "less_eq_workspace_role a b \<longleftrightarrow> privilege a \<le> privilege b"

definition less_workspace_role :: "workspace_role \<Rightarrow> workspace_role \<Rightarrow> bool" where
  "less_workspace_role a b \<longleftrightarrow> privilege a < privilege b"

instance
proof
  show "a \<le> b \<Longrightarrow> b \<le> a \<Longrightarrow> a = b" for a b :: workspace_role
    by (cases a; cases b) (simp_all add: less_eq_workspace_role_def)
qed (auto simp: less_eq_workspace_role_def less_workspace_role_def)

end

record ('s, 'w) workspace_store =
  direct_membership :: "'s \<Rightarrow> 'w \<Rightarrow> workspace_role option result"
  ws_group_grants :: "'s \<Rightarrow> 'w \<Rightarrow> workspace_role option result"
  ws_accessible :: "'s \<Rightarrow> 'w list result"

definition role_can :: "workspace_role \<Rightarrow> string \<Rightarrow> bool" where
  "role_can role nm =
     (case role of
        Owner \<Rightarrow> True
      | Operator \<Rightarrow> \<not> prefix ''workspace.manage'' nm \<and> \<not> prefix ''rbac.'' nm
      | Viewer \<Rightarrow> suffix ''.list'' nm \<or> suffix ''.read'' nm \<or> prefix ''device.list'' nm)"

definition resolve_workspace_role ::
  "('s, 'w) workspace_store \<Rightarrow> 's \<Rightarrow> 'w \<Rightarrow> workspace_role option result" where
  "resolve_workspace_role store s w =
     and_then (direct_membership store s w) (\<lambda>d.
       case d of
         Some role \<Rightarrow> Inr (Some role)
       | None \<Rightarrow> and_then (ws_group_grants store s w) (\<lambda>g.
           case g of Some role \<Rightarrow> Inr (Some role) | None \<Rightarrow> Inr None))"

definition guard_check ::
  "('s, 'w) workspace_store \<Rightarrow> 's \<Rightarrow> string \<Rightarrow> 'w \<Rightarrow> string list \<Rightarrow> bool result" where
  "guard_check store s perm w global_permissions =
     (if \<not> (\<exists>p \<in> set global_permissions. p = perm) then Inr False
      else and_then (resolve_workspace_role store s w) (\<lambda>r.
        case r of Some role \<Rightarrow> Inr (role_can role perm) | None \<Rightarrow> Inr False))"

definition guard_accessible_workspaces :: "('s, 'w) workspace_store \<Rightarrow> 's \<Rightarrow> 'w list result" where
  "guard_accessible_workspaces store s = ws_accessible store s"

record ('s, 'w) in_memory_workspace_store =
  ws_members :: "('s \<times> 'w, workspace_role) hash_map"
  ws_groups :: "('s \<times> 'w, workspace_role) hash_map"

definition in_memory_workspace_store_new :: "('s, 'w) in_memory_workspace_store" where
  "in_memory_workspace_store_new = \<lparr>ws_members = [], ws_groups = []\<rparr>"

definition add_member ::
  "'s \<Rightarrow> 'w \<Rightarrow> workspace_role \<Rightarrow> ('s, 'w) in_memory_workspace_store \<Rightarrow> ('s, 'w) in_memory_workspace_store" where
  "add_member s w r st = st\<lparr>ws_members := AList.update (s, w) r (ws_members st)\<rparr>"

definition add_group_grant ::
  "'s \<Rightarrow> 'w \<Rightarrow> workspace_role \<Rightarrow> ('s, 'w) in_memory_workspace_store \<Rightarrow> ('s, 'w) in_memory_workspace_store" where
  "add_group_grant g w r st = st\<lparr>ws_groups := AList.update (g, w) r (ws_groups st)\<rparr>"

definition memory_accessible :: "('s, 'w) in_memory_workspace_store \<Rightarrow> 's \<Rightarrow> 'w list" where
  "memory_accessible st s = map snd (filter (\<lambda>(x, _). x = s) (map fst (ws_members st)))"

definition memory_workspace_store ::
  "('s, 'w) in_memory_workspace_store \<Rightarrow> ('s, 'w) workspace_store" where
  "memory_workspace_store st =
     \<lparr>direct_membership = (\<lambda>s w. Inr (map_of (ws_members st) (s, w))),
      ws_group_grants = (\<lambda>s w. Inr (map_of (ws_groups st) (s, w))),
      ws_accessible = (\<lambda>s. Inr (memory_accessible st s))\<rparr>"

subsection \<open>What the guard guarantees\<close>

lemma workspace_role_roundtrip:
  "workspace_role_from_str_lossy s = Some r \<longleftrightarrow> s = workspace_role_as_str r"
  by (cases r) (auto simp: workspace_role_from_str_lossy_def split: if_splits)

text \<open>
  A workspace role alone never suffices, and neither does a global permission alone: the
  guard allows exactly when the permission is among the global ones and the subject's role on
  the workspace may do it, where a direct membership hides any group grant; and a store that
  fails is reported as an error, never as an allow.
\<close>

theorem guard_check_exact:
  "guard_check store s perm w globals = Inr True \<longleftrightarrow>
     perm \<in> set globals \<and>
     (\<exists>r. (direct_membership store s w = Inr (Some r) \<or>
           direct_membership store s w = Inr None \<and> ws_group_grants store s w = Inr (Some r)) \<and>
        role_can r perm)"
  by (cases "direct_membership store s w"; cases "ws_group_grants store s w")
    (auto simp: guard_check_def resolve_workspace_role_def split: option.splits)

text \<open>
  In the in-memory store, giving a subject a direct membership decides that workspace for
  that subject whatever group grants exist, and changes no decision for another subject or
  another workspace.
\<close>

theorem membership_is_local:
  "guard_check (memory_workspace_store (add_member s w r st)) s' perm w' globals =
     (if s' = s \<and> w' = w then Inr (perm \<in> set globals \<and> role_can r perm)
      else guard_check (memory_workspace_store st) s' perm w' globals)"
  by (auto simp: guard_check_def resolve_workspace_role_def memory_workspace_store_def
      add_member_def map_of_AList_update split: option.split)

text \<open>
  A group grant stored under a subject's own key is matched by that subject: the subject
  is granted the group's role, yet the workspace is not listed as accessible.
\<close>

theorem own_key_group_grant_matches:
  assumes "perm \<in> set globals" and "role_can r perm"
    and "\<And>w' r'. ((s, w'), r') \<notin> set (ws_members st)"
  shows "guard_check (memory_workspace_store (add_group_grant s w r st)) s perm w globals = Inr True \<and>
    guard_accessible_workspaces (memory_workspace_store (add_group_grant s w r st)) s = Inr []"
proof -
  have "map_of (ws_members st) (s, w) = None"
    using assms(3) by (auto simp: map_of_eq_None_iff)
  moreover have "memory_accessible st s = []"
    using assms(3) by (auto simp: memory_accessible_def filter_empty_conv)
  ultimately show ?thesis
    using assms(1,2)
    by (simp add: guard_check_def resolve_workspace_role_def memory_workspace_store_def
        add_group_grant_def map_of_AList_update guard_accessible_workspaces_def memory_accessible_def)
qed

theorem own_key_group_grant_matches_witness:
  "guard_check (memory_workspace_store
     (add_group_grant ''alice'' ''w1'' Viewer in_memory_workspace_store_new)) ''alice'' ''agent.read'' ''w1''
     [''agent.read''] = Inr True"
proof -
  have "role_can Viewer ''agent.read''" by (simp add: role_can_def suffix_def)
  with own_key_group_grant_matches [of "''agent.read''" "[''agent.read'']" Viewer "''alice''"
      in_memory_workspace_store_new "''w1''"] show ?thesis
    by (auto simp: in_memory_workspace_store_new_def)
qed

text \<open>
  The capabilities do not follow the privilege order of the roles. An owner may do
  everything, but a viewer may do exactly those listing and reading permissions of the areas
  reserved to owners that an operator may not; outside those areas an operator may do
  everything a viewer may.
\<close>

theorem viewer_exceeds_operator:
  "role_can Owner nm \<and> Viewer < Operator \<and>
   (role_can Viewer nm \<and> \<not> role_can Operator nm \<longleftrightarrow>
     (prefix ''workspace.manage'' nm \<or> prefix ''rbac.'' nm) \<and> (suffix ''.list'' nm \<or> suffix ''.read'' nm)) \<and>
   role_can Viewer ''rbac.read'' \<and> \<not> role_can Operator ''rbac.read''"
proof -
  have "\<not> (prefix ''device.list'' nm \<and> (prefix ''workspace.manage'' nm \<or> prefix ''rbac.'' nm))"
    by (auto simp: prefix_def)
  then show ?thesis
    by (auto simp: role_can_def less_workspace_role_def suffix_def)
qed

end
