(* ===== verification/Password_Policy.thy ===== *)
theory Password_Policy
  imports Kirino_Prelude
begin

text \<open>
  The password policy, \<^verbatim>\<open>src/rbac/policy.rs\<close>: the policy and its constructors, the password
  state of an account, the decision whether a change is required, and the in-memory store of
  states. Day counts are 32-bit words that saturate, as in the code; instants are nanoseconds
  and a difference of instants is divided towards zero, as \<^verbatim>\<open>chrono\<close> does.

  The generator of a temporary password is not modelled: a bootstrap credential receives the
  password it minted.
\<close>

subsection \<open>The definitions\<close>


datatype password_change_reason =
    InitialPassword
  | Expired u32 u32

fun password_change_reason_as_str :: "password_change_reason \<Rightarrow> string" where
  "password_change_reason_as_str InitialPassword = ''initial_password''"
| "password_change_reason_as_str (Expired age mx) = ''expired''"

record password_policy =
  pp_enabled :: bool
  pp_force_change_on_first_login :: bool
  pp_max_age_days :: "u32 option"

definition password_policy_new :: "bool \<Rightarrow> u32 option \<Rightarrow> password_policy" where
  "password_policy_new force mx =
     \<lparr>pp_enabled = True, pp_force_change_on_first_login = force, pp_max_age_days = mx\<rparr>"

definition password_policy_disabled :: password_policy where
  "password_policy_disabled =
     \<lparr>pp_enabled = False, pp_force_change_on_first_login = False, pp_max_age_days = None\<rparr>"

definition from_config :: "bool \<Rightarrow> bool \<Rightarrow> u32 option \<Rightarrow> password_policy result" where
  "from_config enabled force mx =
     (if mx = Some 0 then Inl (Validation ''max_age_days'')
      else Inr \<lparr>pp_enabled = enabled, pp_force_change_on_first_login = force, pp_max_age_days = mx\<rparr>)"

definition with_enabled :: "bool \<Rightarrow> password_policy \<Rightarrow> password_policy" where
  "with_enabled b p = p\<lparr>pp_enabled := b\<rparr>"

definition with_force_change_on_first_login :: "bool \<Rightarrow> password_policy \<Rightarrow> password_policy" where
  "with_force_change_on_first_login b p = p\<lparr>pp_force_change_on_first_login := b\<rparr>"

definition with_max_age_days :: "u32 \<Rightarrow> password_policy \<Rightarrow> password_policy" where
  "with_max_age_days d p = p\<lparr>pp_max_age_days := Some d\<rparr>"

definition password_policy_default :: password_policy where
  "password_policy_default = password_policy_new True None"

record password_state =
  ps_is_initial :: bool
  ps_changed_at :: instant

definition password_state_initial :: "instant \<Rightarrow> password_state" where
  "password_state_initial t = \<lparr>ps_is_initial = True, ps_changed_at = t\<rparr>"

definition password_state_rotated :: "instant \<Rightarrow> password_state" where
  "password_state_rotated t = \<lparr>ps_is_initial = False, ps_changed_at = t\<rparr>"

definition password_state_from_parts :: "instant \<Rightarrow> bool \<Rightarrow> password_state" where
  "password_state_from_parts t b = \<lparr>ps_is_initial = b, ps_changed_at = t\<rparr>"

definition nanos_per_day :: int where
  "nanos_per_day = 86400 * 1000000000"

definition num_days :: "int \<Rightarrow> int" where
  "num_days d = (if d \<ge> 0 then d div nanos_per_day else - ((- d) div nanos_per_day))"

text \<open>\<^verbatim>\<open>u32::try_from\<close> with \<^verbatim>\<open>unwrap_or(u32::MAX)\<close>.\<close>

definition to_u32_saturating :: "int \<Rightarrow> u32" where
  "to_u32_saturating n = (if 0 \<le> n \<and> n < 2 ^ 32 then word_of_int n else - 1)"

definition age_days :: "password_state \<Rightarrow> instant \<Rightarrow> u32" where
  "age_days st now = to_u32_saturating (max (num_days (now - ps_changed_at st)) 0)"

definition change_requirement ::
  "password_policy \<Rightarrow> password_state \<Rightarrow> instant \<Rightarrow> password_change_reason option" where
  "change_requirement p st now =
     (if \<not> pp_enabled p then None
      else if pp_force_change_on_first_login p \<and> ps_is_initial st then Some InitialPassword
      else (case pp_max_age_days p of
              Some mx \<Rightarrow> if age_days st now \<ge> mx then Some (Expired (age_days st now) mx) else None
            | None \<Rightarrow> None))"

type_synonym password_states = "(uuid, password_state) hash_map"

definition password_state_get :: "uuid \<Rightarrow> password_states \<Rightarrow> password_state option result" where
  "password_state_get account m = Inr (map_of m account)"

definition password_state_put :: "uuid \<Rightarrow> password_state \<Rightarrow> password_states \<Rightarrow> password_states" where
  "password_state_put account st m = AList.update account st m"

record bootstrap_credential =
  bc_username :: string
  bc_password :: string
  bc_state :: password_state

definition bootstrap_credential :: "string \<Rightarrow> string \<Rightarrow> instant \<Rightarrow> bootstrap_credential" where
  "bootstrap_credential minted username now =
     \<lparr>bc_username = username, bc_password = minted, bc_state = password_state_initial now\<rparr>"

subsection \<open>The age of a password\<close>

lemma unat_age_days:
  "uint (age_days st now) = min (max ((now - ps_changed_at st) div nanos_per_day) 0) (2 ^ 32 - 1)"
proof -
  have pos: "nanos_per_day > 0" by (simp add: nanos_per_day_def)
  have "max (num_days d) 0 = max (d div nanos_per_day) 0" for d
    using pos by (auto simp: num_days_def max_def pos_imp_zdiv_neg_iff pos_imp_zdiv_nonneg_iff
        div_nonpos_pos_le0)
  moreover have "uint (to_u32_saturating n) = min n (2 ^ 32 - 1)" if "0 \<le> n" for n
    using that by (auto simp: to_u32_saturating_def min_def uint_word_of_int
        unsigned_minus_1_eq_mask mask_eq_exp_minus_1)
  ultimately show ?thesis by (simp add: age_days_def)
qed

subsection \<open>What the policy guarantees\<close>

lemma le_div_pos_iff:
  assumes "(b :: int) > 0"
  shows "k \<le> a div b \<longleftrightarrow> k * b \<le> a"
proof
  assume "k \<le> a div b"
  then have "k * b \<le> a div b * b" using assms by (simp add: mult_right_mono)
  also have "\<dots> \<le> a" using assms by (metis add.commute le_add_same_cancel1 mod_div_mult_eq pos_mod_sign)
  finally show "k * b \<le> a" .
next
  assume "k * b \<le> a"
  then have "k * b div b \<le> a div b" by (rule zdiv_mono1 [OF _ assms])
  then show "k \<le> a div b" using assms by simp
qed

lemma age_days_ge_iff:
  assumes "mx \<noteq> 0"
  shows "age_days st now \<ge> mx \<longleftrightarrow> now \<ge> ps_changed_at st + uint mx * nanos_per_day"
proof -
  have mx: "0 < uint mx" "uint mx \<le> 2 ^ 32 - 1"
    using assms uint_lt2p [of mx] by (simp_all add: word_neq_0_conv word_less_def)
  have pos: "nanos_per_day > 0" by (simp add: nanos_per_day_def)
  have "age_days st now \<ge> mx \<longleftrightarrow> uint mx \<le> (now - ps_changed_at st) div nanos_per_day"
    unfolding word_le_def unat_age_days using mx by auto
  also have "\<dots> \<longleftrightarrow> uint mx * nanos_per_day \<le> now - ps_changed_at st"
    by (rule le_div_pos_iff [OF pos])
  finally show ?thesis by (auto simp: algebra_simps)
qed

lemma age_days_less_iff:
  "mx \<noteq> 0 \<Longrightarrow> age_days st now < mx \<longleftrightarrow> now < ps_changed_at st + uint mx * nanos_per_day"
  by (metis age_days_ge_iff not_le)

text \<open>
  For a policy built from a configuration, a password chosen at an instant is accepted at
  exactly the instants before that instant plus the maximum age in whole days: it expires on
  the day itself, and a clock that runs behind never expires it. A bootstrap password is
  refused at once, if the rule is on, and reported as such however old it is; a policy that is
  switched off never requires a change.
\<close>

theorem change_requirement_exact:
  assumes "from_config enabled force mx = Inr p"
  shows "change_requirement p st now =
    (if \<not> enabled then None
     else if force \<and> ps_is_initial st then Some InitialPassword
     else case mx of None \<Rightarrow> None
       | Some d \<Rightarrow>
           if now < ps_changed_at st + uint d * nanos_per_day then None
           else Some (Expired (age_days st now) d))"
proof -
  have "mx \<noteq> Some 0" and p: "p = \<lparr>pp_enabled = enabled, pp_force_change_on_first_login = force,
      pp_max_age_days = mx\<rparr>"
    using assms by (auto simp: from_config_def split: if_splits)
  then show ?thesis
    by (auto simp: change_requirement_def age_days_less_iff age_days_ge_iff split: option.splits)
qed

text \<open>
  After a rotation at an instant, no policy from a configuration requires a change at any
  earlier instant or on the same day, so a change never traps the account in a loop; and the
  credential minted at bootstrap is refused by the default policy at every instant.
\<close>

theorem rotation_is_accepted:
  assumes "from_config enabled force mx = Inr p" and "now < t + nanos_per_day"
  shows "change_requirement p (password_state_rotated t) now = None \<and>
    change_requirement password_policy_default (bc_state (bootstrap_credential minted user t')) now' =
      Some InitialPassword"
proof -
  have "now < t + uint d * nanos_per_day" if "mx = Some d" for d
  proof -
    have "d \<noteq> 0" using assms(1) that by (auto simp: from_config_def split: if_splits)
    then have "1 \<le> uint d" by (simp add: word_neq_0_conv word_less_def)
    then have "nanos_per_day \<le> uint d * nanos_per_day"
      by (simp add: nanos_per_day_def)
    with assms(2) show ?thesis by simp
  qed
  then show ?thesis
    using change_requirement_exact [OF assms(1), of "password_state_rotated t" now]
    by (auto simp: password_state_rotated_def change_requirement_def password_policy_default_def
        password_policy_new_def bootstrap_credential_def password_state_initial_def split: option.splits)
qed

theorem change_requirement_exact_witness:
  "change_requirement \<lparr>pp_enabled = True, pp_force_change_on_first_login = True, pp_max_age_days = Some 90\<rparr>
     (password_state_rotated 0) (90 * nanos_per_day - 1) = None"
  using change_requirement_exact [of True True "Some 90"
      "\<lparr>pp_enabled = True, pp_force_change_on_first_login = True, pp_max_age_days = Some 90\<rparr>"
      "password_state_rotated 0" "90 * nanos_per_day - 1"]
  by (simp add: from_config_def password_state_rotated_def)

theorem rotation_is_accepted_witness:
  "change_requirement \<lparr>pp_enabled = True, pp_force_change_on_first_login = True, pp_max_age_days = Some 1\<rparr>
     (password_state_rotated 5) 5 = None"
  using rotation_is_accepted [of True True "Some 1"
      "\<lparr>pp_enabled = True, pp_force_change_on_first_login = True, pp_max_age_days = Some 1\<rparr>" 5 5]
  by (simp add: from_config_def nanos_per_day_def)

end
