(* ===== verification/Ip_Addresses.thy ===== *)
theory Ip_Addresses
  imports Kirino_Prelude
begin

unbundle bit_operations_syntax

text \<open>
  Addresses as the standard library reads them: \<^verbatim>\<open>Ipv4Addr::from_str\<close>, \<^verbatim>\<open>Ipv6Addr::from_str\<close> and
  \<^verbatim>\<open>u32::from_str\<close>, for the allow list of networks. A parser takes the rest of the text and
  returns what it read with what is left. An address is the number that \<^verbatim>\<open>u32::from\<close> and
  \<^verbatim>\<open>u128::from\<close> make of it. Every address in its dotted form, or in the form of eight groups of
  hexadecimal digits, is read back as itself.
\<close>

type_synonym u128 = "128 word"

datatype ip_addr = Ip4 u32 | Ip6 u128

subsection \<open>The parsers\<close>

definition to_digit :: "nat \<Rightarrow> char \<Rightarrow> nat option" where
  "to_digit radix c =
     (let n = of_char c;
          d = if 48 \<le> n \<and> n \<le> 57 then n - 48
              else if 97 \<le> n \<and> n \<le> 122 then n - 87
              else if 65 \<le> n \<and> n \<le> 90 then n - 55
              else radix
      in if d < radix then Some d else None)"

definition digits_value :: "nat \<Rightarrow> string \<Rightarrow> nat" where
  "digits_value radix = foldl (\<lambda>a c. a * radix + the (to_digit radix c)) 0"

definition read_number :: "nat \<Rightarrow> nat \<Rightarrow> bool \<Rightarrow> nat \<Rightarrow> string \<Rightarrow> (nat \<times> string) option" where
  "read_number radix max_digits allow_zero_prefix bound s =
     (let ds = takeWhile (\<lambda>c. to_digit radix c \<noteq> None) s;
          n = digits_value radix ds
      in if ds = [] \<or> length ds > max_digits \<or>
            (\<not> allow_zero_prefix \<and> hd ds = CHR ''0'' \<and> length ds > 1) \<or> n \<ge> bound
         then None else Some (n, drop (length ds) s))"

fun read_given_char :: "char \<Rightarrow> string \<Rightarrow> string option" where
  "read_given_char c [] = None"
| "read_given_char c (x # s) = (if x = c then Some s else None)"

definition read_separator :: "char \<Rightarrow> nat \<Rightarrow> (string \<Rightarrow> 'a option) \<Rightarrow> string \<Rightarrow> 'a option" where
  "read_separator sep i inner s =
     (if i > 0 then Option.bind (read_given_char sep s) inner else inner s)"

fun read_octets :: "nat \<Rightarrow> nat \<Rightarrow> string \<Rightarrow> (nat list \<times> string) option" where
  "read_octets 0 i s = Some ([], s)"
| "read_octets (Suc k) i s =
     Option.bind (read_separator CHR ''.'' i (read_number 10 3 False 256) s)
       (\<lambda>(n, s'). map_option (apfst ((#) n)) (read_octets k (Suc i) s'))"

definition read_ipv4_addr :: "string \<Rightarrow> (nat list \<times> string) option" where
  "read_ipv4_addr = read_octets 4 0"

definition horner :: "nat \<Rightarrow> nat list \<Rightarrow> nat" where
  "horner b = foldl (\<lambda>a d. a * b + d) 0"

definition parse_ipv4 :: "string \<Rightarrow> u32 option" where
  "parse_ipv4 s =
     (if length s > 15 then None
      else case read_ipv4_addr s of
             Some (os, []) \<Rightarrow> Some (of_nat (horner 256 os))
           | _ \<Rightarrow> None)"

text \<open>A run of groups: what was read, whether an embedded IPv4 address ended it, and the rest.\<close>

fun read_groups :: "nat \<Rightarrow> nat \<Rightarrow> string \<Rightarrow> nat list \<times> bool \<times> string" where
  "read_groups 0 i s = ([], False, s)"
| "read_groups (Suc k) i s =
     (case if k > 0 then read_separator CHR '':'' i read_ipv4_addr s else None of
        Some (os, s') \<Rightarrow> ([horner 256 (take 2 os), horner 256 (drop 2 os)], True, s')
      | None \<Rightarrow>
          (case read_separator CHR '':'' i (read_number 16 4 True 65536) s of
             None \<Rightarrow> ([], False, s)
           | Some (g, s') \<Rightarrow> apfst ((#) g) (read_groups k (Suc i) s')))"

definition read_ipv6_addr :: "string \<Rightarrow> (nat list \<times> string) option" where
  "read_ipv6_addr s =
     (let (head, head_ipv4, s1) = read_groups 8 0 s
      in if length head = 8 then Some (head, s1)
         else if head_ipv4 then None
         else Option.bind (read_given_char CHR '':'' s1) (\<lambda>s2.
              Option.bind (read_given_char CHR '':'' s2) (\<lambda>s3.
                let (tail, _, s4) = read_groups (7 - length head) 0 s3
                in Some (head @ replicate (8 - length head - length tail) 0 @ tail, s4))))"

definition parse_ipv6 :: "string \<Rightarrow> u128 option" where
  "parse_ipv6 s =
     (case read_ipv6_addr s of
        Some (gs, []) \<Rightarrow> Some (of_nat (horner 65536 gs))
      | _ \<Rightarrow> None)"

definition parse_u32 :: "string \<Rightarrow> nat option" where
  "parse_u32 s =
     (let ds = (case s of c # r \<Rightarrow> if c = CHR ''+'' then r else s | [] \<Rightarrow> s);
          n = digits_value 10 ds
      in if ds \<noteq> [] \<and> list_all (\<lambda>c. to_digit 10 c \<noteq> None) ds \<and> n < 2 ^ 32 then Some n else None)"

subsection \<open>The forms they read\<close>

fun base_digits :: "nat \<Rightarrow> nat \<Rightarrow> nat \<Rightarrow> nat list" where
  "base_digits b 0 n = []"
| "base_digits b (Suc k) n = base_digits b k (n div b) @ [n mod b]"

fun separated :: "string \<Rightarrow> string list \<Rightarrow> string" where
  "separated sep [] = []"
| "separated sep [x] = x"
| "separated sep (x # y # xs) = x @ sep @ separated sep (y # xs)"

definition ipv4_text :: "u32 \<Rightarrow> string" where
  "ipv4_text a = separated ''.'' (map decimal (base_digits 256 4 (unat a)))"

definition hex4 :: "nat \<Rightarrow> string" where
  "hex4 g = map (\<lambda>d. ''0123456789abcdef'' ! d) (base_digits 16 4 g)"

definition ipv6_text :: "u128 \<Rightarrow> string" where
  "ipv6_text a = separated '':'' (map hex4 (base_digits 65536 8 (unat a)))"

lemma horner_snoc [simp]: "horner b (ds @ [d]) = horner b ds * b + d"
  by (simp add: horner_def)

lemma horner_base_digits: "horner b (base_digits b k n) = n mod b ^ k"
proof (induction k arbitrary: n)
  case (Suc k)
  have "n mod (b * b ^ k) = b * (n div b mod b ^ k) + n mod b" by (rule mod_mult2_eq)
  then show ?case by (simp add: Suc mult.commute)
qed (simp add: horner_def)

lemma length_base_digits [simp]: "length (base_digits b k n) = k"
  by (induction k arbitrary: n) simp_all

lemma base_digits_less: "0 < b \<Longrightarrow> d \<in> set (base_digits b k n) \<Longrightarrow> d < b"
  by (induction k arbitrary: n) auto

text \<open>Digits and what they are worth.\<close>

lemma digit_cases: "(d::nat) < 16 \<Longrightarrow> d \<in> {0, 1, 2, 3, 4, 5, 6, 7, 8, 9, 10, 11, 12, 13, 14, 15}"
  unfolding insert_iff empty_iff by presburger

lemma to_digit_16: "d < 16 \<Longrightarrow> to_digit 16 (''0123456789abcdef'' ! d) = Some d"
  by (drule digit_cases) (auto simp: to_digit_def)

lemma to_digit_10: "d < 10 \<Longrightarrow> to_digit 10 (''0123456789'' ! d) = Some d"
  using digit_cases [of d] by (auto simp: to_digit_def)

lemma digits_value_snoc [simp]:
  "digits_value radix (ds @ [c]) = digits_value radix ds * radix + the (to_digit radix c)"
  by (simp add: digits_value_def)

lemma digits_value_Nil [simp]: "digits_value radix [] = 0"
  by (simp add: digits_value_def)

lemma decimal_digits: "c \<in> set (decimal n) \<Longrightarrow> to_digit 10 c \<noteq> None"
  using set_decimal [of n] by (auto simp: to_digit_def)

lemma digits_value_decimal: "digits_value 10 (decimal n) = n"
proof (induction n rule: decimal.induct)
  case (1 n)
  show ?case
  proof (cases "n < 10")
    case True
    have "digits_value 10 [''0123456789'' ! n] = n"
      using digits_value_snoc [of 10 "[]" "''0123456789'' ! n"] by (simp add: to_digit_10 True)
    with True show ?thesis by (subst decimal.simps) simp
  next
    case False
    moreover from False have "digits_value 10 (decimal (n div 10)) = n div 10" using 1 by simp
    ultimately show ?thesis by (subst decimal.simps) (simp add: to_digit_10)
  qed
qed

definition stops :: "nat \<Rightarrow> string \<Rightarrow> bool" where
  "stops radix r \<longleftrightarrow> r = [] \<or> to_digit radix (hd r) = None"

lemma takeWhile_stops:
  "\<forall>c \<in> set ds. to_digit radix c \<noteq> None \<Longrightarrow> stops radix r \<Longrightarrow> takeWhile (\<lambda>c. to_digit radix c \<noteq> None) (ds @ r) = ds"
  by (cases r) (auto simp: stops_def takeWhile_append)

lemma read_decimal:
  assumes "n < 256" "stops 10 r"
  shows "read_number 10 3 False 256 (decimal n @ r) = Some (n, r)"
proof -
  have "length (decimal n) \<le> 3" using assms(1) by (intro length_decimal) simp_all
  moreover have "hd (decimal n) = CHR ''0'' \<longrightarrow> length (decimal n) = 1"
  proof (cases "n = 0")
    case True
    then show ?thesis by (simp add: decimal.simps)
  next
    case False
    with hd_decimal show ?thesis by simp
  qed
  moreover have tw: "takeWhile (\<lambda>c. to_digit 10 c \<noteq> None) (decimal n @ r) = decimal n"
    by (rule takeWhile_stops [OF _ assms(2)]) (simp add: decimal_digits)
  ultimately show ?thesis using assms(1)
    by (simp add: read_number_def Let_def tw digits_value_decimal not_le)
qed

lemma separated_Cons: "separated sep (x # xs) = x @ (if xs = [] then [] else sep @ separated sep xs)"
  by (cases xs) simp_all

lemma read_octets_separated:
  "ns \<noteq> [] \<Longrightarrow> \<forall>n \<in> set ns. n < 256 \<Longrightarrow> stops 10 r \<Longrightarrow>
   read_octets (length ns) i ((if i > 0 then ''.'' else []) @ separated ''.'' (map decimal ns) @ r) = Some (ns, r)"
proof (induction ns arbitrary: i)
  case (Cons n ns)
  let ?r = "if ns = [] then r else ''.'' @ separated ''.'' (map decimal ns) @ r"
  from Cons.prems(3) have "stops 10 ?r" by (simp add: stops_def to_digit_def)
  with Cons.prems(2) have num: "read_number 10 3 False 256 (decimal n @ ?r) = Some (n, ?r)"
    by (intro read_decimal) simp_all
  have "separated ''.'' (map decimal (n # ns)) @ r = decimal n @ ?r" by (simp add: separated_Cons)
  then have "read_separator CHR ''.'' i (read_number 10 3 False 256)
      ((if i > 0 then ''.'' else []) @ separated ''.'' (map decimal (n # ns)) @ r) = Some (n, ?r)"
    using num by (simp add: read_separator_def)
  moreover have "read_octets (length ns) (Suc i) ?r = Some (ns, r)"
    using Cons.IH [of "Suc i"] Cons.prems by (cases "ns = []") simp_all
  ultimately show ?case by simp
qed simp

lemma read_ipv4_decimal:
  assumes "length ns = 4" "\<forall>n \<in> set ns. n < 256" "stops 10 r"
  shows "read_ipv4_addr (separated ''.'' (map decimal ns) @ r) = Some (ns, r)"
proof -
  from assms(1) have "ns \<noteq> []" by auto
  from read_octets_separated [OF this assms(2,3), of 0] assms(1) show ?thesis by (simp add: read_ipv4_addr_def)
qed

lemma length_separated:
  "length (separated sep xs) = sum_list (map length xs) + length sep * (length xs - 1)"
  by (induction sep xs rule: separated.induct) (simp_all add: algebra_simps)

lemma octets_of: "\<forall>n \<in> set (base_digits 256 4 a). n < 256"
  by (auto dest: base_digits_less [rotated])

lemma parse_ipv4_text [simp]: "parse_ipv4 (ipv4_text a) = Some a"
proof -
  let ?os = "base_digits 256 4 (unat a)"
  have "sum_list (map length (map decimal ?os)) \<le> sum_list (map (\<lambda>_. 3) ?os)"
    unfolding map_map o_def by (rule sum_list_mono) (rule length_decimal, use octets_of [of "unat a"] in \<open>auto dest!: bspec\<close>)
  then have len: "length (ipv4_text a) \<le> 15" by (simp add: ipv4_text_def length_separated sum_list_triv)
  have "read_ipv4_addr (ipv4_text a) = Some (?os, [])"
    using read_ipv4_decimal [OF _ octets_of, of "unat a" "[]"] by (simp add: ipv4_text_def stops_def)
  moreover have "of_nat (horner 256 ?os) = a"
    using unsigned_less [of a, where ?'a = nat] by (simp add: horner_base_digits)
  ultimately show ?thesis using len by (simp add: parse_ipv4_def)
qed

text \<open>Groups of hexadecimal digits.\<close>

lemma digits_value_hex:
  "\<forall>d \<in> set ds. d < 16 \<Longrightarrow> digits_value 16 (map (\<lambda>d. ''0123456789abcdef'' ! d) ds) = horner 16 ds"
proof (induction ds rule: rev_induct)
  case (snoc d ds)
  then show ?case by (simp only: map_append list.map digits_value_snoc horner_snoc) (simp add: to_digit_16)
qed (simp add: horner_def)

lemma read_hex4:
  assumes "g < 65536" "stops 16 r"
  shows "read_number 16 4 True 65536 (hex4 g @ r) = Some (g, r)"
proof -
  have ds: "\<forall>d \<in> set (base_digits 16 4 g). d < 16" by (auto dest: base_digits_less [rotated])
  then have "\<forall>c \<in> set (hex4 g). to_digit 16 c \<noteq> None" by (simp add: hex4_def to_digit_16)
  from takeWhile_stops [OF this assms(2)]
  have tw: "takeWhile (\<lambda>c. to_digit 16 c \<noteq> None) (hex4 g @ r) = hex4 g" .
  have "digits_value 16 (hex4 g) = g"
    using assms(1) by (simp add: hex4_def digits_value_hex [OF ds] horner_base_digits)
  moreover have "length (hex4 g) = 4" by (simp add: hex4_def)
  moreover from this have "hex4 g \<noteq> []" by auto
  ultimately show ?thesis using assms(1) unfolding read_number_def Let_def tw by (simp add: not_le)
qed

lemma no_dot_no_ipv4:
  assumes "CHR ''.'' \<notin> set s"
  shows "read_ipv4_addr s = None"
proof -
  have "read_octets 3 1 r = None" if "CHR ''.'' \<notin> set r" for r
    using that by (cases r) (auto simp: eval_nat_numeral read_separator_def)
  moreover have "CHR ''.'' \<notin> set (drop n s)" for n using assms by (auto dest: in_set_dropD)
  ultimately have "read_octets 3 1 (drop n s) = None" for n by simp
  then show ?thesis
    by (simp add: read_ipv4_addr_def read_separator_def read_number_def Let_def numeral_Bit0 numeral_Bit1)
qed

lemma hex4_no_dot: "CHR ''.'' \<notin> set (hex4 g)"
proof -
  have "to_digit 16 c \<noteq> None" if "c \<in> set (hex4 g)" for c
    using that by (auto simp: hex4_def to_digit_16 dest: base_digits_less [rotated])
  moreover have "to_digit 16 CHR ''.'' = None" by (simp add: to_digit_def)
  ultimately show ?thesis by metis
qed

lemma groups_no_dot: "CHR ''.'' \<notin> set (separated '':'' (map hex4 gs))"
  by (induction gs) (simp_all add: separated_Cons hex4_no_dot)

lemma read_groups_separated:
  "gs \<noteq> [] \<Longrightarrow> \<forall>g \<in> set gs. g < 65536 \<Longrightarrow>
   read_groups (length gs) i ((if i > 0 then '':'' else []) @ separated '':'' (map hex4 gs)) = (gs, False, [])"
proof (induction gs arbitrary: i)
  case (Cons g gs)
  define r where "r = (if gs = [] then [] else '':'' @ separated '':'' (map hex4 gs))"
  have sep: "separated '':'' (map hex4 (g # gs)) = hex4 g @ r" by (simp add: separated_Cons r_def)
  have "stops 16 r" by (simp add: stops_def to_digit_def r_def)
  with Cons.prems(2) have num: "read_number 16 4 True 65536 (hex4 g @ r) = Some (g, r)"
    by (intro read_hex4) simp_all
  have ipv4: "read_ipv4_addr (hex4 g @ r) = None"
    using groups_no_dot [of "g # gs"] by (intro no_dot_no_ipv4) (simp only: sep not_False_eq_True)
  let ?s = "(if i > 0 then '':'' else []) @ hex4 g @ r"
  have "read_separator CHR '':'' i (read_number 16 4 True 65536) ?s = Some (g, r)"
    using num by (simp add: read_separator_def)
  moreover have "read_separator CHR '':'' i read_ipv4_addr ?s = None"
    using ipv4 by (simp add: read_separator_def)
  moreover have "read_groups (length gs) (Suc i) r = (gs, False, [])"
    using Cons.IH [of "Suc i"] Cons.prems by (cases "gs = []") (simp_all add: r_def)
  moreover have "gs = [] \<Longrightarrow> r = []" by (simp add: r_def)
  ultimately show ?case unfolding sep by (cases "gs = []") (simp_all del: append_Cons append_Nil if_split)
qed simp

lemma parse_ipv6_text [simp]: "parse_ipv6 (ipv6_text a) = Some a"
proof -
  let ?gs = "base_digits 65536 8 (unat a)"
  have "?gs \<noteq> []" using length_base_digits [of 65536 8 "unat a"] by (metis list.size(3) zero_neq_numeral)
  moreover have "\<forall>g \<in> set ?gs. g < 65536" by (auto dest: base_digits_less [rotated])
  ultimately have "read_groups 8 0 (ipv6_text a) = (?gs, False, [])"
    using read_groups_separated [of ?gs 0] by (simp add: ipv6_text_def)
  then have "read_ipv6_addr (ipv6_text a) = Some (?gs, [])" by (simp add: read_ipv6_addr_def)
  moreover have "of_nat (horner 65536 ?gs) = a"
    using unsigned_less [of a, where ?'a = nat] by (simp add: horner_base_digits)
  ultimately show ?thesis by (simp add: parse_ipv6_def)
qed

lemma parse_ipv4_ipv6_text [simp]: "parse_ipv4 (ipv6_text a) = None"
proof -
  have "read_ipv4_addr (ipv6_text a) = None"
    unfolding ipv6_text_def by (rule no_dot_no_ipv4 [OF groups_no_dot])
  then show ?thesis by (simp add: parse_ipv4_def)
qed

lemma parse_u32_decimal [simp]:
  assumes "n < 2 ^ 32"
  shows "parse_u32 (decimal n) = Some n"
proof -
  have plus: "CHR ''+'' \<notin> set (decimal n)" using set_decimal [of n] by auto
  then have "(case decimal n of c # r \<Rightarrow> if c = CHR ''+'' then r else decimal n | [] \<Rightarrow> decimal n) = decimal n"
    by (cases "decimal n") auto
  moreover have "list_all (\<lambda>c. to_digit 10 c \<noteq> None) (decimal n)"
    unfolding list_all_iff using decimal_digits by blast
  ultimately show ?thesis using assms by (simp only: parse_u32_def Let_def digits_value_decimal) simp
qed

text \<open>Shorthand, embedded and malformed addresses.\<close>

lemmas read_numeral =
  read_groups.simps(2) [of "pred_numeral k" for k, folded numeral_eq_Suc]
  read_octets.simps(2) [of "pred_numeral k" for k, folded numeral_eq_Suc]

lemma parse_examples:
  "read_ipv6_addr ''::1'' = Some ([0, 0, 0, 0, 0, 0, 0, 1], [])"
  "read_ipv6_addr ''2001:db8::'' = Some ([8193, 3512, 0, 0, 0, 0, 0, 0], [])"
  "read_ipv6_addr ''::ffff:10.0.0.1'' = Some ([0, 0, 0, 0, 0, 65535, 2560, 1], [])"
  "read_ipv6_addr ''1::2::3'' = Some ([1, 0, 0, 0, 0, 0, 0, 2], ''::3'')"
  "read_ipv4_addr ''10.0.0.01'' = None"
  "read_ipv4_addr ''10.0.0.256'' = None"
  "read_ipv4_addr ''10.0.0'' = None"
  by (simp_all add: read_ipv6_addr_def read_ipv4_addr_def read_separator_def read_number_def to_digit_def
    digits_value_def horner_def Let_def read_numeral, simp_all add: numeral_eq_Suc)

end
