(* ===== verification/Password_Texts.thy ===== *)
theory Password_Texts
  imports Password_Policy Ip_Addresses
begin

text \<open>
  The texts of \<^verbatim>\<open>src/rbac/policy.rs\<close>: how a reason and a bootstrap credential are printed. The debug
  form of a text and of a state is the standard library's and a parameter. The dash of the log line is
  its three bytes.
\<close>

fun reason_display :: "password_change_reason \<Rightarrow> string" where
  "reason_display InitialPassword = password_change_reason_as_str InitialPassword"
| "reason_display (Expired age mx) =
     password_change_reason_as_str (Expired age mx) @ ''('' @ decimal (unat age) @ ''/'' @ decimal (unat mx) @ ''d)''"

definition em_dash :: string where
  "em_dash = [CHR 0xE2, CHR 0x80, CHR 0x94]"

definition log_line :: "bootstrap_credential \<Rightarrow> string" where
  "log_line c = ''temporary password for '' @ [CHR 0x27] @ bc_username c @ [CHR 0x27] @ '': '' @ bc_password c @
     '' '' @ em_dash @ '' change it on first login''"

definition credential_debug ::
  "(string \<Rightarrow> string) \<Rightarrow> (password_state \<Rightarrow> string) \<Rightarrow> bootstrap_credential \<Rightarrow> string" where
  "credential_debug debug_str debug_state c =
     ''BootstrapCredential { username: '' @ debug_str (bc_username c) @ '', password: '' @ debug_str ''[redacted]'' @
     '', state: '' @ debug_state (bc_state c) @ '' }''"

lemma decimal_inject [simp]: "decimal m = decimal n \<longleftrightarrow> m = n"
  by (metis digits_value_decimal)

lemma decimal_plain: "CHR ''/'' \<notin> set (decimal n)" "CHR ''d'' \<notin> set (decimal n)"
  using set_decimal [of n] by auto

text \<open>
  The printed form of a reason tells which it is: two reasons with the same text are the same, their
  day counts included, so that a logged line can be replayed; and the debug form of a
  bootstrap credential is the same for every password.
\<close>

theorem printed_reason_is_exact:
  "(reason_display r = reason_display r' \<longleftrightarrow> r = r') \<and>
    credential_debug debug_str debug_state (c\<lparr>bc_password := p\<rparr>) = credential_debug debug_str debug_state c"
proof -
  have "reason_display r = reason_display r' \<longleftrightarrow> r = r'"
    by (cases r; cases r') (auto simp: append_at_separator decimal_plain word_unat_eq_iff)
  then show ?thesis by (simp add: credential_debug_def)
qed

end
