(* ===== verification/Audit_Trail.thy ===== *)
theory Audit_Trail
  imports Kirino_Prelude
begin

text \<open>
  The audit trail, \<^verbatim>\<open>src/rbac/audit.rs\<close>: the entries and their filters, the bounded in-memory
  sink, the rule conditions, the policy engine with its cooldowns, and the logger.

  Risk scores are 64-bit floats in the code. Their type is a parameter \<open>'f\<close> and the four
  operations the code uses on them are the record \<open>score_ops\<close>; nothing is assumed of them.
  Stepping back from an instant by a number of seconds is \<^verbatim>\<open>chrono\<close>'s, whose documentation says
  that it panics when the seconds or the resulting date are out of its range: it is the
  parameter \<open>sub_secs\<close>, \<open>None\<close> for the panic, and an evaluation that panics has the value \<open>None\<close>.
\<close>

subsection \<open>Entries and filters\<close>

record 'f score_ops =
  f_ge :: "'f \<Rightarrow> 'f \<Rightarrow> bool"
  f_le :: "'f \<Rightarrow> 'f \<Rightarrow> bool"
  f_lt :: "'f \<Rightarrow> 'f \<Rightarrow> bool"
  f_one_minus :: "'f \<Rightarrow> 'f"
  f_zero :: 'f
  f_high :: 'f

record 'f audit_sub_scores =
  delegator_weight :: 'f
  trust_penalty :: 'f
  sensitivity :: 'f
  domain_mismatch :: 'f
  anomaly :: 'f

record 'f audit_verdict =
  autonomy_level :: string
  risk_score :: 'f
  sub_scores :: "'f audit_sub_scores"
  evidence :: "string list"
  mitigation :: "string option"

record 'f audit_entry =
  ae_id :: u64
  ae_subject_id :: string
  ae_subject_type :: string
  ae_permission :: string
  ae_endpoint :: string
  ae_granted :: bool
  ae_created_at :: instant
  ae_verdict :: "'f audit_verdict option"

definition is_denied :: "'f audit_entry \<Rightarrow> bool" where
  "is_denied e \<longleftrightarrow> \<not> ae_granted e"

definition is_high_risk :: "'f score_ops \<Rightarrow> 'f audit_entry \<Rightarrow> bool" where
  "is_high_risk ops e = (case ae_verdict e of Some v \<Rightarrow> f_ge ops (risk_score v) (f_high ops) | None \<Rightarrow> False)"

record 'f audit_filter =
  af_subject_id :: "string option"
  af_granted :: "bool option"
  af_permission :: "string option"
  af_since :: "instant option"
  af_until :: "instant option"
  af_min_risk :: "'f option"
  af_limit :: "nat option"

definition audit_filter_default :: "'f audit_filter" where
  "audit_filter_default =
     \<lparr>af_subject_id = None, af_granted = None, af_permission = None, af_since = None,
      af_until = None, af_min_risk = None, af_limit = None\<rparr>"

definition matches_filter :: "'f score_ops \<Rightarrow> 'f audit_entry \<Rightarrow> 'f audit_filter \<Rightarrow> bool" where
  "matches_filter ops e f =
     (if (case af_subject_id f of Some sid \<Rightarrow> ae_subject_id e \<noteq> sid | None \<Rightarrow> False) then False
      else if (case af_granted f of Some g \<Rightarrow> ae_granted e \<noteq> g | None \<Rightarrow> False) then False
      else if (case af_permission f of Some p \<Rightarrow> ae_permission e \<noteq> p | None \<Rightarrow> False) then False
      else if (case af_since f of Some t \<Rightarrow> ae_created_at e < t | None \<Rightarrow> False) then False
      else if (case af_until f of Some t \<Rightarrow> ae_created_at e > t | None \<Rightarrow> False) then False
      else if (case af_min_risk f of
                 Some r \<Rightarrow>
                   f_lt ops (case ae_verdict e of Some v \<Rightarrow> risk_score v | None \<Rightarrow> f_zero ops) r
               | None \<Rightarrow> False) then False
      else True)"

subsection \<open>The sink\<close>

definition DEFAULT_MAX_AUDIT_ENTRIES :: nat where
  "DEFAULT_MAX_AUDIT_ENTRIES = 10000"

record 'f audit_sink =
  as_entries :: "'f audit_entry list"
  as_next_id :: u64
  as_max_entries :: nat

definition audit_sink_with_max_entries :: "nat \<Rightarrow> 'f audit_sink" where
  "audit_sink_with_max_entries n = \<lparr>as_entries = [], as_next_id = 1, as_max_entries = n\<rparr>"

definition audit_sink_new :: "'f audit_sink" where
  "audit_sink_new = audit_sink_with_max_entries DEFAULT_MAX_AUDIT_ENTRIES"

text \<open>The loop that pops the front while the deque is too long.\<close>

function pop_excess :: "nat \<Rightarrow> 'a list \<Rightarrow> 'a list" where
  "pop_excess n es = (if length es > n then pop_excess n (tl es) else es)"
  by auto
termination by (relation "measure (\<lambda>(n, es). length es)") auto

declare pop_excess.simps [simp del]

definition sink_append :: "'f audit_entry \<Rightarrow> 'f audit_sink \<Rightarrow> 'f audit_sink" where
  "sink_append e sk =
     sk\<lparr>as_entries := pop_excess (as_max_entries sk) (as_entries sk @ [e\<lparr>ae_id := as_next_id sk\<rparr>]),
        as_next_id := as_next_id sk + 1\<rparr>"

definition sink_query :: "'f score_ops \<Rightarrow> 'f audit_filter \<Rightarrow> 'f audit_sink \<Rightarrow> 'f audit_entry list" where
  "sink_query ops f sk =
     (let res = sort_key (\<lambda>e. - ae_created_at e) (filter (\<lambda>e. matches_filter ops e f) (as_entries sk))
      in case af_limit f of Some n \<Rightarrow> take n res | None \<Rightarrow> res)"

definition sink_count :: "'f score_ops \<Rightarrow> 'f audit_filter \<Rightarrow> 'f audit_sink \<Rightarrow> nat" where
  "sink_count ops f sk = length (filter (\<lambda>e. matches_filter ops e f) (as_entries sk))"

subsection \<open>Rules\<close>

datatype severity = Info | Warning | Critical

datatype audit_action =
    Alert string severity
  | Notify string string
  | Countermeasure string "(string \<times> string) list"

datatype logical_op = All | Any

datatype 'f audit_condition =
    DeniedCond
  | HighRisk 'f
  | CategorySensitive 'f
  | DomainMismatch 'f
  | RapidDenials u64 "32 word"
  | TrustBelow 'f
  | Composite "'f audit_condition list" logical_op

record 'f audit_rule =
  ar_id :: string
  ar_name :: string
  ar_enabled :: bool
  ar_condition :: "'f audit_condition"
  ar_action :: audit_action
  ar_cooldown_secs :: u64

fun condition_evaluate :: "'f score_ops \<Rightarrow> 'f audit_entry \<Rightarrow> 'f audit_condition \<Rightarrow> bool" where
  "condition_evaluate ops e DeniedCond = is_denied e"
| "condition_evaluate ops e (HighRisk t) =
     (case ae_verdict e of Some v \<Rightarrow> f_ge ops (risk_score v) t | None \<Rightarrow> False)"
| "condition_evaluate ops e (CategorySensitive w) =
     (case ae_verdict e of Some v \<Rightarrow> f_ge ops (sensitivity (sub_scores v)) w | None \<Rightarrow> False)"
| "condition_evaluate ops e (DomainMismatch w) =
     (case ae_verdict e of Some v \<Rightarrow> f_ge ops (domain_mismatch (sub_scores v)) w | None \<Rightarrow> False)"
| "condition_evaluate ops e (RapidDenials window n) = False"
| "condition_evaluate ops e (TrustBelow t) =
     (case ae_verdict e of
        Some v \<Rightarrow> f_le ops (f_one_minus ops (trust_penalty (sub_scores v))) t
      | None \<Rightarrow> False)"
| "condition_evaluate ops e (Composite cs op) =
     (case op of
        All \<Rightarrow> list_all (condition_evaluate ops e) cs
      | Any \<Rightarrow> list_ex (condition_evaluate ops e) cs)"

record 'f audit_alert =
  al_rule_id :: string
  al_rule_name :: string
  al_action :: audit_action
  al_triggering_entry :: "'f audit_entry"
  al_created_at :: instant

subsection \<open>The policy engine\<close>

record 'f audit_engine =
  en_rules :: "'f audit_rule list"
  en_last_triggered :: "(string, instant) hash_map"

definition audit_engine_new :: "'f audit_engine" where
  "audit_engine_new = \<lparr>en_rules = [], en_last_triggered = []\<rparr>"

definition add_rule :: "'f audit_rule \<Rightarrow> 'f audit_engine \<Rightarrow> 'f audit_engine" where
  "add_rule r en = en\<lparr>en_rules := en_rules en @ [r]\<rparr>"

definition remove_rule :: "string \<Rightarrow> 'f audit_engine \<Rightarrow> bool result \<times> 'f audit_engine" where
  "remove_rule rid en =
     (let rs = filter (\<lambda>r. ar_id r \<noteq> rid) (en_rules en)
      in (Inr (length rs < length (en_rules en)), en\<lparr>en_rules := rs\<rparr>))"

definition cooling_down :: "instant \<Rightarrow> 'f audit_rule \<Rightarrow> (string, instant) hash_map \<Rightarrow> bool" where
  "cooling_down now r lt =
     (case map_of lt (ar_id r) of
        None \<Rightarrow> False
      | Some t \<Rightarrow>
          let elapsed = num_seconds (now - t)
          in elapsed < 0 \<or> word_of_int elapsed < ar_cooldown_secs r)"

definition i64_max :: int where
  "i64_max = 2 ^ 63 - 1"

definition rule_matches ::
  "'f score_ops \<Rightarrow> (instant \<Rightarrow> int \<Rightarrow> instant option) \<Rightarrow> 'f audit_sink option \<Rightarrow> instant \<Rightarrow>
     'f audit_entry \<Rightarrow> 'f audit_rule \<Rightarrow> bool option" where
  "rule_matches ops sub_secs sink now e r =
     (case ar_condition r of
        RapidDenials window min_count \<Rightarrow>
          (case sink of
             Some sk \<Rightarrow>
               let secs = (if uint window \<le> i64_max then uint window else i64_max)
               in (case sub_secs now secs of
                     None \<Rightarrow> None
                   | Some since \<Rightarrow>
                       let f = audit_filter_default\<lparr>af_subject_id := Some (ae_subject_id e),
                             af_granted := Some False, af_since := Some since\<rparr>
                       in Some (sink_count ops f sk \<ge> unat min_count))
           | None \<Rightarrow> Some False)
      | other \<Rightarrow> Some (condition_evaluate ops e other))"

definition alert_for :: "instant \<Rightarrow> 'f audit_entry \<Rightarrow> 'f audit_rule \<Rightarrow> 'f audit_alert" where
  "alert_for now e r =
     \<lparr>al_rule_id = ar_id r, al_rule_name = ar_name r, al_action = ar_action r,
      al_triggering_entry = e, al_created_at = now\<rparr>"

fun evaluate_rules ::
  "'f score_ops \<Rightarrow> (instant \<Rightarrow> int \<Rightarrow> instant option) \<Rightarrow> 'f audit_sink option \<Rightarrow> instant \<Rightarrow>
     'f audit_entry \<Rightarrow> 'f audit_rule list \<Rightarrow> (string, instant) hash_map \<Rightarrow> 'f audit_alert list \<Rightarrow>
     ('f audit_alert list \<times> (string, instant) hash_map) option" where
  "evaluate_rules ops sub_secs sink now e [] lt alerts = Some (alerts, lt)"
| "evaluate_rules ops sub_secs sink now e (r # rs) lt alerts =
     (if \<not> ar_enabled r then evaluate_rules ops sub_secs sink now e rs lt alerts
      else if cooling_down now r lt then evaluate_rules ops sub_secs sink now e rs lt alerts
      else case rule_matches ops sub_secs sink now e r of
             None \<Rightarrow> None
           | Some matched \<Rightarrow>
               if matched
               then evaluate_rules ops sub_secs sink now e rs
                 (AList.update (ar_id r) now lt) (alerts @ [alert_for now e r])
               else evaluate_rules ops sub_secs sink now e rs lt alerts)"

definition engine_evaluate ::
  "'f score_ops \<Rightarrow> (instant \<Rightarrow> int \<Rightarrow> instant option) \<Rightarrow> 'f audit_sink option \<Rightarrow> instant \<Rightarrow>
     'f audit_entry \<Rightarrow> 'f audit_engine \<Rightarrow> ('f audit_alert list \<times> 'f audit_engine) option" where
  "engine_evaluate ops sub_secs sink now e en =
     (case evaluate_rules ops sub_secs sink now e (en_rules en) (en_last_triggered en) [] of
        None \<Rightarrow> None
      | Some (alerts, lt) \<Rightarrow>
          Some (alerts, en\<lparr>en_last_triggered :=
            fold (\<lambda>(k, t). AList.update k t) lt (en_last_triggered en)\<rparr>))"

subsection \<open>The logger\<close>

text \<open>
  The logger's sink, its optional engine, and whether that engine was built with the same sink.
  \<open>log\<close> returns the state after the append beside the outcome, so that a panic of the engine
  (\<open>None\<close>) still shows what was recorded.
\<close>

record 'f audit_logger =
  lg_sink :: "'f audit_sink"
  lg_engine :: "'f audit_engine option"
  lg_shared_sink :: bool

definition logger_log ::
  "'f score_ops \<Rightarrow> (instant \<Rightarrow> int \<Rightarrow> instant option) \<Rightarrow> instant \<Rightarrow> 'f audit_entry \<Rightarrow>
     'f audit_logger \<Rightarrow> 'f audit_alert list option \<times> 'f audit_logger" where
  "logger_log ops sub_secs now e lg =
     (let sk = sink_append e (lg_sink lg);
          lg' = lg\<lparr>lg_sink := sk\<rparr>
      in case lg_engine lg of
           None \<Rightarrow> (Some [], lg')
         | Some en \<Rightarrow>
             (case engine_evaluate ops sub_secs (if lg_shared_sink lg then Some sk else None) now e en of
                None \<Rightarrow> (None, lg')
              | Some (fired, en') \<Rightarrow> (Some fired, lg'\<lparr>lg_engine := Some en'\<rparr>)))"

subsection \<open>The sink keeps the latest entries\<close>

lemma pop_excess_drop: "pop_excess n es = drop (length es - n) es"
proof (induction n es rule: pop_excess.induct)
  case (1 n es)
  show ?case
  proof (cases "length es > n")
    case True
    then have "drop (length (tl es) - n) (tl es) = drop (length es - n) es"
      by (cases es) (auto simp: Suc_diff_le)
    with 1 True show ?thesis by (subst pop_excess.simps) simp
  next
    case False
    then show ?thesis by (subst pop_excess.simps) simp
  qed
qed

text \<open>The entries as the sink numbers them: the first is 1, modulo the width of the counter.\<close>

fun numbered :: "u64 \<Rightarrow> 'f audit_entry list \<Rightarrow> 'f audit_entry list" where
  "numbered i [] = []"
| "numbered i (e # es) = e\<lparr>ae_id := i\<rparr> # numbered (i + 1) es"

lemma length_numbered [simp]: "length (numbered i es) = length es"
  by (induction es arbitrary: i) simp_all

lemma numbered_snoc: "numbered i (es @ [e]) = numbered i es @ [e\<lparr>ae_id := i + of_nat (length es)\<rparr>]"
  by (induction es arbitrary: i) (simp_all add: add.commute add.left_commute)

lemma drop_snoc_twice:
  "drop (length (drop (length xs - n) xs @ [x]) - n) (drop (length xs - n) xs @ [x]) =
     drop (length (xs @ [x]) - n) (xs @ [x])"
proof (cases "length xs \<le> n")
  case False
  then show ?thesis by (cases n) (auto simp: Suc_diff_le not_le Suc_diff_Suc)
qed simp

definition append_all :: "'f audit_entry list \<Rightarrow> 'f audit_sink \<Rightarrow> 'f audit_sink" where
  "append_all es sk = fold sink_append es sk"

lemma append_all_new:
  "append_all es (audit_sink_with_max_entries n) =
     \<lparr>as_entries = drop (length es - n) (numbered 1 es), as_next_id = 1 + of_nat (length es),
      as_max_entries = n\<rparr>"
proof (induction es rule: rev_induct)
  case Nil
  show ?case by (simp add: append_all_def audit_sink_with_max_entries_def)
next
  case (snoc e es)
  have "append_all (es @ [e]) (audit_sink_with_max_entries n) =
      sink_append e (append_all es (audit_sink_with_max_entries n))"
    by (simp add: append_all_def)
  then show ?case
    using drop_snoc_twice [of "numbered 1 es" n "e\<lparr>ae_id := 1 + of_nat (length es)\<rparr>"]
    by (simp add: snoc.IH sink_append_def pop_excess_drop numbered_snoc add.assoc)
qed

text \<open>
  Whatever is appended to a new sink, it holds exactly the latest entries up to its bound,
  in the order they were appended, each unchanged but for its identifier, which numbers the
  appended entries from 1 whether or not they are still held.
\<close>

theorem sink_keeps_latest:
  "as_entries (append_all es (audit_sink_with_max_entries n)) = drop (length es - n) (numbered 1 es) \<and>
   length (as_entries (append_all es (audit_sink_with_max_entries n))) = min (length es) n \<and>
   map (\<lambda>e. e\<lparr>ae_id := 0\<rparr>) (numbered 1 es) = map (\<lambda>e. e\<lparr>ae_id := 0\<rparr>) es"
proof -
  have "map (\<lambda>e. e\<lparr>ae_id := 0\<rparr>) (numbered i es) = map (\<lambda>e. e\<lparr>ae_id := 0\<rparr>) es" for i
    by (induction es arbitrary: i) simp_all
  then show ?thesis by (simp add: append_all_new)
qed

text \<open>
  A query returns, newest first, exactly the matching entries that are held, cut to its
  limit; \<open>count\<close> is their number before the cut.
\<close>

theorem query_exact:
  "sorted_wrt (\<lambda>a b. ae_created_at b \<le> ae_created_at a) (sink_query ops f sk) \<and>
   (\<exists>rest. mset (sink_query ops f sk) + rest = mset (filter (\<lambda>e. matches_filter ops e f) (as_entries sk)) \<and>
      (\<forall>a \<in> set (sink_query ops f sk). \<forall>b \<in># rest. ae_created_at b \<le> ae_created_at a)) \<and>
   length (sink_query ops f sk) =
     (case af_limit f of None \<Rightarrow> sink_count ops f sk | Some n \<Rightarrow> min n (sink_count ops f sk))"
proof -
  let ?r = "sort_key (\<lambda>e. - ae_created_at e) (filter (\<lambda>e. matches_filter ops e f) (as_entries sk))"
  define n where "n = (case af_limit f of Some n \<Rightarrow> n | None \<Rightarrow> length ?r)"
  have q: "sink_query ops f sk = take n ?r"
    by (simp add: sink_query_def n_def Let_def split: option.splits)
  have s: "sorted_wrt (\<lambda>a b. ae_created_at b \<le> ae_created_at a) ?r"
    using sorted_sort_key [of "\<lambda>e. - ae_created_at e"] by (simp add: sorted_map)
  then have "sorted_wrt (\<lambda>a b. ae_created_at b \<le> ae_created_at a) (take n ?r @ drop n ?r)" by simp
  then have "sorted_wrt (\<lambda>a b. ae_created_at b \<le> ae_created_at a) (take n ?r)"
    and "\<forall>a \<in> set (take n ?r). \<forall>b \<in> set (drop n ?r). ae_created_at b \<le> ae_created_at a"
    unfolding sorted_wrt_append by blast+
  moreover have "mset (take n ?r) + mset (drop n ?r) =
      mset (filter (\<lambda>e. matches_filter ops e f) (as_entries sk))"
    by (metis append_take_drop_id mset_append mset_sort)
  ultimately show ?thesis
    unfolding q by (intro conjI exI [of _ "mset (drop n ?r)"])
      (simp_all add: n_def sink_count_def min_def split: option.split)
qed

subsection \<open>The engine\<close>

lemma map_of_fold_update:
  "hm_wf l \<Longrightarrow> map_of (fold (\<lambda>(k, t). AList.update k t) l m) k =
     (case map_of l k of None \<Rightarrow> map_of m k | Some t \<Rightarrow> Some t)"
proof (induction l arbitrary: m)
  case (Cons a l)
  obtain k' t where a: "a = (k', t)" by (cases a)
  from Cons.prems a have "hm_wf l" "map_of l k' = None" by (auto simp: hm_wf_def map_of_eq_None_iff)
  with Cons.IH a show ?case by (auto simp: map_of_AList_update split: option.splits)
qed simp

text \<open>What one pass over the rules does to the alerts and to the cooldown slots.\<close>

definition pass_result ::
  "'f score_ops \<Rightarrow> (instant \<Rightarrow> int \<Rightarrow> instant option) \<Rightarrow> 'f audit_sink option \<Rightarrow> instant \<Rightarrow>
     'f audit_entry \<Rightarrow> 'f audit_rule list \<Rightarrow> (string, instant) hash_map \<Rightarrow> 'f audit_alert list \<Rightarrow>
     (string, instant) hash_map \<Rightarrow> bool" where
  "pass_result ops sub_secs sink now e rs lt new lt' \<longleftrightarrow>
     (\<forall>a \<in> set new. \<exists>r \<in> set rs. a = alert_for now e r \<and> ar_enabled r \<and>
        rule_matches ops sub_secs sink now e r = Some True) \<and>
     (\<forall>k \<in> al_rule_id ` set new. \<exists>r \<in> set rs. ar_id r = k \<and> ar_enabled r \<and> \<not> cooling_down now r lt) \<and>
     (\<forall>k. map_of lt' k = (if k \<in> al_rule_id ` set new then Some now else map_of lt k))"

lemma pass_result_skip:
  "pass_result ops sub_secs sink now e rs lt new lt' \<Longrightarrow> pass_result ops sub_secs sink now e (r # rs) lt new lt'"
  unfolding pass_result_def by auto

lemma cooling_down_other:
  "ar_id r' \<noteq> k \<Longrightarrow> cooling_down now r' (AList.update k t lt) = cooling_down now r' lt"
  by (simp add: cooling_down_def map_of_AList_update)

lemma pass_result_fire:
  assumes "pass_result ops sub_secs sink now e rs (AList.update (ar_id r) now lt) new lt'"
    and "ar_enabled r" "\<not> cooling_down now r lt" "rule_matches ops sub_secs sink now e r = Some True"
  shows "pass_result ops sub_secs sink now e (r # rs) lt (alert_for now e r # new) lt'"
proof -
  have id: "al_rule_id (alert_for now e r) = ar_id r" by (simp add: alert_for_def)
  have "\<exists>r' \<in> set (r # rs). ar_id r' = k \<and> ar_enabled r' \<and> \<not> cooling_down now r' lt"
    if "k \<in> al_rule_id ` set (alert_for now e r # new)" for k
  proof (cases "k = ar_id r")
    case True
    with assms show ?thesis by auto
  next
    case False
    with that id have "k \<in> al_rule_id ` set new" by auto
    then obtain r' where "r' \<in> set rs" "ar_id r' = k" "ar_enabled r'"
      "\<not> cooling_down now r' (AList.update (ar_id r) now lt)"
      using assms(1) unfolding pass_result_def by blast
    with False show ?thesis by (auto simp: cooling_down_other)
  qed
  then show ?thesis
    using assms id unfolding pass_result_def by (auto simp: map_of_AList_update)
qed

lemma evaluate_rules_pass:
  assumes "evaluate_rules ops sub_secs sink now e rs lt alerts = Some (alerts', lt')" "hm_wf lt"
  shows "hm_wf lt' \<and> (\<exists>new. alerts' = alerts @ new \<and> pass_result ops sub_secs sink now e rs lt new lt' \<and>
    ((\<forall>r \<in> set rs. ar_cooldown_secs r \<noteq> 0) \<longrightarrow> distinct (map al_rule_id new)))"
  using assms
proof (induction rs arbitrary: lt alerts)
  case Nil
  then show ?case by (auto simp: pass_result_def)
next
  case (Cons r rs)
  consider (skip) "evaluate_rules ops sub_secs sink now e rs lt alerts = Some (alerts', lt')"
    | (fire) "ar_enabled r" "\<not> cooling_down now r lt" "rule_matches ops sub_secs sink now e r = Some True"
      "evaluate_rules ops sub_secs sink now e rs (AList.update (ar_id r) now lt)
         (alerts @ [alert_for now e r]) = Some (alerts', lt')"
    using Cons.prems(1) by (auto split: if_splits option.splits)
  then show ?case
  proof cases
    case skip
    from Cons.IH [OF this Cons.prems(2)] show ?thesis
      using pass_result_skip by fastforce
  next
    case fire
    let ?lt = "AList.update (ar_id r) now lt"
    from Cons.IH [OF fire(4)] Cons.prems(2) obtain new where
      wf: "hm_wf lt'" and new: "alerts' = alerts @ [alert_for now e r] @ new"
      and pass: "pass_result ops sub_secs sink now e rs ?lt new lt'"
      and dist: "(\<forall>r \<in> set rs. ar_cooldown_secs r \<noteq> 0) \<longrightarrow> distinct (map al_rule_id new)"
      by auto
    have "ar_id r \<notin> al_rule_id ` set new" if cd: "\<forall>r \<in> set rs. ar_cooldown_secs r \<noteq> 0"
    proof
      assume "ar_id r \<in> al_rule_id ` set new"
      then obtain r' where "r' \<in> set rs" "ar_id r' = ar_id r" "\<not> cooling_down now r' ?lt"
        using pass unfolding pass_result_def by blast
      with cd show False
        by (auto simp: cooling_down_def map_of_AList_update num_seconds_def word_neq_0_conv)
    qed
    with dist have "(\<forall>r \<in> set (r # rs). ar_cooldown_secs r \<noteq> 0) \<longrightarrow>
        distinct (map al_rule_id (alert_for now e r # new))"
      by (auto simp: alert_for_def)
    with pass_result_fire [OF pass fire(1-3)] wf new show ?thesis by fastforce
  qed
qed

lemma engine_evaluate_pass:
  assumes "engine_evaluate ops sub_secs sink now e en = Some (alerts, en')" "hm_wf (en_last_triggered en)"
  shows "pass_result ops sub_secs sink now e (en_rules en) (en_last_triggered en) alerts (en_last_triggered en') \<and>
    ((\<forall>r \<in> set (en_rules en). ar_cooldown_secs r \<noteq> 0) \<longrightarrow> distinct (map al_rule_id alerts)) \<and>
    en_rules en' = en_rules en"
proof -
  obtain lt where ev: "evaluate_rules ops sub_secs sink now e (en_rules en) (en_last_triggered en) [] =
      Some (alerts, lt)"
    and en': "en' = en\<lparr>en_last_triggered := fold (\<lambda>(k, t). AList.update k t) lt (en_last_triggered en)\<rparr>"
    using assms(1) by (auto simp: engine_evaluate_def split: option.splits)
  from evaluate_rules_pass [OF ev assms(2)] have wf: "hm_wf lt"
    and p: "pass_result ops sub_secs sink now e (en_rules en) (en_last_triggered en) alerts lt"
    and d: "(\<forall>r \<in> set (en_rules en). ar_cooldown_secs r \<noteq> 0) \<longrightarrow> distinct (map al_rule_id alerts)"
    by auto
  have "map_of (en_last_triggered en') k = map_of lt k" for k
    using p unfolding en' pass_result_def
    by (auto simp: map_of_fold_update [OF wf] split: option.split if_splits)
  with p d en' show ?thesis by (simp add: pass_result_def)
qed

text \<open>
  An engine alerts only for enabled rules that match, and respects cooldowns: when a rule
  identifier fires in an evaluation and again in the next one, the clock has advanced, by at
  least the cooldown of a rule with that identifier; and copies of a rule share its cooldown,
  so that with positive cooldowns an identifier fires at most once in one evaluation.
\<close>

theorem cooldown_is_respected:
  assumes "hm_wf (en_last_triggered en)"
    and "engine_evaluate ops sub_secs sink1 t1 e1 en = Some (alerts1, en1)"
    and "engine_evaluate ops sub_secs sink2 t2 e2 en1 = Some (alerts2, en2)"
    and "a1 \<in> set alerts1" and "a2 \<in> set alerts2" and "al_rule_id a1 = al_rule_id a2"
  shows "(\<exists>r \<in> set (en_rules en). ar_id r = al_rule_id a2 \<and> ar_enabled r \<and> 0 \<le> num_seconds (t2 - t1) \<and>
      ar_cooldown_secs r \<le> word_of_int (num_seconds (t2 - t1))) \<and>
    ((\<forall>r \<in> set (en_rules en). ar_cooldown_secs r \<noteq> 0) \<longrightarrow> distinct (map al_rule_id alerts1))"
proof -
  note p1 = engine_evaluate_pass [OF assms(2,1)]
  have wf1: "hm_wf (en_last_triggered en1)"
  proof -
    have "hm_wf (fold (\<lambda>(k, t). AList.update k t) l m)" if "hm_wf m" for l m :: "(string, instant) hash_map"
      using that by (induction l arbitrary: m) auto
    then show ?thesis using assms(1,2) by (auto simp: engine_evaluate_def split: option.splits)
  qed
  note p2 = engine_evaluate_pass [OF assms(3) wf1]
  have slot: "map_of (en_last_triggered en1) (al_rule_id a2) = Some t1"
  proof -
    have "al_rule_id a2 \<in> al_rule_id ` set alerts1" using assms(4,6) by (metis imageI)
    with p1 show ?thesis by (simp add: pass_result_def)
  qed
  obtain r where "r \<in> set (en_rules en1)" "ar_id r = al_rule_id a2" "ar_enabled r"
    "\<not> cooling_down t2 r (en_last_triggered en1)"
    using p2 assms(5) unfolding pass_result_def by blast
  with slot p1 have "r \<in> set (en_rules en)" "ar_id r = al_rule_id a2" "ar_enabled r"
    "0 \<le> num_seconds (t2 - t1)" "ar_cooldown_secs r \<le> word_of_int (num_seconds (t2 - t1))"
    by (auto simp: cooling_down_def Let_def)
  with p1 show ?thesis by blast
qed

subsection \<open>The logger\<close>

lemma alert_for_sel [simp]:
  "al_triggering_entry (alert_for now e r) = e" "al_created_at (alert_for now e r) = now"
  "al_rule_id (alert_for now e r) = ar_id r"
  by (simp_all add: alert_for_def)

text \<open>
  The decision is on record before any rule runs, and stays there whatever the rules do,
  also when evaluating them panics; every alert returned carries the decision it was raised
  for, unchanged.
\<close>

theorem log_records_first:
  "lg_sink (snd (logger_log ops sub_secs now e lg)) = sink_append e (lg_sink lg) \<and>
   (\<forall>alerts en. fst (logger_log ops sub_secs now e lg) = Some alerts \<longrightarrow> lg_engine lg = Some en \<longrightarrow>
      hm_wf (en_last_triggered en) \<longrightarrow>
      (\<forall>a \<in> set alerts. al_triggering_entry a = e \<and> al_created_at a = now))"
proof
  show "lg_sink (snd (logger_log ops sub_secs now e lg)) = sink_append e (lg_sink lg)"
    by (simp add: logger_log_def Let_def split: option.splits prod.splits)
  show "\<forall>alerts en. fst (logger_log ops sub_secs now e lg) = Some alerts \<longrightarrow> lg_engine lg = Some en \<longrightarrow>
      hm_wf (en_last_triggered en) \<longrightarrow>
      (\<forall>a \<in> set alerts. al_triggering_entry a = e \<and> al_created_at a = now)"
  proof (intro allI impI ballI)
    fix alerts en a
    assume "fst (logger_log ops sub_secs now e lg) = Some alerts" and en: "lg_engine lg = Some en"
      and wf: "hm_wf (en_last_triggered en)" and a: "a \<in> set alerts"
    then obtain en' where "engine_evaluate ops sub_secs
        (if lg_shared_sink lg then Some (sink_append e (lg_sink lg)) else None) now e en = Some (alerts, en')"
      by (auto simp: logger_log_def Let_def split: option.splits prod.splits)
    from engine_evaluate_pass [OF this wf] a show "al_triggering_entry a = e \<and> al_created_at a = now"
      by (auto simp: pass_result_def)
  qed
qed

text \<open>Conditions in which a rapid-denial condition occurs only inside composites.\<close>

lemma nested_rapid_denials_never:
  "\<not> condition_evaluate ops e (Composite [RapidDenials w n] Any)"
  "\<not> condition_evaluate ops e (Composite (RapidDenials w n # cs) All)"
  by simp_all

text \<open>
  A rapid-denial rule on the logger's own sink counts the denial being logged: a burst of
  one fires at once, while the same condition inside a composite never does, whatever is held.
\<close>

theorem rapid_denials_counts_current:
  assumes "lg_engine lg = Some \<lparr>en_rules = [r], en_last_triggered = []\<rparr>" and "lg_shared_sink lg"
    and "ar_enabled r" and "ar_condition r = RapidDenials window 1"
    and "\<not> ae_granted e" and "0 < as_max_entries (lg_sink lg)"
    and "sub_secs now (min (uint window) i64_max) = Some since" and "since \<le> ae_created_at e"
  shows "fst (logger_log ops sub_secs now e lg) = Some [alert_for now e r] \<and>
    fst (logger_log ops sub_secs now e (lg\<lparr>lg_engine := Some \<lparr>en_rules =
      [r\<lparr>ar_condition := Composite [RapidDenials window 1] Any\<rparr>], en_last_triggered = []\<rparr>\<rparr>)) = Some []"
proof -
  let ?sk = "sink_append e (lg_sink lg)"
  let ?e = "e\<lparr>ae_id := as_next_id (lg_sink lg)\<rparr>"
  let ?f = "audit_filter_default\<lparr>af_subject_id := Some (ae_subject_id e), af_granted := Some False,
    af_since := Some since\<rparr>"
  have "?e \<in> set (as_entries ?sk)"
    using assms(6) by (auto simp: sink_append_def pop_excess_drop in_set_conv_decomp Suc_diff_le)
  moreover have "matches_filter ops ?e ?f"
    using assms(5,8) by (simp add: matches_filter_def audit_filter_default_def)
  ultimately have "0 < sink_count ops ?f ?sk"
    by (auto simp: sink_count_def filter_empty_conv)
  moreover have "sub_secs now (if uint window \<le> i64_max then uint window else i64_max) = Some since"
    using assms(7) by (simp add: min_def)
  ultimately have "rule_matches ops sub_secs (Some ?sk) now e r = Some True"
    using assms(4) by (simp add: rule_matches_def Let_def Suc_le_eq)
  with assms(1-3) show ?thesis
    by (simp add: logger_log_def Let_def engine_evaluate_def cooling_down_def rule_matches_def [of _ _ _ _ _ "r\<lparr>ar_condition := _\<rparr>"])
qed

text \<open>
  The saturation of an over-long window does not avoid the panic: if stepping back by the
  saturated number of seconds is out of the date library's range, logging any entry under an
  enabled rapid-denial rule with such a window panics, after the entry was recorded.
\<close>

theorem saturated_window_panics:
  assumes "sub_secs now i64_max = None"
    and "lg_engine lg = Some \<lparr>en_rules = [r], en_last_triggered = []\<rparr>" and "lg_shared_sink lg"
    and "ar_enabled r" and "ar_condition r = RapidDenials window n" and "uint window > i64_max"
  shows "logger_log ops sub_secs now e lg = (None, lg\<lparr>lg_sink := sink_append e (lg_sink lg)\<rparr>)"
  using assms
  by (simp add: logger_log_def Let_def engine_evaluate_def cooling_down_def rule_matches_def)

subsection \<open>Witnesses\<close>

text \<open>Scores in percent; dates that reach back a day.\<close>

definition demo_score_ops :: "int score_ops" where
  "demo_score_ops =
     \<lparr>f_ge = (\<ge>), f_le = (\<le>), f_lt = (<), f_one_minus = (\<lambda>x. 100 - x), f_zero = 0, f_high = 60\<rparr>"

definition demo_sub_secs :: "instant \<Rightarrow> int \<Rightarrow> instant option" where
  "demo_sub_secs now secs = (if secs \<le> 86400 then Some (now - secs * 1000000000) else None)"

definition demo_denial :: "int audit_entry" where
  "demo_denial =
     \<lparr>ae_id = 0, ae_subject_id = ''u'', ae_subject_type = ''user'', ae_permission = ''config.write'',
      ae_endpoint = ''/config'', ae_granted = False, ae_created_at = 5, ae_verdict = None\<rparr>"

definition demo_rule :: "u64 \<Rightarrow> int audit_rule" where
  "demo_rule window =
     \<lparr>ar_id = ''burst'', ar_name = ''burst'', ar_enabled = True,
      ar_condition = RapidDenials window 1, ar_action = Alert ''burst'' Critical, ar_cooldown_secs = 60\<rparr>"

definition demo_logger :: "u64 \<Rightarrow> int audit_logger" where
  "demo_logger window =
     \<lparr>lg_sink = audit_sink_new,
      lg_engine = Some \<lparr>en_rules = [demo_rule window], en_last_triggered = []\<rparr>, lg_shared_sink = True\<rparr>"

lemmas demo_audit_defs =
  demo_logger_def demo_rule_def demo_denial_def demo_sub_secs_def audit_sink_new_def
  audit_sink_with_max_entries_def DEFAULT_MAX_AUDIT_ENTRIES_def i64_max_def

theorem query_exact_witness:
  "length (sink_query demo_score_ops (audit_filter_default\<lparr>af_limit := Some 1\<rparr>)
     (append_all [demo_denial, demo_denial] (audit_sink_with_max_entries 5))) \<le> 1"
  using query_exact [of demo_score_ops "audit_filter_default\<lparr>af_limit := Some 1\<rparr>"
      "append_all [demo_denial, demo_denial] (audit_sink_with_max_entries 5)"]
  by simp

lemma rapid_burst:
  "fst (logger_log demo_score_ops demo_sub_secs 9 demo_denial (demo_logger 60)) =
     Some [alert_for 9 demo_denial (demo_rule 60)]"
  by (simp add: demo_audit_defs logger_log_def Let_def engine_evaluate_def cooling_down_def
      rule_matches_def sink_append_def pop_excess_drop sink_count_def matches_filter_def
      audit_filter_default_def)

theorem rapid_denials_counts_current_witness:
  "fst (logger_log demo_score_ops demo_sub_secs 9 demo_denial (demo_logger 60)) =
     Some [alert_for 9 demo_denial (demo_rule 60)]"
  using rapid_denials_counts_current [of "demo_logger 60" "demo_rule 60" 60 demo_denial demo_sub_secs 9
      "9 - 60000000000" demo_score_ops]
  by (simp add: demo_audit_defs)

theorem saturated_window_panics_witness:
  "fst (logger_log demo_score_ops demo_sub_secs 9 demo_denial (demo_logger (- 1))) = None"
  using saturated_window_panics [of demo_sub_secs 9 "demo_logger (- 1)" "demo_rule (- 1)" "- 1" 1
      demo_score_ops demo_denial]
  by (simp add: demo_audit_defs unsigned_minus_1_eq_mask mask_eq_exp_minus_1)

theorem log_records_first_witness:
  "al_triggering_entry (hd (the (fst (logger_log demo_score_ops demo_sub_secs 9 demo_denial (demo_logger 60)))))
     = demo_denial"
proof -
  have fired: "fst (logger_log demo_score_ops demo_sub_secs 9 demo_denial (demo_logger 60)) =
     Some [alert_for 9 demo_denial (demo_rule 60)]"
    using rapid_burst .
  with log_records_first [of demo_score_ops demo_sub_secs 9 demo_denial "demo_logger 60"] show ?thesis
    by (simp add: demo_logger_def)
qed

lemma cooling_down_condition [simp]:
  "cooling_down now (r\<lparr>ar_condition := c\<rparr>) lt = cooling_down now r lt"
  by (simp add: cooling_down_def Let_def split: option.split)

lemma demo_engine_fires:
  assumes "\<not> cooling_down t (demo_rule 60) lt"
  shows "engine_evaluate demo_score_ops demo_sub_secs (Some (append_all [demo_denial] audit_sink_new)) t
      (demo_denial) \<lparr>en_rules = [(demo_rule 60)\<lparr>ar_condition := DeniedCond\<rparr>], en_last_triggered = lt\<rparr> =
    Some ([alert_for t demo_denial (demo_rule 60)], \<lparr>en_rules = [(demo_rule 60)\<lparr>ar_condition := DeniedCond\<rparr>],
      en_last_triggered = fold (\<lambda>(k, t). AList.update k t) (AList.update ''burst'' t lt) lt\<rparr>)"
proof -
  have "ar_enabled (demo_rule 60)" "ar_id (demo_rule 60) = ''burst''" by (simp_all add: demo_rule_def)
  then show ?thesis
    using assms
    by (simp add: engine_evaluate_def rule_matches_def is_denied_def demo_denial_def alert_for_def)
qed

theorem cooldown_is_respected_witness:
  "0 \<le> num_seconds (90000000000 - 5) \<and> 60 \<le> (word_of_int (num_seconds (90000000000 - 5)) :: u64)"
proof -
  let ?lt = "fold (\<lambda>(k, t). AList.update k t) (AList.update ''burst'' 5 []) ([] :: (string, instant) hash_map)"
  have lt: "?lt = [(''burst'', 5)]" by simp
  have 1: "\<not> cooling_down 5 (demo_rule 60) []" by (simp add: cooling_down_def)
  have 2: "\<not> cooling_down 90000000000 (demo_rule 60) ?lt"
    unfolding lt by (simp add: cooling_down_def demo_rule_def num_seconds_def)
  from cooldown_is_respected [OF _ demo_engine_fires [OF 1] demo_engine_fires [OF 2]] show ?thesis
    by (simp add: demo_rule_def)
qed

end
