(* ===== verification/Float64.thy ===== *)
theory Float64
  imports
    Complex_Main
    Kirino_Prelude
begin

text \<open>
  The type \<^verbatim>\<open>f64\<close> of the language: the finite values of the 64-bit binary format as rational
  numbers, the two infinities and a value that stands for every NaN. An operation computes the
  exact result and rounds it to the nearest value of the format, ties to even, subnormal
  numbers and overflow included. Negative zero is identified with zero: it differs only in the
  sign of a quotient by zero and in its printed form, and the code divides by no zero.
\<close>

named_theorems f64_simps \<open>the operations on finite values\<close>

subsection \<open>Rounding\<close>

function ilog2 :: "int \<Rightarrow> int" where
  "ilog2 n = (if n \<le> 1 then 0 else 1 + ilog2 (n div 2))"
  by auto
termination by (relation "measure nat") auto

declare ilog2.simps [simp del]

definition floor_log2 :: "rat \<Rightarrow> int" where
  "floor_log2 q =
     (let (n, d) = quotient_of q; k = ilog2 n - ilog2 d
      in if 2 powi k \<le> q then k else k - 1)"

definition round_even :: "rat \<Rightarrow> int" where
  "round_even x =
     (let f = \<lfloor>x\<rfloor>; r = x - of_int f
      in if r < 1 / 2 \<or> (r = 1 / 2 \<and> f mod 2 = 0) then f else f + 1)"

definition ulp_exp :: "rat \<Rightarrow> int" where
  "ulp_exp q = max (- 1074) (floor_log2 \<bar>q\<bar> - 52)"

definition round_rat :: "rat \<Rightarrow> rat" where
  "round_rat q = (if q = 0 then 0 else of_int (round_even (q / 2 powi ulp_exp q)) * 2 powi ulp_exp q)"

datatype f64 = NaN | PosInf | NegInf | Fin rat

definition rnd :: "rat \<Rightarrow> f64" where
  "rnd q =
     (let r = round_rat q
      in if r \<ge> 2 ^ 1024 then PosInf else if r \<le> - (2 ^ 1024) then NegInf else Fin r)"

subsection \<open>Operations\<close>

text \<open>A literal or an integer is the nearest value of the format.\<close>

abbreviation lit :: "rat \<Rightarrow> f64" where
  "lit \<equiv> rnd"

definition f64_of_nat :: "nat \<Rightarrow> f64" where
  "f64_of_nat n = rnd (of_nat n)"

fun f64_neg :: "f64 \<Rightarrow> f64" where
  "f64_neg NaN = NaN"
| "f64_neg PosInf = NegInf"
| "f64_neg NegInf = PosInf"
| "f64_neg (Fin a) = Fin (- a)"

fun f64_add :: "f64 \<Rightarrow> f64 \<Rightarrow> f64" where
  "f64_add (Fin a) (Fin b) = rnd (a + b)"
| "f64_add NaN b = NaN"
| "f64_add a NaN = NaN"
| "f64_add PosInf NegInf = NaN"
| "f64_add NegInf PosInf = NaN"
| "f64_add PosInf b = PosInf"
| "f64_add NegInf b = NegInf"
| "f64_add a PosInf = PosInf"
| "f64_add a NegInf = NegInf"

definition f64_sub :: "f64 \<Rightarrow> f64 \<Rightarrow> f64" where
  "f64_sub a b = f64_add a (f64_neg b)"

text \<open>An infinite factor: the result has the sign of the product.\<close>

fun f64_sign :: "f64 \<Rightarrow> int" where
  "f64_sign NaN = 0"
| "f64_sign PosInf = 1"
| "f64_sign NegInf = - 1"
| "f64_sign (Fin a) = \<lfloor>sgn a\<rfloor>"

definition f64_inf :: "int \<Rightarrow> f64" where
  "f64_inf s = (if s = 0 then NaN else if s > 0 then PosInf else NegInf)"

fun f64_mul :: "f64 \<Rightarrow> f64 \<Rightarrow> f64" where
  "f64_mul (Fin a) (Fin b) = rnd (a * b)"
| "f64_mul NaN b = NaN"
| "f64_mul a NaN = NaN"
| "f64_mul a b = f64_inf (f64_sign a * f64_sign b)"

fun f64_div :: "f64 \<Rightarrow> f64 \<Rightarrow> f64" where
  "f64_div (Fin a) (Fin b) = (if b = 0 then f64_inf (f64_sign (Fin a)) else rnd (a / b))"
| "f64_div NaN b = NaN"
| "f64_div a NaN = NaN"
| "f64_div (Fin a) b = Fin 0"
| "f64_div a (Fin b) = f64_inf (f64_sign a * (if b = 0 then 1 else f64_sign (Fin b)))"
| "f64_div a b = NaN"

text \<open>Comparisons; each is false when an operand is a NaN.\<close>

fun f64_le :: "f64 \<Rightarrow> f64 \<Rightarrow> bool" where
  "f64_le NaN b = False"
| "f64_le a NaN = False"
| "f64_le NegInf b = True"
| "f64_le a PosInf = True"
| "f64_le (Fin a) (Fin b) = (a \<le> b)"
| "f64_le a b = False"

definition f64_lt :: "f64 \<Rightarrow> f64 \<Rightarrow> bool" where
  "f64_lt a b \<longleftrightarrow> f64_le a b \<and> \<not> f64_le b a"

definition f64_eq :: "f64 \<Rightarrow> f64 \<Rightarrow> bool" where
  "f64_eq a b \<longleftrightarrow> f64_le a b \<and> f64_le b a"

text \<open>\<^verbatim>\<open>f64::min\<close> and \<^verbatim>\<open>max\<close> ignore a NaN; \<^verbatim>\<open>clamp\<close> keeps it.\<close>

definition f64_min :: "f64 \<Rightarrow> f64 \<Rightarrow> f64" where
  "f64_min a b = (if a = NaN then b else if b = NaN then a else if f64_le a b then a else b)"

definition f64_max :: "f64 \<Rightarrow> f64 \<Rightarrow> f64" where
  "f64_max a b = (if a = NaN then b else if b = NaN then a else if f64_le b a then a else b)"

definition f64_clamp :: "f64 \<Rightarrow> f64 \<Rightarrow> f64 \<Rightarrow> f64" where
  "f64_clamp x lo hi = (if f64_lt x lo then lo else if f64_lt hi x then hi else x)"

fun f64_abs :: "f64 \<Rightarrow> f64" where
  "f64_abs (Fin a) = Fin \<bar>a\<bar>"
| "f64_abs NegInf = PosInf"
| "f64_abs x = x"

text \<open>The square root, correctly rounded like the other operations.\<close>

function isqrt :: "int \<Rightarrow> int" where
  "isqrt n =
     (if n \<le> 0 then 0
      else let s = 2 * isqrt (n div 4) in if (s + 1) * (s + 1) \<le> n then s + 1 else s)"
  by auto
termination by (relation "measure nat") auto

declare isqrt.simps [simp del]

definition sqrt_even :: "rat \<Rightarrow> int" where
  "sqrt_even x =
     (let f = isqrt \<lfloor>x\<rfloor>; m = (of_int f + 1 / 2) ^ 2
      in if x < m \<or> (x = m \<and> f mod 2 = 0) then f else f + 1)"

fun f64_sqrt :: "f64 \<Rightarrow> f64" where
  "f64_sqrt (Fin a) =
     (if a < 0 then NaN
      else if a = 0 then Fin 0
      else let e = floor_log2 a div 2 - 52
           in Fin (of_int (sqrt_even (a / 2 powi (2 * e))) * 2 powi e))"
| "f64_sqrt NegInf = NaN"
| "f64_sqrt x = x"


subsection \<open>The exponent\<close>

lemma ilog2_bounds: "1 \<le> n \<Longrightarrow> 0 \<le> ilog2 n \<and> 2 ^ nat (ilog2 n) \<le> n \<and> n < 2 ^ (nat (ilog2 n) + 1)"
proof (induction n rule: ilog2.induct)
  case (1 n)
  show ?case
  proof (cases "n \<le> 1")
    case True
    with 1(2) have "n = 1" by simp
    then show ?thesis by (simp add: ilog2.simps)
  next
    case False
    then have "1 \<le> n div 2" by simp
    from 1(1) [OF False this] have ih: "0 \<le> ilog2 (n div 2)"
      "2 ^ nat (ilog2 (n div 2)) \<le> n div 2" "n div 2 < 2 ^ (nat (ilog2 (n div 2)) + 1)" by blast+
    have eq: "ilog2 n = 1 + ilog2 (n div 2)" using False by (subst ilog2.simps) simp
    from ih(1) have nat: "nat (ilog2 n) = Suc (nat (ilog2 (n div 2)))" by (simp add: eq nat_add_distrib)
    have "2 * 2 ^ nat (ilog2 (n div 2)) \<le> n" using ih(2) by linarith
    moreover have "n < 2 * 2 ^ (nat (ilog2 (n div 2)) + 1)" using ih(3) by linarith
    ultimately show ?thesis using ih(1) by (simp add: nat) (simp add: eq)
  qed
qed

abbreviation pow2 :: "int \<Rightarrow> rat" where
  "pow2 e \<equiv> 2 powi e"

lemma pow2_add: "pow2 (a + b) = pow2 a * pow2 b"
  by (rule power_int_add) simp

lemma pow2_pos [simp]: "0 < pow2 e"
  by simp

lemma pow2_le_iff [simp]: "pow2 a \<le> pow2 b \<longleftrightarrow> a \<le> b"
  using power_int_increasing [of a b "2 :: rat"] power_int_strict_increasing [of b a "2 :: rat"]
  by (meson linorder_not_le one_le_numeral one_less_numeral_iff order_less_imp_not_less semiring_norm(76) le_less_linear leD)

lemma pow2_less_iff [simp]: "pow2 a < pow2 b \<longleftrightarrow> a < b"
  by (simp add: less_le_not_le)

lemma pow2_nat: "0 \<le> e \<Longrightarrow> pow2 e = 2 ^ nat e"
  by (simp add: power_int_def)

lemma floor_log2_bounds:
  assumes "0 < q"
  shows "pow2 (floor_log2 q) \<le> q" and "q < pow2 (floor_log2 q + 1)"
proof -
  obtain n d where nd: "quotient_of q = (n, d)" by force
  have d: "0 < d" using quotient_of_denom_pos [OF nd] .
  have q: "q = of_int n / of_int d" by (rule quotient_of_div [OF nd])
  with assms d have n: "0 < n" by (simp add: zero_less_divide_iff)
  define a where "a = ilog2 n"
  define b where "b = ilog2 d"
  have ab: "0 \<le> a" "2 ^ nat a \<le> n" "n < 2 ^ (nat a + 1)" "0 \<le> b" "2 ^ nat b \<le> d" "d < 2 ^ (nat b + 1)"
    using ilog2_bounds [of n] ilog2_bounds [of d] n d by (auto simp: a_def b_def)
  have le: "pow2 a \<le> of_int n" "of_int n < pow2 (a + 1)" "pow2 b \<le> of_int d" "of_int d < pow2 (b + 1)"
  proof -
    have "of_int (2 ^ nat a) \<le> (of_int n :: rat)" "(of_int n :: rat) < of_int (2 ^ (nat a + 1))"
      "of_int (2 ^ nat b) \<le> (of_int d :: rat)" "(of_int d :: rat) < of_int (2 ^ (nat b + 1))"
      using ab(2,3,5,6) by (simp_all only: of_int_le_iff of_int_less_iff)
    then show "pow2 a \<le> of_int n" "of_int n < pow2 (a + 1)" "pow2 b \<le> of_int d" "of_int d < pow2 (b + 1)"
      using ab(1,4) by (simp_all add: pow2_nat nat_add_distrib)
  qed
  have lower: "pow2 (a - b - 1) < q"
  proof -
    have "pow2 (a - b - 1) * of_int d < pow2 (a - b - 1) * pow2 (b + 1)" using le(4) by simp
    also have "\<dots> = pow2 a" by (simp add: pow2_add [symmetric])
    also have "\<dots> \<le> of_int n" by (rule le(1))
    finally show ?thesis using d by (simp add: q pos_less_divide_eq)
  qed
  have upper: "q < pow2 (a - b + 1)"
  proof -
    have "of_int n < pow2 (a + 1)" by (rule le(2))
    also have "\<dots> = pow2 (a - b + 1) * pow2 b" by (simp add: pow2_add [symmetric])
    also have "\<dots> \<le> pow2 (a - b + 1) * of_int d" using le(3) by simp
    finally show ?thesis using d by (simp add: q pos_divide_less_eq)
  qed
  have eq: "floor_log2 q = (if pow2 (a - b) \<le> q then a - b else a - b - 1)"
    by (simp add: floor_log2_def nd a_def b_def Let_def)
  show "pow2 (floor_log2 q) \<le> q" using lower by (auto simp: eq)
  show "q < pow2 (floor_log2 q + 1)" using upper by (auto simp: eq)
qed

lemma ulp_exp_bounds:
  assumes "q \<noteq> 0"
  shows "- 1074 \<le> ulp_exp q" and "\<bar>q\<bar> < pow2 (ulp_exp q + 53)"
    and "- 1074 < ulp_exp q \<Longrightarrow> pow2 (ulp_exp q + 52) \<le> \<bar>q\<bar>"
proof -
  have q: "0 < \<bar>q\<bar>" using assms by simp
  show "- 1074 \<le> ulp_exp q" by (simp add: ulp_exp_def)
  have "\<bar>q\<bar> < pow2 (floor_log2 \<bar>q\<bar> + 1)" by (rule floor_log2_bounds(2) [OF q])
  also have "\<dots> \<le> pow2 (ulp_exp q + 53)" by (simp only: pow2_le_iff) (simp add: ulp_exp_def)
  finally show "\<bar>q\<bar> < pow2 (ulp_exp q + 53)" .
  assume "- 1074 < ulp_exp q"
  then have "ulp_exp q + 52 = floor_log2 \<bar>q\<bar>" by (simp add: ulp_exp_def max_def split: if_splits)
  then show "pow2 (ulp_exp q + 52) \<le> \<bar>q\<bar>" using floor_log2_bounds(1) [OF q] by simp
qed

lemma ulp_exp_uminus [simp]: "ulp_exp (- q) = ulp_exp q"
  by (simp add: ulp_exp_def)


subsection \<open>Rounding is monotone and keeps the values of the format\<close>

lemma round_even_cases: "round_even x = \<lfloor>x\<rfloor> \<or> round_even x = \<lfloor>x\<rfloor> + 1 \<and> of_int \<lfloor>x\<rfloor> + 1 / 2 \<le> x"
  unfolding round_even_def Let_def by (auto simp: not_less)

lemma round_even_ge: "of_int m \<le> x \<Longrightarrow> m \<le> round_even x"
  using round_even_cases [of x] le_floor_iff [of m x] by linarith

lemma round_even_le:
  assumes "x \<le> of_int m"
  shows "round_even x \<le> m"
proof (cases "x = of_int m")
  case True
  then show ?thesis by (simp add: round_even_def)
next
  case False
  with assms have "x < of_int m" by simp
  then have "\<lfloor>x\<rfloor> < m" by (simp add: floor_less_iff)
  then show ?thesis using round_even_cases [of x] by auto
qed

lemma round_even_mono:
  assumes "x \<le> y"
  shows "round_even x \<le> round_even y"
proof (cases "\<lfloor>x\<rfloor> = \<lfloor>y\<rfloor>")
  case True
  with assms show ?thesis by (auto simp: round_even_def Let_def)
next
  case False
  then have "\<lfloor>x\<rfloor> + 1 \<le> \<lfloor>y\<rfloor>" using floor_mono [OF assms] by linarith
  then show ?thesis using round_even_cases [of x] round_even_cases [of y] by auto
qed

lemma round_even_uminus: "round_even (- x) = - round_even x"
proof (cases "x = of_int \<lfloor>x\<rfloor>")
  case True
  then obtain n where "x = of_int n" by blast
  then show ?thesis by (simp add: round_even_def flip: of_int_minus)
next
  case False
  define r where "r = x - of_int \<lfloor>x\<rfloor>"
  have r: "0 < r" "r < 1" using False by (simp_all add: r_def) linarith+
  have fl: "\<lfloor>- x\<rfloor> = - \<lfloor>x\<rfloor> - 1"
    using r unfolding r_def by (intro floor_unique) simp_all
  then have r': "- x - of_int \<lfloor>- x\<rfloor> = 1 - r" by (simp add: r_def)
  have par: "(- \<lfloor>x\<rfloor> - 1) mod 2 = 0 \<longleftrightarrow> \<lfloor>x\<rfloor> mod 2 \<noteq> 0" by presburger
  show ?thesis
    unfolding round_even_def Let_def r' unfolding fl par r_def [symmetric] using r by auto
qed

lemma round_even_error: "\<bar>of_int (round_even x) - x\<bar> \<le> 1 / 2"
proof -
  have "of_int \<lfloor>x\<rfloor> \<le> x" "x < of_int \<lfloor>x\<rfloor> + 1" by linarith+
  then show ?thesis unfolding round_even_def Let_def by (auto simp: abs_le_iff)
qed

lemma round_rat_uminus [simp]: "round_rat (- q) = - round_rat q"
  by (simp add: round_rat_def round_even_uminus flip: minus_divide_left)

lemma round_rat_0 [simp]: "round_rat 0 = 0"
  by (simp add: round_rat_def)

text \<open>The finite values: at most 53 significant bits, down to the smallest subnormal number.\<close>

definition representable :: "rat \<Rightarrow> bool" where
  "representable q \<longleftrightarrow> (\<exists>m e. q = of_int m * pow2 e \<and> \<bar>m\<bar> \<le> 2 ^ 53 \<and> - 1074 \<le> e)"

lemma representable_uminus [simp]: "representable (- q) \<longleftrightarrow> representable q"
proof -
  have "representable (- q)" if "representable q" for q
  proof -
    from that obtain m e where "q = of_int m * pow2 e" "\<bar>m\<bar> \<le> 2 ^ 53" "- 1074 \<le> e"
      unfolding representable_def by blast
    then have "- q = of_int (- m) * pow2 e" "\<bar>- m\<bar> \<le> 2 ^ 53" by simp_all
    with \<open>- 1074 \<le> e\<close> show ?thesis unfolding representable_def by blast
  qed
  from this [of q] this [of "- q"] show ?thesis by auto
qed

lemma representable_int: "\<bar>n\<bar> \<le> 2 ^ 53 \<Longrightarrow> representable (of_int n)"
  unfolding representable_def by (intro exI [of _ n] exI [of _ 0]) simp

lemma representable_0 [simp]: "representable 0" and representable_1 [simp]: "representable 1"
  using representable_int [of 0] representable_int [of 1] by simp_all

lemma representable_pow2: "- 1074 \<le> e \<Longrightarrow> representable (pow2 e)"
  unfolding representable_def by (intro exI [of _ 1] exI [of _ e]) simp

lemma representable_round [simp]: "representable (round_rat q)"
proof (cases "q = 0")
  case False
  let ?e = "ulp_exp q"
  define x where "x = q / pow2 ?e"
  have "\<bar>q\<bar> < pow2 53 * pow2 ?e"
    using ulp_exp_bounds(2) [OF False] by (simp only: pow2_add mult.commute)
  then have "\<bar>x\<bar> < 2 ^ 53"
    by (simp add: x_def abs_divide pos_divide_less_eq pow2_nat)
  then have "x \<le> of_int (2 ^ 53)" "of_int (- (2 ^ 53)) \<le> x" by simp_all
  from round_even_le [OF this(1)] round_even_ge [OF this(2)]
  have "\<bar>round_even x\<bar> \<le> 2 ^ 53" by linarith
  moreover have "round_rat q = of_int (round_even x) * pow2 ?e" using False by (simp add: round_rat_def x_def)
  ultimately show ?thesis
    using ulp_exp_bounds(1) [OF False] unfolding representable_def by blast
qed simp

lemma round_rat_ge_multiple:
  assumes "of_int m * pow2 (ulp_exp q) \<le> q"
  shows "of_int m * pow2 (ulp_exp q) \<le> round_rat q"
proof (cases "q = 0")
  case True
  with assms show ?thesis by (simp add: mult_le_0_iff)
next
  case False
  have "of_int m \<le> q / pow2 (ulp_exp q)" using assms by (simp add: pos_le_divide_eq)
  then have "m \<le> round_even (q / pow2 (ulp_exp q))" by (rule round_even_ge)
  then show ?thesis using False by (simp add: round_rat_def)
qed

lemma round_rat_ge:
  assumes v: "representable v" and le: "v \<le> q"
  shows "v \<le> round_rat q"
proof (cases "q = 0")
  case False
  let ?e = "ulp_exp q"
  obtain m k where m: "v = of_int m * pow2 k" "\<bar>m\<bar> \<le> 2 ^ 53" "- 1074 \<le> k"
    using v unfolding representable_def by blast
  show ?thesis
  proof (cases "?e \<le> k")
    case True
    then have "of_int (m * 2 ^ nat (k - ?e)) * pow2 ?e = v"
      using pow2_add [of "k - ?e" ?e] by (simp add: m(1) pow2_nat)
    then show ?thesis using round_rat_ge_multiple [of "m * 2 ^ nat (k - ?e)" q] le by simp
  next
    case False
    with m(3) have e: "- 1074 < ?e" "53 + k \<le> ?e + 52" by linarith+
    have b: "pow2 (?e + 52) = of_int (2 ^ 52) * pow2 ?e" by (simp add: pow2_add pow2_nat)
    have "\<bar>v\<bar> = of_int \<bar>m\<bar> * pow2 k" by (simp add: m(1) abs_mult)
    also have "\<dots> \<le> of_int (2 ^ 53) * pow2 k" using m(2) by (intro mult_right_mono) (simp_all only: of_int_le_iff, simp)
    also have "\<dots> = pow2 (53 + k)" by (simp add: pow2_add pow2_nat)
    also have "\<dots> \<le> pow2 (?e + 52)" using e(2) by simp
    finally have vb: "\<bar>v\<bar> \<le> pow2 (?e + 52)" .
    have qb: "pow2 (?e + 52) \<le> \<bar>q\<bar>" by (rule ulp_exp_bounds(3) [OF \<open>q \<noteq> 0\<close> e(1)])
    show ?thesis
    proof (cases "0 < q")
      case True
      with qb have "of_int (2 ^ 52) * pow2 ?e \<le> q" using b by simp
      from round_rat_ge_multiple [OF this] show ?thesis using vb b by linarith
    next
      case False
      with qb vb le have "v = - pow2 (?e + 52)" by linarith
      then have "v = of_int (- (2 ^ 52)) * pow2 ?e" by (simp add: b)
      then show ?thesis using round_rat_ge_multiple [of "- (2 ^ 52)" q] le by simp
    qed
  qed
qed (use assms in simp)

lemma round_rat_le: "representable v \<Longrightarrow> q \<le> v \<Longrightarrow> round_rat q \<le> v"
  using round_rat_ge [of "- v" "- q"] by simp

lemma round_rat_id [simp]: "representable v \<Longrightarrow> round_rat v = v"
  using round_rat_ge [of v v] round_rat_le [of v v] by simp


lemma round_rat_mono_pos:
  assumes "0 < p" "p \<le> q"
  shows "round_rat p \<le> round_rat q"
proof -
  have nz: "p \<noteq> 0" "q \<noteq> 0" using assms by simp_all
  show ?thesis
  proof (cases "ulp_exp p = ulp_exp q")
    case True
    have "round_even (p / pow2 (ulp_exp q)) \<le> round_even (q / pow2 (ulp_exp q))"
      using assms by (intro round_even_mono divide_right_mono) simp_all
    then show ?thesis using nz True by (simp add: round_rat_def)
  next
    case False
    have "\<not> ulp_exp q < ulp_exp p"
    proof
      assume less: "ulp_exp q < ulp_exp p"
      then have "pow2 (ulp_exp p + 52) \<le> p"
        using ulp_exp_bounds(3) [OF nz(1)] ulp_exp_bounds(1) [OF nz(2)] assms by simp
      moreover have "pow2 (ulp_exp q + 53) \<le> pow2 (ulp_exp p + 52)" using less by simp
      moreover have "q < pow2 (ulp_exp q + 53)" using ulp_exp_bounds(2) [OF nz(2)] assms by simp
      ultimately show False using assms(2) by linarith
    qed
    with False have less: "ulp_exp p < ulp_exp q" by simp
    let ?b = "pow2 (ulp_exp q + 52)"
    have rep: "representable ?b" using ulp_exp_bounds(1) [OF nz(2)] by (intro representable_pow2) simp
    have "?b \<le> q" using less ulp_exp_bounds(3) [OF nz(2)] ulp_exp_bounds(1) [OF nz(1)] assms by simp
    then have "?b \<le> round_rat q" by (rule round_rat_ge [OF rep])
    have "pow2 (ulp_exp p + 53) \<le> ?b" using less by simp
    moreover have "p < pow2 (ulp_exp p + 53)" using ulp_exp_bounds(2) [OF nz(1)] assms by simp
    ultimately have "p \<le> ?b" by linarith
    then have "round_rat p \<le> ?b" by (rule round_rat_le [OF rep])
    with \<open>?b \<le> round_rat q\<close> show ?thesis by simp
  qed
qed

lemma round_rat_mono:
  assumes "p \<le> q"
  shows "round_rat p \<le> round_rat q"
proof -
  consider "0 < p" | "p \<le> 0" "0 \<le> q" | "q < 0" by linarith
  then show ?thesis
  proof cases
    case 1
    with assms show ?thesis by (rule round_rat_mono_pos [rotated])
  next
    case 2
    then have "round_rat p \<le> 0" "0 \<le> round_rat q"
      by (simp_all add: round_rat_le round_rat_ge)
    then show ?thesis by simp
  next
    case 3
    with assms show ?thesis using round_rat_mono_pos [of "- q" "- p"] by simp
  qed
qed

lemma round_rat_error:
  assumes "\<bar>q\<bar> \<le> pow2 k" and "- 1022 \<le> k"
  shows "\<bar>round_rat q - q\<bar> \<le> pow2 (k - 53)"
proof (cases "q = 0")
  case False
  let ?e = "ulp_exp q" and ?x = "q / pow2 (ulp_exp q)"
  have e: "?e \<le> k - 52"
  proof (cases "- 1074 < ?e")
    case True
    from order_trans [OF ulp_exp_bounds(3) [OF False True] assms(1)] show ?thesis by simp
  next
    case False
    then show ?thesis using assms(2) by linarith
  qed
  have "round_rat q - q = (of_int (round_even ?x) - ?x) * pow2 ?e"
    using False by (simp add: round_rat_def algebra_simps)
  then have "\<bar>round_rat q - q\<bar> = \<bar>of_int (round_even ?x) - ?x\<bar> * pow2 ?e" by (simp add: abs_mult)
  also have "\<dots> \<le> 1 / 2 * pow2 ?e" by (intro mult_right_mono round_even_error) simp
  also have "\<dots> = pow2 (?e - 1)" using pow2_add [of "?e" "- 1"] by simp
  also have "\<dots> \<le> pow2 (k - 53)" using e by simp
  finally show ?thesis .
qed simp

text \<open>Results that cannot overflow.\<close>

lemma rnd_Fin:
  assumes "\<bar>q\<bar> \<le> 2 ^ 1000"
  shows "rnd q = Fin (round_rat q)"
proof -
  have rep: "representable (2 ^ 1000)" using representable_pow2 [of 1000] by (simp add: pow2_nat)
  have "round_rat q \<le> 2 ^ 1000" "- (2 ^ 1000) \<le> round_rat q"
    using round_rat_le [OF rep, of q] round_rat_ge [of "- (2 ^ 1000)" q] rep assms by (simp_all add: abs_le_iff)
  moreover have "(2 :: rat) ^ 1000 < 2 ^ 1024" by simp
  ultimately show ?thesis by (simp only: rnd_def Let_def) auto
qed

lemma rnd_neq_NaN [simp]: "rnd q \<noteq> NaN"
  by (simp add: rnd_def Let_def)

lemma rnd_mono: "p \<le> q \<Longrightarrow> f64_le (rnd p) (rnd q)"
  using round_rat_mono [of p q] by (auto simp: rnd_def Let_def)


subsection \<open>Operations on finite values\<close>

lemma rnd_0 [simp]: "rnd 0 = Fin 0" and rnd_1 [simp]: "rnd 1 = Fin 1"
  by (simp_all add: rnd_Fin)

lemma two_53_less: "x \<le> 2 ^ 53 \<Longrightarrow> x \<le> (2 :: rat) ^ 1000"
proof -
  have "(2 :: rat) ^ 53 \<le> 2 ^ 1000" by (subst power_increasing_iff) simp_all
  then show "x \<le> 2 ^ 53 \<Longrightarrow> x \<le> 2 ^ 1000" by (rule order_trans [rotated])
qed

lemma rnd_id:
  assumes "representable q" "\<bar>q\<bar> \<le> 2 ^ 53"
  shows "rnd q = Fin q"
  using rnd_Fin [OF two_53_less [OF assms(2)]] assms(1) by simp

lemma rnd_of_int:
  assumes "\<bar>n\<bar> \<le> 2 ^ 53"
  shows "rnd (of_int n) = Fin (of_int n)"
proof (rule rnd_id)
  show "representable (of_int n)" using assms by (rule representable_int)
  have "(of_int \<bar>n\<bar> :: rat) \<le> of_int (2 ^ 53)" using assms by (simp only: of_int_le_iff)
  then show "\<bar>of_int n :: rat\<bar> \<le> 2 ^ 53" by simp
qed

lemma rnd_of_nat:
  assumes "n \<le> 2 ^ 53"
  shows "rnd (of_nat n) = Fin (of_nat n)"
proof -
  have "\<bar>int n\<bar> \<le> 2 ^ 53" using assms by (simp add: nat_le_numeral_power_cancel_iff flip: of_nat_le_iff)
  from rnd_of_int [OF this] show ?thesis by simp
qed

lemma representable_of_nat: "n \<le> 2 ^ 53 \<Longrightarrow> representable (of_nat n)"
  using representable_int [of "int n"]
  by (simp add: nat_le_numeral_power_cancel_iff flip: of_nat_le_iff)

lemma of_nat_53_less: "n \<le> 2 ^ 53 \<Longrightarrow> (of_nat n :: rat) \<le> 2 ^ 1000"
  by (rule two_53_less) (metis of_nat_le_iff of_nat_numeral of_nat_power)

lemma f64_finite_ops [f64_simps]:
  "f64_sub (Fin a) (Fin b) = rnd (a - b)"
  "f64_lt (Fin a) (Fin b) \<longleftrightarrow> a < b"
  "f64_eq (Fin a) (Fin b) \<longleftrightarrow> a = b"
  "f64_min (Fin a) (Fin b) = Fin (min a b)"
  "f64_max (Fin a) (Fin b) = Fin (max a b)"
  "lo \<le> hi \<Longrightarrow> f64_clamp (Fin a) (Fin lo) (Fin hi) = Fin (max lo (min hi a))"
  by (auto simp: f64_sub_def f64_lt_def f64_eq_def f64_min_def f64_max_def f64_clamp_def max_def min_def)

lemma f64_le_NaN [simp]: "\<not> f64_le a NaN"
  by (cases a) simp_all

lemma f64_nan [simp]:
  "\<not> f64_lt NaN b" "\<not> f64_lt a NaN" "f64_clamp NaN lo hi = NaN"
  by (simp_all add: f64_lt_def f64_clamp_def)

text \<open>A value of the format within finite bounds.\<close>

definition f64_in :: "rat \<Rightarrow> rat \<Rightarrow> f64 \<Rightarrow> bool" where
  "f64_in lo hi x \<longleftrightarrow> (\<exists>q. x = Fin q \<and> representable q \<and> lo \<le> q \<and> q \<le> hi)"

lemma f64_inE:
  assumes "f64_in lo hi x"
  obtains q where "x = Fin q" "representable q" "lo \<le> q" "q \<le> hi"
  using assms unfolding f64_in_def by blast

lemma f64_in_Fin [simp]: "f64_in lo hi (Fin q) \<longleftrightarrow> representable q \<and> lo \<le> q \<and> q \<le> hi"
  by (simp add: f64_in_def)

lemma f64_in_rnd:
  assumes "representable lo" "representable hi" "lo \<le> q" "q \<le> hi" "\<bar>lo\<bar> \<le> 2 ^ 1000" "\<bar>hi\<bar> \<le> 2 ^ 1000"
  shows "f64_in lo hi (rnd q)"
proof -
  have "\<bar>q\<bar> \<le> max \<bar>lo\<bar> \<bar>hi\<bar>" using assms(3,4) by linarith
  also have "\<dots> \<le> 2 ^ 1000" by (rule max.boundedI) (rule assms)+
  finally have "rnd q = Fin (round_rat q)" by (rule rnd_Fin)
  with round_rat_ge [OF assms(1,3)] round_rat_le [OF assms(2,4)] show ?thesis by simp
qed

abbreviation unit_f64 :: "f64 \<Rightarrow> bool" where
  "unit_f64 \<equiv> f64_in 0 1"

lemma unit_rnd: "0 \<le> q \<Longrightarrow> q \<le> 1 \<Longrightarrow> unit_f64 (rnd q)"
  by (rule f64_in_rnd) simp_all

lemma unit_mul: "unit_f64 x \<Longrightarrow> unit_f64 y \<Longrightarrow> unit_f64 (f64_mul x y)"
  by (auto elim!: f64_inE intro!: unit_rnd mult_le_one)

lemma unit_one_minus: "unit_f64 x \<Longrightarrow> unit_f64 (f64_sub (lit 1) x)"
  by (auto elim!: f64_inE intro!: unit_rnd simp: f64_simps)

text \<open>The values of the format: every operation yields one.\<close>

fun f64_ok :: "f64 \<Rightarrow> bool" where
  "f64_ok (Fin q) \<longleftrightarrow> representable q"
| "f64_ok x \<longleftrightarrow> True"

lemma f64_ok_rnd [simp]: "f64_ok (rnd q)"
  by (simp add: rnd_def Let_def)

lemma f64_ok_inf [simp]: "f64_ok (f64_inf s)"
  by (simp add: f64_inf_def)

lemma f64_ok_ops [simp]:
  "f64_ok a \<Longrightarrow> f64_ok b \<Longrightarrow> f64_ok (f64_add a b)"
  "f64_ok a \<Longrightarrow> f64_ok b \<Longrightarrow> f64_ok (f64_sub a b)"
  "f64_ok a \<Longrightarrow> f64_ok b \<Longrightarrow> f64_ok (f64_mul a b)"
  "f64_ok a \<Longrightarrow> f64_ok b \<Longrightarrow> f64_ok (f64_div a b)"
  "f64_ok a \<Longrightarrow> f64_ok b \<Longrightarrow> f64_ok (f64_min a b)"
  "f64_ok a \<Longrightarrow> f64_ok b \<Longrightarrow> f64_ok (f64_max a b)"
  by (cases a; cases b; simp add: f64_sub_def f64_min_def f64_max_def)+

lemma f64_ok_abs [simp]: "f64_ok a \<Longrightarrow> f64_ok (f64_abs a)"
  by (cases a) (simp_all add: abs_if)

lemma unit_ok: "unit_f64 x \<Longrightarrow> f64_ok x"
  by (auto elim: f64_inE)

lemma unit_clamp: "f64_ok x \<Longrightarrow> x \<noteq> NaN \<Longrightarrow> unit_f64 (f64_clamp x (lit 0) (lit 1))"
  by (cases x) (auto simp: f64_clamp_def f64_lt_def)

text \<open>Monotonicity of the operations the code composes, on finite values.\<close>

lemma f64_le_refl [simp]: "f64_le x x \<longleftrightarrow> x \<noteq> NaN"
  by (cases x) simp_all

lemma f64_le_trans: "f64_le x y \<Longrightarrow> f64_le y z \<Longrightarrow> f64_le x z"
  by (cases x; cases y; cases z) simp_all

lemma f64_add_mono:
  assumes "f64_le x y" "f64_le x' y'" "f64_in lo hi x" "f64_in lo hi y" "f64_in lo' hi' x'" "f64_in lo' hi' y'"
  shows "f64_le (f64_add x x') (f64_add y y')"
  using assms by (auto elim!: f64_inE intro!: rnd_mono add_mono)

lemma f64_mul_mono:
  assumes "f64_le x y" "f64_in 0 hi x" "f64_in 0 hi y" "f64_in 0 w c"
  shows "f64_le (f64_mul x c) (f64_mul y c)"
  using assms by (auto elim!: f64_inE intro!: rnd_mono mult_right_mono)

lemma f64_one_minus_antimono:
  assumes "f64_le x y" "f64_in lo hi x" "f64_in lo hi y"
  shows "f64_le (f64_sub c y) (f64_sub c x) \<or> c = NaN"
  using assms by (cases c) (auto elim!: f64_inE intro!: rnd_mono simp: f64_sub_def)

lemma f64_clamp_mono:
  assumes "f64_le x y"
  shows "f64_le (f64_clamp x (lit 0) (lit 1)) (f64_clamp y (lit 0) (lit 1))"
  using assms by (cases x; cases y) (auto simp: f64_clamp_def f64_lt_def)

text \<open>Values that are not negative; a NaN counts, since the maximum with zero swallows it.\<close>

definition nonneg :: "f64 \<Rightarrow> bool" where
  "nonneg x \<longleftrightarrow> x = NaN \<or> f64_le (lit 0) x"

lemma nonneg_rnd: "0 \<le> q \<Longrightarrow> nonneg (rnd q)"
  using rnd_mono [of 0 q] by (simp add: nonneg_def)

lemma nonneg_add: "nonneg x \<Longrightarrow> nonneg y \<Longrightarrow> nonneg (f64_add x y)"
  by (cases x; cases y) (auto simp: nonneg_def intro!: rnd_mono [of 0, simplified])

lemma nonneg_mul: "nonneg x \<Longrightarrow> nonneg y \<Longrightarrow> nonneg (f64_mul x y)"
  by (cases x; cases y) (auto simp: nonneg_def f64_inf_def sgn_if intro!: rnd_mono [of 0, simplified])

lemma nonneg_div: "nonneg x \<Longrightarrow> 0 < q \<Longrightarrow> nonneg (f64_div x (Fin q))"
  by (cases x) (auto simp: nonneg_def f64_inf_def sgn_if intro!: rnd_mono [of 0, simplified])

lemma nonneg_max: "nonneg (f64_max x (lit 0))"
  by (cases x) (auto simp: nonneg_def f64_max_def)

lemma unit_nonneg: "unit_f64 x \<Longrightarrow> nonneg x"
  by (auto simp: nonneg_def elim: f64_inE)


subsection \<open>Error bounds\<close>

text \<open>A finite value near an exact one; each operation on values up to two adds at most \<open>eps\<close>.\<close>

definition eps :: rat where
  "eps = 1 / 4503599627370496"

definition approx :: "f64 \<Rightarrow> rat \<Rightarrow> rat \<Rightarrow> bool" where
  "approx x q d \<longleftrightarrow> (\<exists>r. x = Fin r \<and> \<bar>r - q\<bar> \<le> d)"

lemma approx_rnd:
  assumes "\<bar>q - p\<bar> \<le> d" "\<bar>q\<bar> \<le> 2"
  shows "approx (rnd q) p (d + eps)"
proof -
  have k: "pow2 (1 - 53) = eps" by (simp add: power_int_def power_one_over eps_def)
  have "pow2 1 = 2" by simp
  with assms(2) have "\<bar>q\<bar> \<le> pow2 1" by simp
  then have e: "\<bar>round_rat q - q\<bar> \<le> eps" using round_rat_error [of q 1] unfolding k by simp
  have "\<bar>q\<bar> \<le> 2 ^ 53" using assms(2) by simp
  then have "rnd q = Fin (round_rat q)" by (intro rnd_Fin two_53_less)
  moreover have "\<bar>round_rat q - p\<bar> \<le> d + eps" using e assms(1) by linarith
  ultimately show ?thesis by (simp add: approx_def)
qed

lemma approx_lit: "0 \<le> q \<Longrightarrow> q \<le> 2 \<Longrightarrow> approx (lit q) q eps"
  using approx_rnd [of q q 0] by simp

lemma approx_Fin: "approx (Fin q) q 0"
  by (simp add: approx_def)

lemma approx_add:
  assumes "approx x p d" "approx y q e" "\<bar>p + q\<bar> + d + e \<le> 2"
  shows "approx (f64_add x y) (p + q) (d + e + eps)"
proof -
  obtain r s where rs: "x = Fin r" "\<bar>r - p\<bar> \<le> d" "y = Fin s" "\<bar>s - q\<bar> \<le> e"
    using assms(1,2) unfolding approx_def by blast
  have "approx (rnd (r + s)) (p + q) (d + e + eps)" by (rule approx_rnd) (use rs assms(3) in linarith)+
  with rs show ?thesis by simp
qed

lemma approx_sub:
  assumes "approx x p d" "approx y q e" "\<bar>p - q\<bar> + d + e \<le> 2"
  shows "approx (f64_sub x y) (p - q) (d + e + eps)"
proof -
  obtain r s where rs: "x = Fin r" "\<bar>r - p\<bar> \<le> d" "y = Fin s" "\<bar>s - q\<bar> \<le> e"
    using assms(1,2) unfolding approx_def by blast
  have "approx (rnd (r - s)) (p - q) (d + e + eps)" by (rule approx_rnd) (use rs assms(3) in linarith)+
  with rs show ?thesis by (simp add: f64_simps)
qed

lemma approx_mul:
  assumes "approx x p d" "approx y q e" "0 \<le> p" "p \<le> 1" "0 \<le> q" "q \<le> 1" "d \<le> 1 / 10" "e \<le> 1 / 10"
  shows "approx (f64_mul x y) (p * q) (d + e + d * e + eps)"
proof -
  obtain r s where rs: "x = Fin r" "\<bar>r - p\<bar> \<le> d" "y = Fin s" "\<bar>s - q\<bar> \<le> e"
    using assms(1,2) unfolding approx_def by blast
  have "0 \<le> d" "0 \<le> e" using rs by linarith+
  have "r * s - p * q = (r - p) * q + p * (s - q) + (r - p) * (s - q)" by (simp add: algebra_simps)
  moreover have "\<bar>(r - p) * q\<bar> \<le> d * 1"
    unfolding abs_mult by (rule mult_mono) (use rs assms \<open>0 \<le> d\<close> in simp_all)
  moreover have "\<bar>p * (s - q)\<bar> \<le> 1 * e"
    unfolding abs_mult by (rule mult_mono) (use rs assms \<open>0 \<le> d\<close> in simp_all)
  moreover have "\<bar>(r - p) * (s - q)\<bar> \<le> d * e"
    unfolding abs_mult by (rule mult_mono) (use rs \<open>0 \<le> d\<close> in simp_all)
  ultimately have near: "\<bar>r * s - p * q\<bar> \<le> d + e + d * e" by linarith
  have "\<bar>r * s\<bar> \<le> (11 / 10) * (11 / 10)"
    unfolding abs_mult by (rule mult_mono) (use rs assms in linarith)+
  then have "\<bar>r * s\<bar> \<le> 2" by simp
  from approx_rnd [OF near this] rs show ?thesis by simp
qed

lemma approx_inverse:
  assumes "approx x q d" "1 + d \<le> q"
  shows "approx (f64_div (lit 1) x) (1 / q) (d + eps)"
proof -
  obtain r where r: "x = Fin r" "\<bar>r - q\<bar> \<le> d" using assms(1) unfolding approx_def by blast
  have one: "1 \<le> r" "1 \<le> q" "0 \<le> d" using r assms(2) by linarith+
  then have "1 * 1 \<le> r * q" by (intro mult_mono) simp_all
  then have rq: "1 \<le> r * q" by simp
  have "1 / r - 1 / q = (q - r) / (r * q)" using one by (simp add: field_simps)
  then have "\<bar>1 / r - 1 / q\<bar> = \<bar>r - q\<bar> / (r * q)" using rq by (simp add: abs_divide abs_minus_commute)
  also have "\<dots> \<le> \<bar>r - q\<bar>" using rq by (simp add: divide_le_eq mult_le_cancel_left1)
  finally have near: "\<bar>1 / r - 1 / q\<bar> \<le> d" using r(2) by linarith
  have "1 / r \<le> 1" "0 \<le> 1 / r" using one by simp_all
  then have "\<bar>1 / r\<bar> \<le> 2" by linarith
  from approx_rnd [OF near this] r one show ?thesis by simp
qed

lemma approx_less: "approx x p d \<Longrightarrow> approx y q e \<Longrightarrow> p + d < q - e \<Longrightarrow> f64_lt x y"
  unfolding approx_def by (auto simp: f64_simps)

end
