(* ===== verification/Audit_Analysis.thy ===== *)
theory Audit_Analysis
  imports Audit_Trail Float64 "HOL-Library.Multiset"
begin

text \<open>
  The rest of \<^verbatim>\<open>src/rbac/audit.rs\<close>: the analyzer, with scores as the floats of \<open>Float64\<close>, and the logger
  with its analyzer and alert hooks. The comparison behind the sort is not an order when a score
  is a NaN and there is another entry, and the standard library then leaves the result open and may
  panic: the analysis has the value \<open>None\<close>.
\<close>

subsection \<open>The analyzer\<close>

record subject_stats =
  ss_total :: nat
  ss_denied :: nat
  ss_avg_risk :: f64
  ss_max_risk :: f64

record audit_analysis =
  an_total_entries :: nat
  an_denied_count :: nat
  an_denied_rate :: f64
  an_high_risk_count :: nat
  an_by_subject :: "(string, subject_stats) hash_map"
  an_by_permission :: "(string, nat) hash_map"
  an_top_risk_entries :: "f64 audit_entry list"

definition f64_ops :: "f64 score_ops" where
  "f64_ops = \<lparr>f_ge = (\<lambda>a b. f64_le b a), f_le = f64_le, f_lt = f64_lt, f_one_minus = f64_sub (lit 1),
     f_zero = lit 0, f_high = lit (6 / 10)\<rparr>"

definition entry_risk :: "f64 audit_entry \<Rightarrow> f64" where
  "entry_risk e = (case ae_verdict e of None \<Rightarrow> lit 0 | Some v \<Rightarrow> risk_score v)"

definition empty_stats :: subject_stats where
  "empty_stats = \<lparr>ss_total = 0, ss_denied = 0, ss_avg_risk = lit 0, ss_max_risk = lit 0\<rparr>"

definition add_to_stats :: "f64 audit_entry \<Rightarrow> subject_stats \<Rightarrow> subject_stats" where
  "add_to_stats e s =
     (let risk = entry_risk e
      in \<lparr>ss_total = ss_total s + 1, ss_denied = (if is_denied e then ss_denied s + 1 else ss_denied s),
          ss_avg_risk = f64_add (ss_avg_risk s) risk, ss_max_risk = f64_max (ss_max_risk s) risk\<rparr>)"

definition count_subject :: "f64 audit_entry \<Rightarrow> (string, subject_stats) hash_map \<Rightarrow> (string, subject_stats) hash_map" where
  "count_subject e m =
     AList.update (ae_subject_id e)
       (add_to_stats e (case map_of m (ae_subject_id e) of Some s \<Rightarrow> s | None \<Rightarrow> empty_stats)) m"

definition count_permission :: "f64 audit_entry \<Rightarrow> (string, nat) hash_map \<Rightarrow> (string, nat) hash_map" where
  "count_permission e m =
     AList.update (ae_permission e) ((case map_of m (ae_permission e) of Some n \<Rightarrow> n | None \<Rightarrow> 0) + 1) m"

definition average_stats :: "subject_stats \<Rightarrow> subject_stats" where
  "average_stats s =
     (if ss_total s > 0 then s\<lparr>ss_avg_risk := f64_div (ss_avg_risk s) (f64_of_nat (ss_total s))\<rparr> else s)"

text \<open>The stable sort by falling score.\<close>

fun insert_by_risk :: "f64 audit_entry \<Rightarrow> f64 audit_entry list \<Rightarrow> f64 audit_entry list" where
  "insert_by_risk e [] = [e]"
| "insert_by_risk e (x # xs) =
     (if f64_lt (entry_risk e) (entry_risk x) then x # insert_by_risk e xs else e # x # xs)"

definition sort_by_risk :: "f64 audit_entry list \<Rightarrow> f64 audit_entry list" where
  "sort_by_risk es = foldr insert_by_risk es []"

definition analyze :: "f64 audit_entry list \<Rightarrow> audit_analysis option" where
  "analyze entries =
     (let total = length entries;
          denied_count = length (filter is_denied entries);
          high_risk_count = length (filter (is_high_risk f64_ops) entries);
          by_subject = fold count_subject entries [];
          by_permission = fold count_permission entries [];
          by_subject' = map (\<lambda>(k, s). (k, average_stats s)) by_subject
      in if 2 \<le> total \<and> (\<exists>e \<in> set entries. entry_risk e = NaN) then None
         else Some \<lparr>an_total_entries = total, an_denied_count = denied_count,
           an_denied_rate = (if total > 0 then f64_div (f64_of_nat denied_count) (f64_of_nat total) else lit 0),
           an_high_risk_count = high_risk_count, an_by_subject = by_subject', an_by_permission = by_permission,
           an_top_risk_entries = take 10 (sort_by_risk entries)\<rparr>)"

subsection \<open>The logger with its hooks\<close>

text \<open>
  A hook is a callback; a call of it that panics is caught. What the hooks see is the list of their calls, in
  order.
\<close>

record ('f, 'r, 'h) hooked_logger =
  hl_logger :: "'f audit_logger"
  hl_analyzer :: "('f audit_entry list \<Rightarrow> 'r) option"
  hl_hooks :: "'h list"

definition hooked_new :: "'f audit_sink \<Rightarrow> ('f, 'r, 'h) hooked_logger" where
  "hooked_new sink = \<lparr>hl_logger = \<lparr>lg_sink = sink, lg_engine = None, lg_shared_sink = False\<rparr>, hl_analyzer = None, hl_hooks = []\<rparr>"

definition with_policy_engine ::
  "'f audit_engine \<Rightarrow> bool \<Rightarrow> ('f, 'r, 'h) hooked_logger \<Rightarrow> ('f, 'r, 'h) hooked_logger" where
  "with_policy_engine engine shared hl =
     hl\<lparr>hl_logger := (hl_logger hl)\<lparr>lg_engine := Some engine, lg_shared_sink := shared\<rparr>\<rparr>"

definition with_analyzer :: "('f audit_entry list \<Rightarrow> 'r) \<Rightarrow> ('f, 'r, 'h) hooked_logger \<Rightarrow> ('f, 'r, 'h) hooked_logger" where
  "with_analyzer analyzer hl = hl\<lparr>hl_analyzer := Some analyzer\<rparr>"

definition on_alert :: "'h \<Rightarrow> ('f, 'r, 'h) hooked_logger \<Rightarrow> ('f, 'r, 'h) hooked_logger" where
  "on_alert hook hl = hl\<lparr>hl_hooks := hl_hooks hl @ [hook]\<rparr>"

definition hooked_log ::
  "'f score_ops \<Rightarrow> (instant \<Rightarrow> int \<Rightarrow> instant option) \<Rightarrow> instant \<Rightarrow> 'f audit_entry \<Rightarrow>
   ('f, 'r, 'h) hooked_logger \<Rightarrow>
   'f audit_alert list option \<times> ('h \<times> 'f audit_alert) list \<times> ('f, 'r, 'h) hooked_logger" where
  "hooked_log ops sub_secs now e hl =
     (let (fired, lg') = logger_log ops sub_secs now e (hl_logger hl)
      in (fired,
          (case fired of None \<Rightarrow> [] | Some alerts \<Rightarrow> concat (map (\<lambda>alert. map (\<lambda>h. (h, alert)) (hl_hooks hl)) alerts)),
          hl\<lparr>hl_logger := lg'\<rparr>))"

definition hooked_query :: "'f score_ops \<Rightarrow> 'f audit_filter \<Rightarrow> ('f, 'r, 'h) hooked_logger \<Rightarrow> 'f audit_entry list" where
  "hooked_query ops f hl = sink_query ops f (lg_sink (hl_logger hl))"

definition hooked_count :: "'f score_ops \<Rightarrow> 'f audit_filter \<Rightarrow> ('f, 'r, 'h) hooked_logger \<Rightarrow> nat" where
  "hooked_count ops f hl = sink_count ops f (lg_sink (hl_logger hl))"

definition analyze_recent :: "'f score_ops \<Rightarrow> 'f audit_filter \<Rightarrow> ('f, 'r, 'h) hooked_logger \<Rightarrow> 'r option" where
  "analyze_recent ops f hl =
     (case hl_analyzer hl of
        None \<Rightarrow> None
      | Some analyzer \<Rightarrow> Some (analyzer (sink_query ops f (lg_sink (hl_logger hl)))))"

subsection \<open>What an analysis says\<close>

definition of_subject :: "string \<Rightarrow> f64 audit_entry list \<Rightarrow> f64 audit_entry list" where
  "of_subject s es = filter (\<lambda>e. ae_subject_id e = s) es"

lemma count_subjects:
  "map_of (fold count_subject es []) s =
    (if of_subject s es = [] then None else Some (fold add_to_stats (of_subject s es) empty_stats))"
proof (induction es rule: rev_induct)
  case (snoc e es)
  have "of_subject s (es @ [e]) = of_subject s es @ (if ae_subject_id e = s then [e] else [])"
    by (simp add: of_subject_def)
  with snoc show ?case
    by (cases "ae_subject_id e = s") (simp_all add: count_subject_def [of e] hm_simps)
qed (simp add: of_subject_def)

lemma count_permissions:
  "map_of (fold count_permission es []) p =
    (if \<forall>e \<in> set es. ae_permission e \<noteq> p then None else Some (length (filter (\<lambda>e. ae_permission e = p) es)))"
proof (induction es rule: rev_induct)
  case (snoc e es)
  then show ?case
    by (cases "ae_permission e = p"; cases "\<forall>e \<in> set es. ae_permission e \<noteq> p")
      (auto simp: count_permission_def [of e] hm_simps)
qed simp

lemma map_of_averages: "map_of (map (\<lambda>(k, s). (k, f s)) m) k = map_option f (map_of m k)"
  by (induction m) auto

lemma stats_fold:
  "ss_total (fold add_to_stats es s) = ss_total s + length es"
  "ss_denied (fold add_to_stats es s) = ss_denied s + length (filter is_denied es)"
  "ss_avg_risk (fold add_to_stats es s) = fold (\<lambda>e x. f64_add x (entry_risk e)) es (ss_avg_risk s)"
  "ss_max_risk (fold add_to_stats es s) = fold (\<lambda>e x. f64_max x (entry_risk e)) es (ss_max_risk s)"
  by (induction es arbitrary: s) (simp_all add: add_to_stats_def Let_def)

lemma f64_linear: "a \<noteq> NaN \<Longrightarrow> b \<noteq> NaN \<Longrightarrow> f64_le a b \<or> f64_le b a"
  by (cases a; cases b) auto

abbreviation falling :: "f64 audit_entry list \<Rightarrow> bool" where
  "falling \<equiv> sorted_wrt (\<lambda>a b. f64_le (entry_risk b) (entry_risk a))"

lemma insert_by_risk_mset [simp]: "mset (insert_by_risk e es) = add_mset e (mset es)"
  by (induction es) auto

lemma insert_by_risk_set: "set (insert_by_risk e es) = insert e (set es)"
  by (induction es) auto

lemma insert_by_risk_falling:
  assumes "falling es" "\<forall>x \<in> insert e (set es). entry_risk x \<noteq> NaN"
  shows "falling (insert_by_risk e es)"
  using assms
proof (induction es)
  case (Cons x es)
  have lin: "f64_le (entry_risk x) (entry_risk e) \<or> f64_le (entry_risk e) (entry_risk x)"
    using Cons.prems(2) by (intro f64_linear) auto
  show ?case
  proof (cases "f64_lt (entry_risk e) (entry_risk x)")
    case True
    then show ?thesis using Cons by (auto simp: insert_by_risk_set f64_lt_def)
  next
    case False
    with lin have "f64_le (entry_risk x) (entry_risk e)" by (auto simp: f64_lt_def)
    with False Cons.prems(1) show ?thesis by (auto intro: f64_le_trans)
  qed
qed simp

lemma sort_by_risk_mset [simp]: "mset (sort_by_risk es) = mset es"
  by (induction es) (simp_all add: sort_by_risk_def)

lemma sort_by_risk_falling:
  assumes "\<forall>e \<in> set es. entry_risk e \<noteq> NaN"
  shows "falling (sort_by_risk es)"
  using assms
proof (induction es)
  case (Cons e es)
  have "set (sort_by_risk es) = set es" using mset_eq_setD [OF sort_by_risk_mset] .
  with Cons show ?case by (simp add: sort_by_risk_def insert_by_risk_falling)
qed (simp add: sort_by_risk_def)

text \<open>Scores between 0 and 1: sums of \<open>n\<close> of them stay between 0 and \<open>n\<close> when rounded.\<close>

lemma unit_sum:
  assumes "\<forall>e \<in> set es. unit_f64 (entry_risk e)" "f64_in 0 (of_nat k) x" "k + length es \<le> 2 ^ 53"
  shows "f64_in 0 (of_nat (k + length es)) (fold (\<lambda>e x. f64_add x (entry_risk e)) es x)"
  using assms
proof (induction es arbitrary: k x)
  case (Cons e es)
  obtain a where a: "x = Fin a" "0 \<le> a" "a \<le> of_nat k" using Cons.prems(2) by (auto elim: f64_inE)
  obtain b where b: "entry_risk e = Fin b" "0 \<le> b" "b \<le> 1" using Cons.prems(1) by (auto elim: f64_inE)
  have "f64_in 0 (of_nat (Suc k)) (f64_add x (entry_risk e))"
    unfolding a(1) b(1) f64_add.simps
    using a b Cons.prems(3) representable_of_nat [of "Suc k"] of_nat_53_less [of "Suc k"]
    by (intro f64_in_rnd) auto
  from Cons.IH [OF _ this] Cons.prems show ?case by simp
qed simp

lemma unit_average:
  assumes "f64_in 0 (of_nat n) x" "0 < n" "n \<le> 2 ^ 53"
  shows "unit_f64 (f64_div x (f64_of_nat n))"
proof -
  obtain a where a: "x = Fin a" "0 \<le> a" "a \<le> of_nat n" using assms(1) by (auto elim: f64_inE)
  have "f64_of_nat n = Fin (of_nat n)"
    using rnd_of_nat [OF assms(3)] by (simp add: f64_of_nat_def)
  with a assms(2) show ?thesis by (auto intro!: unit_rnd simp: divide_le_eq)
qed

lemma unit_max: "unit_f64 x \<Longrightarrow> unit_f64 y \<Longrightarrow> unit_f64 (f64_max x y)"
  by (auto simp: f64_max_def)

lemma unit_max_fold:
  "\<forall>e \<in> set es. unit_f64 (entry_risk e) \<Longrightarrow> unit_f64 x \<Longrightarrow> unit_f64 (fold (\<lambda>e x. f64_max x (entry_risk e)) es x)"
  by (induction es arbitrary: x) (simp_all add: unit_max)

lemma f64_le_max: "b \<noteq> NaN \<Longrightarrow> f64_le b (f64_max a b)" "a \<noteq> NaN \<Longrightarrow> f64_le a (f64_max a b)"
  using f64_linear [of a b] by (auto simp: f64_max_def)

lemma max_fold_upper:
  assumes "\<forall>e \<in> set es. unit_f64 (entry_risk e)" "unit_f64 x"
  shows "f64_le x (fold (\<lambda>e x. f64_max x (entry_risk e)) es x) \<and>
    (\<forall>e \<in> set es. f64_le (entry_risk e) (fold (\<lambda>e x. f64_max x (entry_risk e)) es x))"
  using assms
proof (induction es arbitrary: x)
  case (Cons e es)
  let ?y = "f64_max x (entry_risk e)"
  have nan: "x \<noteq> NaN" "entry_risk e \<noteq> NaN" using Cons.prems by (auto elim: f64_inE)
  from Cons.IH [of ?y] Cons.prems have "f64_le ?y (fold (\<lambda>e x. f64_max x (entry_risk e)) es ?y)"
    "\<forall>e \<in> set es. f64_le (entry_risk e) (fold (\<lambda>e x. f64_max x (entry_risk e)) es ?y)"
    by (simp_all add: unit_max)
  with f64_le_max [OF nan(2), of x] f64_le_max(2) [OF nan(1), of "entry_risk e"] show ?case
    by (auto intro: f64_le_trans)
qed (auto elim: f64_inE)

definition stats_right :: "f64 audit_entry list \<Rightarrow> subject_stats \<Rightarrow> bool" where
  "stats_right es st \<longleftrightarrow> ss_total st = length es \<and> ss_denied st = length (filter is_denied es) \<and>
     ss_avg_risk st = f64_div (fold (\<lambda>e x. f64_add x (entry_risk e)) es (lit 0)) (f64_of_nat (length es)) \<and>
     unit_f64 (ss_avg_risk st) \<and> unit_f64 (ss_max_risk st) \<and>
     ss_max_risk st \<in> insert (lit 0) (entry_risk ` set es) \<and>
     (\<forall>e \<in> set es. f64_le (entry_risk e) (ss_max_risk st))"

lemma max_fold_attained: "fold (\<lambda>e x. f64_max x (entry_risk e)) es x \<in> insert x (entry_risk ` set es)"
proof (induction es arbitrary: x)
  case (Cons e es)
  have "f64_max x (entry_risk e) = x \<or> f64_max x (entry_risk e) = entry_risk e" by (simp add: f64_max_def)
  with Cons.IH [of "f64_max x (entry_risk e)"] show ?case by auto
qed simp

lemma stats_right_average:
  assumes "\<forall>e \<in> set es. unit_f64 (entry_risk e)" "es \<noteq> []" "length es \<le> 2 ^ 53"
  shows "stats_right es (average_stats (fold add_to_stats es empty_stats))"
proof -
  have sum: "f64_in 0 (of_nat (length es)) (fold (\<lambda>e x. f64_add x (entry_risk e)) es (lit 0))"
    using unit_sum [OF assms(1), of 0 "lit 0"] assms(3) by simp
  have max: "unit_f64 (fold (\<lambda>e x. f64_max x (entry_risk e)) es (lit 0))"
    "\<forall>e \<in> set es. f64_le (entry_risk e) (fold (\<lambda>e x. f64_max x (entry_risk e)) es (lit 0))"
    using unit_max_fold [OF assms(1), of "lit 0"] max_fold_upper [OF assms(1), of "lit 0"] by simp_all
  from unit_average [OF sum _ assms(3)] max assms(2) max_fold_attained [of es "lit 0"] show ?thesis
    by (simp add: stats_right_def average_stats_def stats_fold empty_stats_def)
qed

lemma high_risk_iff:
  "is_high_risk f64_ops e \<longleftrightarrow> (\<exists>v. ae_verdict e = Some v \<and> f64_le (lit (6 / 10)) (risk_score v))"
  by (simp add: is_high_risk_def f64_ops_def split: option.split)

lemma f64_of_nat_exact: "n \<le> 2 ^ 53 \<Longrightarrow> f64_of_nat n = Fin (of_nat n)"
  by (simp add: f64_of_nat_def rnd_of_nat)

lemma top_entries:
  assumes "\<forall>e \<in> set es. entry_risk e \<noteq> NaN"
  shows "falling (take k (sort_by_risk es)) \<and> length (take k (sort_by_risk es)) = min k (length es) \<and>
    (\<exists>rest. mset (take k (sort_by_risk es)) + mset rest = mset es \<and>
      (\<forall>t \<in> set (take k (sort_by_risk es)). \<forall>e \<in> set rest. f64_le (entry_risk e) (entry_risk t)))"
proof -
  have "falling (take k (sort_by_risk es) @ drop k (sort_by_risk es))"
    using sort_by_risk_falling [OF assms] by simp
  moreover have "length (sort_by_risk es) = length es" by (metis size_mset sort_by_risk_mset)
  moreover have "mset (take k (sort_by_risk es)) + mset (drop k (sort_by_risk es)) = mset es"
    by (metis append_take_drop_id mset_append sort_by_risk_mset)
  ultimately show ?thesis unfolding sorted_wrt_append by (auto simp: min.commute)
qed

text \<open>
  C37: the analysis of a batch of at most \<open>2 ^ 53\<close> entries with scores between 0 and 1 exists and is right: the
  totals, the denials and the entries of high risk, those with a verdict whose score is 0.6 or more, are
  counted as they are in the batch, and the rate of denials is the fraction rounded once; every
  subject and permission of the batch, and no other, has its row, with its own counts, an average
  that is the rounded sum of its scores by their number and stays between 0 and 1 through all rounding,
  and the largest of its scores; the listed entries are the ten riskiest of the batch, in falling order.
\<close>

theorem analysis_exact:
  assumes "\<forall>e \<in> set es. unit_f64 (entry_risk e)" "length es \<le> 2 ^ 53"
  shows "\<exists>r. analyze es = Some r \<and> an_total_entries r = length es \<and>
    an_denied_count r = length (filter (\<lambda>e. \<not> ae_granted e) es) \<and>
    an_high_risk_count r =
      length (filter (\<lambda>e. \<exists>v. ae_verdict e = Some v \<and> f64_le (lit (6 / 10)) (risk_score v)) es) \<and>
    an_denied_rate r = (if es = [] then lit 0
      else rnd (of_nat (length (filter (\<lambda>e. \<not> ae_granted e) es)) / of_nat (length es))) \<and>
    (\<forall>s. case map_of (an_by_subject r) s of None \<Rightarrow> of_subject s es = []
       | Some st \<Rightarrow> of_subject s es \<noteq> [] \<and> stats_right (of_subject s es) st) \<and>
    (\<forall>p. map_of (an_by_permission r) p = (if \<forall>e \<in> set es. ae_permission e \<noteq> p then None
       else Some (length (filter (\<lambda>e. ae_permission e = p) es)))) \<and>
    falling (an_top_risk_entries r) \<and> length (an_top_risk_entries r) = min 10 (length es) \<and>
    (\<exists>rest. mset (an_top_risk_entries r) + mset rest = mset es \<and>
      (\<forall>t \<in> set (an_top_risk_entries r). \<forall>e \<in> set rest. f64_le (entry_risk e) (entry_risk t)))"
proof -
  have nan: "\<forall>e \<in> set es. entry_risk e \<noteq> NaN" using assms(1) by (fastforce elim: f64_inE)
  have sub: "case map_of (map (\<lambda>(k, s). (k, average_stats s)) (fold count_subject es [])) s of
      None \<Rightarrow> of_subject s es = [] | Some st \<Rightarrow> of_subject s es \<noteq> [] \<and> stats_right (of_subject s es) st" for s
  proof -
    have "\<forall>e \<in> set (of_subject s es). unit_f64 (entry_risk e)" "length (of_subject s es) \<le> 2 ^ 53"
      using assms(1) le_trans [OF length_filter_le assms(2)] by (auto simp: of_subject_def)
    from stats_right_average [OF this(1) _ this(2)] show ?thesis by (simp add: map_of_averages count_subjects)
  qed
  have denied: "is_denied = (\<lambda>e :: f64 audit_entry. \<not> ae_granted e)" by (simp add: fun_eq_iff is_denied_def)
  have high: "is_high_risk f64_ops = (\<lambda>e. \<exists>v. ae_verdict e = Some v \<and> f64_le (lit (6 / 10)) (risk_score v))"
    by (rule ext) (rule high_risk_iff)
  have "length (filter is_denied es) \<le> 2 ^ 53" using assms(2) length_filter_le [of is_denied es] by linarith
  then have rate: "f64_div (f64_of_nat (length (filter is_denied es))) (f64_of_nat (length es)) =
      rnd (of_nat (length (filter is_denied es)) / of_nat (length es))" if "es \<noteq> []"
    using that assms(2) by (simp add: f64_of_nat_exact)
  have "analyze es = Some \<lparr>an_total_entries = length es, an_denied_count = length (filter is_denied es),
      an_denied_rate = (if es = [] then lit 0
        else rnd (of_nat (length (filter is_denied es)) / of_nat (length es))),
      an_high_risk_count = length (filter (is_high_risk f64_ops) es),
      an_by_subject = map (\<lambda>(k, s). (k, average_stats s)) (fold count_subject es []),
      an_by_permission = fold count_permission es [], an_top_risk_entries = take 10 (sort_by_risk es)\<rparr>"
    using nan rate by (auto simp: analyze_def Let_def)
  note this [unfolded denied high]
  then show ?thesis
    using sub top_entries [OF nan, of 10]
    by (simp add: count_permissions)
qed

definition demo_entry :: "string \<Rightarrow> bool \<Rightarrow> f64 audit_entry" where
  "demo_entry s g = \<lparr>ae_id = 0, ae_subject_id = s, ae_subject_type = ''user'', ae_permission = ''read'', ae_endpoint = ''/'',
     ae_granted = g, ae_created_at = 0, ae_verdict = None\<rparr>"

definition demo_risky :: "f64 audit_entry" where
  "demo_risky = (demo_entry ''bob'' False)\<lparr>ae_verdict := Some \<lparr>autonomy_level = ''full'', risk_score = lit 1,
     sub_scores = \<lparr>delegator_weight = lit 1, trust_penalty = lit 1, sensitivity = lit 1, domain_mismatch = lit 1,
       anomaly = lit 1\<rparr>, evidence = [], mitigation = None\<rparr>\<rparr>"

theorem analysis_exact_witness:
  "\<exists>r. analyze [demo_entry ''ann'' True, demo_risky] = Some r \<and> an_denied_count r = 1 \<and> an_high_risk_count r = 1"
proof -
  let ?es = "[demo_entry ''ann'' True, demo_risky]"
  have "\<forall>e \<in> set ?es. unit_f64 (entry_risk e)"
    by (simp add: demo_entry_def demo_risky_def entry_risk_def)
  then obtain r where "analyze ?es = Some r" "an_denied_count r = length (filter (\<lambda>e. \<not> ae_granted e) ?es)"
    "an_high_risk_count r =
      length (filter (\<lambda>e. \<exists>v. ae_verdict e = Some v \<and> f64_le (lit (6 / 10)) (risk_score v)) ?es)"
    using analysis_exact [of ?es] by fastforce
  moreover have "f64_le (lit (6 / 10)) (Fin 1)" using unit_rnd [of "6 / 10"] by (auto elim: f64_inE)
  ultimately show ?thesis by (simp add: demo_entry_def demo_risky_def)
qed

text \<open>The hooks see every alert, each hook once and in the order of registration, and only those.\<close>

lemma hooks_see_the_alerts:
  assumes "hooked_log ops sub_secs now e hl = (fired, calls, hl')"
  shows "map snd (filter (\<lambda>(h, _). P h) calls) =
      (case fired of None \<Rightarrow> [] | Some alerts \<Rightarrow> concat (map (\<lambda>a. replicate (length (filter P (hl_hooks hl))) a) alerts)) \<and>
    fired = fst (logger_log ops sub_secs now e (hl_logger hl)) \<and> hl_hooks hl' = hl_hooks hl"
proof -
  have "map snd (filter (\<lambda>(h, _). P h) (concat (map (\<lambda>a. map (\<lambda>h. (h, a)) hs) alerts))) =
      concat (map (\<lambda>a. replicate (length (filter P hs)) a) alerts)" for hs and alerts :: "'a audit_alert list"
    by (induction alerts) (simp_all add: filter_map comp_def map_replicate_const)
  with assms show ?thesis by (auto simp: hooked_log_def split: prod.splits option.splits)
qed

text \<open>A score that is no number leaves the order of the sort open, and with it the analysis.\<close>

lemma nan_score_undefines_analysis:
  "analyze [demo_entry ''bob'' True, (demo_entry ''ann'' True)\<lparr>ae_verdict := Some \<lparr>autonomy_level = ''full'', risk_score = NaN,
     sub_scores = \<lparr>delegator_weight = NaN, trust_penalty = NaN, sensitivity = NaN, domain_mismatch = NaN, anomaly = NaN\<rparr>,
     evidence = [], mitigation = None\<rparr>\<rparr>] = None"
  by (simp add: analyze_def entry_risk_def)

end
