(* ===== verification/Replay_Stores.thy ===== *)
theory Replay_Stores
  imports Kirino_Prelude
begin

text \<open>
  The two stores that make a credential usable once: \<^verbatim>\<open>RefreshRevocationStore\<close>
  (\<^verbatim>\<open>packages/session/src/revocation.rs\<close>), keyed by the session id of a refresh token, and
  \<^verbatim>\<open>OneShotStore\<close> (\<^verbatim>\<open>packages/session/src/one_shot.rs\<close>), keyed by a token's \<^verbatim>\<open>jti\<close>. Unix
  seconds are integers; each method holds the store's lock for its whole body, so it is one
  atomic step at the instant it reads the clock.

  The locale \<open>replay_guard\<close> is what both promise a caller that asks before it honours a
  credential: once a key was admitted, it is refused up to a deadline. Its client lemma is that
  in any sequence of calls no key is admitted twice before its deadline.
\<close>

subsection \<open>The contract\<close>

text \<open>
  \<open>mark k now st\<close> asks whether \<open>k\<close> is fresh and records it; its first component is true when \<open>k\<close>
  is admitted. \<open>horizon k now\<close> is the deadline of an admission of \<open>k\<close> at \<open>now\<close>.
\<close>

locale replay_guard =
  fixes inv :: "'st \<Rightarrow> bool"
    and mark :: "'k \<Rightarrow> int \<Rightarrow> 'st \<Rightarrow> bool \<times> 'st"
    and blocked :: "'st \<Rightarrow> 'k \<Rightarrow> int \<Rightarrow> bool"
    and horizon :: "'k \<Rightarrow> int \<Rightarrow> int"
  assumes inv_mark: "inv st \<Longrightarrow> inv (snd (mark k now st))"
    and mark_blocks: "inv st \<Longrightarrow> fst (mark k now st) \<Longrightarrow> blocked (snd (mark k now st)) k (horizon k now)"
    and blocked_refuses: "inv st \<Longrightarrow> blocked st k d \<Longrightarrow> now < d \<Longrightarrow> \<not> fst (mark k now st)"
    and blocked_stays: "inv st \<Longrightarrow> blocked st k d \<Longrightarrow> now < d \<Longrightarrow> blocked (snd (mark k' now st)) k d"

text \<open>A sequence of calls, each with its key and instant, and their verdicts.\<close>

fun run_marks :: "('k \<Rightarrow> int \<Rightarrow> 'st \<Rightarrow> bool \<times> 'st) \<Rightarrow> ('k \<times> int) list \<Rightarrow> 'st \<Rightarrow> bool list" where
  "run_marks mark [] st = []"
| "run_marks mark ((k, now) # calls) st =
     (let (b, st') = mark k now st in b # run_marks mark calls st')"

definition admitted_once ::
  "('k \<Rightarrow> int \<Rightarrow> 'st \<Rightarrow> bool \<times> 'st) \<Rightarrow> ('k \<Rightarrow> int \<Rightarrow> int) \<Rightarrow> ('k \<times> int) list \<Rightarrow> 'st \<Rightarrow> bool" where
  "admitted_once mark horizon calls st \<longleftrightarrow>
     (\<forall>i j. i < j \<longrightarrow> j < length calls \<longrightarrow> fst (calls ! i) = fst (calls ! j) \<longrightarrow>
        run_marks mark calls st ! i \<longrightarrow> run_marks mark calls st ! j \<longrightarrow>
        horizon (fst (calls ! i)) (snd (calls ! i)) \<le> snd (calls ! j))"

lemma run_marks_Cons:
  "run_marks mark (c # calls) st =
     fst (mark (fst c) (snd c) st) # run_marks mark calls (snd (mark (fst c) (snd c) st))"
  by (cases c) (simp add: split_beta)

lemma length_run_marks [simp]: "length (run_marks mark calls st) = length calls"
  by (induction calls arbitrary: st) (simp_all add: run_marks_Cons)

context replay_guard
begin

text \<open>While the clock does not go back, a blocked key is refused until its deadline.\<close>

lemma blocked_run:
  "inv st \<Longrightarrow> blocked st k d \<Longrightarrow> sorted (map snd calls) \<Longrightarrow> j < length calls \<Longrightarrow>
     fst (calls ! j) = k \<Longrightarrow> snd (calls ! j) < d \<Longrightarrow> \<not> run_marks mark calls st ! j"
proof (induction calls arbitrary: st j)
  case (Cons c calls)
  show ?case
  proof (cases j)
    case 0
    with Cons.prems show ?thesis
      using blocked_refuses [OF Cons.prems(1,2)] by (auto simp: run_marks_Cons)
  next
    case (Suc i)
    from Cons.prems Suc have i: "i < length calls" "fst (calls ! i) = k" "snd (calls ! i) < d"
      by auto
    then have "snd c \<le> snd (calls ! i)"
      using Cons.prems(3) by (simp add: nth_mem)
    then have "snd c < d" using i(3) by simp
    from Cons.IH [OF inv_mark [OF Cons.prems(1)] blocked_stays [OF Cons.prems(1,2) this]] Cons.prems(3) i
    show ?thesis by (simp add: Suc run_marks_Cons)
  qed
qed simp

lemma run_admitted_once:
  "inv st \<Longrightarrow> sorted (map snd calls) \<Longrightarrow> admitted_once mark horizon calls st"
proof (induction calls arbitrary: st)
  case Nil
  then show ?case by (simp add: admitted_once_def)
next
  case (Cons c calls)
  let ?st = "snd (mark (fst c) (snd c) st)"
  have inv': "inv ?st" by (rule inv_mark [OF Cons.prems(1)])
  have IH: "admitted_once mark horizon calls ?st" using Cons.IH [OF inv'] Cons.prems(2) by simp
  show ?case
    unfolding admitted_once_def
  proof (intro allI impI)
    fix i j
    assume ij: "i < j" "j < length (c # calls)" and same: "fst ((c # calls) ! i) = fst ((c # calls) ! j)"
      and oki: "run_marks mark (c # calls) st ! i" and okj: "run_marks mark (c # calls) st ! j"
    obtain j' where j: "j = Suc j'" "j' < length calls" using ij by (cases j) auto
    show "horizon (fst ((c # calls) ! i)) (snd ((c # calls) ! i)) \<le> snd ((c # calls) ! j)"
    proof (cases i)
      case 0
      have "blocked ?st (fst c) (horizon (fst c) (snd c))"
        using mark_blocks [OF Cons.prems(1)] oki 0 by (simp add: run_marks_Cons)
      from blocked_run [OF inv' this _ j(2)] Cons.prems(2) same okj 0 j
      have "\<not> snd (calls ! j') < horizon (fst c) (snd c)" by (auto simp: run_marks_Cons)
      then show ?thesis using 0 j by simp
    next
      case (Suc i')
      with IH ij j same oki okj show ?thesis
        by (simp add: admitted_once_def run_marks_Cons)
    qed
  qed
qed

end

subsection \<open>The revocation store\<close>

definition REVOCATION_MAX_ENTRIES :: nat where
  "REVOCATION_MAX_ENTRIES = 10000"

definition VERIFY_LEEWAY_SECS :: int where
  "VERIFY_LEEWAY_SECS = 60"

record revocation_store =
  refresh_ttl_secs :: int
  rv_entries :: "(string, int) hash_map"

definition revocation_store_new :: "int \<Rightarrow> revocation_store" where
  "revocation_store_new ttl = \<lparr>refresh_ttl_secs = ttl, rv_entries = []\<rparr>"

definition window_secs :: "revocation_store \<Rightarrow> int" where
  "window_secs st = refresh_ttl_secs st + VERIFY_LEEWAY_SECS"

definition record_entry :: "(string, int) hash_map \<Rightarrow> string \<Rightarrow> int \<Rightarrow> int \<Rightarrow> (string, int) hash_map" where
  "record_entry entries sid now window =
     (let entries' = AList.update sid now entries
      in if length entries' > REVOCATION_MAX_ENTRIES
         then filter (\<lambda>(_, ts). ts \<ge> now - window) entries'
         else entries')"

definition revoke :: "string \<Rightarrow> int \<Rightarrow> revocation_store \<Rightarrow> revocation_store" where
  "revoke sid now st = st\<lparr>rv_entries := record_entry (rv_entries st) sid now (window_secs st)\<rparr>"

definition check_and_revoke :: "string \<Rightarrow> int \<Rightarrow> revocation_store \<Rightarrow> bool \<times> revocation_store" where
  "check_and_revoke sid now st =
     (let window = window_secs st;
          refused = (case map_of (rv_entries st) sid of Some ts \<Rightarrow> now \<le> ts + window | None \<Rightarrow> False)
      in if refused then (False, st)
         else (True, st\<lparr>rv_entries := record_entry (rv_entries st) sid now window\<rparr>))"

definition is_revoked :: "string \<Rightarrow> int \<Rightarrow> revocation_store \<Rightarrow> bool" where
  "is_revoked sid now st =
     (case map_of (rv_entries st) sid of Some ts \<Rightarrow> now \<le> ts + window_secs st | None \<Rightarrow> False)"

definition revocation_cleanup :: "int \<Rightarrow> revocation_store \<Rightarrow> revocation_store" where
  "revocation_cleanup now st =
     st\<lparr>rv_entries := filter (\<lambda>(_, ts). ts + window_secs st \<ge> now) (rv_entries st)\<rparr>"

definition revocation_wf :: "revocation_store \<Rightarrow> bool" where
  "revocation_wf st \<longleftrightarrow> hm_wf (rv_entries st)"

text \<open>A key is blocked up to a deadline when its entry's window reaches at least that far.\<close>

definition revocation_blocked :: "revocation_store \<Rightarrow> string \<Rightarrow> int \<Rightarrow> bool" where
  "revocation_blocked st sid d \<longleftrightarrow> (\<exists>ts. map_of (rv_entries st) sid = Some ts \<and> d \<le> ts + window_secs st + 1)"

lemma map_of_record_entry:
  "hm_wf entries \<Longrightarrow> map_of (record_entry entries sid now window) k =
     (let ts = (if k = sid then Some now else map_of entries k)
      in if length (AList.update sid now entries) > REVOCATION_MAX_ENTRIES
         then (case ts of None \<Rightarrow> None | Some t \<Rightarrow> if t \<ge> now - window then Some t else None)
         else ts)"
  by (auto simp: record_entry_def Let_def hm_map_of_filter map_of_AList_update split: option.splits)

lemma hm_wf_record_entry [simp]: "hm_wf entries \<Longrightarrow> hm_wf (record_entry entries sid now window)"
  by (simp add: record_entry_def Let_def)

lemma revocation_blocked_record:
  assumes "revocation_wf st" "revocation_blocked st k d" "now < d" "\<not> refused"
    and "refused \<longleftrightarrow> (case map_of (rv_entries st) sid of Some ts \<Rightarrow> now \<le> ts + window_secs st | None \<Rightarrow> False)"
  shows "revocation_blocked (st\<lparr>rv_entries := record_entry (rv_entries st) sid now (window_secs st)\<rparr>) k d"
proof -
  obtain ts where ts: "map_of (rv_entries st) k = Some ts" "d \<le> ts + window_secs st + 1"
    using assms(2) by (auto simp: revocation_blocked_def)
  have "k \<noteq> sid" using assms(3-5) ts by (auto split: option.splits)
  then have "map_of (record_entry (rv_entries st) sid now (window_secs st)) k = Some ts"
    using assms(1,3) ts by (simp add: revocation_wf_def map_of_record_entry Let_def)
  then show ?thesis using ts(2) by (simp add: revocation_blocked_def window_secs_def)
qed

interpretation revocation: replay_guard
  "\<lambda>st. revocation_wf st \<and> window_secs st = w \<and> 0 \<le> w" check_and_revoke revocation_blocked
  "\<lambda>sid now. now + w + 1"
  for w :: int
proof unfold_locales
  fix st :: revocation_store and k k' :: string and now d :: int
  assume inv: "revocation_wf st \<and> window_secs st = w \<and> 0 \<le> w"
  show "revocation_wf (snd (check_and_revoke k now st)) \<and> window_secs (snd (check_and_revoke k now st)) = w \<and> 0 \<le> w"
    using inv by (auto simp: check_and_revoke_def Let_def revocation_wf_def window_secs_def)
  show "fst (check_and_revoke k now st) \<Longrightarrow>
      revocation_blocked (snd (check_and_revoke k now st)) k (now + w + 1)"
    using inv by (auto simp: check_and_revoke_def Let_def revocation_blocked_def revocation_wf_def
        map_of_record_entry window_secs_def split: if_splits option.splits)
  assume bl: "revocation_blocked st k d" and lt: "now < d"
  show "\<not> fst (check_and_revoke k now st)"
    using inv bl lt by (auto simp: check_and_revoke_def Let_def revocation_blocked_def)
  show "revocation_blocked (snd (check_and_revoke k' now st)) k d"
    using revocation_blocked_record [OF _ bl lt] inv bl
    by (auto simp: check_and_revoke_def Let_def)
qed

subsection \<open>The one-shot store\<close>

definition DEFAULT_MAX_JTIS :: nat where
  "DEFAULT_MAX_JTIS = 1000000"

definition PRUNE_INTERVAL_SECS :: int where
  "PRUNE_INTERVAL_SECS = 60"

text \<open>\<open>poisoned\<close> is the state of the mutex after a thread panicked while holding it.\<close>

record one_shot_store =
  os_used :: "(string, int) hash_map"
  os_last_prune :: int
  os_max_jtis :: nat
  os_poisoned :: bool

definition one_shot_with_max_jtis :: "nat \<Rightarrow> one_shot_store" where
  "one_shot_with_max_jtis n =
     \<lparr>os_used = [], os_last_prune = 0, os_max_jtis = max n 1, os_poisoned = False\<rparr>"

definition one_shot_new :: one_shot_store where
  "one_shot_new = one_shot_with_max_jtis DEFAULT_MAX_JTIS"

definition unexpired :: "int \<Rightarrow> (string, int) hash_map \<Rightarrow> (string, int) hash_map" where
  "unexpired now m = filter (\<lambda>(_, e). e > now) m"

definition maybe_prune :: "int \<Rightarrow> one_shot_store \<Rightarrow> one_shot_store" where
  "maybe_prune now st =
     (if now - os_last_prune st < PRUNE_INTERVAL_SECS then st
      else st\<lparr>os_last_prune := now, os_used := unexpired now (os_used st)\<rparr>)"

text \<open>The first component is true for a replay.\<close>

definition check_and_mark :: "string \<Rightarrow> int \<Rightarrow> int \<Rightarrow> one_shot_store \<Rightarrow> bool \<times> one_shot_store" where
  "check_and_mark jti expiry now st =
     (if os_poisoned st then (True, st)
      else
        let st1 = maybe_prune now st;
            st2 = (if length (os_used st1) \<ge> os_max_jtis st1
                   then st1\<lparr>os_used := unexpired now (os_used st1)\<rparr> else st1)
        in if length (os_used st1) \<ge> os_max_jtis st1 \<and> length (os_used st2) \<ge> os_max_jtis st2
           then (True, st2)
           else (map_of (os_used st2) jti \<noteq> None,
                 st2\<lparr>os_used := AList.update jti expiry (os_used st2)\<rparr>))"

definition one_shot_len :: "one_shot_store \<Rightarrow> nat" where
  "one_shot_len st = (if os_poisoned st then 0 else length (os_used st))"

definition one_shot_is_empty :: "one_shot_store \<Rightarrow> bool" where
  "one_shot_is_empty st \<longleftrightarrow> one_shot_len st = 0"

definition one_shot_wf :: "one_shot_store \<Rightarrow> bool" where
  "one_shot_wf st \<longleftrightarrow> hm_wf (os_used st) \<and> length (os_used st) \<le> os_max_jtis st \<and> 0 < os_max_jtis st"

text \<open>
  A token's expiry is a claim of the token, so it is the same in every presentation: \<open>exp\<close> gives
  it for each \<^verbatim>\<open>jti\<close>.
\<close>

definition one_shot_mark :: "(string \<Rightarrow> int) \<Rightarrow> string \<Rightarrow> int \<Rightarrow> one_shot_store \<Rightarrow> bool \<times> one_shot_store" where
  "one_shot_mark exp jti now st =
     (\<not> fst (check_and_mark jti (exp jti) now st), snd (check_and_mark jti (exp jti) now st))"

definition one_shot_blocked :: "(string \<Rightarrow> int) \<Rightarrow> one_shot_store \<Rightarrow> string \<Rightarrow> int \<Rightarrow> bool" where
  "one_shot_blocked exp st jti d \<longleftrightarrow> d = exp jti \<and> (map_of (os_used st) jti = Some (exp jti) \<or> os_poisoned st)"

lemma unexpired_simps:
  "hm_wf m \<Longrightarrow> hm_wf (unexpired now m)"
  "length (unexpired now m) \<le> length m"
  "hm_wf m \<Longrightarrow> map_of m k = Some e \<Longrightarrow> now < e \<Longrightarrow> map_of (unexpired now m) k = Some e"
  by (simp_all add: unexpired_def hm_map_of_filter)

text \<open>What both cleanings do to the map: some expired entries go.\<close>

definition cleaned :: "int \<Rightarrow> one_shot_store \<Rightarrow> one_shot_store" where
  "cleaned now st =
     (let st1 = maybe_prune now st
      in if length (os_used st1) \<ge> os_max_jtis st1
         then st1\<lparr>os_used := unexpired now (os_used st1)\<rparr> else st1)"

lemma check_and_mark_cleaned:
  "check_and_mark jti e now st =
     (if os_poisoned st then (True, st)
      else if length (os_used (cleaned now st)) \<ge> os_max_jtis (cleaned now st) then (True, cleaned now st)
      else (map_of (os_used (cleaned now st)) jti \<noteq> None,
            (cleaned now st)\<lparr>os_used := AList.update jti e (os_used (cleaned now st))\<rparr>))"
  by (auto simp: check_and_mark_def cleaned_def Let_def)

lemma cleaned_simps:
  "os_max_jtis (cleaned now st) = os_max_jtis st"
  "os_poisoned (cleaned now st) = os_poisoned st"
  "hm_wf (os_used st) \<Longrightarrow> hm_wf (os_used (cleaned now st))"
  "length (os_used (cleaned now st)) \<le> length (os_used st)"
  "hm_wf (os_used st) \<Longrightarrow> map_of (os_used st) k = Some e \<Longrightarrow> now < e \<Longrightarrow>
     map_of (os_used (cleaned now st)) k = Some e"
  using unexpired_simps(2) [of now "os_used st"]
    le_trans [OF unexpired_simps(2) [of now "unexpired now (os_used st)"] unexpired_simps(2)]
  by (auto simp: cleaned_def maybe_prune_def Let_def unexpired_simps(1,3))

lemma length_update_Suc: "length (AList.update k v m) \<le> Suc (length m)"
  by (induction m) auto

lemma one_shot_wf_mark: "one_shot_wf st \<Longrightarrow> one_shot_wf (snd (check_and_mark jti e now st))"
  using length_update_Suc [of jti e "os_used (cleaned now st)"] cleaned_simps(4) [of now st]
  by (auto simp: one_shot_wf_def check_and_mark_cleaned cleaned_simps(1-3))

interpretation one_shot: replay_guard one_shot_wf "one_shot_mark exp" "one_shot_blocked exp" "\<lambda>jti now. exp jti"
  for exp :: "string \<Rightarrow> int"
proof unfold_locales
  fix st :: one_shot_store and k k' :: string and now d :: int
  assume wf: "one_shot_wf st"
  show "one_shot_wf (snd (one_shot_mark exp k now st))"
    using wf by (simp add: one_shot_mark_def one_shot_wf_mark)
  show "fst (one_shot_mark exp k now st) \<Longrightarrow>
      one_shot_blocked exp (snd (one_shot_mark exp k now st)) k (exp k)"
    by (auto simp: one_shot_mark_def one_shot_blocked_def check_and_mark_cleaned map_of_AList_update
        split: if_splits)
  assume bl: "one_shot_blocked exp st k d" and lt: "now < d"
  from wf have hm: "hm_wf (os_used st)" by (simp add: one_shot_wf_def)
  show "\<not> fst (one_shot_mark exp k now st)"
    using bl lt cleaned_simps(5) [OF hm]
    by (auto simp: one_shot_mark_def one_shot_blocked_def check_and_mark_cleaned)
  show "one_shot_blocked exp (snd (one_shot_mark exp k' now st)) k d"
    using bl lt cleaned_simps(5) [OF hm]
    by (auto simp: one_shot_mark_def one_shot_blocked_def check_and_mark_cleaned map_of_AList_update
        cleaned_simps)
qed

subsection \<open>What the stores guarantee\<close>

lemma revocation_window_mark:
  "revocation_wf st \<Longrightarrow> 0 \<le> window_secs st \<Longrightarrow>
     revocation_wf st \<and> window_secs st = window_secs st \<and> 0 \<le> window_secs st"
  by simp

text \<open>
  In any sequence of rotation attempts, of any sessions, at times that do not go back, no
  session is admitted twice within the rejection window: a second admission comes strictly
  later than the first plus the refresh lifetime plus the verification leeway. No pruning at
  the size limit opens the window early.
\<close>

theorem rotation_admitted_once:
  assumes "sorted (map snd calls)" and "0 \<le> refresh_ttl_secs st" and "revocation_wf st"
    and "i < j" and "j < length calls" and "fst (calls ! i) = fst (calls ! j)"
    and "run_marks check_and_revoke calls st ! i" and "run_marks check_and_revoke calls st ! j"
  shows "snd (calls ! i) + refresh_ttl_secs st + 60 < snd (calls ! j)"
proof -
  have "admitted_once check_and_revoke (\<lambda>sid now. now + window_secs st + 1) calls st"
    by (rule revocation.run_admitted_once)
      (use assms(1-3) in \<open>simp_all add: window_secs_def VERIFY_LEEWAY_SECS_def\<close>)
  then have "snd (calls ! i) + window_secs st + 1 \<le> snd (calls ! j)"
    unfolding admitted_once_def using assms(4-8) by blast
  then show ?thesis by (simp add: window_secs_def VERIFY_LEEWAY_SECS_def)
qed

text \<open>
  Cleaning up changes no later answer: from the instant of the cleanup on, a rotation is
  admitted after it exactly if it would have been admitted without it.
\<close>

theorem cleanup_changes_nothing:
  assumes "revocation_wf st" and "t \<le> now"
  shows "fst (check_and_revoke sid now (revocation_cleanup t st)) = fst (check_and_revoke sid now st) \<and>
    is_revoked sid now (revocation_cleanup t st) = is_revoked sid now st"
  using assms
  by (auto simp: check_and_revoke_def Let_def revocation_cleanup_def is_revoked_def window_secs_def
      hm_map_of_filter revocation_wf_def split: option.splits)

text \<open>
  C8: in any sequence of presentations, at times that do not go back, a one-shot token is
  admitted at most once before its expiry, whatever other tokens are presented, whatever is
  pruned, and also when the store is full.
\<close>

theorem one_shot_admitted_once:
  assumes "sorted (map snd calls)" and "one_shot_wf st"
    and "i < j" and "j < length calls" and "fst (calls ! i) = fst (calls ! j)"
    and "run_marks (one_shot_mark exp) calls st ! i" and "run_marks (one_shot_mark exp) calls st ! j"
  shows "exp (fst (calls ! i)) \<le> snd (calls ! j)"
  using one_shot.run_admitted_once [OF assms(2,1)] assms(3-7) by (auto simp: admitted_once_def)

text \<open>
  The store never holds more entries than its ceiling, and at the ceiling with nothing
  expired, as with a poisoned lock, it refuses every token.
\<close>

theorem one_shot_bounded_fails_closed:
  assumes "one_shot_wf st"
  shows "length (os_used (snd (check_and_mark jti e now st))) \<le> os_max_jtis st \<and>
    (os_poisoned st \<or> (length (os_used st) = os_max_jtis st \<and> (\<forall>(k, x) \<in> set (os_used st). now < x)) \<longrightarrow>
      fst (check_and_mark jti e now st))"
proof
  have "os_max_jtis (snd (check_and_mark jti e now st)) = os_max_jtis st"
    by (simp add: check_and_mark_cleaned cleaned_simps)
  with one_shot_wf_mark [OF assms, of jti e now]
  show "length (os_used (snd (check_and_mark jti e now st))) \<le> os_max_jtis st"
    by (simp add: one_shot_wf_def)
  have "cleaned now st = st \<or> os_used (cleaned now st) = os_used st"
    if "\<forall>(k, x) \<in> set (os_used st). now < x"
  proof -
    have "unexpired now (os_used st) = os_used st"
      unfolding unexpired_def using that by (auto intro!: filter_True)
    then show ?thesis by (simp add: cleaned_def maybe_prune_def Let_def)
  qed
  then show "os_poisoned st \<or> (length (os_used st) = os_max_jtis st \<and> (\<forall>(k, x) \<in> set (os_used st). now < x)) \<longrightarrow>
      fst (check_and_mark jti e now st)"
    by (auto simp: check_and_mark_cleaned cleaned_simps)
qed

text \<open>
  Between its expiry and the end of the verification leeway a token is still accepted by
  the verifier, but the store forgets it at the expiry: presented once before its expiry and
  again within the leeway, a minute after the last pruning, it is admitted twice.
\<close>

theorem one_shot_replay_in_leeway:
  assumes "one_shot_wf st" and "\<not> os_poisoned st" and "length (os_used st) < os_max_jtis st"
    and "map_of (os_used st) jti = None"
    and "t - os_last_prune st < 60" and "t < e" and "e \<le> t'" and "t' \<le> e + VERIFY_LEEWAY_SECS"
    and "60 \<le> t' - os_last_prune st"
  shows "\<not> fst (check_and_mark jti e t st) \<and>
    \<not> fst (check_and_mark jti e t' (snd (check_and_mark jti e t st)))"
proof -
  define st' where "st' = snd (check_and_mark jti e t st)"
  have c: "cleaned t st = st"
    using assms(3,5) by (simp add: cleaned_def maybe_prune_def Let_def PRUNE_INTERVAL_SECS_def)
  have first: "\<not> fst (check_and_mark jti e t st)"
    and st: "st' = st\<lparr>os_used := AList.update jti e (os_used st)\<rparr>"
    using assms(2-4) by (simp_all add: st'_def check_and_mark_cleaned c)
  have wf: "hm_wf (AList.update jti e (os_used st))" using assms(1) by (simp add: one_shot_wf_def)
  have gone: "map_of (unexpired t' (AList.update jti e (os_used st))) jti = None"
    using assms(7) by (simp add: unexpired_def hm_map_of_filter [OF wf] map_of_AList_update)
  have "(jti, e) \<in> set (AList.update jti e (os_used st))"
    using hm_in_set_iff [OF wf, of jti e] by (simp add: map_of_AList_update)
  then have "length (unexpired t' (AList.update jti e (os_used st))) < length (AList.update jti e (os_used st))"
    unfolding unexpired_def using assms(7) by (intro length_filter_less) auto
  also have "\<dots> \<le> os_max_jtis st"
    using length_update_Suc [of jti e "os_used st"] assms(3) by simp
  finally have "cleaned t' st' = st'\<lparr>os_last_prune := t',
      os_used := unexpired t' (AList.update jti e (os_used st))\<rparr>"
    and "length (unexpired t' (AList.update jti e (os_used st))) < os_max_jtis st"
    using assms(9) by (simp_all add: st cleaned_def maybe_prune_def Let_def PRUNE_INTERVAL_SECS_def)
  then have "\<not> fst (check_and_mark jti e t' st')"
    using gone assms(2) by (simp add: check_and_mark_cleaned st)
  with first show ?thesis by (simp add: st'_def)
qed

subsection \<open>Witnesses\<close>

lemma leeway_window: "window_secs (revocation_store_new 100) = 160"
  by (simp add: window_secs_def revocation_store_new_def VERIFY_LEEWAY_SECS_def)

text \<open>Rotated at 0, tried again at 160 and refused, admitted again at 161.\<close>

lemma demo_rotations:
  "run_marks check_and_revoke [(''s'', 0), (''s'', 160), (''s'', 161)] (revocation_store_new 100) =
     [True, False, True]"
  by (simp add: check_and_revoke_def Let_def revocation_store_new_def window_secs_def
      VERIFY_LEEWAY_SECS_def record_entry_def REVOCATION_MAX_ENTRIES_def)

theorem rotation_admitted_once_witness:
  "run_marks check_and_revoke [(''s'', 0), (''s'', 160), (''s'', 161)] (revocation_store_new 100) =
     [True, False, True] \<and> 0 + refresh_ttl_secs (revocation_store_new 100) + 60 < 161"
  using rotation_admitted_once [of "[(''s'', 0), (''s'', 160), (''s'', 161)]" "revocation_store_new 100" 0 2]
  by (simp add: demo_rotations revocation_wf_def revocation_store_new_def
      del: run_marks.simps add: demo_rotations [unfolded revocation_store_new_def])

theorem cleanup_changes_nothing_witness:
  "is_revoked ''s'' 170 (revocation_cleanup 165 (revoke ''s'' 0 (revocation_store_new 100))) =
   is_revoked ''s'' 170 (revoke ''s'' 0 (revocation_store_new 100))"
  by (rule cleanup_changes_nothing [THEN conjunct2])
    (simp_all add: revocation_wf_def revoke_def revocation_store_new_def)

definition demo_one_shot :: one_shot_store where
  "demo_one_shot = (one_shot_with_max_jtis 1)\<lparr>os_last_prune := 100\<rparr>"

text \<open>Expiry 130; presented at 101, and again at 165, within the leeway.\<close>

lemma demo_presentations:
  "run_marks (one_shot_mark (\<lambda>_. 130)) [(''j'', 101), (''j'', 165)] demo_one_shot = [True, True]"
  by (simp add: one_shot_mark_def check_and_mark_def Let_def demo_one_shot_def
      one_shot_with_max_jtis_def maybe_prune_def PRUNE_INTERVAL_SECS_def unexpired_def)

lemma demo_one_shot_wf: "one_shot_wf demo_one_shot"
  by (simp add: one_shot_wf_def demo_one_shot_def one_shot_with_max_jtis_def)

theorem one_shot_admitted_once_witness:
  "run_marks (one_shot_mark (\<lambda>_. 130)) [(''j'', 101), (''j'', 165)] demo_one_shot = [True, True] \<and>
   (\<lambda>_. 130) ''j'' \<le> (165 :: int)"
  using one_shot_admitted_once [of "[(''j'', 101), (''j'', 165)]" demo_one_shot 0 1 "\<lambda>_. 130"]
  by (simp add: demo_presentations demo_one_shot_wf del: run_marks.simps)

theorem one_shot_bounded_fails_closed_witness:
  "fst (check_and_mark ''j'' 130 101 (demo_one_shot\<lparr>os_used := [(''k'', 120)]\<rparr>))"
  using one_shot_bounded_fails_closed [of "demo_one_shot\<lparr>os_used := [(''k'', 120)]\<rparr>" "''j''" 130 101]
  by (simp add: one_shot_wf_def demo_one_shot_def one_shot_with_max_jtis_def hm_wf_def)

theorem one_shot_replay_in_leeway_witness:
  "\<not> fst (check_and_mark ''j'' 130 165 (snd (check_and_mark ''j'' 130 101 demo_one_shot)))"
  using one_shot_replay_in_leeway [of demo_one_shot "''j''" 101 130 165] demo_one_shot_wf
  by (simp add: demo_one_shot_def one_shot_with_max_jtis_def VERIFY_LEEWAY_SECS_def)

end
