(* ===== verification/Token_Manager.thy ===== *)
theory Token_Manager
  imports Replay_Stores
begin

text \<open>
  The token manager of \<^verbatim>\<open>packages/session/src/manager.rs\<close>, with the claims of \<^verbatim>\<open>token.rs\<close> and
  the configuration of \<^verbatim>\<open>config.rs\<close>: the resolution of the key profile, signing, the two
  verification paths, the issue of a pair, and the refresh with and without rotation.

  The cryptographic and encoding libraries (\<^verbatim>\<open>jsonwebtoken\<close>, \<^verbatim>\<open>ml_dsa\<close>, \<^verbatim>\<open>base64\<close>,
  \<^verbatim>\<open>serde_json\<close>, \<^verbatim>\<open>uuid\<close>) are the record \<open>jose_lib\<close>, an argument of the definitions that use
  them. The build feature \<^verbatim>\<open>mldsa\<close> is a boolean argument. Timestamps are 64-bit words, and the
  addition of the leeway wraps as in a release build. Random identifiers are arguments.
\<close>

subsection \<open>Claims and configuration\<close>

datatype token_type = Access | Refresh

record token_claims =
  tc_sub :: string
  tc_username :: string
  tc_token_type :: token_type
  tc_iat :: u64
  tc_exp :: u64
  tc_iss :: string
  tc_jti :: string
  tc_sid :: "string option"
  tc_roles :: "string list"
  tc_user_id :: "string option"
  tc_tenant_id :: "string option"
  tc_relay_id :: "string option"
  tc_workspace_id :: "string option"
  tc_permissions :: "string list"
  tc_aud :: "string option"

definition token_claims_new ::
  "string \<Rightarrow> string \<Rightarrow> string \<Rightarrow> token_type \<Rightarrow> u64 \<Rightarrow> string \<Rightarrow> int \<Rightarrow> token_claims" where
  "token_claims_new jti sub username ty ttl issuer now =
     \<lparr>tc_sub = sub, tc_username = username, tc_token_type = ty, tc_iat = word_of_int now,
      tc_exp = word_of_int now + ttl, tc_iss = issuer, tc_jti = jti, tc_sid = None, tc_roles = [],
      tc_user_id = None, tc_tenant_id = None, tc_relay_id = None, tc_workspace_id = None,
      tc_permissions = [], tc_aud = None\<rparr>"

definition with_session :: "string \<Rightarrow> token_claims \<Rightarrow> token_claims" where
  "with_session sid c = c\<lparr>tc_sid := Some sid\<rparr>"

definition with_roles :: "string list \<Rightarrow> token_claims \<Rightarrow> token_claims" where
  "with_roles roles c = c\<lparr>tc_roles := roles\<rparr>"

definition with_audience :: "string \<Rightarrow> token_claims \<Rightarrow> token_claims" where
  "with_audience aud c = c\<lparr>tc_aud := Some aud\<rparr>"

definition claims_is_expired :: "int \<Rightarrow> token_claims \<Rightarrow> bool" where
  "claims_is_expired now c \<longleftrightarrow> (word_of_int now :: u64) \<ge> tc_exp c"

record token_pair =
  tp_access_token :: string
  tp_refresh_token :: string
  tp_expires_in :: u64

record ed25519_keys =
  signing_pem :: "string option"
  verifying_pems :: "string list"

record ml_dsa65_keys =
  signing_seed :: "string option"
  verifying :: "string list"

record session_config =
  sc_secret :: string
  sc_ed25519 :: ed25519_keys
  sc_mldsa65 :: ml_dsa65_keys
  sc_access_ttl_secs :: u64
  sc_refresh_ttl_secs :: u64
  sc_issuer :: string
  sc_audience :: "string option"
  sc_kid :: "string option"

definition session_config_from_secret :: "string \<Rightarrow> session_config" where
  "session_config_from_secret secret =
     \<lparr>sc_secret = secret, sc_ed25519 = \<lparr>signing_pem = None, verifying_pems = []\<rparr>,
      sc_mldsa65 = \<lparr>signing_seed = None, verifying = []\<rparr>, sc_access_ttl_secs = 900,
      sc_refresh_ttl_secs = 604800, sc_issuer = ''kirino'', sc_audience = None, sc_kid = None\<rparr>"

definition MIN_SECRET_BYTES :: nat where
  "MIN_SECRET_BYTES = 32"

definition session_config_try_new :: "string \<Rightarrow> string + session_config" where
  "session_config_try_new secret =
     (if secret = [] then Inl ''empty''
      else if length secret < MIN_SECRET_BYTES then Inl ''short''
      else Inr (session_config_from_secret secret))"

definition add_ed25519_verifying_key :: "string \<Rightarrow> session_config \<Rightarrow> session_config" where
  "add_ed25519_verifying_key pem c =
     c\<lparr>sc_ed25519 := (sc_ed25519 c)\<lparr>verifying_pems := verifying_pems (sc_ed25519 c) @ [pem]\<rparr>\<rparr>"

definition with_ed25519_signing_key :: "string \<Rightarrow> session_config \<Rightarrow> session_config" where
  "with_ed25519_signing_key pem c =
     c\<lparr>sc_ed25519 := (sc_ed25519 c)\<lparr>signing_pem := Some pem\<rparr>\<rparr>"

definition add_mldsa65_verifying_key :: "string \<Rightarrow> session_config \<Rightarrow> session_config" where
  "add_mldsa65_verifying_key key c =
     c\<lparr>sc_mldsa65 := (sc_mldsa65 c)\<lparr>verifying := verifying (sc_mldsa65 c) @ [key]\<rparr>\<rparr>"

definition with_mldsa65_signing_seed :: "string \<Rightarrow> session_config \<Rightarrow> session_config" where
  "with_mldsa65_signing_seed seed c =
     c\<lparr>sc_mldsa65 := (sc_mldsa65 c)\<lparr>signing_seed := Some seed\<rparr>\<rparr>"

subsection \<open>The libraries\<close>

datatype jwt_error = ExpiredSignature | OtherJwtError string

datatype session_error =
    Jwt jwt_error
  | InvalidToken string
  | ExpiredToken
  | Revoked
  | SigningUnavailable
  | Keys string

type_synonym 'a session_result = "session_error + 'a"

datatype algorithm = HS256 | EdDSA

record validation =
  va_algorithm :: algorithm
  va_issuer :: string
  va_validate_exp :: bool
  va_audience :: "string option"
  va_required_aud :: bool

text \<open>
  \<open>'k\<close> is a \<^verbatim>\<open>jsonwebtoken\<close> key (encoding or decoding), \<open>'m\<close> an \<^verbatim>\<open>ml_dsa\<close> one. Bytes are
  strings. \<open>decode_jws\<close> is \<^verbatim>\<open>jsonwebtoken::decode\<close> at an instant; \<open>header_fields\<close> reads the \<^verbatim>\<open>alg\<close>
  and \<^verbatim>\<open>kid\<close> strings of a JSON header.
\<close>

record ('k, 'm) jose_lib =
  from_secret :: "string \<Rightarrow> 'k"
  decoding_from_ed_pem :: "string \<Rightarrow> string + 'k"
  encoding_from_ed_pem :: "string \<Rightarrow> string + 'k"
  base64_std_decode :: "string \<Rightarrow> string option"
  encode_jws :: "algorithm \<Rightarrow> string option \<Rightarrow> token_claims \<Rightarrow> 'k \<Rightarrow> jwt_error + string"
  decode_jws :: "int \<Rightarrow> string \<Rightarrow> 'k \<Rightarrow> validation \<Rightarrow> jwt_error + token_claims"
  ml_verifying_key :: "string \<Rightarrow> 'm"
  ml_signing_key :: "string \<Rightarrow> 'm"
  ml_sign :: "'m \<Rightarrow> string \<Rightarrow> string"
  ml_well_formed :: "string \<Rightarrow> bool"
  ml_verify :: "'m \<Rightarrow> string \<Rightarrow> string \<Rightarrow> bool"
  b64u_encode :: "string \<Rightarrow> string"
  b64u_decode :: "string \<Rightarrow> string option"
  header_json :: "string \<Rightarrow> string option \<Rightarrow> string"
  header_fields :: "string \<Rightarrow> (string option \<times> string option) option"
  claims_json :: "token_claims \<Rightarrow> string"
  parse_claims :: "string \<Rightarrow> token_claims option"
  parse_uuid :: "string \<Rightarrow> uuid option"
  uuid_string :: "uuid \<Rightarrow> string"

subsection \<open>The key profile\<close>

datatype ('k, 'm) key_set =
    SharedSecret 'k 'k
  | Ed25519 "'k option" "'k list" "string list"
  | MlDsa65 "'m option" "'m list"
  | Broken string

definition ED25519_SPKI_PREFIX :: "nat list" where
  "ED25519_SPKI_PREFIX = [0x30, 0x2a, 0x30, 0x05, 0x06, 0x03, 0x2b, 0x65, 0x70, 0x03, 0x21, 0x00]"

text \<open>
  \<^verbatim>\<open>str::lines\<close>: lines end at a newline, which may follow a carriage return; a last line
  without its newline is taken as it is.
\<close>

definition strip_cr :: "string \<Rightarrow> string" where
  "strip_cr l = (if l \<noteq> [] \<and> last l = CHR 0x0D then butlast l else l)"

definition lines :: "string \<Rightarrow> string list" where
  "lines s = (let segs = split_on CHR 0x0A s
     in map strip_cr (butlast segs) @ (if last segs = [] then [] else [last segs]))"

definition ed25519_spki_raw32 :: "('k, 'm) jose_lib \<Rightarrow> (string \<Rightarrow> string) \<Rightarrow> string \<Rightarrow> string option" where
  "ed25519_spki_raw32 lib trim pem =
     (case lines pem of
        [] \<Rightarrow> None
      | first # rest \<Rightarrow>
          if \<not> sublist ''BEGIN PUBLIC KEY'' first then None
          else
            let body = concat (filter (\<lambda>l. trim l \<noteq> []) (takeWhile (\<lambda>l. \<not> sublist ''END PUBLIC KEY'' l) rest))
            in (case base64_std_decode lib body of
                  None \<Rightarrow> None
                | Some der \<Rightarrow>
                    if length der \<noteq> 44 \<or> map of_char (take 12 der) \<noteq> ED25519_SPKI_PREFIX then None
                    else Some (drop 12 der)))"

text \<open>The loop over the verifying PEMs, with its early returns.\<close>

fun resolve_verifying ::
  "('k, 'm) jose_lib \<Rightarrow> (string \<Rightarrow> string) \<Rightarrow> string list \<Rightarrow> 'k list \<Rightarrow> string list \<Rightarrow>
     string + ('k list \<times> string list)" where
  "resolve_verifying lib trim [] decoding raw = Inr (decoding, raw)"
| "resolve_verifying lib trim (pem # pems) decoding raw =
     (case (decoding_from_ed_pem lib pem, ed25519_spki_raw32 lib trim pem) of
        (Inr key, Some r) \<Rightarrow> resolve_verifying lib trim pems (decoding @ [key]) (raw @ [r])
      | (Inl e, _) \<Rightarrow> Inl ''invalid PEM''
      | (Inr key, None) \<Rightarrow> Inl ''not a raw Ed25519 key'')"

definition resolve ::
  "('k, 'm) jose_lib \<Rightarrow> (string \<Rightarrow> string) \<Rightarrow> bool \<Rightarrow> ed25519_keys \<Rightarrow> ml_dsa65_keys \<Rightarrow> string \<Rightarrow>
     ('k, 'm) key_set" where
  "resolve lib trim mldsa ed ml secret =
     (let ed_configured = signing_pem ed \<noteq> None \<or> verifying_pems ed \<noteq> [];
          ml_configured = signing_seed ml \<noteq> None \<or> verifying ml \<noteq> []
      in if ed_configured \<and> ml_configured then Broken ''two profiles''
         else if mldsa \<and> signing_seed ml \<noteq> None \<and> verifying ml = [] then Broken ''seed without key''
         else if mldsa \<and> verifying ml \<noteq> []
         then MlDsa65 (map_option (ml_signing_key lib) (signing_seed ml)) (map (ml_verifying_key lib) (verifying ml))
         else if \<not> mldsa \<and> ml_configured then Broken ''no mldsa feature''
         else if signing_pem ed \<noteq> None \<and> verifying_pems ed = [] then Broken ''signing key without key''
         else if verifying_pems ed = [] then SharedSecret (from_secret lib secret) (from_secret lib secret)
         else case resolve_verifying lib trim (verifying_pems ed) [] [] of
                Inl e \<Rightarrow> Broken e
              | Inr (decoding, raw) \<Rightarrow>
                  (case signing_pem ed of
                     None \<Rightarrow> Ed25519 None decoding raw
                   | Some pem \<Rightarrow>
                       (case encoding_from_ed_pem lib pem of
                          Inr key \<Rightarrow> Ed25519 (Some key) decoding raw
                        | Inl e \<Rightarrow> Broken ''invalid signing PEM'')))"

record ('k, 'm) token_manager =
  tm_config :: session_config
  tm_keys :: "('k, 'm) key_set"

definition token_manager_new ::
  "('k, 'm) jose_lib \<Rightarrow> (string \<Rightarrow> string) \<Rightarrow> bool \<Rightarrow> session_config \<Rightarrow> ('k, 'm) token_manager" where
  "token_manager_new lib trim mldsa config =
     \<lparr>tm_config = config,
      tm_keys = resolve lib trim mldsa (sc_ed25519 config) (sc_mldsa65 config) (sc_secret config)\<rparr>"

subsection \<open>Signing and verifying\<close>

definition sign_mldsa65_compact ::
  "('k, 'm) jose_lib \<Rightarrow> 'm \<Rightarrow> token_claims \<Rightarrow> string option \<Rightarrow> string" where
  "sign_mldsa65_compact lib sk claims kid =
     (let signing_input = b64u_encode lib (header_json lib ''ML-DSA-65'' kid) @ ''.'' @
            b64u_encode lib (claims_json lib claims)
      in signing_input @ ''.'' @ b64u_encode lib (ml_sign lib sk signing_input))"

fun map_jwt :: "jwt_error + 'a \<Rightarrow> 'a session_result" where
  "map_jwt (Inl e) = Inl (Jwt e)"
| "map_jwt (Inr x) = Inr x"

definition sign :: "('k, 'm) jose_lib \<Rightarrow> ('k, 'm) token_manager \<Rightarrow> token_claims \<Rightarrow> string session_result" where
  "sign lib tm claims =
     (case tm_keys tm of
        SharedSecret enc dec \<Rightarrow> map_jwt (encode_jws lib HS256 None claims enc)
      | Ed25519 (Some key) dec raw \<Rightarrow> map_jwt (encode_jws lib EdDSA (sc_kid (tm_config tm)) claims key)
      | Ed25519 None dec raw \<Rightarrow> Inl SigningUnavailable
      | MlDsa65 None ver \<Rightarrow> Inl SigningUnavailable
      | MlDsa65 (Some sk) ver \<Rightarrow> Inr (sign_mldsa65_compact lib sk claims (sc_kid (tm_config tm)))
      | Broken msg \<Rightarrow> Inl (Keys msg))"

fun try_keys ::
  "('k \<Rightarrow> jwt_error + token_claims) \<Rightarrow> 'k list \<Rightarrow> jwt_error option \<Rightarrow> token_claims session_result" where
  "try_keys dec [] last_err =
     (case last_err of
        None \<Rightarrow> Inl (Keys ''no verifying keys configured'')
      | Some e \<Rightarrow> if e = ExpiredSignature then Inl ExpiredToken else Inl (Jwt e))"
| "try_keys dec (key # keys) last_err =
     (case dec key of Inr c \<Rightarrow> Inr c | Inl e \<Rightarrow> try_keys dec keys (Some e))"

definition verify_jsonwebtoken ::
  "('k, 'm) jose_lib \<Rightarrow> ('k, 'm) token_manager \<Rightarrow> algorithm \<Rightarrow> int \<Rightarrow> string \<Rightarrow> 'k list \<Rightarrow> bool \<Rightarrow>
     token_claims session_result" where
  "verify_jsonwebtoken lib tm alg now token decoding check_exp =
     (let validation = \<lparr>va_algorithm = alg, va_issuer = sc_issuer (tm_config tm),
            va_validate_exp = check_exp, va_audience = sc_audience (tm_config tm),
            va_required_aud = (sc_audience (tm_config tm) \<noteq> None)\<rparr>
      in try_keys (\<lambda>key. decode_jws lib now token key validation) decoding None)"

definition verify_mldsa65 ::
  "('k, 'm) jose_lib \<Rightarrow> ('k, 'm) token_manager \<Rightarrow> int \<Rightarrow> string \<Rightarrow> 'm list \<Rightarrow> bool \<Rightarrow>
     token_claims session_result" where
  "verify_mldsa65 lib tm now token ver check_exp =
     (case split_on CHR ''.'' token of
        [h, p, s] \<Rightarrow>
          (case b64u_decode lib h of
             None \<Rightarrow> Inl (InvalidToken ''base64'')
           | Some hb \<Rightarrow>
          (case header_fields lib hb of
             None \<Rightarrow> Inl (InvalidToken ''header'')
           | Some (alg, kid) \<Rightarrow>
          if alg \<noteq> Some ''ML-DSA-65'' then Inl (InvalidToken ''algorithm'')
          else if (case (sc_kid (tm_config tm), kid) of
                     (Some configured, Some presented) \<Rightarrow> configured \<noteq> presented
                   | _ \<Rightarrow> False) then Inl (InvalidToken ''kid'')
          else
          (case b64u_decode lib p of
             None \<Rightarrow> Inl (InvalidToken ''base64'')
           | Some pb \<Rightarrow>
          (case parse_claims lib pb of
             None \<Rightarrow> Inl (InvalidToken ''claims'')
           | Some claims \<Rightarrow>
          if tc_iss claims \<noteq> sc_issuer (tm_config tm) then Inl (InvalidToken ''issuer'')
          else if (case sc_audience (tm_config tm) of
                     Some expected \<Rightarrow> tc_aud claims \<noteq> Some expected
                   | None \<Rightarrow> False) then Inl (InvalidToken ''audience'')
          else if check_exp \<and> now > sint (tc_exp claims + word_of_int VERIFY_LEEWAY_SECS)
          then Inl ExpiredToken
          else
          (case b64u_decode lib s of
             None \<Rightarrow> Inl (InvalidToken ''base64'')
           | Some sig \<Rightarrow>
          if \<not> ml_well_formed lib sig then Inl (InvalidToken ''signature'')
          else if \<exists>key \<in> set ver. ml_verify lib key (h @ ''.'' @ p) sig then Inr claims
          else Inl (InvalidToken ''no key''))))))
      | _ \<Rightarrow> Inl (InvalidToken ''not a compact JWS''))"

definition verify_with ::
  "('k, 'm) jose_lib \<Rightarrow> ('k, 'm) token_manager \<Rightarrow> int \<Rightarrow> string \<Rightarrow> bool \<Rightarrow> token_claims session_result" where
  "verify_with lib tm now token check_exp =
     (case tm_keys tm of
        MlDsa65 sk ver \<Rightarrow> verify_mldsa65 lib tm now token ver check_exp
      | SharedSecret enc dec \<Rightarrow> verify_jsonwebtoken lib tm HS256 now token [dec] check_exp
      | Ed25519 enc dec raw \<Rightarrow> verify_jsonwebtoken lib tm EdDSA now token dec check_exp
      | Broken msg \<Rightarrow> Inl (Keys msg))"

definition verify :: "('k, 'm) jose_lib \<Rightarrow> ('k, 'm) token_manager \<Rightarrow> int \<Rightarrow> string \<Rightarrow> token_claims session_result" where
  "verify lib tm now token = verify_with lib tm now token True"

definition verify_lenient ::
  "('k, 'm) jose_lib \<Rightarrow> ('k, 'm) token_manager \<Rightarrow> int \<Rightarrow> string \<Rightarrow> token_claims session_result" where
  "verify_lenient lib tm now token = verify_with lib tm now token False"

subsection \<open>Pairs and refresh\<close>

record fresh_ids =
  fresh_sid :: string
  fresh_access_jti :: string
  fresh_refresh_jti :: string

definition stamp :: "session_config \<Rightarrow> token_claims \<Rightarrow> token_claims" where
  "stamp config c = (case sc_audience config of Some aud \<Rightarrow> with_audience aud c | None \<Rightarrow> c)"

definition issue_pair ::
  "('k, 'm) jose_lib \<Rightarrow> ('k, 'm) token_manager \<Rightarrow> fresh_ids \<Rightarrow> int \<Rightarrow> uuid \<Rightarrow> string \<Rightarrow> string list \<Rightarrow>
     token_pair session_result" where
  "issue_pair lib tm fr now user_id username roles =
     (let config = tm_config tm in
      and_then (sign lib tm (stamp config (with_roles roles (with_session (fresh_sid fr)
          (token_claims_new (fresh_access_jti fr) (uuid_string lib user_id) username Access
             (sc_access_ttl_secs config) (sc_issuer config) now))))) (\<lambda>access.
        and_then (sign lib tm (stamp config (with_roles roles (with_session (fresh_sid fr)
            (token_claims_new (fresh_refresh_jti fr) (uuid_string lib user_id) username Refresh
               (sc_refresh_ttl_secs config) (sc_issuer config) now))))) (\<lambda>refresh.
          Inr \<lparr>tp_access_token = access, tp_refresh_token = refresh,
            tp_expires_in = sc_access_ttl_secs config\<rparr>)))"

definition verify_refresh_claims ::
  "('k, 'm) jose_lib \<Rightarrow> ('k, 'm) token_manager \<Rightarrow> int \<Rightarrow> string \<Rightarrow> (uuid \<times> token_claims) session_result" where
  "verify_refresh_claims lib tm now token =
     and_then (verify lib tm now token) (\<lambda>claims.
       if tc_token_type claims \<noteq> Refresh then Inl (InvalidToken ''expected refresh token'')
       else case parse_uuid lib (tc_sub claims) of
              None \<Rightarrow> Inl (InvalidToken ''invalid user id in token'')
            | Some user_id \<Rightarrow> Inr (user_id, claims))"

definition refresh ::
  "('k, 'm) jose_lib \<Rightarrow> ('k, 'm) token_manager \<Rightarrow> fresh_ids \<Rightarrow> int \<Rightarrow> string \<Rightarrow> token_pair session_result" where
  "refresh lib tm fr now token =
     and_then (verify_refresh_claims lib tm now token) (\<lambda>(user_id, claims).
       issue_pair lib tm fr now user_id (tc_username claims) (tc_roles claims))"

text \<open>
  A rotation reads the clock three times: when it verifies the token, when it checks and records the session,
  and when it issues the new pair.
\<close>

record clock_reads =
  at_verify :: int
  at_record :: int
  at_issue :: int

definition refresh_rotating ::
  "('k, 'm) jose_lib \<Rightarrow> ('k, 'm) token_manager \<Rightarrow> fresh_ids \<Rightarrow> clock_reads \<Rightarrow> string \<Rightarrow> revocation_store \<Rightarrow>
     token_pair session_result \<times> revocation_store" where
  "refresh_rotating lib tm fr clk token st =
     (case verify_refresh_claims lib tm (at_verify clk) token of
        Inl e \<Rightarrow> (Inl e, st)
      | Inr (user_id, claims) \<Rightarrow>
          (case tc_sid claims of
             None \<Rightarrow> (Inl (InvalidToken ''refresh token has no session id''), st)
           | Some sid \<Rightarrow>
               (case check_and_revoke sid (at_record clk) st of
                  (False, st') \<Rightarrow> (Inl Revoked, st')
                | (True, st') \<Rightarrow>
                    (issue_pair lib tm fr (at_issue clk) user_id (tc_username claims) (tc_roles claims), st'))))"

text \<open>A concrete library: the encodings are the identity, every signature verifies.\<close>

definition example_claims :: token_claims where
  "example_claims = with_session ''sid'' (token_claims_new ''jti'' ''u'' ''ann'' Refresh 604800 ''kirino'' 0)"

definition example_lib :: "(unit, unit) jose_lib" where
  "example_lib =
     \<lparr>from_secret = (\<lambda>_. ()), decoding_from_ed_pem = (\<lambda>_. Inl []), encoding_from_ed_pem = (\<lambda>_. Inl []),
      base64_std_decode = (\<lambda>_. None), encode_jws = (\<lambda>_ _ _ _. Inr []),
      decode_jws = (\<lambda>_ _ _ _. Inl ExpiredSignature), ml_verifying_key = (\<lambda>_. ()),
      ml_signing_key = (\<lambda>_. ()), ml_sign = (\<lambda>_ _. ''s''), ml_well_formed = (\<lambda>_. True),
      ml_verify = (\<lambda>_ _ _. True), b64u_encode = (\<lambda>x. x), b64u_decode = Some,
      header_json = (\<lambda>_ _. ''h''), header_fields = (\<lambda>_. Some (Some ''ML-DSA-65'', None)),
      claims_json = (\<lambda>_. ''p''), parse_claims = (\<lambda>_. Some example_claims),
      parse_uuid = (\<lambda>_. Some 7), uuid_string = (\<lambda>_. ''u'')\<rparr>"

definition example_tm :: "(unit, unit) token_manager" where
  "example_tm = \<lparr>tm_config = session_config_from_secret ''secret'', tm_keys = MlDsa65 (Some ()) [()]\<rparr>"

subsection \<open>The profile\<close>

text \<open>
  C11: the shared secret is used only when no asymmetric key material at all is configured: any
  signing or verifying key, of either profile, with or without the build feature, leaves a
  manager that is asymmetric or unusable, never one that falls back to the secret; and a
  manager configured for both profiles can neither sign nor verify.
\<close>

theorem no_fallback_to_secret:
  "((\<exists>enc dec. resolve lib trim mldsa ed ml secret = SharedSecret enc dec) \<longleftrightarrow>
     signing_pem ed = None \<and> verifying_pems ed = [] \<and> signing_seed ml = None \<and> verifying ml = []) \<and>
   ((signing_pem ed \<noteq> None \<or> verifying_pems ed \<noteq> []) \<and> (signing_seed ml \<noteq> None \<or> verifying ml \<noteq> []) \<longrightarrow>
     (\<exists>msg. resolve lib trim mldsa ed ml secret = Broken msg))"
  by (auto simp: resolve_def Let_def split: sum.splits option.splits prod.splits)

theorem no_fallback_to_secret_witness:
  "\<exists>msg. resolve example_lib (\<lambda>x. x) True \<lparr>signing_pem = None, verifying_pems = [''p'']\<rparr>
     \<lparr>signing_seed = Some ''s'', verifying = []\<rparr> ''secret'' = Broken msg"
  using no_fallback_to_secret [of example_lib "\<lambda>x. x" True "\<lparr>signing_pem = None, verifying_pems = [''p'']\<rparr>"
      "\<lparr>signing_seed = Some ''s'', verifying = []\<rparr>" "''secret''"] by simp

lemma verify_mldsa65_eq_Inr:
  "verify_mldsa65 lib tm now token ver check_exp = Inr c \<longleftrightarrow>
     (\<exists>h p s hb kid pb sig. split_on CHR ''.'' token = [h, p, s] \<and>
        b64u_decode lib h = Some hb \<and> header_fields lib hb = Some (Some ''ML-DSA-65'', kid) \<and>
        (sc_kid (tm_config tm) = None \<or> kid = None \<or> kid = sc_kid (tm_config tm)) \<and>
        b64u_decode lib p = Some pb \<and> parse_claims lib pb = Some c \<and>
        tc_iss c = sc_issuer (tm_config tm) \<and>
        (sc_audience (tm_config tm) = None \<or> tc_aud c = sc_audience (tm_config tm)) \<and>
        (check_exp \<longrightarrow> now \<le> sint (tc_exp c + 60)) \<and>
        b64u_decode lib s = Some sig \<and> ml_well_formed lib sig \<and>
        (\<exists>key \<in> set ver. ml_verify lib key (h @ ''.'' @ p) sig))"
  (is "?l = ?r")
proof
  assume ?l
  then show ?r
    unfolding verify_mldsa65_def VERIFY_LEEWAY_SECS_def
    by (auto simp: not_less split: list.splits option.splits prod.splits if_splits)
      (metis option.exhaust)+
next
  assume ?r
  then show ?l
    unfolding verify_mldsa65_def VERIFY_LEEWAY_SECS_def
    by (auto split: option.splits)
qed

text \<open>
  On the ML-DSA profile a token is accepted exactly when it has three segments, its header
  names that algorithm and no other key identifier than the configured one, its issuer is the
  configured one and so is its audience if one is configured, it is not past its expiry and the
  leeway (unless that is waived), and its signature over the first two segments verifies
  under one of the configured keys. Leniency waives the expiry and nothing else.
\<close>

theorem verify_mldsa65_exact:
  "verify_mldsa65 lib tm now token ver check_exp = Inr c \<longleftrightarrow>
     (\<exists>h p s hb kid pb sig. split_on CHR ''.'' token = [h, p, s] \<and>
        b64u_decode lib h = Some hb \<and> header_fields lib hb = Some (Some ''ML-DSA-65'', kid) \<and>
        (sc_kid (tm_config tm) = None \<or> kid = None \<or> kid = sc_kid (tm_config tm)) \<and>
        b64u_decode lib p = Some pb \<and> parse_claims lib pb = Some c \<and>
        tc_iss c = sc_issuer (tm_config tm) \<and>
        (sc_audience (tm_config tm) = None \<or> tc_aud c = sc_audience (tm_config tm)) \<and>
        (check_exp \<longrightarrow> now \<le> sint (tc_exp c + 60)) \<and>
        b64u_decode lib s = Some sig \<and> ml_well_formed lib sig \<and>
        (\<exists>key \<in> set ver. ml_verify lib key (h @ ''.'' @ p) sig))"
  by (rule verify_mldsa65_eq_Inr)

theorem verify_mldsa65_exact_witness:
  "verify_mldsa65 example_lib example_tm 100 ''h.p.s'' [()] True = Inr example_claims"
proof -
  have "split_on CHR ''.'' ''h.p.s'' = [''h'', ''p'', ''s'']" by simp
  moreover have "tc_exp example_claims = 604800" "tc_iss example_claims = ''kirino''"
    by (simp_all add: example_claims_def with_session_def token_claims_new_def)
  ultimately show ?thesis
    by (simp add: verify_mldsa65_exact example_lib_def example_tm_def session_config_from_secret_def)
qed

subsection \<open>Rotation\<close>

fun run_rotations ::
  "('k, 'm) jose_lib \<Rightarrow> ('k, 'm) token_manager \<Rightarrow> (fresh_ids \<times> clock_reads \<times> string) list \<Rightarrow> revocation_store \<Rightarrow>
     token_pair session_result list" where
  "run_rotations lib tm [] st = []"
| "run_rotations lib tm ((fr, clk, token) # attempts) st =
     (let (res, st') = refresh_rotating lib tm fr clk token st
      in res # run_rotations lib tm attempts st')"

abbreviation attempt_clock :: "fresh_ids \<times> clock_reads \<times> string \<Rightarrow> clock_reads" where
  "attempt_clock a \<equiv> fst (snd a)"

abbreviation recorded_at :: "fresh_ids \<times> clock_reads \<times> string \<Rightarrow> int" where
  "recorded_at a \<equiv> at_record (attempt_clock a)"

abbreviation attempt_token :: "fresh_ids \<times> clock_reads \<times> string \<Rightarrow> string" where
  "attempt_token a \<equiv> snd (snd a)"

lemma run_rotations_Cons:
  "run_rotations lib tm (a # attempts) st =
     fst (refresh_rotating lib tm (fst a) (attempt_clock a) (attempt_token a) st) #
     run_rotations lib tm attempts
       (snd (refresh_rotating lib tm (fst a) (attempt_clock a) (attempt_token a) st))"
  by (cases a) (simp add: split_beta)

text \<open>What one attempt does to the store: nothing, or one check of some session.\<close>

lemma refresh_rotating_store:
  "snd (refresh_rotating lib tm fr clk token st) = st \<or>
   (\<exists>sid. snd (refresh_rotating lib tm fr clk token st) = snd (check_and_revoke sid (at_record clk) st))"
  by (auto simp: refresh_rotating_def split: sum.splits prod.splits option.splits bool.splits)
    (metis snd_conv)+

definition guarded :: "int \<Rightarrow> revocation_store \<Rightarrow> bool" where
  "guarded w st \<longleftrightarrow> revocation_wf st \<and> window_secs st = w \<and> 0 \<le> w"

lemma refresh_rotating_guarded:
  "guarded w st \<Longrightarrow> guarded w (snd (refresh_rotating lib tm fr clk token st))"
  using refresh_rotating_store [of lib tm fr clk token st] revocation.inv_mark [of st w]
  by (auto simp: guarded_def)

lemma refresh_rotating_blocked:
  assumes "guarded w st" "revocation_blocked st k d" "at_record clk < d"
  shows "revocation_blocked (snd (refresh_rotating lib tm fr clk token st)) k d"
  using refresh_rotating_store [of lib tm fr clk token st] revocation.blocked_stays [of st w k d "at_record clk"] assms
  by (auto simp: guarded_def)

lemma refresh_rotating_refused:
  assumes "guarded w st" "revocation_blocked st k d" "at_record clk < d"
    and "verify_refresh_claims lib tm (at_verify clk) token = Inr (u, c)" "tc_sid c = Some k"
  shows "fst (refresh_rotating lib tm fr clk token st) = Inl Revoked"
  using revocation.blocked_refuses [of st w k d "at_record clk"] assms
  by (auto simp: refresh_rotating_def guarded_def split: prod.splits bool.splits)

lemma run_rotations_refused:
  "guarded w st \<Longrightarrow> revocation_blocked st k d \<Longrightarrow> sorted (map recorded_at attempts) \<Longrightarrow>
     j < length attempts \<Longrightarrow> recorded_at (attempts ! j) < d \<Longrightarrow>
     verify_refresh_claims lib tm (at_verify (attempt_clock (attempts ! j))) (attempt_token (attempts ! j)) = Inr (u, c) \<Longrightarrow>
     tc_sid c = Some k \<Longrightarrow> run_rotations lib tm attempts st ! j = Inl Revoked"
proof (induction attempts arbitrary: st j)
  case (Cons a attempts)
  show ?case
  proof (cases j)
    case 0
    with Cons.prems show ?thesis
      by (simp add: run_rotations_Cons refresh_rotating_refused del: run_rotations.simps)
  next
    case (Suc i)
    then have i: "i < length attempts" "recorded_at (attempts ! i) < d" using Cons.prems by auto
    then have "recorded_at a < d"
      using Cons.prems(3) by (auto dest!: nth_mem bspec)
    from Cons.IH [OF refresh_rotating_guarded [OF Cons.prems(1)]
        refresh_rotating_blocked [OF Cons.prems(1,2) this]] Cons.prems(3,6,7) i Suc
    show ?thesis by (simp add: run_rotations_Cons del: run_rotations.simps)
  qed
qed simp

lemma refresh_rotating_ok:
  assumes "fst (refresh_rotating lib tm fr clk token st) = Inr pair" "guarded w st"
    and "verify_refresh_claims lib tm (at_verify clk) token = Inr (u, c)" "tc_sid c = Some k"
  shows "revocation_blocked (snd (refresh_rotating lib tm fr clk token st)) k (at_record clk + w + 1)"
proof -
  have ok: "fst (check_and_revoke k (at_record clk) st)"
    and st: "snd (refresh_rotating lib tm fr clk token st) = snd (check_and_revoke k (at_record clk) st)"
    using assms by (auto simp: refresh_rotating_def split: prod.splits bool.splits)
  from revocation.mark_blocks [OF _ ok, of w] assms(2) show ?thesis
    unfolding st guarded_def by blast
qed

text \<open>
  C4: once a session was rotated, a later attempt with a token of that session is refused as
  revoked, in any sequence of attempts whose checks of the store happen at times that do not go back,
  with whatever other sessions between, as long as that attempt's check happens no later than the
  last second in which its token verifies, and the token ends at most the store's refresh lifetime
  after the rotation. (An attempt reads the clock once to verify and again to check; what may happen
  when the token ends between the two is shown below.)
\<close>

theorem refresh_rotates_once:
  assumes "revocation_wf st" and "0 \<le> refresh_ttl_secs st"
    and "sorted (map recorded_at attempts)" and "i < j" and "j < length attempts"
    and "run_rotations lib tm attempts st ! i = Inr pair"
    and "verify_refresh_claims lib tm (at_verify (attempt_clock (attempts ! i))) (attempt_token (attempts ! i)) = Inr (u, c)"
    and "verify_refresh_claims lib tm (at_verify (attempt_clock (attempts ! j))) (attempt_token (attempts ! j)) = Inr (u', c')"
    and "tc_sid c = Some k" and "tc_sid c' = Some k"
    and "recorded_at (attempts ! j) \<le> sint (tc_exp c' + 60)"
    and "sint (tc_exp c' + 60) \<le> recorded_at (attempts ! i) + refresh_ttl_secs st + 60"
  shows "run_rotations lib tm attempts st ! j = Inl Revoked"
proof -
  define w where "w = window_secs st"
  have g: "guarded w st"
    using assms(1,2) by (simp add: guarded_def w_def window_secs_def VERIFY_LEEWAY_SECS_def)
  have late: "recorded_at (attempts ! j) < recorded_at (attempts ! i) + w + 1"
    using assms(11,12)
    by (simp add: w_def window_secs_def VERIFY_LEEWAY_SECS_def)
  show ?thesis
    using g assms(3-10) late
  proof (induction attempts arbitrary: st i j)
    case (Cons a attempts)
    let ?st = "snd (refresh_rotating lib tm (fst a) (attempt_clock a) (attempt_token a) st)"
    obtain j' where j: "j = Suc j'" "j' < length attempts" using Cons.prems(3,4) by (cases j) auto
    note g' = refresh_rotating_guarded [OF Cons.prems(1), of lib tm "fst a" "attempt_clock a" "attempt_token a"]
    show ?case
    proof (cases i)
      case 0
      have "revocation_blocked ?st k (recorded_at a + w + 1)"
        using refresh_rotating_ok [OF _ Cons.prems(1)] Cons.prems(5,6,8) 0
        by (simp add: run_rotations_Cons del: run_rotations.simps)
      from run_rotations_refused [OF g' this _ j(2)] Cons.prems(2,7,9,10) 0 j show ?thesis
        by (simp add: run_rotations_Cons del: run_rotations.simps)
    next
      case (Suc i')
      with Cons.IH [OF g'] Cons.prems j show ?thesis
        by (simp add: run_rotations_Cons del: run_rotations.simps)
    qed
  qed simp
qed

definition clock_at :: "int \<Rightarrow> clock_reads" where
  "clock_at t = \<lparr>at_verify = t, at_record = t, at_issue = t\<rparr>"

definition demo_ids :: fresh_ids where
  "demo_ids = \<lparr>fresh_sid = ''a'', fresh_access_jti = ''b'', fresh_refresh_jti = ''c''\<rparr>"

lemma demo_refresh_claims:
  assumes "now \<le> 604860"
  shows "verify_refresh_claims example_lib example_tm now ''h.p.s'' = Inr (7, example_claims)"
proof -
  have claims: "tc_exp example_claims = 604800" "tc_iss example_claims = ''kirino''"
    "tc_token_type example_claims = Refresh" "tc_sub example_claims = ''u''"
    by (simp_all add: example_claims_def with_session_def token_claims_new_def)
  then have "verify_mldsa65 example_lib example_tm now ''h.p.s'' [()] True = Inr example_claims"
    using assms by (simp add: verify_mldsa65_eq_Inr example_lib_def example_tm_def session_config_from_secret_def)
  moreover have "tm_keys example_tm = MlDsa65 (Some ()) [()]" "parse_uuid example_lib = (\<lambda>_. Some 7)"
    by (simp_all add: example_tm_def example_lib_def)
  ultimately show ?thesis using claims by (simp add: verify_refresh_claims_def verify_def verify_with_def)
qed

lemma demo_issue: "\<exists>pair. issue_pair example_lib example_tm fr now u n rs = Inr pair"
  by (simp add: issue_pair_def sign_def example_tm_def Let_def)

lemma example_claims_sid: "tc_sid example_claims = Some ''sid''" "tc_exp example_claims = 604800"
  by (simp_all add: example_claims_def with_session_def token_claims_new_def)

lemma demo_rotation:
  assumes "at_verify clk \<le> 604860" "map_of (rv_entries st) ''sid'' = None \<or>
    (\<exists>ts. map_of (rv_entries st) ''sid'' = Some ts \<and> ts + window_secs st < at_record clk)"
  shows "\<exists>pair. refresh_rotating example_lib example_tm fr clk ''h.p.s'' st =
    (Inr pair, st\<lparr>rv_entries := record_entry (rv_entries st) ''sid'' (at_record clk) (window_secs st)\<rparr>)"
  using demo_issue [of fr "at_issue clk" 7 "tc_username example_claims" "tc_roles example_claims"] assms(2)
  by (auto simp: refresh_rotating_def demo_refresh_claims [OF assms(1)] example_claims_sid check_and_revoke_def Let_def
    split: option.splits)

theorem refresh_rotates_once_witness:
  "run_rotations example_lib example_tm [(demo_ids, clock_at 100, ''h.p.s''), (demo_ids, clock_at 200, ''h.p.s'')]
     (revocation_store_new 604800) ! 1 = Inl Revoked"
proof -
  let ?as = "[(demo_ids, clock_at 100, ''h.p.s''), (demo_ids, clock_at 200, ''h.p.s'')]"
  let ?st = "revocation_store_new 604800"
  have "\<exists>pair. run_rotations example_lib example_tm ?as ?st ! 0 = Inr pair"
    using demo_rotation [of "clock_at 100" ?st demo_ids]
    by (auto simp: run_rotations_Cons clock_at_def revocation_store_new_def simp del: run_rotations.simps)
  then obtain pair where pair: "run_rotations example_lib example_tm ?as ?st ! 0 = Inr pair" by blast
  show ?thesis
    by (rule refresh_rotates_once [of ?st ?as 0 1 example_lib example_tm pair 7 example_claims 7 example_claims "''sid''"])
      (use pair demo_refresh_claims in \<open>simp_all add: clock_at_def revocation_wf_def revocation_store_new_def example_claims_sid\<close>)
qed

text \<open>
  A token that ends between the verification and the check of one attempt can be rotated twice: verified
  in its last second, checked in the next, when the store has stopped to refuse its session.
\<close>

lemma rotates_twice_at_the_end:
  "\<exists>pair pair'. run_rotations example_lib example_tm
     [(demo_ids, clock_at 0, ''h.p.s''),
      (demo_ids, \<lparr>at_verify = 604860, at_record = 604861, at_issue = 604861\<rparr>, ''h.p.s'')]
     (revocation_store_new 604800) = [Inr pair, Inr pair']"
proof -
  let ?st = "revocation_store_new 604800"
  let ?st' = "?st\<lparr>rv_entries := record_entry (rv_entries ?st) ''sid'' 0 (window_secs ?st)\<rparr>"
  let ?clk = "\<lparr>at_verify = 604860, at_record = 604861, at_issue = 604861\<rparr>"
  obtain pair where 1: "refresh_rotating example_lib example_tm demo_ids (clock_at 0) ''h.p.s'' ?st = (Inr pair, ?st')"
    using demo_rotation [of "clock_at 0" ?st demo_ids] by (auto simp: clock_at_def revocation_store_new_def)
  obtain pair' st'' where 2: "refresh_rotating example_lib example_tm demo_ids ?clk ''h.p.s'' ?st' = (Inr pair', st'')"
  proof -
    have "map_of (rv_entries ?st') ''sid'' = Some 0" "window_secs ?st' = 604860"
      by (simp_all add: revocation_store_new_def record_entry_def window_secs_def VERIFY_LEEWAY_SECS_def REVOCATION_MAX_ENTRIES_def)
    then have "\<exists>pair. refresh_rotating example_lib example_tm demo_ids ?clk ''h.p.s'' ?st' =
        (Inr pair, ?st'\<lparr>rv_entries := record_entry (rv_entries ?st') ''sid'' (at_record ?clk) (window_secs ?st')\<rparr>)"
      by (intro demo_rotation) simp_all
    then show ?thesis using that by blast
  qed
  show ?thesis using 1 2 by simp
qed

end
