(* ===== verification/Token_Export.thy ===== *)
theory Token_Export
  imports Token_Manager
begin

text \<open>
  The rest of \<^verbatim>\<open>packages/session/src/manager.rs\<close>: the published key set and the reading of a token
  without verification. Two more operations of the libraries are needed, the encoding of a
  public key and the decoding without a check. A JSON object is the list of its members.
\<close>

record ('k, 'm) export_lib =
  ex_jose :: "('k, 'm) jose_lib"
  ml_encode :: "'m \<Rightarrow> string"
  insecure_decode :: "string \<Rightarrow> jwt_error + token_claims"

definition ML_DSA_65_ALG :: string where "ML_DSA_65_ALG = ''ML-DSA-65''"

type_synonym jwk = "(string \<times> string) list"

definition kid_member :: "string option \<Rightarrow> jwk" where
  "kid_member kid = (case kid of Some k \<Rightarrow> [(''kid'', k)] | None \<Rightarrow> [])"

definition ed25519_jwk :: "('k, 'm) export_lib \<Rightarrow> string option \<Rightarrow> string \<Rightarrow> jwk" where
  "ed25519_jwk lib kid raw =
     [(''kty'', ''OKP''), (''crv'', ''Ed25519''), (''x'', b64u_encode (ex_jose lib) raw), (''alg'', ''EdDSA''), (''use'', ''sig'')] @
     kid_member kid"

definition ml_dsa65_jwk :: "('k, 'm) export_lib \<Rightarrow> string option \<Rightarrow> 'm \<Rightarrow> jwk" where
  "ml_dsa65_jwk lib kid key =
     [(''kty'', ''AKP''), (''alg'', ML_DSA_65_ALG), (''pub'', b64u_encode (ex_jose lib) (ml_encode lib key)), (''use'', ''sig'')] @
     kid_member kid"

definition jwks :: "('k, 'm) export_lib \<Rightarrow> ('k, 'm) token_manager \<Rightarrow> jwk list" where
  "jwks lib tm =
     (case tm_keys tm of
        SharedSecret _ _ \<Rightarrow> []
      | Broken _ \<Rightarrow> []
      | Ed25519 _ _ verifying_raw \<Rightarrow> map (ed25519_jwk lib (sc_kid (tm_config tm))) verifying_raw
      | MlDsa65 _ ver \<Rightarrow> map (ml_dsa65_jwk lib (sc_kid (tm_config tm))) ver)"

text \<open>The claims of a token with the header of ML-DSA-65; \<open>None\<close> leaves it to the library.\<close>

definition mldsa65_claims_unverified :: "('k, 'm) export_lib \<Rightarrow> string \<Rightarrow> token_claims option" where
  "mldsa65_claims_unverified lib token =
     (case split_on CHR ''.'' token of
        [] \<Rightarrow> None
      | h # rest \<Rightarrow>
          (case b64u_decode (ex_jose lib) h of
             None \<Rightarrow> None
           | Some hb \<Rightarrow>
               (case header_fields (ex_jose lib) hb of
                  None \<Rightarrow> None
                | Some (alg, _) \<Rightarrow>
                    if alg \<noteq> Some ML_DSA_65_ALG then None
                    else (case rest of
                            [] \<Rightarrow> None
                          | p # _ \<Rightarrow> (case b64u_decode (ex_jose lib) p of None \<Rightarrow> None | Some pb \<Rightarrow> parse_claims (ex_jose lib) pb)))))"

definition decode_unverified :: "('k, 'm) export_lib \<Rightarrow> bool \<Rightarrow> string \<Rightarrow> token_claims session_result" where
  "decode_unverified lib mldsa token =
     (case (if mldsa then mldsa65_claims_unverified lib token else None) of
        Some claims \<Rightarrow> Inr claims
      | None \<Rightarrow> map_jwt (insecure_decode lib token))"

subsection \<open>What is published\<close>

lemma resolve_verifying_exact:
  "resolve_verifying lib trim pems decoding raw = Inr (d, r) \<longleftrightarrow>
    (\<exists>ks rs. d = decoding @ ks \<and> r = raw @ rs \<and>
      list_all2 (\<lambda>pem k. decoding_from_ed_pem lib pem = Inr k) pems ks \<and>
      list_all2 (\<lambda>pem x. ed25519_spki_raw32 lib trim pem = Some x) pems rs)"
proof (induction pems arbitrary: decoding raw)
  case (Cons pem pems)
  show ?case
  proof (cases "\<exists>k x. decoding_from_ed_pem lib pem = Inr k \<and> ed25519_spki_raw32 lib trim pem = Some x")
    case True
    then show ?thesis using Cons by (fastforce simp: list_all2_Cons1)
  next
    case False
    then show ?thesis by (auto simp: list_all2_Cons1 split: sum.splits option.splits)
  qed
qed auto

text \<open>
  C38: the published key set holds the verifying keys that are configured, each once, in the order in which they
  are tried, and nothing else: it is empty for a shared secret or a broken configuration, and
  otherwise a function of the public keys and the key identifier, so that neither the secret
  nor a signing key can be in it; and it has an entry for every key that verification uses.
\<close>

theorem jwks_is_the_verifying_keys:
  "let tm = token_manager_new (ex_jose lib) trim mldsa config; published = jwks lib tm; kid = sc_kid config;
       pems = verifying_pems (sc_ed25519 config); keys = verifying (sc_mldsa65 config)
   in case tm_keys tm of
        SharedSecret _ _ \<Rightarrow> published = []
      | Broken _ \<Rightarrow> published = []
      | Ed25519 _ decoding _ \<Rightarrow>
          published = map (\<lambda>pem. ed25519_jwk lib kid (the (ed25519_spki_raw32 (ex_jose lib) trim pem))) pems \<and>
          map Inr decoding = map (decoding_from_ed_pem (ex_jose lib)) pems
      | MlDsa65 _ ver \<Rightarrow>
          published = map (\<lambda>k. ml_dsa65_jwk lib kid (ml_verifying_key (ex_jose lib) k)) keys \<and>
          ver = map (ml_verifying_key (ex_jose lib)) keys"
proof -
  let ?pems = "verifying_pems (sc_ed25519 config)"
  let ?keys = "resolve (ex_jose lib) trim mldsa (sc_ed25519 config) (sc_mldsa65 config) (sc_secret config)"
  have ed: "map Inr d = map (decoding_from_ed_pem (ex_jose lib)) ?pems \<and>
      r = map (\<lambda>pem. the (ed25519_spki_raw32 (ex_jose lib) trim pem)) ?pems" if "?keys = Ed25519 enc d r" for enc d r
  proof -
    from that have "resolve_verifying (ex_jose lib) trim ?pems [] [] = Inr (d, r)"
      by (auto simp: resolve_def Let_def split: if_splits sum.splits option.splits prod.splits)
    then have "list_all2 (\<lambda>pem k. decoding_from_ed_pem (ex_jose lib) pem = Inr k) ?pems d"
      "list_all2 (\<lambda>pem x. ed25519_spki_raw32 (ex_jose lib) trim pem = Some x) ?pems r"
      by (auto simp: resolve_verifying_exact)
    then show ?thesis
      by (auto simp: list_all2_conv_all_nth intro!: nth_equalityI)
  qed
  have ml: "v = map (ml_verifying_key (ex_jose lib)) (verifying (sc_mldsa65 config))" if "?keys = MlDsa65 s v" for s v
    using that by (auto simp: resolve_def Let_def split: if_splits sum.splits option.splits prod.splits)
  show ?thesis
    using ed ml by (auto simp: token_manager_new_def jwks_def Let_def comp_def split: key_set.split)
qed

text \<open>
  Reading a token without verification never shows other claims than verification: what the
  ML-DSA-65 profile accepts, in either mode and at any time, carries the claims that
  the unverified reading returns.
\<close>

theorem unverified_reading_agrees:
  assumes "verify_mldsa65 (ex_jose lib) tm now token ver check_exp = Inr claims"
  shows "decode_unverified lib True token = Inr claims"
  using assms
  by (auto simp: verify_mldsa65_def decode_unverified_def mldsa65_claims_unverified_def ML_DSA_65_ALG_def
    split: list.splits option.splits prod.splits if_splits)

definition example_export :: "(unit, unit) export_lib" where
  "example_export = \<lparr>ex_jose = example_lib, ml_encode = \<lambda>_. ''key'', insecure_decode = \<lambda>_. Inl ExpiredSignature\<rparr>"

theorem unverified_reading_agrees_witness:
  "decode_unverified example_export True ''h.p.s'' = Inr example_claims"
proof -
  have "tc_exp example_claims = 604800" "tc_iss example_claims = ''kirino''"
    by (simp_all add: example_claims_def with_session_def token_claims_new_def)
  then have "verify_mldsa65 example_lib example_tm 100 ''h.p.s'' [()] True = Inr example_claims"
    by (simp add: verify_mldsa65_eq_Inr example_lib_def example_tm_def session_config_from_secret_def)
  then show ?thesis
    using unverified_reading_agrees [of example_export example_tm 100] by (simp add: example_export_def)
qed

text \<open>Where verification refuses, the reading still answers: here the token has expired.\<close>

lemma unverified_reading_ignores_expiry:
  "decode_unverified example_export True ''h.p.s'' = Inr example_claims \<and>
    \<not> is_ok (verify_mldsa65 example_lib example_tm 700000 ''h.p.s'' [()] True)"
proof -
  have exp: "tc_exp example_claims = 604800" "tc_iss example_claims = ''kirino''"
    by (simp_all add: example_claims_def with_session_def token_claims_new_def)
  have "\<not> is_ok (verify_mldsa65 example_lib example_tm 700000 ''h.p.s'' [()] True)"
    using exp by (auto simp: is_ok_iff verify_mldsa65_eq_Inr example_lib_def example_tm_def session_config_from_secret_def
      VERIFY_LEEWAY_SECS_def)
  then show ?thesis
    by (simp add: decode_unverified_def mldsa65_claims_unverified_def example_export_def example_lib_def ML_DSA_65_ALG_def)
qed

end
