(* ===== verification/Web_Tokens.thy ===== *)
theory Web_Tokens
  imports Token_Manager
begin

text \<open>
  How a request is authenticated: \<^verbatim>\<open>packages/session/src/middleware\<close>, the header parser of
  \<^verbatim>\<open>mod.rs\<close>, the two extractors of \<^verbatim>\<open>axum.rs\<close> and the middleware with its extractor of \<^verbatim>\<open>actix.rs\<close>. Of
  a request only what these read is modelled: its headers in order, with names in lower case
  as both web frameworks keep them, its query, and the values that are attached to it. A header
  value is read as text only if it is visible ASCII.
\<close>

subsection \<open>Texts\<close>

definition is_ascii_space :: "char \<Rightarrow> bool" where
  "is_ascii_space c \<longleftrightarrow> c \<in> {CHR 0x09, CHR 0x0A, CHR 0x0B, CHR 0x0C, CHR 0x0D, CHR '' ''}"

definition trim_start :: "string \<Rightarrow> string" where
  "trim_start s = dropWhile is_ascii_space s"

definition trim_both :: "string \<Rightarrow> string" where
  "trim_both s = rev (dropWhile is_ascii_space (rev (dropWhile is_ascii_space s)))"

fun split_once :: "char \<Rightarrow> string \<Rightarrow> (string \<times> string) option" where
  "split_once sep [] = None"
| "split_once sep (c # cs) =
     (if c = sep then Some ([], cs) else map_option (\<lambda>(a, b). (c # a, b)) (split_once sep cs))"

definition lower_ascii :: "char \<Rightarrow> char" where
  "lower_ascii c =
     (let n = of_char c :: nat in if 65 \<le> n \<and> n \<le> 90 then char_of (n + 32) else c)"

definition eq_ignore_ascii_case :: "string \<Rightarrow> string \<Rightarrow> bool" where
  "eq_ignore_ascii_case a b \<longleftrightarrow> map lower_ascii a = map lower_ascii b"

fun find_map :: "('a \<Rightarrow> 'b option) \<Rightarrow> 'a list \<Rightarrow> 'b option" where
  "find_map f [] = None"
| "find_map f (x # xs) = (case f x of Some y \<Rightarrow> Some y | None \<Rightarrow> find_map f xs)"

definition bearer_token :: "string \<Rightarrow> string option" where
  "bearer_token header_value =
     (case split_once CHR '' '' header_value of
        None \<Rightarrow> None
      | Some (scheme, rest) \<Rightarrow>
          let token = trim_start rest
          in if eq_ignore_ascii_case scheme ''bearer'' \<and> token \<noteq> [] then Some token else None)"

subsection \<open>Requests\<close>

datatype auth_source =
    BearerSource
  | CookieSource string
  | QuerySource string

record ('k, 'm) web_request =
  rq_headers :: "(string \<times> string) list"
  rq_query :: "string option"
  rq_manager :: "('k, 'm) token_manager option"
  rq_config :: "auth_source list option"
  rq_claims :: "token_claims option"

datatype auth_rejection =
    MissingHeader
  | InvalidFormat
  | InvalidRejection
  | ExpiredRejection
  | MissingManager

definition into_response :: "auth_rejection \<Rightarrow> nat \<times> string" where
  "into_response r =
     (case r of
        MissingHeader \<Rightarrow> (401, ''missing credentials'')
      | InvalidFormat \<Rightarrow> (401, ''invalid credential format'')
      | InvalidRejection \<Rightarrow> (401, ''invalid token'')
      | ExpiredRejection \<Rightarrow> (401, ''token expired'')
      | MissingManager \<Rightarrow> (500, ''auth not configured''))"

text \<open>The first value of a header, read as text.\<close>

definition to_str :: "string \<Rightarrow> string option" where
  "to_str v = (if \<forall>c \<in> set v. (let n = of_char c :: nat in 32 \<le> n \<and> n < 127 \<or> n = 9) then Some v else None)"

definition header_text :: "('k, 'm) web_request \<Rightarrow> string \<Rightarrow> string option" where
  "header_text rq name = Option.bind (map_of (rq_headers rq) name) to_str"

definition extract_token :: "('k, 'm) web_request \<Rightarrow> auth_source \<Rightarrow> string option" where
  "extract_token rq source =
     (case source of
        BearerSource \<Rightarrow> Option.bind (header_text rq ''authorization'') bearer_token
      | CookieSource name \<Rightarrow>
          Option.bind (header_text rq ''cookie'') (\<lambda>raw.
            find_map (\<lambda>pair. strip_prefix (name @ ''='') (trim_both pair)) (split_on CHR '';'' raw))
      | QuerySource name \<Rightarrow>
          Option.bind (rq_query rq) (\<lambda>query.
            map_option snd (List.find (\<lambda>(k, _). k = name) (List.map_filter (split_once CHR ''='') (split_on CHR ''&'' query)))))"

definition reject :: "session_error \<Rightarrow> auth_rejection" where
  "reject e = (if e = ExpiredToken then ExpiredRejection else InvalidRejection)"

definition jwt_claims_from_request ::
  "('k, 'm) jose_lib \<Rightarrow> int \<Rightarrow> ('k, 'm) web_request \<Rightarrow> auth_rejection + token_claims" where
  "jwt_claims_from_request lib now rq =
     (case rq_manager rq of
        None \<Rightarrow> Inl MissingManager
      | Some manager \<Rightarrow>
          (case Option.bind (header_text rq ''authorization'') bearer_token of
             None \<Rightarrow> Inl MissingHeader
           | Some token \<Rightarrow> map_sum reject id (verify lib manager now token)))"

definition multi_jwt_from_request ::
  "('k, 'm) jose_lib \<Rightarrow> int \<Rightarrow> ('k, 'm) web_request \<Rightarrow> auth_rejection + token_claims" where
  "multi_jwt_from_request lib now rq =
     (case rq_manager rq of
        None \<Rightarrow> Inl MissingManager
      | Some manager \<Rightarrow>
          (case rq_config rq of
             None \<Rightarrow> Inl MissingManager
           | Some sources \<Rightarrow>
               (case find_map (extract_token rq) sources of
                  None \<Rightarrow> Inl MissingHeader
                | Some token \<Rightarrow> map_sum reject id (verify lib manager now token))))"

text \<open>The middleware answers itself or hands the request on, with the claims attached.\<close>

definition actix_call ::
  "('k, 'm) jose_lib \<Rightarrow> int \<Rightarrow> ('k, 'm) web_request \<Rightarrow> string + ('k, 'm) web_request" where
  "actix_call lib now rq =
     (case rq_manager rq of
        None \<Rightarrow> Inr rq
      | Some manager \<Rightarrow>
          (case Option.bind (header_text rq ''authorization'') bearer_token of
             None \<Rightarrow> Inr rq
           | Some auth \<Rightarrow>
               (case verify lib manager now auth of
                  Inr claims \<Rightarrow> Inr (rq\<lparr>rq_claims := Some claims\<rparr>)
                | Inl e \<Rightarrow> Inl (if e = ExpiredToken then ''token expired'' else ''invalid token''))))"

definition claims_from_request :: "('k, 'm) web_request \<Rightarrow> string + token_claims" where
  "claims_from_request rq =
     (case rq_claims rq of Some claims \<Rightarrow> Inr claims | None \<Rightarrow> Inl ''authentication required'')"

subsection \<open>The header\<close>

lemma split_once_eq_Some: "split_once sep s = Some (a, b) \<longleftrightarrow> s = a @ sep # b \<and> sep \<notin> set a"
proof (induction s arbitrary: a)
  case (Cons c s)
  show ?case using Cons by (cases a) auto
qed simp

lemma split_once_eq_None: "split_once sep s = None \<longleftrightarrow> sep \<notin> set s"
  by (induction s) auto

lemma find_map_source: "find_map f xs = Some y \<Longrightarrow> \<exists>x \<in> set xs. f x = Some y"
  by (induction xs) (auto split: option.splits)

lemma find_map_eq_None: "find_map f xs = None \<longleftrightarrow> (\<forall>x \<in> set xs. f x = None)"
  by (induction xs) (auto split: option.splits)

lemma trim_start_append:
  "trim_start s = t \<longleftrightarrow> (\<exists>pad. s = pad @ t \<and> (\<forall>c \<in> set pad. is_ascii_space c)) \<and> (t = [] \<or> \<not> is_ascii_space (hd t))"
proof
  assume "trim_start s = t"
  then have "s = takeWhile is_ascii_space s @ t" "t = [] \<or> \<not> is_ascii_space (hd t)"
    by (auto simp: trim_start_def hd_dropWhile)
  then show "(\<exists>pad. s = pad @ t \<and> (\<forall>c \<in> set pad. is_ascii_space c)) \<and> (t = [] \<or> \<not> is_ascii_space (hd t))"
    using set_takeWhileD by metis
next
  assume "(\<exists>pad. s = pad @ t \<and> (\<forall>c \<in> set pad. is_ascii_space c)) \<and> (t = [] \<or> \<not> is_ascii_space (hd t))"
  then show "trim_start s = t"
    by (cases t) (auto simp: trim_start_def dropWhile_append)
qed

lemma bearer_scheme: "eq_ignore_ascii_case scheme ''bearer'' \<longleftrightarrow> map lower_ascii scheme = ''bearer''"
proof -
  have "map lower_ascii ''bearer'' = ''bearer''" by (simp add: lower_ascii_def)
  then show ?thesis by (simp only: eq_ignore_ascii_case_def)
qed

lemma bearer_no_space: "map lower_ascii scheme = ''bearer'' \<Longrightarrow> CHR '' '' \<notin> set scheme"
proof
  assume "map lower_ascii scheme = ''bearer''" "CHR '' '' \<in> set scheme"
  then have "lower_ascii CHR '' '' \<in> set ''bearer''" by (metis image_eqI set_map)
  then show False by (simp add: lower_ascii_def)
qed

lemma scheme_and_token:
  assumes "\<And>scheme. B scheme \<Longrightarrow> CHR '' '' \<notin> set scheme"
  shows "(case split_once CHR '' '' v of None \<Rightarrow> None
      | Some (scheme, rest) \<Rightarrow> let t = trim_start rest in if B scheme \<and> t \<noteq> [] then Some t else None) = Some token \<longleftrightarrow>
    (\<exists>scheme pad. v = scheme @ '' '' @ pad @ token \<and> B scheme \<and>
      (\<forall>c \<in> set pad. is_ascii_space c) \<and> token \<noteq> [] \<and> \<not> is_ascii_space (hd token))"
    (is "?L \<longleftrightarrow> ?R")
proof
  assume ?L
  then obtain scheme rest where s: "split_once CHR '' '' v = Some (scheme, rest)" "B scheme"
    "trim_start rest = token" "token \<noteq> []"
    by (auto simp: Let_def split: option.splits if_splits)
  then show ?R by (auto simp: split_once_eq_Some trim_start_append)
next
  assume ?R
  then obtain scheme pad where v: "v = scheme @ '' '' @ pad @ token" "B scheme"
    and t: "\<forall>c \<in> set pad. is_ascii_space c" "token \<noteq> []" "\<not> is_ascii_space (hd token)" by blast
  then have "split_once CHR '' '' v = Some (scheme, pad @ token)"
    using assms by (simp add: split_once_eq_Some)
  moreover have "trim_start (pad @ token) = token"
    using t by (auto simp: trim_start_append)
  ultimately show ?L using v(2) t(2) by simp
qed

text \<open>
  A header value is read as a bearer token exactly when it is the word bearer in any mixture of
  cases, one space, possibly more white space, and the token, which is not empty and does not
  begin with white space; the token is then passed on as it is, so that what a client sends
  after the scheme arrives unchanged.
\<close>

theorem bearer_token_exact:
  "bearer_token v = Some token \<longleftrightarrow>
    (\<exists>scheme pad. v = scheme @ '' '' @ pad @ token \<and> map lower_ascii scheme = ''bearer'' \<and>
      list_all is_ascii_space pad \<and> token \<noteq> [] \<and> \<not> is_ascii_space (hd token))"
  unfolding bearer_token_def bearer_scheme list_all_iff by (rule scheme_and_token [OF bearer_no_space])

subsection \<open>What a handler sees\<close>

text \<open>A token that a request presents at a source: the text that stands there.\<close>

definition presents :: "('k, 'm) web_request \<Rightarrow> auth_source \<Rightarrow> string \<Rightarrow> bool" where
  "presents rq source token \<longleftrightarrow>
     (case source of
        BearerSource \<Rightarrow> \<exists>v. header_text rq ''authorization'' = Some v \<and> bearer_token v = Some token
      | CookieSource name \<Rightarrow> \<exists>v pair. header_text rq ''cookie'' = Some v \<and> pair \<in> set (split_on CHR '';'' v) \<and>
          trim_both pair = name @ ''='' @ token
      | QuerySource name \<Rightarrow> \<exists>query. rq_query rq = Some query \<and> CHR ''='' \<notin> set name \<and>
          name @ ''='' @ token \<in> set (split_on CHR ''&'' query))"

lemma bind_eq_Some: "Option.bind x f = Some y \<longleftrightarrow> (\<exists>z. x = Some z \<and> f z = Some y)"
  by (cases x) auto

lemma find_member: "List.find P xs = Some x \<Longrightarrow> x \<in> set xs \<and> P x"
  by (induction xs) (auto split: if_splits)

lemma extract_presents: "extract_token rq source = Some token \<Longrightarrow> presents rq source token"
proof (cases source)
  case (CookieSource name)
  assume "extract_token rq source = Some token"
  then obtain v where v: "header_text rq ''cookie'' = Some v"
    "find_map (\<lambda>pair. strip_prefix (name @ ''='') (trim_both pair)) (split_on CHR '';'' v) = Some token"
    by (auto simp: extract_token_def CookieSource bind_eq_Some)
  from find_map_source [OF v(2)] v(1) show ?thesis
    by (auto simp: presents_def CookieSource strip_prefix_eq_Some)
next
  case (QuerySource name)
  assume "extract_token rq source = Some token"
  then obtain query where q: "rq_query rq = Some query"
    "List.find (\<lambda>(k, _). k = name) (List.map_filter (split_once CHR ''='') (split_on CHR ''&'' query)) = Some (name, token)"
    by (auto simp: extract_token_def QuerySource bind_eq_Some dest: find_member)
  then have "(name, token) \<in> set (List.map_filter (split_once CHR ''='') (split_on CHR ''&'' query))"
    by (auto dest: find_member)
  then obtain pair where "pair \<in> set (split_on CHR ''&'' query)" "split_once CHR ''='' pair = Some (name, token)"
    by (auto simp: List.map_filter_def)
  with q(1) show ?thesis by (auto simp: presents_def QuerySource split_once_eq_Some)
qed (auto simp: extract_token_def presents_def bind_eq_Some)

lemma presents_bearer: "presents rq BearerSource token \<longleftrightarrow> extract_token rq BearerSource = Some token"
  by (simp add: presents_def extract_token_def bind_eq_Some)

text \<open>
  C39: no handler sees claims that nobody vouches for. Claims that the bearer extractor or the extractor with
  several sources hands to a handler are those of a token that the request presents at an
  enabled source and that the installed manager verifies at that time; a request without a manager,
  without a source that has a token, or with a token that does not verify never reaches the
  handler. Claims that the actix extractor hands to a handler behind the middleware are those of such
  a bearer token too, unless they were attached to the request before the middleware saw it and
  it has no manager installed or finds no bearer token; a token that is presented to a
  manager always replaces what was attached, or ends the request.
\<close>

theorem handler_sees_verified_claims:
  "(jwt_claims_from_request lib now rq = Inr claims \<longrightarrow>
      (\<exists>tm token. rq_manager rq = Some tm \<and> presents rq BearerSource token \<and> verify lib tm now token = Inr claims)) \<and>
   (multi_jwt_from_request lib now rq = Inr claims \<longrightarrow>
      (\<exists>tm sources source token. rq_manager rq = Some tm \<and> rq_config rq = Some sources \<and> source \<in> set sources \<and>
        presents rq source token \<and> verify lib tm now token = Inr claims)) \<and>
   (actix_call lib now rq = Inr rq' \<and> claims_from_request rq' = Inr claims \<longrightarrow>
      (\<exists>tm token. rq_manager rq = Some tm \<and> presents rq BearerSource token \<and> verify lib tm now token = Inr claims) \<or>
      rq_claims rq = Some claims \<and> (rq_manager rq = None \<or> (\<forall>token. \<not> presents rq BearerSource token)))"
proof (intro conjI impI)
  assume "jwt_claims_from_request lib now rq = Inr claims"
  then obtain tm token where "rq_manager rq = Some tm" "extract_token rq BearerSource = Some token"
    "verify lib tm now token = Inr claims"
    by (auto simp: jwt_claims_from_request_def extract_token_def map_sum_def split: option.splits sum.splits)
  with extract_presents show "\<exists>tm token. rq_manager rq = Some tm \<and> presents rq BearerSource token \<and>
    verify lib tm now token = Inr claims" by blast
next
  assume "multi_jwt_from_request lib now rq = Inr claims"
  then obtain tm sources token where m: "rq_manager rq = Some tm" "rq_config rq = Some sources"
    "find_map (extract_token rq) sources = Some token" "verify lib tm now token = Inr claims"
    by (auto simp: multi_jwt_from_request_def map_sum_def split: option.splits sum.splits)
  with find_map_source [OF m(3)] extract_presents show "\<exists>tm sources source token. rq_manager rq = Some tm \<and>
    rq_config rq = Some sources \<and> source \<in> set sources \<and> presents rq source token \<and> verify lib tm now token = Inr claims"
    by blast
next
  assume call: "actix_call lib now rq = Inr rq' \<and> claims_from_request rq' = Inr claims"
  then have claims: "rq_claims rq' = Some claims" by (auto simp: claims_from_request_def split: option.splits)
  show "(\<exists>tm token. rq_manager rq = Some tm \<and> presents rq BearerSource token \<and> verify lib tm now token = Inr claims) \<or>
      rq_claims rq = Some claims \<and> (rq_manager rq = None \<or> (\<forall>token. \<not> presents rq BearerSource token))"
  proof (cases "rq_manager rq = None \<or> extract_token rq BearerSource = None")
    case True
    then have "rq' = rq" using call by (auto simp: actix_call_def extract_token_def split: option.splits)
    with True claims presents_bearer show ?thesis by fastforce
  next
    case False
    then obtain tm token where t: "rq_manager rq = Some tm" "extract_token rq BearerSource = Some token" by auto
    with call claims have "verify lib tm now token = Inr claims"
      by (auto simp: actix_call_def extract_token_def split: sum.splits)
    with t extract_presents show ?thesis by blast
  qed
qed

text \<open>
  C40: the front ends agree on a request that has no claims attached yet. Behind the same manager the
  middleware with its extractor, the bearer extractor and the extractor whose only source is
  the bearer header hand out the same claims; the middleware itself answers exactly the
  requests whose token the extractor refuses, telling an expired one from an invalid one as it does; and
  the requests in which the extractor misses the manager or the header are those that
  the middleware passes on as they are, for the handler's own extractor to refuse.
\<close>

theorem front_ends_agree:
  assumes "rq_claims rq = None"
  shows "((\<exists>rq'. actix_call lib now rq = Inr rq' \<and> claims_from_request rq' = Inr claims) \<longleftrightarrow>
      jwt_claims_from_request lib now rq = Inr claims) \<and>
    multi_jwt_from_request lib now (rq\<lparr>rq_config := Some [BearerSource]\<rparr>) = jwt_claims_from_request lib now rq \<and>
    (actix_call lib now rq = Inl ''token expired'' \<longleftrightarrow> jwt_claims_from_request lib now rq = Inl ExpiredRejection) \<and>
    (actix_call lib now rq = Inl ''invalid token'' \<longleftrightarrow> jwt_claims_from_request lib now rq = Inl InvalidRejection) \<and>
    (actix_call lib now rq = Inr rq \<longleftrightarrow>
      jwt_claims_from_request lib now rq \<in> {Inl MissingManager, Inl MissingHeader})"
proof (cases "rq_manager rq")
  case None
  with assms show ?thesis
    by (simp add: actix_call_def claims_from_request_def jwt_claims_from_request_def multi_jwt_from_request_def)
next
  case (Some tm)
  have attached: "rq\<lparr>rq_claims := Some c\<rparr> \<noteq> rq" for c
  proof
    assume "rq\<lparr>rq_claims := Some c\<rparr> = rq"
    then have "rq_claims (rq\<lparr>rq_claims := Some c\<rparr>) = rq_claims rq" by simp
    with assms show False by simp
  qed
  note defs = actix_call_def claims_from_request_def jwt_claims_from_request_def multi_jwt_from_request_def
    extract_token_def header_text_def Some
  show ?thesis
  proof (cases "Option.bind (header_text rq ''authorization'') bearer_token")
    case None
    with assms show ?thesis by (simp add: defs)
  next
    case (Some token)
    with assms attached show ?thesis
      by (cases "verify lib tm now token") (auto simp: defs reject_def)
  qed
qed

text \<open>
  An empty value counts as a token where it stands in a cookie or the query: a blank cookie
  hides the valid bearer token of the same request.
\<close>

lemma empty_cookie_hides_bearer:
  "extract_token rq (CookieSource ''t'') = Some [] \<and>
    find_map (extract_token rq) [CookieSource ''t'', BearerSource] = Some []"
  if "rq_headers rq = [(''authorization'', ''Bearer abc''), (''cookie'', ''t='')]"
  using that by (simp add: extract_token_def header_text_def to_str_def trim_both_def is_ascii_space_def strip_prefix_def)

definition demo_request :: "(unit, unit) web_request" where
  "demo_request = \<lparr>rq_headers = [(''authorization'', ''Bearer h.p.s'')], rq_query = None, rq_manager = Some example_tm,
     rq_config = None, rq_claims = None\<rparr>"

lemma demo_request_claims: "jwt_claims_from_request example_lib 100 demo_request = Inr example_claims"
proof -
  have "tc_exp example_claims = 604800" "tc_iss example_claims = ''kirino''"
    by (simp_all add: example_claims_def with_session_def token_claims_new_def)
  then have "verify example_lib example_tm 100 ''h.p.s'' = Inr example_claims"
    by (simp add: verify_def verify_with_def verify_mldsa65_eq_Inr example_lib_def example_tm_def
      session_config_from_secret_def)
  moreover have "bearer_token ''Bearer h.p.s'' = Some ''h.p.s''"
    by code_simp
  ultimately show ?thesis
    by (simp add: jwt_claims_from_request_def header_text_def to_str_def demo_request_def example_tm_def)
qed

theorem handler_sees_verified_claims_witness:
  "\<exists>tm token. rq_manager demo_request = Some tm \<and> presents demo_request BearerSource token \<and>
    verify example_lib tm 100 token = Inr example_claims"
  using handler_sees_verified_claims demo_request_claims by blast

theorem front_ends_agree_witness:
  "\<exists>rq'. actix_call example_lib 100 demo_request = Inr rq' \<and> claims_from_request rq' = Inr example_claims"
proof -
  have "rq_claims demo_request = None" by (simp add: demo_request_def)
  from front_ends_agree [OF this, of example_lib 100 example_claims] demo_request_claims show ?thesis by blast
qed

text \<open>
  Claims that are attached already outlive the middleware where it has nothing to verify.
\<close>

lemma attached_claims_pass:
  "actix_call lib now (rq\<lparr>rq_claims := Some claims, rq_headers := []\<rparr>) =
    Inr (rq\<lparr>rq_claims := Some claims, rq_headers := []\<rparr>) \<and>
   claims_from_request (rq\<lparr>rq_claims := Some claims, rq_headers := []\<rparr>) = Inr claims"
  by (simp add: actix_call_def claims_from_request_def header_text_def split: option.split)

text \<open>No front end looks at the type of a token: a refresh token opens the door as an access token does.\<close>

lemma refresh_token_authenticates:
  "jwt_claims_from_request example_lib 100 demo_request = Inr example_claims \<and> tc_token_type example_claims = Refresh"
  using demo_request_claims by (simp add: example_claims_def with_session_def token_claims_new_def)

text \<open>
  The last key that is tried decides what an expired token is called: an expired token of the first of two keys is
  reported as invalid, as the second key does not match its signature.
\<close>

lemma later_key_hides_expiry:
  assumes "dec old = Inl ExpiredSignature" "dec new = Inl (OtherJwtError ''InvalidSignature'')"
  shows "try_keys dec [old, new] None = Inl (Jwt (OtherJwtError ''InvalidSignature''))"
    and "try_keys dec [new, old] None = Inl ExpiredToken"
  using assms by simp_all

end
