(* ===== verification/Presence.thy ===== *)
theory Presence
  imports Kirino_Prelude
begin

text \<open>
  Online presence, \<^verbatim>\<open>packages/session/src/presence.rs\<close>: the registry of live connections, its
  leases, the idle sweep and the queries. Every method locks the one map for its whole body.
  The instants that the platform can represent are the predicate \<open>representable\<close>, an argument
  of the operations that step back in time: \<^verbatim>\<open>Instant::checked_sub\<close> fails outside it, and the
  code then takes the present instant.
\<close>

subsection \<open>The registry\<close>

record presence_entry =
  pe_user :: "string option"
  pe_scope :: "string option"
  pe_connected_at :: int
  pe_last_activity :: instant

record presence_registry =
  pr_entries :: "(uuid, presence_entry) hash_map"
  pr_idle_timeout :: int

record presence_record =
  rec_id :: uuid
  rec_user :: "string option"
  rec_scope :: "string option"
  rec_connected_at :: int
  rec_last_seen_at :: int

definition DEFAULT_IDLE_TIMEOUT :: int where
  "DEFAULT_IDLE_TIMEOUT = 90 * 1000000000"

definition presence_new :: presence_registry where
  "presence_new = \<lparr>pr_entries = [], pr_idle_timeout = DEFAULT_IDLE_TIMEOUT\<rparr>"

definition with_idle_timeout :: "int \<Rightarrow> presence_registry" where
  "with_idle_timeout d = \<lparr>pr_entries = [], pr_idle_timeout = max d 1000000\<rparr>"

text \<open>\<open>utc\<close> and \<open>now\<close> are the two clocks; the identifier of the lease is \<open>i\<close>.\<close>

definition presence_connect ::
  "uuid \<Rightarrow> instant \<Rightarrow> int \<Rightarrow> string option \<Rightarrow> string option \<Rightarrow> presence_registry \<Rightarrow> presence_registry" where
  "presence_connect i now utc user scope reg =
     reg\<lparr>pr_entries := AList.update i
       \<lparr>pe_user = user, pe_scope = scope, pe_connected_at = utc, pe_last_activity = now\<rparr> (pr_entries reg)\<rparr>"

definition presence_touch :: "uuid \<Rightarrow> instant \<Rightarrow> presence_registry \<Rightarrow> bool \<times> presence_registry" where
  "presence_touch i now reg =
     (case map_of (pr_entries reg) i of
        Some e \<Rightarrow> (True, reg\<lparr>pr_entries := AList.update i (e\<lparr>pe_last_activity := now\<rparr>) (pr_entries reg)\<rparr>)
      | None \<Rightarrow> (False, reg))"

definition presence_remove :: "uuid \<Rightarrow> presence_registry \<Rightarrow> presence_registry" where
  "presence_remove i reg = reg\<lparr>pr_entries := AList.delete i (pr_entries reg)\<rparr>"

definition idle_cutoff :: "(instant \<Rightarrow> bool) \<Rightarrow> instant \<Rightarrow> presence_registry \<Rightarrow> instant" where
  "idle_cutoff representable now reg =
     (if representable (now - pr_idle_timeout reg) then now - pr_idle_timeout reg else now)"

definition presence_sweep ::
  "(instant \<Rightarrow> bool) \<Rightarrow> instant \<Rightarrow> presence_registry \<Rightarrow> nat \<times> presence_registry" where
  "presence_sweep representable now reg =
     (let cutoff = idle_cutoff representable now reg;
          kept = filter (\<lambda>(_, e). pe_last_activity e > cutoff) (pr_entries reg)
      in (length (pr_entries reg) - length kept, reg\<lparr>pr_entries := kept\<rparr>))"

subsection \<open>The queries\<close>

definition live_entries ::
  "(instant \<Rightarrow> bool) \<Rightarrow> instant \<Rightarrow> presence_registry \<Rightarrow> (uuid \<times> presence_entry) list" where
  "live_entries representable now reg =
     (let cutoff = idle_cutoff representable now reg
      in filter (\<lambda>(_, e). pe_last_activity e > cutoff) (pr_entries reg))"

definition connection_count :: "(instant \<Rightarrow> bool) \<Rightarrow> instant \<Rightarrow> presence_registry \<Rightarrow> nat" where
  "connection_count rp now reg = length (live_entries rp now reg)"

definition user_count :: "(instant \<Rightarrow> bool) \<Rightarrow> instant \<Rightarrow> presence_registry \<Rightarrow> nat" where
  "user_count rp now reg = card (set (List.map_filter (pe_user \<circ> snd) (live_entries rp now reg)))"

definition anonymous_count :: "(instant \<Rightarrow> bool) \<Rightarrow> instant \<Rightarrow> presence_registry \<Rightarrow> nat" where
  "anonymous_count rp now reg = length (filter (\<lambda>(_, e). pe_user e = None) (live_entries rp now reg))"

fun count_users ::
  "instant \<Rightarrow> (uuid \<times> presence_entry) list \<Rightarrow> (string, nat) hash_map \<Rightarrow> (string, nat) hash_map" where
  "count_users cutoff [] counts = counts"
| "count_users cutoff ((i, e) # es) counts =
     (if pe_last_activity e \<le> cutoff then count_users cutoff es counts
      else case pe_user e of
        Some user \<Rightarrow>
          count_users cutoff es
            (AList.update user (Suc (case map_of counts user of Some n \<Rightarrow> n | None \<Rightarrow> 0)) counts)
      | None \<Rightarrow> count_users cutoff es counts)"

definition per_user_counts ::
  "(instant \<Rightarrow> bool) \<Rightarrow> instant \<Rightarrow> presence_registry \<Rightarrow> (string, nat) hash_map" where
  "per_user_counts rp now reg = count_users (idle_cutoff rp now reg) (pr_entries reg) []"

definition scope_ids :: "(instant \<Rightarrow> bool) \<Rightarrow> instant \<Rightarrow> presence_registry \<Rightarrow> string set" where
  "scope_ids rp now reg = set (List.map_filter (pe_scope \<circ> snd) (live_entries rp now reg))"

definition scope_online :: "(instant \<Rightarrow> bool) \<Rightarrow> instant \<Rightarrow> string \<Rightarrow> presence_registry \<Rightarrow> bool" where
  "scope_online rp now scope reg \<longleftrightarrow>
     (\<exists>(i, e) \<in> set (pr_entries reg). pe_last_activity e > idle_cutoff rp now reg \<and> pe_scope e = Some scope)"

definition presence_snapshot ::
  "(instant \<Rightarrow> bool) \<Rightarrow> instant \<Rightarrow> int \<Rightarrow> presence_registry \<Rightarrow> presence_record list" where
  "presence_snapshot rp now utc reg =
     sort_key rec_connected_at
       (map (\<lambda>(i, e). \<lparr>rec_id = i, rec_user = pe_user e, rec_scope = pe_scope e,
               rec_connected_at = pe_connected_at e, rec_last_seen_at = utc\<rparr>)
          (live_entries rp now reg))"


subsection \<open>The queries agree\<close>

abbreviation users_of :: "(uuid \<times> presence_entry) list \<Rightarrow> string \<Rightarrow> (uuid \<times> presence_entry) list" where
  "users_of es u \<equiv> filter (\<lambda>(_, e). pe_user e = Some u) es"

lemma count_users_live:
  "count_users cutoff es counts = count_users cutoff (filter (\<lambda>(_, e). pe_last_activity e > cutoff) es) counts"
  by (induction es arbitrary: counts) (auto split: option.split)

lemma count_users_wf: "hm_wf counts \<Longrightarrow> hm_wf (count_users cutoff es counts)"
  by (induction cutoff es counts rule: count_users.induct) (auto split: option.split)

lemma map_of_count_users:
  "\<forall>(i, e) \<in> set es. pe_last_activity e > cutoff \<Longrightarrow> map_of (count_users cutoff es counts) u =
     (case map_of counts u of
        Some n \<Rightarrow> Some (n + length (users_of es u))
      | None \<Rightarrow> if users_of es u = [] then None else Some (length (users_of es u)))"
  by (induction cutoff es counts rule: count_users.induct)
    (auto simp: map_of_AList_update split: option.splits)

lemma sum_list_update:
  "hm_wf m \<Longrightarrow> sum_list (map snd (AList.update k (v :: nat) m)) + (case map_of m k of Some n \<Rightarrow> n | None \<Rightarrow> 0) =
     sum_list (map snd m) + v"
  by (induction m) (auto simp: hm_wf_def)

lemma sum_count_users:
  "hm_wf counts \<Longrightarrow> \<forall>(i, e) \<in> set es. pe_last_activity e > cutoff \<Longrightarrow>
     sum_list (map snd (count_users cutoff es counts)) + length (filter (\<lambda>(_, e). pe_user e = None) es) =
     sum_list (map snd counts) + length es"
proof (induction cutoff es counts rule: count_users.induct)
  case (2 cutoff i e es counts)
  then show ?case
    using sum_list_update [OF 2(4), of "the (pe_user e)" "Suc (case map_of counts (the (pe_user e)) of Some n \<Rightarrow> n | None \<Rightarrow> 0)"]
    by (auto split: option.split)
qed simp

lemma live_entries_live:
  "\<forall>(i, e) \<in> set (live_entries rp now reg). pe_last_activity e > idle_cutoff rp now reg"
  by (auto simp: live_entries_def Let_def)

lemma per_user_counts_eq:
  "per_user_counts rp now reg = count_users (idle_cutoff rp now reg) (live_entries rp now reg) []"
  unfolding per_user_counts_def live_entries_def Let_def by (rule count_users_live)

lemma users_of_Nil_iff: "users_of es u = [] \<longleftrightarrow> u \<notin> set (List.map_filter (pe_user \<circ> snd) es)"
  by (force simp: filter_empty_conv set_map_filter_iff)

text \<open>
  The queries agree with each other at any instant: the per-user counts hold exactly the
  users with live connections, each with their number; together with the anonymous ones they
  add up to the connection count; their number is the user count; a scope is online exactly
  when it is listed; and the snapshot lists each live connection once, oldest first.
\<close>

theorem presence_queries_agree:
  "map_of (per_user_counts rp now reg) u =
     (let n = length (users_of (live_entries rp now reg) u) in if n = 0 then None else Some n) \<and>
   connection_count rp now reg =
     anonymous_count rp now reg + sum_list (map snd (per_user_counts rp now reg)) \<and>
   user_count rp now reg = length (per_user_counts rp now reg) \<and>
   (scope_online rp now scope reg \<longleftrightarrow> scope \<in> scope_ids rp now reg) \<and>
   sorted (map rec_connected_at (presence_snapshot rp now utc reg)) \<and>
   mset (map rec_id (presence_snapshot rp now utc reg)) = mset (map fst (live_entries rp now reg))"
proof (intro conjI)
  let ?es = "live_entries rp now reg" and ?c = "per_user_counts rp now reg"
  note live = live_entries_live [of rp now reg]
  show "map_of ?c u = (let n = length (users_of ?es u) in if n = 0 then None else Some n)"
    unfolding per_user_counts_eq using map_of_count_users [OF live, of "[]" u] by (simp add: Let_def)
  show "connection_count rp now reg = anonymous_count rp now reg + sum_list (map snd ?c)"
    unfolding per_user_counts_eq using sum_count_users [OF hm_wf_Nil live]
    by (simp add: connection_count_def anonymous_count_def)
  have "u \<in> fst ` set ?c \<longleftrightarrow> u \<in> set (List.map_filter (pe_user \<circ> snd) ?es)" for u
    using map_of_count_users [OF live, of "[]" u] users_of_Nil_iff [of u ?es]
      map_of_eq_None_iff [of "count_users (idle_cutoff rp now reg) ?es []" u]
    unfolding per_user_counts_eq by (auto split: if_splits)
  then have "fst ` set ?c = set (List.map_filter (pe_user \<circ> snd) ?es)" by blast
  moreover have "card (fst ` set ?c) = length ?c"
    using count_users_wf [OF hm_wf_Nil] distinct_card [of "map fst ?c"]
    by (simp add: per_user_counts_eq hm_wf_def)
  ultimately show "user_count rp now reg = length ?c" by (simp add: user_count_def)
  show "scope_online rp now scope reg \<longleftrightarrow> scope \<in> scope_ids rp now reg"
    by (force simp: scope_online_def scope_ids_def live_entries_def set_map_filter_iff Let_def)
  show "sorted (map rec_connected_at (presence_snapshot rp now utc reg))"
    by (simp add: presence_snapshot_def)
  show "mset (map rec_id (presence_snapshot rp now utc reg)) = mset (map fst ?es)"
    by (simp add: presence_snapshot_def multiset.map_comp comp_def split_beta)
qed

subsection \<open>Who is online\<close>

text \<open>The life of the registry: each event is one method call, at the instant it reads.\<close>

datatype presence_event =
    Connected uuid instant int "string option" "string option"
  | Touched uuid instant
  | LeaseDropped uuid
  | Swept instant

fun presence_step :: "(instant \<Rightarrow> bool) \<Rightarrow> presence_event \<Rightarrow> presence_registry \<Rightarrow> presence_registry" where
  "presence_step rp (Connected i t utc u sc) reg = presence_connect i t utc u sc reg"
| "presence_step rp (Touched i t) reg = snd (presence_touch i t reg)"
| "presence_step rp (LeaseDropped i) reg = presence_remove i reg"
| "presence_step rp (Swept t) reg = snd (presence_sweep rp t reg)"

text \<open>The specification: when the holder of a lease was last active, if it still holds it.\<close>

fun activity :: "uuid \<Rightarrow> presence_event \<Rightarrow> instant option \<Rightarrow> instant option" where
  "activity i (Connected j t utc u sc) a = (if j = i then Some t else a)"
| "activity i (Touched j t) a = (if j = i \<and> a \<noteq> None then Some t else a)"
| "activity i (LeaseDropped j) a = (if j = i then None else a)"
| "activity i (Swept t) a = a"

text \<open>No sweep comes when the holder has been quiet for the whole timeout.\<close>

fun never_idle :: "uuid \<Rightarrow> int \<Rightarrow> presence_event list \<Rightarrow> instant option \<Rightarrow> bool" where
  "never_idle i d [] a = True"
| "never_idle i d (ev # evs) a =
     ((case (ev, a) of (Swept t, Some t') \<Rightarrow> t' > t - d | _ \<Rightarrow> True) \<and>
      never_idle i d evs (activity i ev a))"

lemma presence_step_idle: "pr_idle_timeout (presence_step rp ev reg) = pr_idle_timeout reg"
  by (cases ev) (auto simp: presence_connect_def presence_touch_def presence_remove_def
    presence_sweep_def Let_def split: option.split)

lemma fold_presence_idle: "pr_idle_timeout (fold (presence_step rp) evs reg) = pr_idle_timeout reg"
  by (induction evs arbitrary: reg) (simp_all add: presence_step_idle)

lemma presence_step_wf: "hm_wf (pr_entries reg) \<Longrightarrow> hm_wf (pr_entries (presence_step rp ev reg))"
  by (cases ev) (auto simp: presence_connect_def presence_touch_def presence_remove_def
    presence_sweep_def Let_def split: option.split)

lemma fold_presence_wf: "hm_wf (pr_entries reg) \<Longrightarrow> hm_wf (pr_entries (fold (presence_step rp) evs reg))"
  by (induction evs arbitrary: reg) (simp_all add: presence_step_wf)

definition last_activity :: "uuid \<Rightarrow> presence_registry \<Rightarrow> instant option" where
  "last_activity i reg = map_option pe_last_activity (map_of (pr_entries reg) i)"

lemma last_activity_step:
  assumes "hm_wf (pr_entries reg)"
  shows "last_activity i (presence_step rp ev reg) =
    (case ev of
       Swept t \<Rightarrow> (case last_activity i reg of None \<Rightarrow> None
         | Some t' \<Rightarrow> if t' > idle_cutoff rp t reg then Some t' else None)
     | _ \<Rightarrow> activity i ev (last_activity i reg))"
  using assms
  by (cases ev) (auto simp: last_activity_def presence_connect_def presence_touch_def
    presence_remove_def presence_sweep_def Let_def map_of_AList_update map_of_AList_delete
    hm_map_of_filter split: option.splits)

lemma activity_sound:
  "hm_wf (pr_entries reg) \<Longrightarrow> last_activity i reg = None \<or> last_activity i reg = a \<Longrightarrow>
     last_activity i (fold (presence_step rp) evs reg) = None \<or>
     last_activity i (fold (presence_step rp) evs reg) = fold (activity i) evs a"
proof (induction evs arbitrary: reg a)
  case (Cons ev evs)
  have "last_activity i (presence_step rp ev reg) = None \<or>
      last_activity i (presence_step rp ev reg) = activity i ev a"
    using Cons.prems(2) unfolding last_activity_step [OF Cons.prems(1)]
    by (cases ev) (auto split: option.splits)
  with Cons.IH [OF presence_step_wf [OF Cons.prems(1)]] show ?case by simp
qed simp

lemma activity_complete:
  assumes "\<And>t. rp t"
  shows "hm_wf (pr_entries reg) \<Longrightarrow> never_idle i (pr_idle_timeout reg) evs (last_activity i reg) \<Longrightarrow>
     last_activity i (fold (presence_step rp) evs reg) = fold (activity i) evs (last_activity i reg)"
proof (induction evs arbitrary: reg)
  case (Cons ev evs)
  have "last_activity i (presence_step rp ev reg) = activity i ev (last_activity i reg)"
    using Cons.prems(2) assms unfolding last_activity_step [OF Cons.prems(1)]
    by (cases ev) (auto simp: idle_cutoff_def split: option.splits)
  with Cons.IH [OF presence_step_wf [OF Cons.prems(1)], of rp ev] Cons.prems(2) show ?case
    by (simp add: presence_step_idle)
qed simp

lemma live_entries_iff:
  assumes "hm_wf (pr_entries reg)"
  shows "i \<in> fst ` set (live_entries rp now reg) \<longleftrightarrow>
    (\<exists>t. last_activity i reg = Some t \<and> t > idle_cutoff rp now reg)"
  by (force simp: live_entries_def last_activity_def Let_def hm_in_set_iff [OF assms])

text \<open>
  A connection is counted as online only if its lease is still held and its holder was
  active within the timeout, whatever else happened in the registry; and it is counted
  whenever that is so, provided no sweep came while the holder was quiet for the timeout, after
  which touching the lease brings it back only if it was not swept.
\<close>

theorem presence_is_truthful:
  assumes "\<And>t. rp t"
    and "reg = fold (presence_step rp) evs (with_idle_timeout d)"
    and "d \<ge> 1000000"
  shows "(i \<in> fst ` set (live_entries rp now reg) \<longrightarrow>
      (\<exists>t. fold (activity i) evs None = Some t \<and> t > now - d)) \<and>
    (never_idle i d evs None \<longrightarrow>
      (i \<in> fst ` set (live_entries rp now reg) \<longleftrightarrow>
        (\<exists>t. fold (activity i) evs None = Some t \<and> t > now - d)))"
proof -
  let ?r = "with_idle_timeout d"
  have r: "hm_wf (pr_entries ?r)" "pr_idle_timeout ?r = d" "last_activity i ?r = None"
    using assms(3) by (simp_all add: with_idle_timeout_def last_activity_def)
  have cut: "idle_cutoff rp now reg = now - d"
    using assms(1) by (simp add: idle_cutoff_def assms(2) fold_presence_idle r(2))
  have wf: "hm_wf (pr_entries reg)" unfolding assms(2) by (rule fold_presence_wf [OF r(1)])
  have sound: "last_activity i reg = None \<or> last_activity i reg = fold (activity i) evs None"
    using activity_sound [OF r(1)] r(3) unfolding assms(2) by blast
  have complete: "never_idle i d evs None \<Longrightarrow> last_activity i reg = fold (activity i) evs None"
    using activity_complete [OF assms(1) r(1), of i evs] unfolding r(2,3) assms(2) .
  show ?thesis
    unfolding live_entries_iff [OF wf] cut using sound complete by auto
qed

theorem presence_is_truthful_witness:
  "7 \<in> fst ` set (live_entries (\<lambda>_. True) 150000000000
     (fold (presence_step (\<lambda>_. True))
       [Connected 7 0 0 (Some ''ann'') None, Touched 7 80000000000, Swept 90000000000]
       (with_idle_timeout 90000000000)))"
  using presence_is_truthful [of "\<lambda>_. True" _ "[Connected 7 0 0 (Some ''ann'') None, Touched 7 80000000000, Swept 90000000000]"
      90000000000 7 150000000000, OF TrueI refl]
  by simp

text \<open>
  A timeout that reaches further back than the platform's first instant turns against itself:
  the cutoff becomes the present, and nobody is ever counted as online.
\<close>

lemma overlong_timeout_counts_nobody:
  assumes "\<not> rp (now - pr_idle_timeout reg)" and "\<forall>(i, e) \<in> set (pr_entries reg). pe_last_activity e \<le> now"
  shows "connection_count rp now reg = 0 \<and> pr_entries (snd (presence_sweep rp now reg)) = []"
  using assms
  by (auto simp: connection_count_def live_entries_def presence_sweep_def idle_cutoff_def Let_def
    filter_empty_conv)

end
