(* ===== verification/Invitations.thy ===== *)
theory Invitations
  imports Kirino_Prelude
begin

text \<open>
  Invitations: \<^verbatim>\<open>src/invitation/types.rs\<close> and the in-memory store of \<^verbatim>\<open>src/invitation/store.rs\<close>.
  A method takes its two locks one after the other and changes the invitations only under the
  last; no method panics while it holds a lock, so the locks are never poisoned. The clock, the
  identifiers and the token are arguments. \<open>add_secs\<close> is the addition of a number of seconds to
  a time by the date library, which panics (\<open>None\<close>) out of its range.
\<close>

subsection \<open>Data\<close>

datatype invitation_mode = Approval | Direct

datatype invitation_status = InvPending | InvOpened | InvAccepted | InvExpired | InvRevoked | InvExhausted

fun invitation_status_as_str :: "invitation_status \<Rightarrow> string" where
  "invitation_status_as_str InvPending = ''pending''"
| "invitation_status_as_str InvOpened = ''opened''"
| "invitation_status_as_str InvAccepted = ''accepted''"
| "invitation_status_as_str InvExpired = ''expired''"
| "invitation_status_as_str InvRevoked = ''revoked''"
| "invitation_status_as_str InvExhausted = ''exhausted''"

record invitation =
  inv_id :: uuid
  inv_token :: string
  inv_group_id :: uuid
  inv_invited_by :: uuid
  inv_mode :: invitation_mode
  inv_invitee_email :: "string option"
  inv_role :: string
  inv_max_uses :: u16
  inv_use_count :: u16
  inv_allow_multi_ip :: bool
  inv_status :: invitation_status
  inv_opened_at :: "int option"
  inv_opened_ip :: "string option"
  inv_opened_ua :: "string option"
  inv_expires_at :: int
  inv_accepted_at :: "int option"
  inv_accepted_by :: "uuid option"
  inv_created_at :: int

record create_invitation_params =
  cip_group_id :: uuid
  cip_mode :: invitation_mode
  cip_invitee_email :: "string option"
  cip_role :: "string option"
  cip_max_uses :: "u16 option"
  cip_allow_multi_ip :: "bool option"
  cip_ttl_secs :: "u64 option"
  cip_open_window_secs :: "u64 option"

record accept_invitation_params =
  aip_token :: string
  aip_username :: string
  aip_password :: string
  aip_email :: "string option"
  aip_client_ip :: "string option"
  aip_client_ua :: "string option"

record open_invitation_result =
  oir_token :: string
  oir_group_id :: uuid
  oir_group_name :: "string option"
  oir_invited_by_name :: "string option"
  oir_window_remaining_secs :: int

datatype invitation_error =
    InvNotFound
  | AlreadyUsed
  | InvitationExpired
  | OpenWindowExpired int
  | IpMismatch
  | MultiIpDenied
  | InvalidStatus invitation_status
  | OtherInvitationError string

record invitation_store =
  ist_inner :: "(uuid, invitation) hash_map"
  ist_token_index :: "(string, uuid) hash_map"

definition invitation_store_new :: invitation_store where
  "invitation_store_new = \<lparr>ist_inner = [], ist_token_index = []\<rparr>"

subsection \<open>Operations\<close>

definition unwrap_or :: "'a option \<Rightarrow> 'a \<Rightarrow> 'a" where
  "unwrap_or x d = (case x of Some v \<Rightarrow> v | None \<Rightarrow> d)"

text \<open>\<open>None\<close> is a panic of the date arithmetic, before anything is stored.\<close>

definition create_invitation ::
  "(int \<Rightarrow> int \<Rightarrow> int option) \<Rightarrow> string \<Rightarrow> uuid \<Rightarrow> int \<Rightarrow> uuid \<Rightarrow> create_invitation_params \<Rightarrow> invitation_store \<Rightarrow>
     (invitation \<times> invitation_store) option" where
  "create_invitation add_secs token i now invited_by ps st =
     (case add_secs now (sint (unwrap_or (cip_ttl_secs ps) 604800)) of
        None \<Rightarrow> None
      | Some expires \<Rightarrow>
          let iv = \<lparr>inv_id = i, inv_token = token, inv_group_id = cip_group_id ps, inv_invited_by = invited_by,
                inv_mode = cip_mode ps, inv_invitee_email = cip_invitee_email ps,
                inv_role = unwrap_or (cip_role ps) ''member'', inv_max_uses = unwrap_or (cip_max_uses ps) 1,
                inv_use_count = 0, inv_allow_multi_ip = unwrap_or (cip_allow_multi_ip ps) True,
                inv_status = InvPending, inv_opened_at = None, inv_opened_ip = None, inv_opened_ua = None,
                inv_expires_at = expires, inv_accepted_at = None, inv_accepted_by = None,
                inv_created_at = now\<rparr>
          in Some (iv, st\<lparr>ist_inner := AList.update i iv (ist_inner st),
                           ist_token_index := AList.update token i (ist_token_index st)\<rparr>))"

text \<open>What \<open>open\<close> and \<open>accept\<close> do to the invitation they find.\<close>

definition open_found ::
  "int \<Rightarrow> string \<Rightarrow> string option \<Rightarrow> string option \<Rightarrow> invitation \<Rightarrow>
     (invitation_error + open_invitation_result) \<times> invitation" where
  "open_found now token ip ua iv =
     (if inv_mode iv \<noteq> Direct then (Inl (OtherInvitationError ''open is only valid for Direct-mode invitations''), iv)
      else if now > inv_expires_at iv then (Inl InvitationExpired, iv\<lparr>inv_status := InvExpired\<rparr>)
      else if inv_status iv \<noteq> InvPending \<and> inv_status iv \<noteq> InvOpened
      then (Inl (InvalidStatus (inv_status iv)), iv)
      else
        let (opened_at, iv') =
              (case inv_opened_at iv of
                 Some t \<Rightarrow> (t, iv)
               | None \<Rightarrow> (now, iv\<lparr>inv_opened_at := Some now, inv_opened_ip := ip, inv_opened_ua := ua,
                                   inv_status := InvOpened\<rparr>));
            remaining = 300 - num_seconds (now - opened_at)
        in if remaining \<le> 0 then (Inl (OpenWindowExpired remaining), iv'\<lparr>inv_status := InvExpired\<rparr>)
           else (Inr \<lparr>oir_token = token, oir_group_id = inv_group_id iv', oir_group_name = None,
                      oir_invited_by_name = None, oir_window_remaining_secs = remaining\<rparr>, iv'))"

definition accept_found ::
  "int \<Rightarrow> uuid \<Rightarrow> string option \<Rightarrow> invitation \<Rightarrow> (invitation_error + (uuid \<times> string)) \<times> invitation" where
  "accept_found now new_user ip iv =
     (case inv_status iv of
        InvAccepted \<Rightarrow> (Inl AlreadyUsed, iv)
      | InvExpired \<Rightarrow> (Inl InvitationExpired, iv)
      | InvRevoked \<Rightarrow> (Inl AlreadyUsed, iv)
      | InvExhausted \<Rightarrow> (Inl AlreadyUsed, iv)
      | _ \<Rightarrow>
          if now > inv_expires_at iv then (Inl InvitationExpired, iv\<lparr>inv_status := InvExpired\<rparr>)
          else if inv_mode iv = Direct \<and>
            (case inv_opened_at iv of Some t \<Rightarrow> num_seconds (now - t) > 300 | None \<Rightarrow> False)
          then (Inl (OpenWindowExpired 0), iv\<lparr>inv_status := InvExpired\<rparr>)
          else if inv_mode iv = Direct \<and>
            (case (inv_opened_ip iv, ip) of (Some stored, Some req) \<Rightarrow> stored \<noteq> req | _ \<Rightarrow> False)
          then (Inl IpMismatch, iv)
          else
            let inv1 = iv\<lparr>inv_use_count := inv_use_count iv + 1\<rparr>;
                inv2 = (if inv_use_count inv1 \<ge> inv_max_uses inv1 then inv1\<lparr>inv_status := InvAccepted\<rparr> else inv1)
            in (Inr (inv_group_id iv, inv_role iv),
                inv2\<lparr>inv_accepted_at := Some now, inv_accepted_by := Some new_user\<rparr>))"

definition with_found ::
  "string \<Rightarrow> (invitation \<Rightarrow> (invitation_error + 'a) \<times> invitation) \<Rightarrow> invitation_store \<Rightarrow>
     (invitation_error + 'a) \<times> invitation_store" where
  "with_found token f st =
     (case map_of (ist_token_index st) token of
        None \<Rightarrow> (Inl InvNotFound, st)
      | Some i \<Rightarrow>
          (case map_of (ist_inner st) i of
             None \<Rightarrow> (Inl InvNotFound, st)
           | Some iv \<Rightarrow>
               let (r, iv') = f iv in (r, st\<lparr>ist_inner := AList.update i iv' (ist_inner st)\<rparr>)))"

definition open_invitation ::
  "int \<Rightarrow> string \<Rightarrow> string option \<Rightarrow> string option \<Rightarrow> invitation_store \<Rightarrow>
     (invitation_error + open_invitation_result) \<times> invitation_store" where
  "open_invitation now token ip ua = with_found token (open_found now token ip ua)"

definition accept_invitation ::
  "int \<Rightarrow> uuid \<Rightarrow> accept_invitation_params \<Rightarrow> invitation_store \<Rightarrow>
     (invitation_error + (uuid \<times> string)) \<times> invitation_store" where
  "accept_invitation now new_user ps = with_found (aip_token ps) (accept_found now new_user (aip_client_ip ps))"

definition find_by_token :: "string \<Rightarrow> invitation_store \<Rightarrow> invitation option" where
  "find_by_token token st =
     (case map_of (ist_token_index st) token of None \<Rightarrow> None | Some i \<Rightarrow> map_of (ist_inner st) i)"

definition list_by_group :: "uuid \<Rightarrow> invitation_store \<Rightarrow> invitation list" where
  "list_by_group g st =
     rev (sort_key inv_created_at (filter (\<lambda>iv. inv_group_id iv = g) (map snd (ist_inner st))))"

definition revoke_invitation :: "string \<Rightarrow> invitation_store \<Rightarrow> (invitation_error + unit) \<times> invitation_store" where
  "revoke_invitation token =
     with_found token (\<lambda>iv. (Inr (),
       if inv_status iv \<noteq> InvRevoked then iv\<lparr>inv_status := InvRevoked\<rparr> else iv))"

definition stale :: "int \<Rightarrow> invitation \<Rightarrow> bool" where
  "stale now iv \<longleftrightarrow> inv_status iv \<in> {InvPending, InvOpened} \<and> now > inv_expires_at iv"

definition expire_stale :: "int \<Rightarrow> invitation_store \<Rightarrow> nat \<times> invitation_store" where
  "expire_stale now st =
     (length (filter (\<lambda>(_, iv). stale now iv) (ist_inner st)),
      st\<lparr>ist_inner := map (\<lambda>(i, iv). (i, if stale now iv then iv\<lparr>inv_status := InvExpired\<rparr> else iv))
           (ist_inner st)\<rparr>)"

subsection \<open>When an invitation is accepted\<close>

abbreviation is_open :: "invitation \<Rightarrow> bool" where
  "is_open iv \<equiv> inv_status iv \<in> {InvPending, InvOpened}"

definition window_over :: "int \<Rightarrow> invitation \<Rightarrow> bool" where
  "window_over now iv \<longleftrightarrow> inv_mode iv = Direct \<and>
     (case inv_opened_at iv of Some t \<Rightarrow> num_seconds (now - t) > 300 | None \<Rightarrow> False)"

definition foreign_ip :: "string option \<Rightarrow> invitation \<Rightarrow> bool" where
  "foreign_ip ip iv \<longleftrightarrow> inv_mode iv = Direct \<and>
     (case (inv_opened_ip iv, ip) of (Some stored, Some req) \<Rightarrow> stored \<noteq> req | _ \<Rightarrow> False)"

definition use_once :: "int \<Rightarrow> uuid \<Rightarrow> invitation \<Rightarrow> invitation" where
  "use_once now u iv =
     iv\<lparr>inv_use_count := inv_use_count iv + 1,
        inv_status := (if inv_use_count iv + 1 \<ge> inv_max_uses iv then InvAccepted else inv_status iv),
        inv_accepted_at := Some now, inv_accepted_by := Some u\<rparr>"

lemma accept_found_open:
  "is_open iv \<Longrightarrow> accept_found now u ip iv =
     (if now > inv_expires_at iv then (Inl InvitationExpired, iv\<lparr>inv_status := InvExpired\<rparr>)
      else if window_over now iv then (Inl (OpenWindowExpired 0), iv\<lparr>inv_status := InvExpired\<rparr>)
      else if foreign_ip ip iv then (Inl IpMismatch, iv)
      else (Inr (inv_group_id iv, inv_role iv), use_once now u iv))"
  by (cases "inv_status iv")
    (simp_all add: accept_found_def window_over_def foreign_ip_def use_once_def Let_def)

lemma accept_found_closed:
  "\<not> is_open iv \<Longrightarrow> (\<exists>e. fst (accept_found now u ip iv) = Inl e) \<and> snd (accept_found now u ip iv) = iv"
  by (cases "inv_status iv") (simp_all add: accept_found_def)

lemma accept_found_Inr:
  "fst (accept_found now u ip iv) = Inr gr \<longleftrightarrow>
     gr = (inv_group_id iv, inv_role iv) \<and> is_open iv \<and> now \<le> inv_expires_at iv \<and>
     \<not> window_over now iv \<and> \<not> foreign_ip ip iv"
proof (cases "is_open iv")
  case True
  then show ?thesis by (auto simp: accept_found_open)
next
  case False
  with accept_found_closed [OF False, of now u ip] show ?thesis by auto
qed

text \<open>
  An invitation that is found is accepted exactly when it is pending or opened, not past
  its expiry and, if it is a direct one, not more than 300 whole seconds past its opening and
  not presented from a known address other than the known one that opened it; the caller then
  gets its group and role, and one use is counted, the last one closing it. A refusal counts no
  use and reopens nothing.
\<close>

theorem accept_exact:
  "(fst (accept_found now u ip iv) = Inr gr \<longleftrightarrow>
     gr = (inv_group_id iv, inv_role iv) \<and> inv_status iv \<in> {InvPending, InvOpened} \<and> now \<le> inv_expires_at iv \<and>
     (inv_mode iv = Approval \<or>
       (inv_opened_at iv = None \<or> num_seconds (now - the (inv_opened_at iv)) \<le> 300) \<and>
       (inv_opened_ip iv = None \<or> ip = None \<or> inv_opened_ip iv = ip))) \<and>
   (let iv' = snd (accept_found now u ip iv) in
     if \<exists>gr. fst (accept_found now u ip iv) = Inr gr
     then inv_use_count iv' = inv_use_count iv + 1 \<and>
       inv_status iv' = (if inv_use_count iv' \<ge> inv_max_uses iv then InvAccepted else inv_status iv)
     else inv_use_count iv' = inv_use_count iv \<and> inv_status iv' \<in> {inv_status iv, InvExpired})"
proof (rule conjI)
  have "\<not> window_over now iv \<and> \<not> foreign_ip ip iv \<longleftrightarrow> inv_mode iv = Approval \<or>
       (inv_opened_at iv = None \<or> num_seconds (now - the (inv_opened_at iv)) \<le> 300) \<and>
       (inv_opened_ip iv = None \<or> ip = None \<or> inv_opened_ip iv = ip)"
    by (cases "inv_mode iv") (auto simp: window_over_def foreign_ip_def split: option.splits)
  then show "fst (accept_found now u ip iv) = Inr gr \<longleftrightarrow>
     gr = (inv_group_id iv, inv_role iv) \<and> inv_status iv \<in> {InvPending, InvOpened} \<and> now \<le> inv_expires_at iv \<and>
     (inv_mode iv = Approval \<or>
       (inv_opened_at iv = None \<or> num_seconds (now - the (inv_opened_at iv)) \<le> 300) \<and>
       (inv_opened_ip iv = None \<or> ip = None \<or> inv_opened_ip iv = ip))"
    unfolding accept_found_Inr by blast
  show "let iv' = snd (accept_found now u ip iv) in
     if \<exists>gr. fst (accept_found now u ip iv) = Inr gr
     then inv_use_count iv' = inv_use_count iv + 1 \<and>
       inv_status iv' = (if inv_use_count iv' \<ge> inv_max_uses iv then InvAccepted else inv_status iv)
     else inv_use_count iv' = inv_use_count iv \<and> inv_status iv' \<in> {inv_status iv, InvExpired}"
  proof (cases "is_open iv")
    case True
    then show ?thesis by (auto simp: accept_found_open use_once_def Let_def)
  next
    case False
    with accept_found_closed [OF False, of now u ip] show ?thesis by (auto simp: Let_def)
  qed
qed

subsection \<open>Uses\<close>

text \<open>How many more times an invitation can be accepted.\<close>

definition uses_left :: "invitation \<Rightarrow> nat" where
  "uses_left iv = (if is_open iv then max 1 (unat (inv_max_uses iv)) - unat (inv_use_count iv) else 0)"

text \<open>What holds of every invitation in a store: an open one has been used less often than allowed.\<close>

definition uses_ok :: "invitation \<Rightarrow> bool" where
  "uses_ok iv \<longleftrightarrow> \<not> is_open iv \<or> unat (inv_use_count iv) < max 1 (unat (inv_max_uses iv))"

lemma unat_use_count_Suc:
  assumes "unat (n :: u16) < max 1 (unat (m :: u16))"
  shows "unat (n + 1) = Suc (unat n)"
proof -
  have "unat m < 2 ^ LENGTH(16)" by (rule unsigned_less)
  with assms show ?thesis by (simp add: unat_word_ariths)
qed

lemma accept_found_uses:
  assumes "uses_ok iv"
  shows "uses_ok (snd (accept_found now u ip iv))"
    and "uses_left (snd (accept_found now u ip iv)) + (if \<exists>gr. fst (accept_found now u ip iv) = Inr gr then 1 else 0)
      \<le> uses_left iv"
proof -
  show "uses_ok (snd (accept_found now u ip iv))"
  proof (cases "is_open iv")
    case True
    with assms have "unat (inv_use_count iv + 1) = Suc (unat (inv_use_count iv))"
      by (intro unat_use_count_Suc [of _ "inv_max_uses iv"]) (auto simp: uses_ok_def)
    with True assms show ?thesis
      by (auto simp: accept_found_open use_once_def uses_ok_def word_le_nat_alt)
  qed (use assms accept_found_closed in auto)
  show "uses_left (snd (accept_found now u ip iv)) + (if \<exists>gr. fst (accept_found now u ip iv) = Inr gr then 1 else 0)
      \<le> uses_left iv"
  proof (cases "is_open iv")
    case True
    with assms have "unat (inv_use_count iv + 1) = Suc (unat (inv_use_count iv))"
      by (intro unat_use_count_Suc [of _ "inv_max_uses iv"]) (auto simp: uses_ok_def)
    with True assms show ?thesis
      by (auto simp: accept_found_open use_once_def uses_ok_def uses_left_def word_le_nat_alt)
  next
    case False
    with accept_found_closed [OF False, of now u ip] show ?thesis by (auto simp: uses_left_def)
  qed
qed

lemma open_found_uses:
  "uses_ok iv \<Longrightarrow> uses_ok (snd (open_found now tok ip ua iv))"
  "uses_left (snd (open_found now tok ip ua iv)) \<le> uses_left iv"
  by (auto simp: open_found_def uses_ok_def uses_left_def Let_def split: option.split)

subsection \<open>Histories\<close>

text \<open>A method call of the store, with the instant and the fresh values it reads.\<close>

datatype invitation_call =
    CreateCall string uuid int uuid create_invitation_params
  | OpenCall int string "string option" "string option"
  | AcceptCall int uuid accept_invitation_params
  | RevokeCall string
  | ExpireCall int

fun invitation_step ::
  "(int \<Rightarrow> int \<Rightarrow> int option) \<Rightarrow> invitation_call \<Rightarrow> invitation_store \<Rightarrow> invitation_store" where
  "invitation_step add_secs (CreateCall tok i now who ps) st =
     (case create_invitation add_secs tok i now who ps st of Some (_, st') \<Rightarrow> st' | None \<Rightarrow> st)"
| "invitation_step add_secs (OpenCall now tok ip ua) st = snd (open_invitation now tok ip ua st)"
| "invitation_step add_secs (AcceptCall now u ps) st = snd (accept_invitation now u ps st)"
| "invitation_step add_secs (RevokeCall tok) st = snd (revoke_invitation tok st)"
| "invitation_step add_secs (ExpireCall now) st = snd (expire_stale now st)"

text \<open>Whether a call accepts the invitation behind a token.\<close>

fun accepts :: "string \<Rightarrow> invitation_call \<Rightarrow> invitation_store \<Rightarrow> bool" where
  "accepts tok (AcceptCall now u ps) st =
     (aip_token ps = tok \<and> (\<exists>gr. fst (accept_invitation now u ps st) = Inr gr))"
| "accepts tok _ st = False"

fun acceptances ::
  "(int \<Rightarrow> int \<Rightarrow> int option) \<Rightarrow> string \<Rightarrow> invitation_call list \<Rightarrow> invitation_store \<Rightarrow> nat" where
  "acceptances add_secs tok [] st = 0"
| "acceptances add_secs tok (c # cs) st =
     (if accepts tok c st then 1 else 0) + acceptances add_secs tok cs (invitation_step add_secs c st)"

text \<open>A creation draws a token and an identifier that are not those of the invitation watched.\<close>

fun draws_other :: "string \<Rightarrow> uuid \<Rightarrow> invitation_call \<Rightarrow> bool" where
  "draws_other tok i (CreateCall tok' i' now who ps) = (tok' \<noteq> tok \<and> i' \<noteq> i)"
| "draws_other tok i _ = True"

definition watched :: "string \<Rightarrow> uuid \<Rightarrow> invitation_store \<Rightarrow> invitation \<Rightarrow> bool" where
  "watched tok i st iv \<longleftrightarrow>
     map_of (ist_token_index st) tok = Some i \<and> map_of (ist_inner st) i = Some iv \<and> uses_ok iv"

lemma map_of_expire: "map_of (map (\<lambda>(i, iv). (i, f iv)) m) k = map_option f (map_of m k)"
  by (induction m) auto

lemma with_found_watched:
  assumes "watched tok i st iv"
    and "\<And>iv. uses_ok iv \<Longrightarrow> uses_ok (snd (f iv)) \<and> uses_left (snd (f iv)) \<le> uses_left iv"
  shows "\<exists>iv'. watched tok i (snd (with_found tok' f st)) iv' \<and> uses_left iv' \<le> uses_left iv"
  using assms
  by (auto simp: with_found_def watched_def map_of_AList_update split_beta split: option.split)

lemma step_watched:
  assumes "watched tok i st iv" "draws_other tok i c"
  shows "\<exists>iv'. watched tok i (invitation_step add_secs c st) iv' \<and>
    uses_left iv' + (if accepts tok c st then 1 else 0) \<le> uses_left iv"
proof (cases c)
  case (CreateCall tok' i' now who ps)
  with assms show ?thesis
    by (auto simp: create_invitation_def watched_def map_of_AList_update Let_def split: option.split)
next
  case (OpenCall now tok' ip ua)
  with with_found_watched [OF assms(1), of "open_found now tok' ip ua" tok'] open_found_uses
  show ?thesis by (simp add: open_invitation_def)
next
  case (AcceptCall now u ps)
  show ?thesis
  proof (cases "aip_token ps = tok")
    case True
    then show ?thesis
      using assms(1) accept_found_uses [of iv now u "aip_client_ip ps"] AcceptCall
      by (simp add: accept_invitation_def with_found_def watched_def map_of_AList_update split_beta)
  next
    case False
    with with_found_watched [OF assms(1), of "accept_found now u (aip_client_ip ps)" "aip_token ps"]
      accept_found_uses AcceptCall
    show ?thesis by (force simp: accept_invitation_def split: if_splits)
  qed
next
  case (RevokeCall tok')
  with with_found_watched [OF assms(1), of "\<lambda>iv. (Inr (),
      if inv_status iv \<noteq> InvRevoked then iv\<lparr>inv_status := InvRevoked\<rparr> else iv)" tok']
  show ?thesis by (simp add: revoke_invitation_def uses_ok_def uses_left_def)
next
  case (ExpireCall now)
  with assms(1) show ?thesis
    by (auto simp: expire_stale_def watched_def map_of_expire uses_ok_def uses_left_def)
qed

lemma acceptances_bounded:
  "watched tok i st iv \<Longrightarrow> \<forall>c \<in> set cs. draws_other tok i c \<Longrightarrow>
     acceptances add_secs tok cs st \<le> uses_left iv"
proof (induction cs arbitrary: st iv)
  case (Cons c cs)
  from Cons.prems(2) have "draws_other tok i c" by simp
  from step_watched [OF Cons.prems(1) this, of add_secs] obtain iv' where iv':
    "watched tok i (invitation_step add_secs c st) iv'"
    "uses_left iv' + (if accepts tok c st then 1 else 0) \<le> uses_left iv" by blast
  with Cons.IH [OF iv'(1)] Cons.prems(2) show ?case by simp
qed simp


lemma acceptances_append:
  "acceptances add_secs tok (cs @ ds) st =
     acceptances add_secs tok cs st +
     acceptances add_secs tok ds (fold (invitation_step add_secs) cs st)"
  by (induction cs arbitrary: st) simp_all

lemma fold_watched:
  "watched tok i st iv \<Longrightarrow> \<forall>c \<in> set cs. draws_other tok i c \<Longrightarrow>
     \<exists>iv'. watched tok i (fold (invitation_step add_secs) cs st) iv'"
proof (induction cs arbitrary: st iv)
  case (Cons c cs)
  then have "draws_other tok i c" by simp
  from step_watched [OF Cons.prems(1) this, of add_secs] obtain iv' where
    "watched tok i (invitation_step add_secs c st) iv'" by blast
  from Cons.IH [OF this] Cons.prems(2) show ?case by simp
qed auto

lemma revoked_is_closed:
  assumes "watched tok i st iv"
  shows "\<exists>iv'. watched tok i (snd (revoke_invitation tok st)) iv' \<and> uses_left iv' = 0"
  using assms
  by (auto simp: revoke_invitation_def with_found_def watched_def map_of_AList_update uses_left_def uses_ok_def)

lemma create_watched:
  "create_invitation add_secs tok i now who ps st = Some (iv, st1) \<Longrightarrow>
     watched tok i st1 iv \<and> uses_left iv = max 1 (unat (inv_max_uses iv))"
  by (auto simp: create_invitation_def watched_def map_of_AList_update uses_ok_def uses_left_def Let_def
    split: option.splits)

text \<open>
  C18: whatever is called on the store afterwards, in any order and at any times, an invitation
  is accepted at most as often as it allows, and at most once if it allows none; and once it
  was revoked it is never accepted again.
\<close>

theorem invitation_uses_bounded:
  assumes "create_invitation add_secs tok i now who ps st = Some (iv, st1)"
    and "\<forall>c \<in> set cs. draws_other tok i c"
  shows "acceptances add_secs tok cs st1 \<le> max 1 (unat (inv_max_uses iv)) \<and>
    (\<forall>cs1 cs2. cs = cs1 @ RevokeCall tok # cs2 \<longrightarrow>
      acceptances add_secs tok cs st1 = acceptances add_secs tok cs1 st1)"
proof (intro conjI allI impI)
  note w = create_watched [OF assms(1)]
  show "acceptances add_secs tok cs st1 \<le> max 1 (unat (inv_max_uses iv))"
    using acceptances_bounded [OF conjunct1 [OF w] assms(2)] w by simp
  fix cs1 cs2
  assume cs: "cs = cs1 @ RevokeCall tok # cs2"
  let ?st = "fold (invitation_step add_secs) cs1 st1"
  obtain iv1 where "watched tok i ?st iv1"
    using fold_watched [OF conjunct1 [OF w], of cs1] assms(2) cs by auto
  from revoked_is_closed [OF this] obtain iv2 where
    "watched tok i (snd (revoke_invitation tok ?st)) iv2" "uses_left iv2 = 0" by blast
  with acceptances_bounded [of tok i _ iv2 cs2 add_secs] assms(2) cs
  have "acceptances add_secs tok cs2 (snd (revoke_invitation tok ?st)) = 0" by fastforce
  then show "acceptances add_secs tok cs st1 = acceptances add_secs tok cs1 st1"
    by (simp add: cs acceptances_append)
qed

definition demo_create :: create_invitation_params where
  "demo_create = \<lparr>cip_group_id = 3, cip_mode = Approval, cip_invitee_email = None, cip_role = None,
     cip_max_uses = Some 0, cip_allow_multi_ip = None, cip_ttl_secs = None, cip_open_window_secs = None\<rparr>"

definition demo_accept :: accept_invitation_params where
  "demo_accept = \<lparr>aip_token = ''t'', aip_username = ''u'', aip_password = ''p'', aip_email = None,
     aip_client_ip = None, aip_client_ua = None\<rparr>"

theorem invitation_uses_bounded_witness:
  "\<exists>iv st1. create_invitation (\<lambda>t s. Some (t + s * 1000000000)) ''t'' 1 0 9 demo_create invitation_store_new =
       Some (iv, st1) \<and>
     acceptances (\<lambda>t s. Some (t + s * 1000000000)) ''t''
       [AcceptCall 1 5 demo_accept, AcceptCall 2 6 demo_accept] st1 \<le> 1"
proof -
  have "\<exists>r. create_invitation (\<lambda>t s. Some (t + s * 1000000000)) ''t'' 1 0 9 demo_create invitation_store_new = Some r"
    by (simp add: create_invitation_def Let_def)
  then obtain iv st1 where c:
    "create_invitation (\<lambda>t s. Some (t + s * 1000000000)) ''t'' 1 0 9 demo_create invitation_store_new = Some (iv, st1)"
    by auto
  then have "inv_max_uses iv = 0"
    by (auto simp: create_invitation_def demo_create_def unwrap_or_def Let_def)
  with invitation_uses_bounded [OF c, of "[AcceptCall 1 5 demo_accept, AcceptCall 2 6 demo_accept]"] c
  show ?thesis by auto
qed

end
