(* ===== verification/Kirino_Utils.thy ===== *)
theory Kirino_Utils
  imports Kirino_Prelude
begin

text \<open>
  The utilities of \<^verbatim>\<open>src/utils.rs\<close>: the base64url codec and the comparison in constant time.
  A \<^verbatim>\<open>u8\<close> is an 8-bit word and the accumulator of the decoder a 32-bit word whose shift drops
  the high bits, as in the code. A \<^verbatim>\<open>&str\<close> is the list of its bytes, read as characters.
\<close>

unbundle bit_operations_syntax

subsection \<open>The codec\<close>

definition TABLE :: string where
  "TABLE = ''ABCDEFGHIJKLMNOPQRSTUVWXYZabcdefghijklmnopqrstuvwxyz0123456789-_''"

text \<open>The slice method \<^verbatim>\<open>chunks\<close>.\<close>

function chunks :: "nat \<Rightarrow> 'a list \<Rightarrow> 'a list list" where
  "chunks n xs = (if n = 0 \<or> xs = [] then [] else take n xs # chunks n (drop n xs))"
  by auto
termination by (relation "measure (length \<circ> snd)") auto

declare chunks.simps [simp del]

definition encode_chunk :: "byte list \<Rightarrow> string" where
  "encode_chunk chunk =
     (let b0 = ucast (chunk ! 0) :: u32;
          b1 = (if length chunk > 1 then ucast (chunk ! 1) else 0);
          b2 = (if length chunk > 2 then ucast (chunk ! 2) else 0);
          n = push_bit 16 b0 OR push_bit 8 b1 OR b2
      in [TABLE ! unat (drop_bit 18 n AND 63), TABLE ! unat (drop_bit 12 n AND 63)] @
         (if length chunk > 1 then [TABLE ! unat (drop_bit 6 n AND 63)] else []) @
         (if length chunk > 2 then [TABLE ! unat (n AND 63)] else []))"

definition b64_encode :: "byte list \<Rightarrow> string" where
  "b64_encode bytes = concat (map encode_chunk (chunks 3 bytes))"

datatype base64url_error = InvalidLength | InvalidByte nat byte | NonCanonicalTrailingBits

definition b64_val :: "byte \<Rightarrow> u32 option" where
  "b64_val c =
     (if 65 \<le> c \<and> c \<le> 90 then Some (ucast (c - 65))
      else if 97 \<le> c \<and> c \<le> 122 then Some (ucast (c - 97) + 26)
      else if 48 \<le> c \<and> c \<le> 57 then Some (ucast (c - 48) + 52)
      else if c = 45 then Some 62
      else if c = 95 then Some 63
      else None)"

fun decode_loop ::
  "nat \<Rightarrow> nat \<Rightarrow> u32 \<Rightarrow> nat \<Rightarrow> byte list \<Rightarrow> byte list \<Rightarrow> base64url_error + byte list" where
  "decode_loop len i acc bits out [] = Inr out"
| "decode_loop len i acc bits out (c # cs) =
     (case b64_val c of
        None \<Rightarrow> Inl (InvalidByte i c)
      | Some v \<Rightarrow>
          let acc' = push_bit 6 acc OR v;
              (bits', out') =
                (if bits + 6 \<ge> 8
                 then (bits + 6 - 8, out @ [ucast (drop_bit (bits + 6 - 8) acc' AND 0xff)])
                 else (bits + 6, out))
          in if i = len - 1 \<and> bits' > 0 \<and> acc' AND (push_bit bits' 1 - 1) \<noteq> 0
             then Inl NonCanonicalTrailingBits
             else decode_loop len (Suc i) acc' bits' out' cs)"

definition trim_end_matches :: "char \<Rightarrow> string \<Rightarrow> string" where
  "trim_end_matches c s = rev (dropWhile (\<lambda>x. x = c) (rev s))"

definition b64_decode :: "string \<Rightarrow> base64url_error + byte list" where
  "b64_decode s =
     (if length s mod 4 = 1 then Inl InvalidLength
      else let bytes = map of_char (trim_end_matches CHR ''='' s)
           in decode_loop (length bytes) 0 0 0 [] bytes)"

subsection \<open>The comparison\<close>

text \<open>The loop over the indices of the longer slice; a missing byte counts as zero.\<close>

definition byte_at :: "byte list \<Rightarrow> nat \<Rightarrow> byte" where
  "byte_at a i = (if i < length a then a ! i else 0)"

definition constant_time_eq :: "byte list \<Rightarrow> byte list \<Rightarrow> bool" where
  "constant_time_eq a b =
     (fold (\<lambda>i (diff :: u64). diff OR ucast (byte_at a i XOR byte_at b i))
        [0..<max (length a) (length b)] (if length a \<noteq> length b then 1 else 0) = 0)"

subsection \<open>The alphabet\<close>

lemma TABLE_val: "\<forall>v \<in> set [0..<64]. b64_val (of_char (TABLE ! v)) = Some (of_nat v)"
  by code_simp

lemma b64_val_TABLE: "v < 64 \<Longrightarrow> b64_val (of_char (TABLE ! v)) = Some (of_nat v)"
  using TABLE_val by auto

text \<open>The ranges of the alphabet, on natural numbers.\<close>

lemma b64_val_ranges:
  assumes "b64_val c = Some v"
  shows "65 \<le> unat c \<and> unat c \<le> 90 \<and> unat v = unat c - 65 \<or>
    97 \<le> unat c \<and> unat c \<le> 122 \<and> unat v = unat c - 97 + 26 \<or>
    48 \<le> unat c \<and> unat c \<le> 57 \<and> unat v = unat c - 48 + 52 \<or>
    unat c = 45 \<and> unat v = 62 \<or> unat c = 95 \<and> unat v = 63"
proof -
  have diff: "unat (ucast (c - w) :: u32) = unat c - unat w" if "w \<le> c" for w :: byte
  proof -
    have "unat (ucast (c - w) :: u32) = unat (c - w)"
    proof -
      have "unat (c - w) < 2 ^ LENGTH(8)" by (rule unsigned_less)
      then show ?thesis by (simp add: unsigned_ucast_eq take_bit_nat_eq_self)
    qed
    also have "\<dots> = unat c - unat w" using that by (simp add: unat_sub)
    finally show ?thesis .
  qed
  have add: "unat (w + k) = unat w + unat k" if "unat w < 200" "unat k < 200" for w k :: u32
    using that by (simp add: unat_word_ariths)
  consider "65 \<le> c \<and> c \<le> 90" "v = ucast (c - 65)"
    | "97 \<le> c \<and> c \<le> 122" "v = ucast (c - 97) + 26"
    | "48 \<le> c \<and> c \<le> 57" "v = ucast (c - 48) + 52"
    | "c = 45" "v = 62" | "c = 95" "v = 63"
    using assms unfolding b64_val_def by (metis option.distinct(1) option.inject)
  then show ?thesis
  proof cases
    case 1
    then show ?thesis using diff [of 65] by (simp add: word_le_nat_alt)
  next
    case 2
    then have "unat (ucast (c - 97) :: u32) = unat c - 97" "unat c \<le> 122" "97 \<le> unat c"
      using diff [of 97] by (simp_all add: word_le_nat_alt)
    with add [of "ucast (c - 97)" 26] 2 show ?thesis by simp
  next
    case 3
    then have "unat (ucast (c - 48) :: u32) = unat c - 48" "unat c \<le> 57" "48 \<le> unat c"
      using diff [of 48] by (simp_all add: word_le_nat_alt)
    with add [of "ucast (c - 48)" 52] 3 show ?thesis by simp
  qed simp_all
qed

lemma b64_val_SomeD:
  assumes "b64_val c = Some v"
  shows "unat v < 64" "of_char (TABLE ! unat v) = c"
proof -
  from b64_val_ranges [OF assms] show less: "unat v < 64" by linarith
  then have "b64_val (of_char (TABLE ! unat v)) = Some v" using b64_val_TABLE [of "unat v"] by simp
  from b64_val_ranges [OF this] b64_val_ranges [OF assms]
  have "unat (of_char (TABLE ! unat v) :: byte) = unat c" by linarith
  then show "of_char (TABLE ! unat v) = c" by (simp only: word_unat_eq_iff)
qed

lemma b64_val_unat: "unat (v :: u32) < 64 \<Longrightarrow> b64_val (of_char (TABLE ! unat v)) = Some v"
  using b64_val_TABLE [of "unat v"] by simp

subsection \<open>Groups of sextets\<close>

definition byte0 :: "u32 \<Rightarrow> u32 \<Rightarrow> byte" where
  "byte0 v w = ucast (drop_bit 4 (push_bit 6 v OR w))"

definition byte1 :: "u32 \<Rightarrow> u32 \<Rightarrow> byte" where
  "byte1 v w = ucast (drop_bit 2 (push_bit 6 v OR w))"

definition byte2 :: "u32 \<Rightarrow> u32 \<Rightarrow> byte" where
  "byte2 v w = ucast (push_bit 6 v OR w)"

fun groups :: "u32 list \<Rightarrow> byte list option" where
  "groups [] = Some []"
| "groups [v0] = (if v0 = 0 then Some [] else None)"
| "groups [v0, v1] = (if v1 AND 15 = 0 then Some [byte0 v0 v1] else None)"
| "groups [v0, v1, v2] = (if v2 AND 3 = 0 then Some [byte0 v0 v1, byte1 v1 v2] else None)"
| "groups (v0 # v1 # v2 # v3 # vs) =
     map_option (\<lambda>r. byte0 v0 v1 # byte1 v1 v2 # byte2 v2 v3 # r) (groups vs)"

definition quantum :: "byte \<Rightarrow> byte \<Rightarrow> byte \<Rightarrow> u32" where
  "quantum b0 b1 b2 = push_bit 16 (ucast b0) OR push_bit 8 (ucast b1) OR ucast b2"

abbreviation sextet :: "nat \<Rightarrow> u32 \<Rightarrow> u32" where
  "sextet i n \<equiv> drop_bit i n AND 63"

fun sextets :: "byte list \<Rightarrow> u32 list" where
  "sextets [] = []"
| "sextets [b0] = [sextet 18 (quantum b0 0 0), sextet 12 (quantum b0 0 0)]"
| "sextets [b0, b1] = [sextet 18 (quantum b0 b1 0), sextet 12 (quantum b0 b1 0), sextet 6 (quantum b0 b1 0)]"
| "sextets (b0 # b1 # b2 # bs) =
     sextet 18 (quantum b0 b1 b2) # sextet 12 (quantum b0 b1 b2) # sextet 6 (quantum b0 b1 b2) #
     sextet 0 (quantum b0 b1 b2) # sextets bs"

lemma b64_encode_sextets: "b64_encode bs = map (\<lambda>v. TABLE ! unat v) (sextets bs)"
proof (induction bs rule: sextets.induct)
  case 1
  show ?case by (simp add: b64_encode_def chunks.simps)
next
  case (2 b0)
  show ?case by (simp add: b64_encode_def chunks.simps encode_chunk_def quantum_def Let_def)
next
  case (3 b0 b1)
  show ?case by (simp add: b64_encode_def chunks.simps encode_chunk_def quantum_def Let_def)
next
  case (4 b0 b1 b2 bs)
  have "b64_encode (b0 # b1 # b2 # bs) = encode_chunk [b0, b1, b2] @ b64_encode bs"
    by (subst b64_encode_def, subst chunks.simps) (simp add: b64_encode_def)
  then show ?case by (simp add: 4 encode_chunk_def quantum_def Let_def)
qed

lemma sextet_take_bit: "n AND 63 = take_bit 6 n" for n :: u32
  by (simp add: take_bit_eq_mask mask_eq_exp_minus_1)

lemma sextet_less: "unat (n AND 63) < 64" for n :: u32
proof -
  have "unat (take_bit 6 n) < 2 ^ 6"
    unfolding unsigned_take_bit_eq by (rule take_bit_nat_less_exp)
  then show ?thesis by (simp add: sextet_take_bit)
qed

lemma sextets_less: "v \<in> set (sextets bs) \<Longrightarrow> unat v < 64"
  by (induction bs rule: sextets.induct) (auto simp: sextet_less)


text \<open>A group of four sextets and its three bytes determine each other.\<close>

lemma byte_eqI:
  fixes b c :: byte
  assumes "bit b 0 = bit c 0" "bit b 1 = bit c 1" "bit b 2 = bit c 2" "bit b 3 = bit c 3"
    "bit b 4 = bit c 4" "bit b 5 = bit c 5" "bit b 6 = bit c 6" "bit b 7 = bit c 7"
  shows "b = c"
proof (rule bit_word_eqI)
  fix k assume "k < LENGTH(8)"
  then have "k = 0 \<or> k = 1 \<or> k = 2 \<or> k = 3 \<or> k = 4 \<or> k = 5 \<or> k = 6 \<or> k = 7" by auto
  with assms show "bit b k = bit c k" by blast
qed

lemma sextet_eqI:
  fixes v w :: u32
  assumes "unat v < 64" "unat w < 64"
    and "bit v 0 = bit w 0" "bit v 1 = bit w 1" "bit v 2 = bit w 2" "bit v 3 = bit w 3"
    "bit v 4 = bit w 4" "bit v 5 = bit w 5"
  shows "v = w"
proof (rule bit_word_eqI)
  fix k assume "k < LENGTH(32)"
  have small: "take_bit 6 u = u" if "unat u < 64" for u :: u32
  proof -
    have "unat (take_bit 6 u) = unat u"
      unfolding unsigned_take_bit_eq using that by (simp add: take_bit_nat_eq_self)
    then show ?thesis by (simp only: word_unat_eq_iff)
  qed
  have "k = 0 \<or> k = 1 \<or> k = 2 \<or> k = 3 \<or> k = 4 \<or> k = 5 \<or> 6 \<le> k" by auto
  moreover have "\<not> bit v k \<and> \<not> bit w k" if "6 \<le> k"
    using small [OF assms(1)] small [OF assms(2)] that by (metis bit_take_bit_iff not_less)
  ultimately show "bit v k = bit w k" using assms(3-) by blast
qed

lemma bit_byte_high: "8 \<le> k \<Longrightarrow> \<not> bit (b :: byte) k"
  using bit_imp_le_length by fastforce

lemma bit_sextet_high: "unat (v :: u32) < 64 \<Longrightarrow> 6 \<le> k \<Longrightarrow> \<not> bit v k"
  using sextet_eqI [of v "take_bit 6 v"] sextet_less [of v]
  by (auto simp: sextet_take_bit bit_take_bit_iff) (metis bit_take_bit_iff not_less)

lemma group_bytes:
  "byte0 (sextet 18 (quantum b0 b1 b2)) (sextet 12 (quantum b0 b1 b2)) = b0"
  "byte1 (sextet 12 (quantum b0 b1 b2)) (sextet 6 (quantum b0 b1 b2)) = b1"
  "byte2 (sextet 6 (quantum b0 b1 b2)) (sextet 0 (quantum b0 b1 b2)) = b2"
  unfolding byte0_def byte1_def byte2_def quantum_def sextet_take_bit
  by (rule byte_eqI; simp add: bit_simps bit_byte_high)+

lemma group_sextets:
  assumes "unat v < 64" "unat w < 64" "unat x < 64" "unat y < 64"
  shows "sextet 18 (quantum (byte0 v w) (byte1 w x) (byte2 x y)) = v"
    "sextet 12 (quantum (byte0 v w) (byte1 w x) (byte2 x y)) = w"
    "sextet 6 (quantum (byte0 v w) (byte1 w x) (byte2 x y)) = x"
    "sextet 0 (quantum (byte0 v w) (byte1 w x) (byte2 x y)) = y"
  by (rule sextet_eqI [OF sextet_less];
      simp add: assms byte0_def byte1_def byte2_def quantum_def sextet_take_bit bit_simps
        bit_byte_high assms [THEN bit_sextet_high])+


text \<open>The bits that a short last group leaves unused.\<close>

lemma unused_bits:
  "w AND 15 = 0 \<Longrightarrow> byte1 w 0 = 0"
  "x AND 3 = 0 \<Longrightarrow> byte2 x 0 = 0"
  "byte2 0 0 = 0"
  "sextet 12 (quantum b0 0 0) AND 15 = 0"
  "sextet 6 (quantum b0 b1 0) AND 3 = 0"
proof -
  have low: "\<not> bit u k" if "take_bit n u = 0" "k < n" for u :: u32 and n k
    using that by (metis bit_0_eq bit_take_bit_iff bot_apply bot_bool_def)
  show "byte1 w 0 = 0" if "w AND 15 = 0"
  proof -
    have "take_bit 4 w = 0" using that by (simp add: take_bit_eq_mask mask_eq_exp_minus_1)
    note low [OF this]
    then show ?thesis by (intro byte_eqI; simp add: byte1_def bit_simps)
  qed
  show "byte2 x 0 = 0" if "x AND 3 = 0"
  proof -
    have "take_bit 2 x = 0" using that by (simp add: take_bit_eq_mask mask_eq_exp_minus_1)
    note low [OF this]
    then show ?thesis by (intro byte_eqI; simp add: byte2_def bit_simps)
  qed
  show "byte2 0 0 = 0" by (simp add: byte2_def)
  have "sextet 12 (quantum b0 0 0) AND 15 = take_bit 4 (sextet 12 (quantum b0 0 0))"
    by (simp add: take_bit_eq_mask mask_eq_exp_minus_1)
  also have "\<dots> = 0"
    unfolding sextet_take_bit quantum_def
    by (rule bit_word_eqI) (simp add: bit_simps bit_byte_high)
  finally show "sextet 12 (quantum b0 0 0) AND 15 = 0" .
  have "sextet 6 (quantum b0 b1 0) AND 3 = take_bit 2 (sextet 6 (quantum b0 b1 0))"
    by (simp add: take_bit_eq_mask mask_eq_exp_minus_1)
  also have "\<dots> = 0"
    unfolding sextet_take_bit quantum_def
    by (rule bit_word_eqI) (simp add: bit_simps bit_byte_high)
  finally show "sextet 6 (quantum b0 b1 0) AND 3 = 0" .
qed

lemma groups_sextets: "groups (sextets bs) = Some bs"
proof (induction bs rule: sextets.induct)
  case 1
  show ?case by simp
next
  case (2 b0)
  show ?case using unused_bits(4) [of b0] group_bytes(1) [of b0 0 0] by simp
next
  case (3 b0 b1)
  show ?case
    using unused_bits(5) [of b0 b1] group_bytes(1,2) [of b0 b1 0] by simp
next
  case (4 b0 b1 b2 bs)
  then show ?case using group_bytes [of b0 b1 b2] by simp
qed

lemma sextets_of_bytes:
  assumes "unat v < 64" "unat w < 64"
  shows "w AND 15 = 0 \<Longrightarrow> sextets [byte0 v w] = [v, w]"
    and "unat x < 64 \<Longrightarrow> x AND 3 = 0 \<Longrightarrow> sextets [byte0 v w, byte1 w x] = [v, w, x]"
    and "unat x < 64 \<Longrightarrow> unat y < 64 \<Longrightarrow>
      sextets (byte0 v w # byte1 w x # byte2 x y # bs) = v # w # x # y # sextets bs"
proof -
  have zero: "unat (0 :: u32) < 64" by simp
  show "sextets [byte0 v w] = [v, w]" if "w AND 15 = 0"
    using group_sextets(1,2) [OF assms zero zero]
    by (simp only: sextets.simps unused_bits(1) [OF that] unused_bits(3))
  show "sextets [byte0 v w, byte1 w x] = [v, w, x]" if "unat x < 64" "x AND 3 = 0"
    using group_sextets(1,2,3) [OF assms that(1) zero]
    by (simp only: sextets.simps unused_bits(2) [OF that(2)])
  show "sextets (byte0 v w # byte1 w x # byte2 x y # bs) = v # w # x # y # sextets bs"
    if "unat x < 64" "unat y < 64"
    using group_sextets [OF assms that] by (simp only: sextets.simps)
qed

lemma sextets_groups:
  "groups vs = Some bs \<Longrightarrow> \<forall>v \<in> set vs. unat v < 64 \<Longrightarrow>
     vs = sextets bs \<or> length bs mod 3 = 0 \<and> vs = sextets bs @ [0]"
proof (induction vs arbitrary: bs rule: groups.induct)
  case 1
  then show ?case by simp
next
  case (2 v0)
  then show ?case by (simp split: if_splits)
next
  case (3 v0 v1)
  then have "v1 AND 15 = 0" "bs = [byte0 v0 v1]" by (simp_all only: groups.simps option.simps split: if_splits)
  moreover have "unat v0 < 64" "unat v1 < 64" using 3(2) by simp_all
  ultimately have "sextets bs = [v0, v1]" by (simp only: sextets_of_bytes(1))
  then show ?case by (simp only: simp_thms)
next
  case (4 v0 v1 v2)
  then have "v2 AND 3 = 0" "bs = [byte0 v0 v1, byte1 v1 v2]"
    by (simp_all only: groups.simps option.simps split: if_splits)
  moreover have "unat v0 < 64" "unat v1 < 64" "unat v2 < 64" using 4(2) by simp_all
  ultimately have "sextets bs = [v0, v1, v2]" by (simp only: sextets_of_bytes(2))
  then show ?case by (simp only: simp_thms)
next
  case (5 v0 v1 v2 v3 vs)
  then obtain r where r: "groups vs = Some r" "bs = byte0 v0 v1 # byte1 v1 v2 # byte2 v2 v3 # r"
    by auto
  have "length bs mod 3 = length r mod 3"
    unfolding r(2) list.size by presburger
  moreover have "vs = sextets r \<or> length r mod 3 = 0 \<and> vs = sextets r @ [0]"
    using 5(1) [OF r(1)] 5(3) by simp
  moreover have "unat v0 < 64" "unat v1 < 64" "unat v2 < 64" "unat v3 < 64" using 5(3) by simp_all
  then have "sextets bs = v0 # v1 # v2 # v3 # sextets r" unfolding r(2) by (rule sextets_of_bytes(3))
  ultimately show ?case by (simp only: append_Cons) blast
qed

text \<open>The decoder's loop over whole groups: what is left of the accumulator does not matter.\<close>

definition shift_in :: "u32 \<Rightarrow> u32 \<Rightarrow> u32" where
  "shift_in acc v = push_bit 6 acc OR v"

lemma decode_bytes:
  "ucast (drop_bit 4 (shift_in (shift_in acc v) w) AND 255) = byte0 v w"
  "ucast (drop_bit 2 (shift_in (shift_in acc v) w) AND 255) = byte1 v w"
  "ucast (shift_in (shift_in acc v) w AND 255) = byte2 v w"
proof -
  have m: "n AND 255 = take_bit 8 n" for n :: u32
    by (simp add: take_bit_eq_mask mask_eq_exp_minus_1)
  show "ucast (drop_bit 4 (shift_in (shift_in acc v) w) AND 255) = byte0 v w"
    "ucast (drop_bit 2 (shift_in (shift_in acc v) w) AND 255) = byte1 v w"
    "ucast (shift_in (shift_in acc v) w AND 255) = byte2 v w"
    unfolding m byte0_def byte1_def byte2_def shift_in_def by (rule byte_eqI; simp add: bit_simps)+
qed

lemma low_bits:
  "shift_in acc v AND 63 = v AND 63"
  "shift_in acc v AND 15 = v AND 15"
  "shift_in acc v AND 3 = v AND 3"
proof -
  have m: "n AND 63 = take_bit 6 n" "n AND 15 = take_bit 4 n" "n AND 3 = take_bit 2 n" for n :: u32
    by (simp_all add: take_bit_eq_mask mask_eq_exp_minus_1)
  show "shift_in acc v AND 63 = v AND 63" "shift_in acc v AND 15 = v AND 15"
    "shift_in acc v AND 3 = v AND 3"
    unfolding m shift_in_def by (rule bit_word_eqI; auto simp: bit_simps)+
qed

lemma decode_loop_step:
  "b64_val c = Some v \<Longrightarrow> decode_loop len i acc 0 out (c # cs) =
     (if i = len - 1 \<and> shift_in acc v AND 63 \<noteq> 0 then Inl NonCanonicalTrailingBits
      else decode_loop len (Suc i) (shift_in acc v) 6 out cs)"
  "b64_val c = Some v \<Longrightarrow> decode_loop len i acc 6 out (c # cs) =
     (if i = len - 1 \<and> shift_in acc v AND 15 \<noteq> 0 then Inl NonCanonicalTrailingBits
      else decode_loop len (Suc i) (shift_in acc v) 4
        (out @ [ucast (drop_bit 4 (shift_in acc v) AND 255)]) cs)"
  "b64_val c = Some v \<Longrightarrow> decode_loop len i acc 4 out (c # cs) =
     (if i = len - 1 \<and> shift_in acc v AND 3 \<noteq> 0 then Inl NonCanonicalTrailingBits
      else decode_loop len (Suc i) (shift_in acc v) 2
        (out @ [ucast (drop_bit 2 (shift_in acc v) AND 255)]) cs)"
  "b64_val c = Some v \<Longrightarrow> decode_loop len i acc 2 out (c # cs) =
     decode_loop len (Suc i) (shift_in acc v) 0 (out @ [ucast (shift_in acc v AND 255)]) cs"
  unfolding shift_in_def by (simp_all only: decode_loop.simps) (simp_all add: Let_def)

lemma sextet_zero: "unat v < 64 \<Longrightarrow> v AND 63 = 0 \<longleftrightarrow> v = 0" for v :: u32
  using sextet_eqI [OF sextet_less, of v v] by (auto simp: sextet_take_bit bit_simps)

lemma decode_loop_groups:
  "map b64_val cs = map Some vs \<Longrightarrow> i + length cs = len \<Longrightarrow>
     decode_loop len i acc 0 out cs =
       (case groups vs of Some r \<Rightarrow> Inr (out @ r) | None \<Rightarrow> Inl NonCanonicalTrailingBits)"
proof (induction vs arbitrary: i acc out cs rule: groups.induct)
  case 1
  then show ?case by simp
next
  case (2 v0)
  then obtain c0 where c: "cs = [c0]" "b64_val c0 = Some v0" by (auto simp: Cons_eq_map_conv)
  then have "v0 AND 63 = 0 \<longleftrightarrow> v0 = 0" using b64_val_SomeD sextet_zero by blast
  then show ?case using 2(2) c by (auto simp: decode_loop_step low_bits simp del: decode_loop.simps(2))
next
  case (3 v0 v1)
  then obtain c0 c1 where c: "cs = [c0, c1]" "b64_val c0 = Some v0" "b64_val c1 = Some v1"
    by (auto simp: Cons_eq_map_conv)
  then show ?case using 3(2) by (auto simp: decode_loop_step low_bits decode_bytes simp del: decode_loop.simps(2))
next
  case (4 v0 v1 v2)
  then obtain c0 c1 c2 where c: "cs = [c0, c1, c2]" "b64_val c0 = Some v0" "b64_val c1 = Some v1"
      "b64_val c2 = Some v2"
    by (auto simp: Cons_eq_map_conv)
  then show ?case using 4(2) by (auto simp: decode_loop_step low_bits decode_bytes simp del: decode_loop.simps(2))
next
  case (5 v0 v1 v2 v3 vs)
  then obtain c0 c1 c2 c3 ds where c: "cs = c0 # c1 # c2 # c3 # ds" "b64_val c0 = Some v0"
      "b64_val c1 = Some v1" "b64_val c2 = Some v2" "b64_val c3 = Some v3" "map b64_val ds = map Some vs"
    by (auto simp: Cons_eq_map_conv)
  have len: "Suc (Suc (Suc (Suc i))) + length ds = len" using 5(3) c(1) by simp
  note ih = 5(1) [OF c(6) len]
  show ?case
    using len unfolding c(1) by (auto simp: c(2-5) decode_loop_step decode_bytes ih simp del: decode_loop.simps(2) split: option.split)
qed


subsection \<open>What the decoder accepts\<close>

lemma groups_sextets_zero: "length bs mod 3 = 0 \<Longrightarrow> groups (sextets bs @ [0]) = Some bs"
proof (induction bs rule: sextets.induct)
  case (4 b0 b1 b2 bs)
  then have "length bs mod 3 = 0" unfolding list.size by presburger
  with 4 show ?case using group_bytes [of b0 b1 b2] by simp
qed simp_all

lemma of_char_byte_inj: "(of_char c :: byte) = of_char d \<longleftrightarrow> c = d"
proof -
  have "unat (of_char c :: byte) = of_char c" for c
  proof -
    have "unat (of_char c :: byte) = unat (of_nat (of_char c) :: byte)" by (simp only: of_nat_of_char)
    also have "\<dots> = of_char c"
      using nat_of_char_less_256 [of c] by (simp only: unat_of_nat) simp
    finally show ?thesis .
  qed
  then show ?thesis by (metis of_char_eq_iff)
qed

lemma decode_loop_valid: "decode_loop len i acc bits out cs = Inr r \<Longrightarrow> c \<in> set cs \<Longrightarrow> b64_val c \<noteq> None"
  by (induction cs arbitrary: i acc bits out)
    (auto simp: Let_def split: option.splits if_splits prod.splits)

lemma decode_loop_exact:
  "decode_loop (length cs) 0 0 0 [] (map of_char cs) = Inr bs \<longleftrightarrow>
     cs = b64_encode bs \<or> length bs mod 3 = 0 \<and> cs = b64_encode bs @ ''A''"
  (is "?l \<longleftrightarrow> ?r")
proof
  assume l: ?l
  define vs where "vs = map (\<lambda>c. the (b64_val (of_char c))) cs"
  have val: "b64_val (of_char c) = Some (the (b64_val (of_char c)))" if "c \<in> set cs" for c
    using decode_loop_valid [OF l, of "of_char c"] that by auto
  then have m: "map b64_val (map of_char cs) = map Some vs" by (simp add: vs_def)
  from l decode_loop_groups [OF m] have "groups vs = Some bs" by (simp split: option.splits)
  moreover have "\<forall>v \<in> set vs. unat v < 64" using val b64_val_SomeD(1) by (auto simp: vs_def)
  ultimately have vs: "vs = sextets bs \<or> length bs mod 3 = 0 \<and> vs = sextets bs @ [0]"
    by (rule sextets_groups)
  have "TABLE ! unat (the (b64_val (of_char c))) = c" if "c \<in> set cs" for c
    using b64_val_SomeD(2) [OF val [OF that]] by (simp add: of_char_byte_inj)
  then have "cs = map (\<lambda>v. TABLE ! unat v) vs" by (simp add: vs_def map_idI)
  with vs show ?r by (auto simp: b64_encode_sextets TABLE_def)
next
  assume ?r
  then obtain vs where vs: "cs = map (\<lambda>v. TABLE ! unat v) vs" "groups vs = Some bs"
      "\<forall>v \<in> set vs. unat v < 64"
  proof
    assume "cs = b64_encode bs"
    then show ?thesis
      using that [of "sextets bs"] sextets_less groups_sextets by (auto simp: b64_encode_sextets)
  next
    assume "length bs mod 3 = 0 \<and> cs = b64_encode bs @ ''A''"
    then show ?thesis
      using that [of "sextets bs @ [0]"] sextets_less groups_sextets_zero [of bs]
      by (auto simp: b64_encode_sextets TABLE_def)
  qed
  then have "map b64_val (map of_char cs) = map Some vs" by (simp add: b64_val_unat)
  from decode_loop_groups [OF this] vs(2) show ?l by simp
qed


lemma trim_end_split: "\<exists>k. s = trim_end_matches c s @ replicate k c"
proof -
  have "s = rev (dropWhile (\<lambda>x. x = c) (rev s)) @ rev (takeWhile (\<lambda>x. x = c) (rev s))"
    by (simp flip: rev_append)
  moreover have "replicate (length (takeWhile (\<lambda>x. x = c) (rev s))) c = rev (takeWhile (\<lambda>x. x = c) (rev s))"
    using replicate_length_same [of "rev (takeWhile (\<lambda>x. x = c) (rev s))" c]
    by (auto dest: set_takeWhileD)
  ultimately show ?thesis unfolding trim_end_matches_def by metis
qed

lemma trim_end_padded:
  "t = [] \<or> List.last t \<noteq> c \<Longrightarrow> trim_end_matches c (t @ replicate k c) = t"
proof -
  assume "t = [] \<or> List.last t \<noteq> c"
  then have "dropWhile (\<lambda>x. x = c) (rev t) = rev t" by (cases t rule: rev_cases) auto
  then show ?thesis
    using dropWhile_append2 [of "replicate k c" "\<lambda>x. x = c" "rev t"]
    by (simp add: trim_end_matches_def)
qed

lemma TABLE_no_padding: "v < 64 \<Longrightarrow> TABLE ! v \<noteq> CHR ''=''"
proof -
  assume "v < 64"
  moreover have "length TABLE = 64" by (simp add: TABLE_def)
  ultimately have "TABLE ! v \<in> set TABLE" by (metis nth_mem)
  moreover have "CHR ''='' \<notin> set TABLE" by (simp add: TABLE_def)
  ultimately show ?thesis by metis
qed

lemma b64_encode_no_padding: "c \<in> set (b64_encode bs) \<Longrightarrow> c \<noteq> CHR ''=''"
  using sextets_less TABLE_no_padding by (auto simp: b64_encode_sextets)

lemma length_sextets: "length (sextets bs) mod 4 \<noteq> 1"
proof (induction bs rule: sextets.induct)
  case (4 b0 b1 b2 bs)
  then show ?case unfolding sextets.simps list.size by presburger
qed simp_all

text \<open>
  Every input that decodes, however it is padded: the encoding itself with padding characters
  after it, or, which no encoder produces, the same with one more letter \<open>A\<close> after whole groups.
\<close>

lemma b64_decode_inputs:
  "b64_decode (b64_encode bs) = Inr bs \<and>
   (b64_decode s = Inr bs \<longleftrightarrow> length s mod 4 \<noteq> 1 \<and>
     (\<exists>k. s = b64_encode bs @ replicate k CHR ''='' \<or>
       length bs mod 3 = 0 \<and> s = b64_encode bs @ ''A'' @ replicate k CHR ''=''))"
proof -
  have last: "t = [] \<or> List.last t \<noteq> CHR ''=''" if "t = b64_encode bs \<or> t = b64_encode bs @ ''A''" for t
  proof (cases "t = []")
    case False
    then have "List.last t \<in> set t" by simp
    then show ?thesis using that b64_encode_no_padding [of "List.last t" bs] by auto
  qed simp
  have exact: "b64_decode s = Inr bs \<longleftrightarrow> length s mod 4 \<noteq> 1 \<and>
     (\<exists>k. s = b64_encode bs @ replicate k CHR ''='' \<or>
       length bs mod 3 = 0 \<and> s = b64_encode bs @ ''A'' @ replicate k CHR ''='')" for s
  proof -
    let ?t = "trim_end_matches CHR ''='' s"
    have "b64_decode s = Inr bs \<longleftrightarrow> length s mod 4 \<noteq> 1 \<and>
        (?t = b64_encode bs \<or> length bs mod 3 = 0 \<and> ?t = b64_encode bs @ ''A'')"
      using decode_loop_exact [of ?t bs] by (simp add: b64_decode_def Let_def)
    also have "\<dots> \<longleftrightarrow> length s mod 4 \<noteq> 1 \<and>
       (\<exists>k. s = b64_encode bs @ replicate k CHR ''='' \<or>
         length bs mod 3 = 0 \<and> s = (b64_encode bs @ ''A'') @ replicate k CHR ''='')"
      using trim_end_split [of s "CHR ''=''"] trim_end_padded [OF last] by metis
    finally show ?thesis by simp
  qed
  have "length (b64_encode bs) mod 4 \<noteq> 1"
    unfolding b64_encode_sextets length_map by (rule length_sextets)
  then have "b64_decode (b64_encode bs) = Inr bs"
    unfolding exact by (intro conjI exI [of _ 0] disjI1) simp_all
  then show ?thesis using exact [of s] by (rule conjI)
qed

lemma append_replicate_eq:
  assumes "c \<notin> set t" "c \<notin> set u"
  shows "t @ replicate k c = u @ replicate j c \<longleftrightarrow> t = u \<and> k = j"
proof
  assume eq: "t @ replicate k c = u @ replicate j c"
  have "takeWhile (\<lambda>x. x \<noteq> c) (v @ replicate n c) = v" if "c \<notin> set v" for v n
    using that by (induction v) (auto simp: takeWhile_replicate)
  with assms eq have "t = u" by metis
  with eq show "t = u \<and> k = j" by (metis append_eq_append_conv length_replicate same_append_eq)
qed simp

lemma b64_decode_encode: "b64_decode (b64_encode bs) = Inr bs"
  using b64_decode_inputs [of bs] by simp

text \<open>
  So inputs of the same length with stray padding can decode to the same bytes.
\<close>

lemma base64url_not_canonical:
  "b64_decode ''QUJDA==='' = b64_decode ''QUJD===='' \<and> b64_decode ''QUJDA==='' = Inr [65, 66, 67]"
  by code_simp

lemma length_b64_encode: "length (b64_encode bs) mod 4 \<noteq> 1" "length bs mod 3 = 0 \<Longrightarrow> length (b64_encode bs) mod 4 = 0"
proof -
  show "length (b64_encode bs) mod 4 \<noteq> 1" unfolding b64_encode_sextets length_map by (rule length_sextets)
  show "length (b64_encode bs) mod 4 = 0" if "length bs mod 3 = 0"
    unfolding b64_encode_sextets length_map using that
  proof (induction bs rule: sextets.induct)
    case (4 b0 b1 b2 bs)
    then show ?case unfolding sextets.simps list.size by presburger
  qed simp_all
qed

text \<open>
  C19: the codec is a bijection between byte strings and their texts. Encoding emits no padding and
  decoding inverts it; and a text in either form RFC 4648 knows, without padding or with the one
  or two padding characters that fill its last group of four, decodes to given bytes exactly when
  what stands before the padding is their encoding. So in these forms two texts that decode to
  the same bytes are the same up to their padding: impossible lengths, foreign bytes and
  trailing bits that are not zero are all refused.
\<close>

theorem base64url_codec_exact:
  assumes "CHR ''='' \<notin> set t" and "k = 0 \<or> k \<le> 2 \<and> (length t + k) mod 4 = 0"
  shows "b64_decode (b64_encode bs) = Inr bs \<and> CHR ''='' \<notin> set (b64_encode bs) \<and>
    (b64_decode (t @ replicate k CHR ''='') = Inr bs \<longleftrightarrow> t = b64_encode bs)"
proof -
  have split: "t @ replicate k CHR ''='' = u @ replicate j CHR ''='' \<longleftrightarrow> t = u \<and> k = j" if "CHR ''='' \<notin> set u" for u j
    using assms(1) that by (rule append_replicate_eq)
  have enc: "CHR ''='' \<notin> set (b64_encode bs)" using b64_encode_no_padding by blast
  have "b64_decode (t @ replicate k CHR ''='') = Inr bs \<longleftrightarrow> (length t + k) mod 4 \<noteq> 1 \<and>
     (t = b64_encode bs \<or> length bs mod 3 = 0 \<and> t = b64_encode bs @ ''A'')"
    using b64_decode_inputs [of bs "t @ replicate k CHR ''=''"] split [of "b64_encode bs"] split [of "b64_encode bs @ ''A''"] enc
    by auto
  also have "\<dots> \<longleftrightarrow> t = b64_encode bs"
  proof -
    have "\<not> (length bs mod 3 = 0 \<and> t = b64_encode bs @ ''A'' \<and> (length t + k) mod 4 \<noteq> 1)"
    proof (intro notI; elim conjE)
      assume t: "length bs mod 3 = 0" "t = b64_encode bs @ ''A''" "(length t + k) mod 4 \<noteq> 1"
      then have "length t mod 4 = 1" using length_b64_encode(2) [of bs] by (simp add: mod_Suc)
      with assms(2) t(3) show False by presburger
    qed
    moreover have "(length t + k) mod 4 \<noteq> 1" if "t = b64_encode bs"
      using that assms(2) length_b64_encode(1) [of bs] by auto
    ultimately show ?thesis by argo
  qed
  finally show ?thesis using b64_decode_inputs [of bs "b64_encode bs"] enc by blast
qed

theorem base64url_codec_exact_witness:
  "b64_decode ''QUI='' = Inr [65, 66] \<and> b64_decode ''QUJ='' \<noteq> Inr [65, 66] \<and> b64_decode ''QUI'' = Inr [65, 66]"
proof -
  have e: "b64_encode [65, 66] = ''QUI''" by code_simp
  show ?thesis
    using base64url_codec_exact [of "''QUI''" 1 "[65, 66]"] base64url_codec_exact [of "''QUJ''" 1 "[65, 66]"]
      base64url_codec_exact [of "''QUI''" 0 "[65, 66]"] e by simp
qed

subsection \<open>The comparison is equality\<close>

lemma fold_or_zero:
  "fold (\<lambda>i (diff :: u64). diff OR f i) is d = 0 \<longleftrightarrow> d = 0 \<and> (\<forall>i \<in> set is. f i = 0)"
  by (induction "is" arbitrary: d) (auto simp: or_eq_0_iff)

lemma constant_time_eq_iff: "constant_time_eq a b \<longleftrightarrow> a = b"
proof -
  have "(ucast (x XOR y) :: u64) = 0 \<longleftrightarrow> x = y" for x y :: byte
  proof -
    have "(ucast (x XOR y) :: u64) = 0 \<longleftrightarrow> unat (ucast (x XOR y) :: u64) = 0" by (simp only: unat_eq_0)
    also have "\<dots> \<longleftrightarrow> unat (x XOR y) = 0"
    proof -
      have "unat (x XOR y) < 2 ^ LENGTH(8)" by (rule unsigned_less)
      then show ?thesis by (simp add: unsigned_ucast_eq take_bit_nat_eq_self)
    qed
    also have "\<dots> \<longleftrightarrow> x XOR y = 0" by (simp only: unat_eq_0)
    also have "\<dots> \<longleftrightarrow> x = y" by (auto simp: bit_eq_iff bit_xor_iff)
    finally show ?thesis .
  qed
  then have "constant_time_eq a b \<longleftrightarrow> length a = length b \<and> (\<forall>i < max (length a) (length b). byte_at a i = byte_at b i)"
    by (auto simp: constant_time_eq_def fold_or_zero)
  also have "\<dots> \<longleftrightarrow> a = b" by (auto simp: byte_at_def list_eq_iff_nth_eq)
  finally show ?thesis .
qed

end
