(* ===== verification/Unicode_Text.thy ===== *)
theory Unicode_Text
  imports Kirino_Prelude
begin

text \<open>
  Texts whose characters beyond ASCII matter. A \<^verbatim>\<open>char\<close> is its Unicode scalar value, a \<^verbatim>\<open>str\<close>
  the list of them, \<open>as_bytes\<close> its UTF-8 encoding, whose length is \<^verbatim>\<open>str::len\<close>. Encoding is
  injective. The operations of the standard library that the components use on such texts
  are here too; those that rest on the tables of the Unicode database are fields of
  \<open>unicode_tables\<close>, which are only assumed to be right on ASCII.
\<close>

type_synonym scalar = nat

text \<open>\<^verbatim>\<open>char::is_whitespace\<close>, the Unicode property White_Space.\<close>

definition is_whitespace :: "scalar \<Rightarrow> bool" where
  "is_whitespace c \<longleftrightarrow> 9 \<le> c \<and> c \<le> 13 \<or> c = 32 \<or> c = 0x85 \<or> c = 0xA0 \<or> c = 0x1680 \<or>
     0x2000 \<le> c \<and> c \<le> 0x200A \<or> c = 0x2028 \<or> c = 0x2029 \<or> c = 0x202F \<or> c = 0x205F \<or> c = 0x3000"

definition to_ascii_uppercase :: "scalar \<Rightarrow> scalar" where
  "to_ascii_uppercase c = (if 97 \<le> c \<and> c \<le> 122 then c - 32 else c)"

definition to_ascii_lowercase :: "scalar \<Rightarrow> scalar" where
  "to_ascii_lowercase c = (if 65 \<le> c \<and> c \<le> 90 then c + 32 else c)"

text \<open>\<^verbatim>\<open>str::trim\<close>.\<close>

definition trim :: "scalar list \<Rightarrow> scalar list" where
  "trim s = rev (dropWhile is_whitespace (rev (dropWhile is_whitespace s)))"

definition ascii :: "string \<Rightarrow> scalar list" where
  "ascii s = map of_char s"

definition is_ascii_digit :: "scalar \<Rightarrow> bool" where
  "is_ascii_digit c \<longleftrightarrow> 48 \<le> c \<and> c \<le> 57"

definition is_ascii_alphanumeric :: "scalar \<Rightarrow> bool" where
  "is_ascii_alphanumeric c \<longleftrightarrow> is_ascii_digit c \<or> 65 \<le> c \<and> c \<le> 90 \<or> 97 \<le> c \<and> c \<le> 122"

text \<open>
  \<^verbatim>\<open>str::to_lowercase\<close>, \<^verbatim>\<open>char::is_uppercase\<close>, \<^verbatim>\<open>char::is_lowercase\<close>, \<^verbatim>\<open>char::is_alphanumeric\<close>
  and what their documentation says of ASCII.
\<close>

record unicode_tables =
  to_lowercase :: "scalar list \<Rightarrow> scalar list"
  is_uppercase :: "scalar \<Rightarrow> bool"
  is_lowercase :: "scalar \<Rightarrow> bool"
  is_alphanumeric :: "scalar \<Rightarrow> bool"

definition ascii_ok :: "unicode_tables \<Rightarrow> bool" where
  "ascii_ok u \<longleftrightarrow> (\<forall>c < 128.
     (is_uppercase u c \<longleftrightarrow> 65 \<le> c \<and> c \<le> 90) \<and>
     (is_lowercase u c \<longleftrightarrow> 97 \<le> c \<and> c \<le> 122) \<and>
     (is_alphanumeric u c \<longleftrightarrow> is_ascii_alphanumeric c)) \<and>
   (\<forall>s. (\<forall>c \<in> set s. c < 128) \<longrightarrow> to_lowercase u s = map to_ascii_lowercase s)"

text \<open>Tables that know ASCII only, for examples.\<close>

definition ascii_tables :: unicode_tables where
  "ascii_tables = \<lparr>to_lowercase = map to_ascii_lowercase,
     is_uppercase = (\<lambda>c. 65 \<le> c \<and> c \<le> 90), is_lowercase = (\<lambda>c. 97 \<le> c \<and> c \<le> 122),
     is_alphanumeric = is_ascii_alphanumeric\<rparr>"

lemma ascii_tables_ok [simp]: "ascii_ok ascii_tables"
  by (simp add: ascii_ok_def ascii_tables_def)

subsection \<open>UTF-8\<close>

definition utf8 :: "scalar \<Rightarrow> nat list" where
  "utf8 c =
     (if c < 0x80 then [c]
      else if c < 0x800 then [0xC0 + c div 64, 0x80 + c mod 64]
      else if c < 0x10000 then [0xE0 + c div 4096, 0x80 + c div 64 mod 64, 0x80 + c mod 64]
      else [0xF0 + c div 262144, 0x80 + c div 4096 mod 64, 0x80 + c div 64 mod 64, 0x80 + c mod 64])"

definition as_bytes :: "scalar list \<Rightarrow> byte list" where
  "as_bytes s = map of_nat (concat (map utf8 s))"

fun utf8_next :: "nat list \<Rightarrow> (scalar \<times> nat list) option" where
  "utf8_next [] = None"
| "utf8_next (b0 # r) =
     (if b0 < 0x80 then Some (b0, r)
      else if b0 < 0xE0 then Some ((b0 - 0xC0) * 64 + (hd r - 0x80), tl r)
      else if b0 < 0xF0 then Some (((b0 - 0xE0) * 64 + (r ! 0 - 0x80)) * 64 + (r ! 1 - 0x80), drop 2 r)
      else Some ((((b0 - 0xF0) * 64 + (r ! 0 - 0x80)) * 64 + (r ! 1 - 0x80)) * 64 + (r ! 2 - 0x80), drop 3 r))"

lemma sextet_digits:
  fixes c :: nat
  shows "c div 64 * 64 + c mod 64 = c"
    "(c div 4096 * 64 + c div 64 mod 64) * 64 + c mod 64 = c"
    "((c div 262144 * 64 + c div 4096 mod 64) * 64 + c div 64 mod 64) * 64 + c mod 64 = c"
proof -
  have d: "c div 4096 = c div 64 div 64" "c div 262144 = c div 64 div 64 div 64"
    by (simp_all add: div_mult2_eq [symmetric])
  have e: "x div 64 * 64 + x mod 64 = x" for x :: nat by (rule div_mult_mod_eq)
  show "c div 64 * 64 + c mod 64 = c"
    "(c div 4096 * 64 + c div 64 mod 64) * 64 + c mod 64 = c"
    "((c div 262144 * 64 + c div 4096 mod 64) * 64 + c div 64 mod 64) * 64 + c mod 64 = c"
    unfolding d by (simp_all only: e)
qed

lemma utf8_next: "c < 0x110000 \<Longrightarrow> utf8_next (utf8 c @ r) = Some (c, r)"
proof -
  assume c: "c < 0x110000"
  consider "c < 0x80" | "0x80 \<le> c" "c < 0x800" | "0x800 \<le> c" "c < 0x10000" | "0x10000 \<le> c"
    by linarith
  then show ?thesis
  proof cases
    case 1
    then show ?thesis by (simp add: utf8_def)
  next
    case 2
    then have "c div 64 < 32" "2 \<le> c div 64" by linarith+
    with 2 show ?thesis by (simp add: utf8_def sextet_digits(1))
  next
    case 3
    then have "c div 4096 < 16" by linarith
    with 3 show ?thesis
      using sextet_digits(2) [of c] by (simp add: utf8_def numeral_2_eq_2 algebra_simps)
  next
    case 4
    with c have "c div 262144 < 5" by linarith
    with 4 show ?thesis
      using sextet_digits(3) [of c]
      by (simp add: utf8_def numeral_2_eq_2 numeral_3_eq_3 algebra_simps)
  qed
qed

lemma utf8_bytes: "c < 0x110000 \<Longrightarrow> b \<in> set (utf8 c) \<Longrightarrow> b < 256"
proof -
  assume c: "c < 0x110000" and b: "b \<in> set (utf8 c)"
  have "x mod 64 < 64" for x :: nat by simp
  moreover have "c < 0x800 \<Longrightarrow> c div 64 < 32" "c < 0x10000 \<Longrightarrow> c div 4096 < 16" "c div 262144 < 5"
    using c by linarith+
  ultimately show ?thesis using b by (fastforce simp: utf8_def split: if_splits)
qed

lemma utf8_list_inj:
  "\<forall>c \<in> set s. c < 0x110000 \<Longrightarrow> \<forall>c \<in> set t. c < 0x110000 \<Longrightarrow>
     concat (map utf8 s) = concat (map utf8 t) \<Longrightarrow> s = t"
proof (induction s arbitrary: t)
  case Nil
  then show ?case by (cases t) (auto simp: utf8_def split: if_splits)
next
  case (Cons c s)
  show ?case
  proof (cases t)
    case Nil
    with Cons.prems(3) show ?thesis by (auto simp: utf8_def split: if_splits)
  next
    case (Cons d t')
    have "utf8_next (utf8 c @ concat (map utf8 s)) = utf8_next (utf8 d @ concat (map utf8 t'))"
      using Cons.prems(3) by (simp add: Cons)
    with Cons.prems(1,2) Cons.IH [of t'] show ?thesis by (simp add: Cons utf8_next)
  qed
qed

lemma as_bytes_inj:
  assumes "\<forall>c \<in> set s. c < 0x110000" "\<forall>c \<in> set t. c < 0x110000"
  shows "as_bytes s = as_bytes t \<longleftrightarrow> s = t"
proof
  assume eq: "as_bytes s = as_bytes t"
  have inj: "inj_on (of_nat :: nat \<Rightarrow> byte) (set (concat (map utf8 s)) \<union> set (concat (map utf8 t)))"
  proof (rule inj_onI)
    fix x y assume "x \<in> set (concat (map utf8 s)) \<union> set (concat (map utf8 t))"
      "y \<in> set (concat (map utf8 s)) \<union> set (concat (map utf8 t))" "(of_nat x :: byte) = of_nat y"
    moreover have "x < 256" "y < 256" using calculation(1,2) assms utf8_bytes by auto
    moreover have "unat (of_nat n :: byte) = n" if "n < 256" for n
      using that by (simp add: unsigned_of_nat take_bit_nat_eq_self)
    ultimately show "x = y" by metis
  qed
  have "concat (map utf8 s) = concat (map utf8 t)"
    by (rule iffD1 [OF inj_on_map_eq_map [OF inj] eq [unfolded as_bytes_def]])
  then show "s = t" by (rule utf8_list_inj [OF assms])
qed simp

lemma utf8_length: "length (utf8 c) = (if c < 0x80 then 1 else if c < 0x800 then 2 else if c < 0x10000 then 3 else 4)"
  by (simp add: utf8_def)

text \<open>\<^verbatim>\<open>str::len\<close> counts bytes.\<close>

definition str_len :: "scalar list \<Rightarrow> nat" where
  "str_len s = length (as_bytes s)"

lemma str_len_Cons: "str_len (c # s) = length (utf8 c) + str_len s"
  by (simp add: str_len_def as_bytes_def)

lemma str_len_ascii: "\<forall>c \<in> set s. c < 128 \<Longrightarrow> str_len s = length s"
  by (induction s) (simp_all add: str_len_Cons utf8_length, simp add: str_len_def as_bytes_def)

lemma str_len_ge: "length s \<le> str_len s"
  by (induction s) (simp_all add: str_len_Cons utf8_length)

lemma trim_split: "\<exists>a b. s = a @ trim s @ b"
proof -
  let ?t = "dropWhile is_whitespace s"
  have "s = takeWhile is_whitespace s @ ?t" by simp
  also have "?t = rev (takeWhile is_whitespace (rev ?t) @ dropWhile is_whitespace (rev ?t))" by simp
  also have "\<dots> = trim s @ rev (takeWhile is_whitespace (rev ?t))"
    unfolding rev_append trim_def by simp
  finally show ?thesis by blast
qed

lemma set_trim: "set (trim s) \<subseteq> set s"
  using trim_split [of s] by (metis Un_subset_iff set_append subsetI Un_iff)

lemma trim_id:
  assumes "s = [] \<or> \<not> is_whitespace (hd s) \<and> \<not> is_whitespace (List.last s)"
  shows "trim s = s"
proof (cases s rule: rev_cases)
  case (snoc t c)
  with assms have "\<not> is_whitespace (hd s)" "\<not> is_whitespace c" by auto
  moreover from this(1) have "dropWhile is_whitespace s = s" by (cases s) (simp_all only: list.sel dropWhile.simps if_False)
  ultimately show ?thesis by (simp add: trim_def snoc)
qed (simp add: trim_def)

lemma trim_trim [simp]: "trim (trim s) = trim s"
proof (rule trim_id, cases "trim s = []")
  case False
  let ?t = "dropWhile is_whitespace s"
  from False have t: "dropWhile is_whitespace (rev ?t) \<noteq> []" "?t \<noteq> []"
    unfolding trim_def by (auto simp del: dropWhile_eq_Nil_conv)
  have "rev ?t = takeWhile is_whitespace (rev ?t) @ rev (trim s)" by (simp add: trim_def)
  then have "?t = trim s @ rev (takeWhile is_whitespace (rev ?t))"
    by (metis rev_append rev_rev_ident)
  then have "hd ?t = hd (trim s)" using False by (metis hd_append2)
  with hd_dropWhile [OF t(2)] have "\<not> is_whitespace (hd (trim s))" by simp
  moreover have "\<not> is_whitespace (List.last (trim s))"
    using hd_dropWhile [OF t(1)] by (simp add: trim_def last_rev)
  ultimately show "trim s = [] \<or> \<not> is_whitespace (hd (trim s)) \<and> \<not> is_whitespace (List.last (trim s))"
    by simp
qed simp

lemma trim_no_space: "\<forall>c \<in> set s. \<not> is_whitespace c \<Longrightarrow> trim s = s"
  by (rule trim_id) (cases "s = []"; simp)

end
