(* ===== verification/Invitation_Codes.thy ===== *)
theory Invitation_Codes
  imports Kirino_Utils Unicode_Text
begin

text \<open>
  Invitation codes and tokens: \<^verbatim>\<open>src/invitation/code.rs\<close> and \<^verbatim>\<open>src/invitation/token.rs\<close>. The
  code's rules are about characters beyond ASCII, so texts are lists of Unicode scalar values
  (\<open>Unicode_Text\<close>). Random bytes are arguments.
\<close>

subsection \<open>Definitions\<close>

definition CODE_ALPHABET :: "scalar list" where
  "CODE_ALPHABET = map of_char ''0123456789ABCDEFGHJKMNPQRSTVWXYZ''"

definition generate_code :: "byte list \<Rightarrow> scalar list" where
  "generate_code bytes = map (\<lambda>b. CODE_ALPHABET ! unat (b AND 31)) bytes"

definition separator :: "scalar \<Rightarrow> bool" where
  "separator c \<longleftrightarrow> is_whitespace c \<or> c = of_char CHR ''-'' \<or> c = of_char CHR ''_''"

definition canonical :: "scalar \<Rightarrow> scalar" where
  "canonical c =
     (if c \<in> set (map of_char ''iIlL'') then of_char CHR ''1''
      else if c \<in> set (map of_char ''oO'') then of_char CHR ''0''
      else if c \<in> set (map of_char ''uU'') then of_char CHR ''V''
      else to_ascii_uppercase c)"

definition normalize_code :: "scalar list \<Rightarrow> scalar list" where
  "normalize_code raw = map canonical (filter (\<lambda>c. \<not> separator c) raw)"

definition verify_code :: "scalar list \<Rightarrow> scalar list \<Rightarrow> bool" where
  "verify_code raw expected =
     (let candidate = normalize_code raw; expected' = normalize_code expected
      in constant_time_eq (as_bytes candidate) (as_bytes expected'))"

definition hex_digit :: "byte \<Rightarrow> char" where
  "hex_digit n = ''0123456789abcdef'' ! unat n"

definition generate_token :: "byte list \<Rightarrow> string" where
  "generate_token bytes = concat (map (\<lambda>b. [hex_digit (drop_bit 4 b), hex_digit (b AND 15)]) bytes)"

subsection \<open>Verification\<close>

lemma canonical_valid: "c < 0x110000 \<Longrightarrow> canonical c < 0x110000"
  by (simp add: canonical_def to_ascii_uppercase_def less_imp_diff_less)

lemma normalize_valid: "\<forall>c \<in> set s. c < 0x110000 \<Longrightarrow> \<forall>c \<in> set (normalize_code s). c < 0x110000"
  by (auto simp: normalize_code_def canonical_valid)

lemma verify_code_iff:
  "\<forall>c \<in> set raw. c < 0x110000 \<Longrightarrow> \<forall>c \<in> set expected. c < 0x110000 \<Longrightarrow>
     verify_code raw expected \<longleftrightarrow> normalize_code raw = normalize_code expected"
  using as_bytes_inj [OF normalize_valid normalize_valid]
  by (simp add: verify_code_def constant_time_eq_iff Let_def)

subsection \<open>How a code may be typed\<close>

text \<open>A typed character that is read as a character of the alphabet.\<close>

definition reads_as :: "scalar \<Rightarrow> scalar \<Rightarrow> bool" where
  "reads_as r c \<longleftrightarrow> r = c \<or> to_ascii_uppercase r = c \<and> c \<in> set (map of_char ''ABCDEFGHJKMNPQRSTVWXYZ'') \<or>
     c = of_char CHR ''1'' \<and> r \<in> set (map of_char ''iIlL'') \<or>
     c = of_char CHR ''0'' \<and> r \<in> set (map of_char ''oO'') \<or>
     c = of_char CHR ''V'' \<and> r \<in> set (map of_char ''uU'')"

lemma alphabet_canonical: "\<forall>c \<in> set CODE_ALPHABET. canonical c = c \<and> \<not> separator c \<and> c < 128"
  by (simp add: CODE_ALPHABET_def canonical_def separator_def is_whitespace_def to_ascii_uppercase_def)

lemma canonical_reads_as:
  assumes "c \<in> set CODE_ALPHABET"
  shows "canonical r = c \<longleftrightarrow> reads_as r c"
proof -
  define L :: "scalar set" where "L = set (map of_char ''ABCDEFGHJKMNPQRSTVWXYZ'')"
  have L: "65 \<le> x \<and> x \<le> 90" if "x \<in> L" for x using that by (auto simp: L_def)
  have notL: "73 \<notin> L" "76 \<notin> L" "79 \<notin> L" "85 \<notin> L" by (simp_all add: L_def)
  have c: "c \<in> L \<or> 48 \<le> c \<and> c \<le> 57" using assms by (auto simp: CODE_ALPHABET_def L_def)
  have reads: "reads_as r c \<longleftrightarrow> r = c \<or> to_ascii_uppercase r = c \<and> c \<in> L \<or>
      c = 49 \<and> r \<in> {105, 73, 108, 76} \<or> c = 48 \<and> r \<in> {111, 79} \<or> c = 86 \<and> r \<in> {117, 85}"
    by (simp add: reads_as_def L_def)
  have can: "canonical r = (if r \<in> {105, 73, 108, 76} then 49 else if r \<in> {111, 79} then 48
      else if r \<in> {117, 85} then 86 else to_ascii_uppercase r)"
    by (simp add: canonical_def)
  consider "r \<in> {105, 73, 108, 76}" | "r \<in> {111, 79}" | "r \<in> {117, 85}"
    | "r \<notin> {105, 73, 108, 76, 111, 79, 117, 85}" by blast
  then show ?thesis
  proof cases
    case 1
    then have "r \<notin> L \<and> to_ascii_uppercase r \<notin> L \<and> 57 < r"
      using L [of r] L [of "to_ascii_uppercase r"] notL by (auto simp: to_ascii_uppercase_def)
    with 1 c show ?thesis unfolding reads can by auto
  next
    case 2
    then have "r \<notin> L \<and> to_ascii_uppercase r \<notin> L \<and> 57 < r"
      using L [of r] L [of "to_ascii_uppercase r"] notL by (auto simp: to_ascii_uppercase_def)
    with 2 c show ?thesis unfolding reads can by auto
  next
    case 3
    then have "r \<notin> L \<and> to_ascii_uppercase r \<notin> L \<and> 57 < r"
      using L [of r] L [of "to_ascii_uppercase r"] notL by (auto simp: to_ascii_uppercase_def)
    with 3 c show ?thesis unfolding reads can by auto
  next
    case 4
    then have "canonical r = to_ascii_uppercase r" unfolding can by auto
    moreover have "reads_as r c \<longleftrightarrow> r = c \<or> to_ascii_uppercase r = c \<and> c \<in> L" using 4 unfolding reads by auto
    moreover have "r = c \<Longrightarrow> to_ascii_uppercase r = c" using c L [of c] by (auto simp: to_ascii_uppercase_def)
    moreover have "to_ascii_uppercase r = c \<Longrightarrow> c \<in> L \<or> r = c"
      using c by (auto simp: to_ascii_uppercase_def split: if_splits)
    ultimately show ?thesis by metis
  qed
qed

lemma generate_code_alphabet: "c \<in> set (generate_code bytes) \<Longrightarrow> c \<in> set CODE_ALPHABET"
proof -
  have "unat (b AND 31) < 32" for b :: byte
  proof -
    have "b AND 31 = take_bit 5 b" by (simp add: take_bit_eq_mask mask_eq_exp_minus_1)
    moreover have "unat (take_bit 5 b) < 2 ^ 5" unfolding unsigned_take_bit_eq by (rule take_bit_nat_less_exp)
    ultimately show ?thesis by simp
  qed
  moreover have "length CODE_ALPHABET = 32" by (simp add: CODE_ALPHABET_def)
  ultimately show "c \<in> set (generate_code bytes) \<Longrightarrow> c \<in> set CODE_ALPHABET"
    unfolding generate_code_def using nth_mem by force
qed

text \<open>
  Two codes verify against each other exactly when their canonical forms are equal, so
  neither the length nor a prefix of the stored code is compared on its own; and a typed text
  verifies against a generated code exactly when, separators left out, it has its length and
  each character reads as the generated one: itself, its lower case, or a look-alike.
\<close>

theorem verify_code_exact:
  assumes "\<forall>c \<in> set raw. c < 0x110000" and "\<forall>c \<in> set expected. c < 0x110000"
  shows "(verify_code raw expected \<longleftrightarrow> normalize_code raw = normalize_code expected) \<and>
    (verify_code raw (generate_code bytes) \<longleftrightarrow>
      list_all2 reads_as (filter (\<lambda>c. \<not> separator c) raw) (generate_code bytes))"
proof
  show "verify_code raw expected \<longleftrightarrow> normalize_code raw = normalize_code expected"
    using assms by (rule verify_code_iff)
  let ?c = "generate_code bytes"
  have "\<forall>c \<in> set ?c. canonical c = c \<and> \<not> separator c \<and> c < 0x110000"
    using generate_code_alphabet alphabet_canonical by fastforce
  then have c: "normalize_code ?c = ?c" "\<forall>c \<in> set ?c. c < 0x110000"
    by (auto simp: normalize_code_def map_idI filter_True)
  have "verify_code raw ?c \<longleftrightarrow> map canonical (filter (\<lambda>c. \<not> separator c) raw) = ?c"
    using verify_code_iff [OF assms(1) c(2)] c(1) by (simp add: normalize_code_def)
  also have "\<dots> \<longleftrightarrow> list_all2 (\<lambda>r c. canonical r = c) (filter (\<lambda>c. \<not> separator c) raw) ?c"
    by (simp add: list_all2_map1 list.rel_eq [symmetric])
  also have "\<dots> \<longleftrightarrow> list_all2 reads_as (filter (\<lambda>c. \<not> separator c) raw) ?c"
    by (intro list.rel_cong refl canonical_reads_as generate_code_alphabet)
  finally show "verify_code raw ?c \<longleftrightarrow> list_all2 reads_as (filter (\<lambda>c. \<not> separator c) raw) ?c" .
qed


theorem verify_code_exact_witness:
  "verify_code (map of_char ''lo-x'') (map of_char ''10X'')"
proof -
  have "\<forall>c \<in> set (map of_char ''lo-x''). c < (0x110000 :: nat)"
    and "\<forall>c \<in> set (map of_char ''10X''). c < (0x110000 :: nat)" by simp_all
  from verify_code_exact [OF this, of "[]"]
  show ?thesis
    by (simp add: normalize_code_def separator_def is_whitespace_def canonical_def to_ascii_uppercase_def)
qed

text \<open>A token has two digits for each random byte, and two different draws never make the same one.\<close>

lemma generate_token_length: "length (generate_token bytes) = 2 * length bytes"
  by (induction bytes) (simp_all add: generate_token_def)

lemma hex_digits_inj:
  "hex_digit (drop_bit 4 b) = hex_digit (drop_bit 4 c) \<Longrightarrow> hex_digit (b AND 15) = hex_digit (c AND 15) \<Longrightarrow> b = c"
proof -
  assume hi: "hex_digit (drop_bit 4 b) = hex_digit (drop_bit 4 c)"
    and lo: "hex_digit (b AND 15) = hex_digit (c AND 15)"
  have d: "distinct (''0123456789abcdef'' :: string)" "length (''0123456789abcdef'' :: string) = 16" by simp_all
  have inj: "v = w" if "hex_digit v = hex_digit w" "unat v < 16" "unat w < 16" for v w :: byte
    using that nth_eq_iff_index_eq [OF d(1)] d(2) by (simp add: hex_digit_def word_unat_eq_iff)
  have nib: "unat (drop_bit 4 x) < 16" "unat (x AND 15) < 16" for x :: byte
  proof -
    have "unat x < 2 ^ LENGTH(8)" by (rule unsigned_less)
    then show "unat (drop_bit 4 x) < 16" by (simp add: drop_bit_eq_div unat_div_distrib less_mult_imp_div_less)
    have "x AND 15 = take_bit 4 x" by (simp add: take_bit_eq_mask mask_eq_exp_minus_1)
    moreover have "unat (take_bit 4 x) < 2 ^ 4" unfolding unsigned_take_bit_eq by (rule take_bit_nat_less_exp)
    ultimately show "unat (x AND 15) < 16" by simp
  qed
  have parts: "drop_bit 4 b = drop_bit 4 c" "b AND 15 = c AND 15" using inj hi lo nib by blast+
  have "x = push_bit 4 (drop_bit 4 x) OR x AND 15" for x :: byte
  proof -
    have "x AND 15 = take_bit 4 x" by (simp add: take_bit_eq_mask mask_eq_exp_minus_1)
    then show ?thesis by (simp add: bit_eq_iff bit_simps) auto
  qed
  with parts show "b = c" by metis
qed

lemma generate_token_inj: "generate_token bs = generate_token cs \<Longrightarrow> bs = cs"
proof (induction bs arbitrary: cs)
  case Nil
  then show ?case by (cases cs) (simp_all add: generate_token_def)
next
  case (Cons b bs)
  then show ?case by (cases cs) (auto simp: generate_token_def dest: hex_digits_inj)
qed

end
