(* ===== verification/Login_Policy.thy ===== *)
theory Login_Policy
  imports Unicode_Text
begin

text \<open>
  What the login service checks before it reads anything: the switch for password login
  (\<^verbatim>\<open>src/service/login/policy.rs\<close>), the shape of usernames and passwords and the rate limiter
  (\<^verbatim>\<open>src/service/login/mod.rs\<close>), and the generator of temporary passwords
  (\<^verbatim>\<open>src/auth/passport/static_password.rs\<close>), whose random draws are arguments. The counter
  of attempts never exceeds the configured maximum, so it is a natural number; an \<^verbatim>\<open>Instant\<close> is
  an integer in nanoseconds, and \<^verbatim>\<open>duration_since\<close> is never negative.
\<close>

subsection \<open>The switch\<close>

datatype password_login_policy = PolicyEnabled | PolicyDisabled

definition parse_policy :: "scalar list \<Rightarrow> password_login_policy option" where
  "parse_policy raw =
     (let s = map to_ascii_lowercase (trim raw)
      in if s \<in> set (map ascii [''enabled'', ''on'', ''1'', ''true'']) then Some PolicyEnabled
         else if s \<in> set (map ascii [''disabled'', ''off'', ''0'', ''false'']) then Some PolicyDisabled
         else None)"

fun policy_is_enabled :: "password_login_policy \<Rightarrow> bool" where
  "policy_is_enabled PolicyEnabled = True"
| "policy_is_enabled PolicyDisabled = False"

fun policy_as_str :: "password_login_policy \<Rightarrow> scalar list" where
  "policy_as_str PolicyEnabled = ascii ''enabled''"
| "policy_as_str PolicyDisabled = ascii ''disabled''"

lemma parse_canonical:
  "parse_policy (policy_as_str PolicyEnabled) = Some PolicyEnabled"
  "parse_policy (policy_as_str PolicyDisabled) = Some PolicyDisabled"
  by (simp_all add: parse_policy_def trim_def ascii_def is_whitespace_def to_ascii_lowercase_def)

lemma policy_roundtrip: "parse_policy (policy_as_str p) = Some p"
  by (cases p) (simp_all only: parse_canonical)

subsection \<open>Usernames and passwords\<close>

definition MIN_PASSWORD_LEN :: nat where "MIN_PASSWORD_LEN = 8"
definition MAX_PASSWORD_LEN :: nat where "MAX_PASSWORD_LEN = 128"
definition MIN_USERNAME_LEN :: nat where "MIN_USERNAME_LEN = 2"
definition MAX_USERNAME_LEN :: nat where "MAX_USERNAME_LEN = 64"

definition username_char :: "scalar \<Rightarrow> bool" where
  "username_char c \<longleftrightarrow> is_ascii_alphanumeric c \<or> c \<in> set (ascii ''_-.'')"

definition validate_username :: "scalar list \<Rightarrow> scalar list result" where
  "validate_username username =
     (let trimmed = trim username
      in if trimmed = [] \<or> str_len trimmed < MIN_USERNAME_LEN
         then Inl (Validation ''username must be at least 2 characters'')
         else if str_len trimmed > MAX_USERNAME_LEN
         then Inl (Validation ''username must be at most 64 characters'')
         else if \<not> list_all username_char trimmed
         then Inl (Validation ''username may only contain alphanumeric characters, underscores, hyphens, and dots'')
         else Inr trimmed)"

definition password_categories :: "unicode_tables \<Rightarrow> scalar list \<Rightarrow> bool list" where
  "password_categories u password =
     [list_ex (is_uppercase u) password, list_ex (is_lowercase u) password,
      list_ex is_ascii_digit password, list_ex (\<lambda>c. \<not> is_alphanumeric u c) password]"

definition validate_password :: "unicode_tables \<Rightarrow> scalar list \<Rightarrow> unit result" where
  "validate_password u password =
     (if str_len password < MIN_PASSWORD_LEN
      then Inl (Validation ''password must be at least 8 characters'')
      else if str_len password > MAX_PASSWORD_LEN
      then Inl (Validation ''password must be at most 128 characters'')
      else if length (filter id (password_categories u password)) < 3
      then Inl (Validation ''password must contain at least 3 of: uppercase, lowercase, digit, special character'')
      else Inr ())"

lemma username_char_ascii: "username_char c \<Longrightarrow> c < 128 \<and> \<not> is_whitespace c"
  by (auto simp: username_char_def is_ascii_alphanumeric_def is_ascii_digit_def ascii_def is_whitespace_def)

lemma validate_username_Inr:
  "validate_username raw = Inr name \<longleftrightarrow>
     name = trim raw \<and> 2 \<le> length name \<and> length name \<le> 64 \<and> (\<forall>c \<in> set name. username_char c)"
proof -
  have "str_len (trim raw) = length (trim raw)" if "\<forall>c \<in> set (trim raw). username_char c"
    using that username_char_ascii by (intro str_len_ascii) blast
  then show ?thesis
    by (auto simp: validate_username_def Let_def list_all_iff MIN_USERNAME_LEN_def MAX_USERNAME_LEN_def)
qed

lemma valid_username_fixed: "validate_username raw = Inr name \<Longrightarrow> trim name = name"
  by (simp add: validate_username_Inr)

subsection \<open>Temporary passwords\<close>

definition TEMPORARY_PASSWORD_LEN :: nat where "TEMPORARY_PASSWORD_LEN = 20"
definition TEMP_UPPER :: "scalar list" where "TEMP_UPPER = ascii ''ABCDEFGHJKLMNPQRSTUVWXYZ''"
definition TEMP_LOWER :: "scalar list" where "TEMP_LOWER = ascii ''abcdefghijkmnopqrstuvwxyz''"
definition TEMP_DIGIT :: "scalar list" where "TEMP_DIGIT = ascii ''23456789''"
definition TEMP_SYMBOL :: "scalar list" where "TEMP_SYMBOL = ascii ''-_.=,''"

definition temp_pools :: "scalar list list" where
  "temp_pools = [TEMP_UPPER, TEMP_LOWER, TEMP_DIGIT, TEMP_SYMBOL]"

text \<open>The swaps of the shuffle, from the last index down to 1; \<open>js\<close> holds the drawn indices.\<close>

fun shuffle_down :: "nat \<Rightarrow> nat list \<Rightarrow> 'a list \<Rightarrow> 'a list" where
  "shuffle_down 0 js chars = chars"
| "shuffle_down (Suc i) [] chars = chars"
| "shuffle_down (Suc i) (j # js) chars =
     shuffle_down i js (chars[Suc i := chars ! j, j := chars ! Suc i])"

definition generate_temporary_password :: "nat list \<Rightarrow> nat list \<Rightarrow> nat list \<Rightarrow> scalar list" where
  "generate_temporary_password firsts rests js =
     (let chars = map2 (\<lambda>pool d. pool ! d) temp_pools firsts;
          pool = concat temp_pools;
          chars' = chars @ map (\<lambda>d. pool ! d) (take (TEMPORARY_PASSWORD_LEN - length chars) rests)
      in shuffle_down (length chars' - 1) js chars')"

text \<open>The draws lie in the ranges the generator asks for, and there are enough of them.\<close>

definition draws_ok :: "nat list \<Rightarrow> nat list \<Rightarrow> nat list \<Rightarrow> bool" where
  "draws_ok firsts rests js \<longleftrightarrow>
     list_all2 (\<lambda>d pool. d < length pool) firsts temp_pools \<and>
     length rests = 16 \<and> (\<forall>d \<in> set rests. d < length (concat temp_pools)) \<and>
     length js = 19 \<and> (\<forall>k < 19. js ! k \<le> 19 - k)"

lemma shuffle_down_mset:
  "i < length xs \<Longrightarrow> length js = i \<Longrightarrow> \<forall>k < i. js ! k \<le> i - k \<Longrightarrow> mset (shuffle_down i js xs) = mset xs"
proof (induction i js xs rule: shuffle_down.induct)
  case (3 i j js xs)
  from "3.prems" have j: "j \<le> Suc i" by (auto dest: spec [of _ 0])
  have "\<forall>k < i. js ! k \<le> i - k"
  proof safe
    fix k assume "k < i"
    with "3.prems"(3) have "(j # js) ! Suc k \<le> Suc i - Suc k" by blast
    then show "js ! k \<le> i - k" by simp
  qed
  with 3 j show ?case
    using mset_swap [of "Suc i" xs j] by (simp add: mset_swap)
qed auto

lemma list_ex_mset: "mset xs = mset ys \<Longrightarrow> list_ex P xs = list_ex P ys"
  by (metis list_ex_iff set_mset_mset)

lemma temp_pool_classes:
  "\<forall>c \<in> set TEMP_UPPER. 65 \<le> c \<and> c \<le> 90" "\<forall>c \<in> set TEMP_LOWER. 97 \<le> c \<and> c \<le> 122"
  "\<forall>c \<in> set TEMP_DIGIT. 48 \<le> c \<and> c \<le> 57"
  "\<forall>c \<in> set TEMP_SYMBOL. c < 128 \<and> \<not> is_ascii_alphanumeric c"
  by (simp_all add: TEMP_UPPER_def TEMP_LOWER_def TEMP_DIGIT_def TEMP_SYMBOL_def ascii_def
      is_ascii_alphanumeric_def is_ascii_digit_def)

lemma temp_pool_ascii: "c \<in> set (concat temp_pools) \<Longrightarrow> c < 128"
  using temp_pool_classes by (fastforce simp: temp_pools_def)

lemma nth_pool: "\<forall>c \<in> set pool. P c \<Longrightarrow> d < length pool \<Longrightarrow> P (pool ! d)"
  by simp

lemma ascii_upper: "ascii_ok u \<Longrightarrow> 65 \<le> c \<and> c \<le> 90 \<Longrightarrow> is_uppercase u c"
  and ascii_lower: "ascii_ok u \<Longrightarrow> 97 \<le> c \<and> c \<le> 122 \<Longrightarrow> is_lowercase u c"
  by (simp_all add: ascii_ok_def)

lemma temporary_password_mset:
  assumes "draws_ok firsts rests js"
  obtains a b c d where "mset (generate_temporary_password firsts rests js) =
      mset ([TEMP_UPPER ! a, TEMP_LOWER ! b, TEMP_DIGIT ! c, TEMP_SYMBOL ! d] @ map ((!) (concat temp_pools)) rests)"
    "a < length TEMP_UPPER" "b < length TEMP_LOWER" "c < length TEMP_DIGIT" "d < length TEMP_SYMBOL"
proof -
  from assms obtain a b c d where f: "firsts = [a, b, c, d]" and
    d: "a < length TEMP_UPPER" "b < length TEMP_LOWER" "c < length TEMP_DIGIT" "d < length TEMP_SYMBOL"
    by (auto simp: draws_ok_def temp_pools_def list_all2_Cons2)
  let ?cs = "[TEMP_UPPER ! a, TEMP_LOWER ! b, TEMP_DIGIT ! c, TEMP_SYMBOL ! d] @ map ((!) (concat temp_pools)) rests"
  have len: "length ?cs = 20" "take 16 rests = rests" "length js = 19" "\<forall>k < 19. js ! k \<le> 19 - k"
    using assms by (simp_all add: draws_ok_def)
  then have "generate_temporary_password firsts rests js = shuffle_down 19 js ?cs"
    by (simp add: generate_temporary_password_def f TEMPORARY_PASSWORD_LEN_def Let_def temp_pools_def)
  moreover have "mset (shuffle_down 19 js ?cs) = mset ?cs"
    by (rule shuffle_down_mset [OF _ len(3,4)]) (simp only: len(1))
  ultimately show thesis using that d by metis
qed

text \<open>
  A generated temporary password has twenty characters and passes the password policy,
  whatever the random draws.
\<close>

theorem temporary_password_is_valid:
  assumes "ascii_ok u" "draws_ok firsts rests js"
  shows "length (generate_temporary_password firsts rests js) = 20 \<and>
    validate_password u (generate_temporary_password firsts rests js) = Inr ()"
proof -
  let ?p = "generate_temporary_password firsts rests js"
  obtain a b c d where m: "mset ?p =
      mset ([TEMP_UPPER ! a, TEMP_LOWER ! b, TEMP_DIGIT ! c, TEMP_SYMBOL ! d] @ map ((!) (concat temp_pools)) rests)"
    and l: "a < length TEMP_UPPER" "b < length TEMP_LOWER" "c < length TEMP_DIGIT" "d < length TEMP_SYMBOL"
    using temporary_password_mset [OF assms(2)] by metis
  have in_p: "TEMP_UPPER ! a \<in> set ?p" "TEMP_LOWER ! b \<in> set ?p" "TEMP_DIGIT ! c \<in> set ?p"
    "TEMP_SYMBOL ! d \<in> set ?p"
    using arg_cong [OF m, of set_mset] by auto
  have len: "length ?p = 20"
    using arg_cong [OF m, of size] assms(2) by (simp add: draws_ok_def)
  have pools: "TEMP_UPPER ! a \<in> set (concat temp_pools)" "TEMP_LOWER ! b \<in> set (concat temp_pools)"
    "TEMP_DIGIT ! c \<in> set (concat temp_pools)" "TEMP_SYMBOL ! d \<in> set (concat temp_pools)"
    using l by (simp_all add: temp_pools_def)
  have "x \<in> set (concat temp_pools)" if "x \<in> set ?p" for x
  proof -
    from that m have "x \<in> set_mset (mset ([TEMP_UPPER ! a, TEMP_LOWER ! b, TEMP_DIGIT ! c, TEMP_SYMBOL ! d]
        @ map ((!) (concat temp_pools)) rests))" by (metis set_mset_mset)
    then consider "x \<in> {TEMP_UPPER ! a, TEMP_LOWER ! b, TEMP_DIGIT ! c, TEMP_SYMBOL ! d}"
      | k where "k \<in> set rests" "x = concat temp_pools ! k" by auto
    then show ?thesis
    proof cases
      case 1
      with pools show ?thesis by blast
    next
      case 2
      with assms(2) show ?thesis unfolding draws_ok_def by (metis nth_mem)
    qed
  qed
  then have "str_len ?p = 20" using len str_len_ascii [of ?p] temp_pool_ascii by simp
  moreover have "list_ex (is_uppercase u) ?p" "list_ex (is_lowercase u) ?p" "list_ex is_ascii_digit ?p"
    using in_p ascii_upper [OF assms(1)] ascii_lower [OF assms(1)]
      nth_pool [OF temp_pool_classes(1) l(1)] nth_pool [OF temp_pool_classes(2) l(2)]
      nth_pool [OF temp_pool_classes(3) l(3)]
    unfolding list_ex_iff is_ascii_digit_def by blast+
  ultimately show ?thesis
    using len by (simp add: validate_password_def password_categories_def MIN_PASSWORD_LEN_def MAX_PASSWORD_LEN_def)
qed

theorem temporary_password_is_valid_witness:
  "length (generate_temporary_password [0, 1, 2, 3] (replicate 16 5) (replicate 19 0)) = 20 \<and>
    validate_password ascii_tables (generate_temporary_password [0, 1, 2, 3] (replicate 16 5) (replicate 19 0)) = Inr ()"
  by (rule temporary_password_is_valid)
    (simp, simp add: draws_ok_def temp_pools_def TEMP_UPPER_def TEMP_LOWER_def TEMP_DIGIT_def
      TEMP_SYMBOL_def ascii_def)

end
