(* ===== verification/Rate_Limiter.thy ===== *)
theory Rate_Limiter
  imports Login_Policy
begin

text \<open>
  \<^verbatim>\<open>LoginRateLimiter\<close> of \<^verbatim>\<open>src/service/login/mod.rs\<close>: a fixed window of failures per key with a
  lockout, and the pruning of the table at its soft cap. Each operation holds the write lock
  for its whole body. Windows and lockouts are given in seconds, instants in nanoseconds.
\<close>

record rate_limit_entry =
  rle_attempts :: nat
  rle_window_start :: instant

record login_rate_limiter =
  rl_max_attempts :: nat
  rl_window_secs :: nat
  rl_lockout_secs :: nat
  rl_policy :: password_login_policy
  rl_entries :: "(scalar list, rate_limit_entry) hash_map"

definition RATE_LIMITER_MAX_ENTRIES :: nat where
  "RATE_LIMITER_MAX_ENTRIES = 10000"

definition limiter_new :: "nat \<Rightarrow> nat \<Rightarrow> nat \<Rightarrow> login_rate_limiter" where
  "limiter_new max_attempts window_secs lockout_secs =
     \<lparr>rl_max_attempts = max_attempts, rl_window_secs = window_secs, rl_lockout_secs = lockout_secs,
      rl_policy = PolicyEnabled, rl_entries = []\<rparr>"

definition with_policy :: "password_login_policy \<Rightarrow> login_rate_limiter \<Rightarrow> login_rate_limiter" where
  "with_policy p rl = rl\<lparr>rl_policy := p\<rparr>"

definition set_policy :: "password_login_policy \<Rightarrow> login_rate_limiter \<Rightarrow> login_rate_limiter" where
  "set_policy p rl = rl\<lparr>rl_policy := p\<rparr>"

definition duration_from_secs :: "nat \<Rightarrow> int" where
  "duration_from_secs s = int s * 1000000000"

definition duration_since :: "instant \<Rightarrow> instant \<Rightarrow> int" where
  "duration_since now earlier = max 0 (now - earlier)"

definition limiter_key :: "unicode_tables \<Rightarrow> scalar list \<Rightarrow> scalar list" where
  "limiter_key u key = to_lowercase u (trim key)"

definition total_window :: "login_rate_limiter \<Rightarrow> int" where
  "total_window rl = duration_from_secs (rl_window_secs rl + rl_lockout_secs rl)"

definition prune_elapsed :: "instant \<Rightarrow> login_rate_limiter \<Rightarrow> (scalar list, rate_limit_entry) hash_map" where
  "prune_elapsed now rl =
     (if length (rl_entries rl) \<ge> RATE_LIMITER_MAX_ENTRIES
      then filter (\<lambda>(_, entry). duration_since now (rle_window_start entry) \<le> total_window rl) (rl_entries rl)
      else rl_entries rl)"

definition check_and_record_failure ::
  "unicode_tables \<Rightarrow> instant \<Rightarrow> scalar list \<Rightarrow> login_rate_limiter \<Rightarrow> unit result \<times> login_rate_limiter" where
  "check_and_record_failure u now raw rl =
     (if \<not> policy_is_enabled (rl_policy rl) then (Inr (), rl)
      else
        let key = limiter_key u raw;
            entries = prune_elapsed now rl;
            entry = (case map_of entries key of
                       Some e \<Rightarrow> e
                     | None \<Rightarrow> \<lparr>rle_attempts = 0, rle_window_start = now\<rparr>);
            elapsed = duration_since now (rle_window_start entry);
            window_duration = duration_from_secs (rl_window_secs rl);
            should_reset = elapsed > total_window rl \<or>
              elapsed > window_duration \<and> rle_attempts entry < rl_max_attempts rl;
            entry1 = (if should_reset then \<lparr>rle_attempts = 0, rle_window_start = now\<rparr> else entry);
            remaining = max 0 (total_window rl - elapsed)
        in if rle_attempts entry1 \<ge> rl_max_attempts rl \<and> remaining > 0
           then (Inl (Validation (''too many login attempts, try again in '' @
                   decimal (nat (remaining div 1000000000)) @ '' seconds'')),
                 rl\<lparr>rl_entries := AList.update key entry1 entries\<rparr>)
           else
             let entry2 = (if rle_attempts entry1 \<ge> rl_max_attempts rl
                           then \<lparr>rle_attempts = 0, rle_window_start = now\<rparr> else entry1)
             in (Inr (), rl\<lparr>rl_entries :=
                   AList.update key (entry2\<lparr>rle_attempts := rle_attempts entry2 + 1\<rparr>) entries\<rparr>))"

definition limiter_reset :: "unicode_tables \<Rightarrow> scalar list \<Rightarrow> login_rate_limiter \<Rightarrow> login_rate_limiter" where
  "limiter_reset u raw rl =
     (if \<not> policy_is_enabled (rl_policy rl) then rl
      else rl\<lparr>rl_entries := AList.delete (limiter_key u raw) (rl_entries rl)\<rparr>)"

subsection \<open>One key at a time\<close>

text \<open>What an attempt does to the entry of its own key, when the limiter is on and
  allows any attempt at all.\<close>

definition attempt_entry ::
  "login_rate_limiter \<Rightarrow> instant \<Rightarrow> rate_limit_entry option \<Rightarrow> bool \<times> rate_limit_entry" where
  "attempt_entry rl now e =
     (case e of
        None \<Rightarrow> (True, \<lparr>rle_attempts = 1, rle_window_start = now\<rparr>)
      | Some entry \<Rightarrow>
          let elapsed = duration_since now (rle_window_start entry)
          in if elapsed > total_window rl then (True, \<lparr>rle_attempts = 1, rle_window_start = now\<rparr>)
             else if rle_attempts entry < rl_max_attempts rl
             then (True, if elapsed > duration_from_secs (rl_window_secs rl)
                         then \<lparr>rle_attempts = 1, rle_window_start = now\<rparr>
                         else entry\<lparr>rle_attempts := rle_attempts entry + 1\<rparr>)
             else if elapsed < total_window rl then (False, entry)
             else (True, \<lparr>rle_attempts = 1, rle_window_start = now\<rparr>))"

lemma total_window_nonneg [simp]: "0 \<le> total_window rl"
  by (simp add: total_window_def duration_from_secs_def)

lemma window_le_total: "duration_from_secs (rl_window_secs rl) \<le> total_window rl"
  by (simp add: total_window_def duration_from_secs_def)

lemma check_of_own_key:
  assumes on: "policy_is_enabled (rl_policy rl)" and max: "rl_max_attempts rl > 0"
    and e: "map_of (prune_elapsed now rl) (limiter_key u raw) = e"
  shows "is_ok (fst (check_and_record_failure u now raw rl)) = fst (attempt_entry rl now e)"
    and "rl_entries (snd (check_and_record_failure u now raw rl)) =
      AList.update (limiter_key u raw) (snd (attempt_entry rl now e)) (prune_elapsed now rl)"
  using assms window_le_total [of rl]
  by (auto simp: check_and_record_failure_def attempt_entry_def Let_def duration_since_def split: option.splits)

lemma prune_elapsed_cases:
  assumes "hm_wf (rl_entries rl)"
  shows "map_of (prune_elapsed now rl) k = map_of (rl_entries rl) k \<or>
    map_of (prune_elapsed now rl) k = None \<and>
    (\<exists>e. map_of (rl_entries rl) k = Some e \<and> total_window rl < duration_since now (rle_window_start e))"
  by (auto simp: prune_elapsed_def hm_map_of_filter [OF assms] split: option.split)

subsection \<open>Histories\<close>

datatype limiter_call = Attempt "scalar list" | Clear "scalar list"

fun limiter_step :: "unicode_tables \<Rightarrow> instant \<times> limiter_call \<Rightarrow> login_rate_limiter \<Rightarrow> login_rate_limiter" where
  "limiter_step u (now, Attempt raw) rl = snd (check_and_record_failure u now raw rl)"
| "limiter_step u (now, Clear raw) rl = limiter_reset u raw rl"

fun admitted :: "unicode_tables \<Rightarrow> scalar list \<Rightarrow> instant \<times> limiter_call \<Rightarrow> login_rate_limiter \<Rightarrow> bool" where
  "admitted u key (now, Attempt raw) rl \<longleftrightarrow>
     limiter_key u raw = key \<and> is_ok (fst (check_and_record_failure u now raw rl))"
| "admitted u key (now, Clear raw) rl \<longleftrightarrow> False"

fun admissions :: "unicode_tables \<Rightarrow> scalar list \<Rightarrow> (instant \<times> limiter_call) list \<Rightarrow> login_rate_limiter \<Rightarrow> nat" where
  "admissions u key [] rl = 0"
| "admissions u key (c # cs) rl =
     (if admitted u key c rl then 1 else 0) + admissions u key cs (limiter_step u c rl)"

fun clears :: "unicode_tables \<Rightarrow> scalar list \<Rightarrow> limiter_call \<Rightarrow> bool" where
  "clears u key (Clear raw) \<longleftrightarrow> limiter_key u raw = key"
| "clears u key (Attempt raw) \<longleftrightarrow> False"

definition limiter_inv :: "nat \<Rightarrow> nat \<Rightarrow> nat \<Rightarrow> (instant \<Rightarrow> bool) \<Rightarrow> login_rate_limiter \<Rightarrow> bool" where
  "limiter_inv m w l past rl \<longleftrightarrow> rl_max_attempts rl = m \<and> rl_window_secs rl = w \<and> rl_lockout_secs rl = l \<and>
     rl_policy rl = PolicyEnabled \<and> hm_wf (rl_entries rl) \<and>
     (\<forall>k e. map_of (rl_entries rl) k = Some e \<longrightarrow>
        1 \<le> rle_attempts e \<and> rle_attempts e \<le> m \<and> past (rle_window_start e))"

lemma limiter_inv_new: "limiter_inv m w l past (limiter_new m w l)"
  by (simp add: limiter_inv_def limiter_new_def)

lemma check_keeps:
  "rl_max_attempts (snd (check_and_record_failure u now raw rl)) = rl_max_attempts rl"
  "rl_window_secs (snd (check_and_record_failure u now raw rl)) = rl_window_secs rl"
  "rl_lockout_secs (snd (check_and_record_failure u now raw rl)) = rl_lockout_secs rl"
  "rl_policy (snd (check_and_record_failure u now raw rl)) = rl_policy rl"
  by (simp_all add: check_and_record_failure_def Let_def)

lemma attempt_entry_bounds:
  assumes "rl_max_attempts rl > 0"
    and "\<And>e. oe = Some e \<Longrightarrow> 1 \<le> rle_attempts e \<and> rle_attempts e \<le> rl_max_attempts rl \<and> past (rle_window_start e)"
    and "past now"
  shows "1 \<le> rle_attempts (snd (attempt_entry rl now oe)) \<and>
    rle_attempts (snd (attempt_entry rl now oe)) \<le> rl_max_attempts rl \<and>
    past (rle_window_start (snd (attempt_entry rl now oe)))"
  using assms by (cases oe) (auto simp: attempt_entry_def Let_def)

lemma entry_after_attempt:
  assumes "limiter_inv m w l past rl" "m > 0"
  shows "map_of (rl_entries (limiter_step u (now, Attempt raw) rl)) k =
    (if k = limiter_key u raw then Some (snd (attempt_entry rl now (map_of (prune_elapsed now rl) k)))
     else map_of (prune_elapsed now rl) k)"
  using assms check_of_own_key(2) [of rl now u raw] by (auto simp: limiter_inv_def hm_simps)

lemma entry_after_clear:
  assumes "limiter_inv m w l past rl"
  shows "map_of (rl_entries (limiter_step u (now, Clear raw) rl)) k =
    (if k = limiter_key u raw then None else map_of (rl_entries rl) k)"
  using assms by (simp add: limiter_inv_def limiter_reset_def hm_simps)

lemma pruned_inv:
  assumes "limiter_inv m w l past rl" "map_of (prune_elapsed now rl) k = Some e"
  shows "map_of (rl_entries rl) k = Some e"
  using assms prune_elapsed_cases [of rl now k] by (auto simp: limiter_inv_def)

lemma limiter_inv_step:
  assumes inv: "limiter_inv m w l past rl" and m: "m > 0" and now: "past now"
  shows "limiter_inv m w l past (limiter_step u (now, c) rl)"
proof (cases c)
  case (Attempt raw)
  have wf: "hm_wf (prune_elapsed now rl)" using inv by (auto simp: limiter_inv_def prune_elapsed_def)
  have "1 \<le> rle_attempts e \<and> rle_attempts e \<le> m \<and> past (rle_window_start e)"
    if a: "map_of (rl_entries (limiter_step u (now, Attempt raw) rl)) k = Some e" for k e
  proof -
    have old: "1 \<le> rle_attempts e' \<and> rle_attempts e' \<le> m \<and> past (rle_window_start e')"
      if "map_of (prune_elapsed now rl) k = Some e'" for e'
      using pruned_inv [OF inv that] inv by (simp add: limiter_inv_def)
    show ?thesis
    proof (cases "k = limiter_key u raw")
      case True
      then have "e = snd (attempt_entry rl now (map_of (prune_elapsed now rl) k))"
        using a unfolding entry_after_attempt [OF inv m] by simp
      with attempt_entry_bounds [of rl "map_of (prune_elapsed now rl) k" past now] inv m old now
      show ?thesis by (simp add: limiter_inv_def)
    next
      case False
      with a have "map_of (prune_elapsed now rl) k = Some e"
        unfolding entry_after_attempt [OF inv m] by simp
      then show ?thesis by (rule old)
    qed
  qed
  moreover have "hm_wf (rl_entries (limiter_step u (now, Attempt raw) rl))"
    using inv m wf check_of_own_key(2) [of rl now u raw] by (simp add: limiter_inv_def)
  ultimately show ?thesis
    using inv by (simp add: limiter_inv_def Attempt check_keeps)
next
  case (Clear raw)
  with inv show ?thesis by (auto simp: limiter_inv_def limiter_reset_def hm_simps split: if_splits)
qed

lemma limiter_inv_steps:
  "limiter_inv m w l past rl \<Longrightarrow> m > 0 \<Longrightarrow> \<forall>(t, c) \<in> set es. past t \<Longrightarrow>
     limiter_inv m w l past (fold (limiter_step u) es rl)"
  by (induction es arbitrary: rl) (auto simp: limiter_inv_step)

subsection \<open>How many attempts a span admits\<close>

text \<open>
  The attempts on a key that may still be admitted before \<open>a\<close> plus the window: a bucket opened
  at or after \<open>a\<close> lasts until then, an older one may be followed by one more.
\<close>

definition quota :: "login_rate_limiter \<Rightarrow> instant \<Rightarrow> rate_limit_entry option \<Rightarrow> nat" where
  "quota rl a oe =
     (case oe of
        None \<Rightarrow> rl_max_attempts rl
      | Some e \<Rightarrow>
          (if rle_window_start e \<ge> a then 0 else rl_max_attempts rl) + (rl_max_attempts rl - rle_attempts e))"

lemma attempt_quota:
  assumes "rl_max_attempts rl > 0"
    and "a \<le> now" "now < a + duration_from_secs (rl_window_secs rl)"
  shows "quota rl a (Some (snd (attempt_entry rl now oe))) + of_bool (fst (attempt_entry rl now oe)) \<le> quota rl a oe"
proof (cases oe)
  case None
  with assms show ?thesis by (simp add: attempt_entry_def quota_def)
next
  case (Some e)
  have "duration_since now (rle_window_start e) < duration_from_secs (rl_window_secs rl)"
    if "a \<le> rle_window_start e"
    using that assms(2,3) by (auto simp: duration_since_def)
  with Some assms(1,2) window_le_total [of rl] show ?thesis
    by (auto simp: attempt_entry_def quota_def Let_def)
qed

lemma pruned_quota:
  assumes "hm_wf (rl_entries rl)" "a \<le> now" "now < a + duration_from_secs (rl_window_secs rl)"
  shows "quota rl a (map_of (prune_elapsed now rl) k) \<le> quota rl a (map_of (rl_entries rl) k)"
proof -
  have "rle_window_start e < a" if "total_window rl < duration_since now (rle_window_start e)" for e
    using that assms(2,3) window_le_total [of rl] total_window_nonneg [of rl]
    by (auto simp: duration_since_def max_def split: if_splits)
  with prune_elapsed_cases [OF assms(1), of now k] show ?thesis
    by (fastforce simp: quota_def split: option.splits)
qed

lemma step_quota:
  assumes inv: "limiter_inv m w l past rl" and m: "m > 0"
    and now: "a \<le> now" "now < a + duration_from_secs w" and c: "\<not> clears u k c"
  shows "quota rl a (map_of (rl_entries (limiter_step u (now, c) rl)) k) + of_bool (admitted u k (now, c) rl)
    \<le> quota rl a (map_of (rl_entries rl) k)"
proof (cases c)
  case (Attempt raw)
  have p: "hm_wf (rl_entries rl)" "rl_window_secs rl = w" "rl_max_attempts rl > 0"
    "policy_is_enabled (rl_policy rl)" using inv m by (simp_all add: limiter_inv_def)
  note pruned = pruned_quota [OF p(1) now(1), unfolded p(2), OF now(2), of k]
  show ?thesis
  proof (cases "k = limiter_key u raw")
    case True
    have "map_of (rl_entries (limiter_step u (now, c) rl)) k =
        Some (snd (attempt_entry rl now (map_of (prune_elapsed now rl) k)))"
      unfolding Attempt entry_after_attempt [OF inv m] by (simp add: True)
    moreover have "admitted u k (now, c) rl = fst (attempt_entry rl now (map_of (prune_elapsed now rl) k))"
      using check_of_own_key(1) [OF p(4,3), of now u raw] by (simp add: Attempt True)
    ultimately show ?thesis
      using attempt_quota [OF p(3) now(1), of "map_of (prune_elapsed now rl) k"] now(2) pruned p(2) by simp
  next
    case False
    have "map_of (rl_entries (limiter_step u (now, c) rl)) k = map_of (prune_elapsed now rl) k"
      unfolding Attempt entry_after_attempt [OF inv m] using False by simp
    with pruned False show ?thesis by (simp add: Attempt)
  qed
next
  case (Clear raw)
  have "map_of (rl_entries (limiter_step u (now, c) rl)) k = map_of (rl_entries rl) k"
    unfolding Clear entry_after_clear [OF inv] using c by (auto simp: Clear)
  then show ?thesis by (simp add: Clear)
qed

lemma quota_step: "quota (limiter_step u e rl) a oe = quota rl a oe"
proof -
  obtain t c where "e = (t, c)" by force
  then show ?thesis by (cases c) (auto simp: quota_def check_keeps limiter_reset_def split: option.split)
qed

lemma admissions_quota:
  assumes "limiter_inv m w l (\<lambda>_. True) rl" "m > 0"
    and "\<forall>(t, c) \<in> set es. a \<le> t \<and> t < a + duration_from_secs w \<and> \<not> clears u k c"
  shows "admissions u k es rl \<le> quota rl a (map_of (rl_entries rl) k)"
  using assms
proof (induction es arbitrary: rl)
  case (Cons e es)
  obtain t c where e: "e = (t, c)" by force
  from Cons.prems have t: "a \<le> t" "t < a + duration_from_secs w" "\<not> clears u k c" by (auto simp: e)
  have "admissions u k es (limiter_step u e rl) \<le> quota rl a (map_of (rl_entries (limiter_step u e rl)) k)"
    using Cons.IH [of "limiter_step u e rl"] Cons.prems limiter_inv_step [OF Cons.prems(1,2)]
    by (simp add: e quota_step)
  with step_quota [OF Cons.prems(1,2) t] show ?case
    by (cases "admitted u k (t, c) rl") (simp_all add: e)
qed simp

lemma guesses_bounded_lemma:
  assumes "m > 0"
    and "\<forall>(t, c) \<in> set es. a \<le> t \<and> t < a + duration_from_secs w \<and> \<not> clears u k c"
  shows "admissions u k es (fold (limiter_step u) earlier (limiter_new m w l)) \<le> 2 * m - 1"
proof -
  let ?rl = "fold (limiter_step u) earlier (limiter_new m w l)"
  have inv: "limiter_inv m w l (\<lambda>_. True) ?rl"
    by (rule limiter_inv_steps [OF limiter_inv_new assms(1)]) auto
  then have "quota ?rl a (map_of (rl_entries ?rl) k) \<le> 2 * m - 1"
    using assms(1) by (fastforce simp: quota_def limiter_inv_def split: option.split)
  with admissions_quota [OF inv assms] show ?thesis by simp
qed

text \<open>
  Whatever happened before, in any span shorter than the window a limiter admits at most
  twice the maximum less one attempts on one key, in whatever spelling they come and whatever
  happens to other keys, pruning included, unless the key is cleared by a success.
\<close>

theorem guesses_bounded:
  assumes "m > 0"
    and "\<forall>(t, c) \<in> set es. a \<le> t \<and> t < a + duration_from_secs w \<and> \<not> clears u k c"
  shows "admissions u k es (fold (limiter_step u) earlier (limiter_new m w l)) \<le> 2 * m - 1"
  by (rule guesses_bounded_lemma [OF assms])

theorem guesses_bounded_witness:
  "admissions ascii_tables (ascii ''bob'') [(299000000000, Attempt (ascii ''bob'')), (299000000001, Attempt (ascii '' BOB ''))]
    (fold (limiter_step ascii_tables) [(0, Attempt (ascii ''bob''))] (limiter_new 5 300 900)) \<le> 2 * 5 - 1"
  by (rule guesses_bounded [where a = 299000000000 and w = 300])
    (simp_all add: duration_from_secs_def)

subsection \<open>Lockout\<close>

definition locked :: "login_rate_limiter \<Rightarrow> scalar list \<Rightarrow> instant \<Rightarrow> bool" where
  "locked rl k deadline \<longleftrightarrow> (\<exists>e. map_of (rl_entries rl) k = Some e \<and>
     rl_max_attempts rl \<le> rle_attempts e \<and> deadline = rle_window_start e + total_window rl) \<and> 0 < total_window rl"

lemma total_window_step: "total_window (limiter_step u (t, c) rl) = total_window rl"
  by (cases c) (simp_all add: total_window_def check_keeps limiter_reset_def)

lemma max_attempts_step: "rl_max_attempts (limiter_step u (t, c) rl) = rl_max_attempts rl"
  by (cases c) (simp_all add: check_keeps limiter_reset_def)

lemma locked_not_pruned:
  assumes "hm_wf (rl_entries rl)" "locked rl k d" "t < d"
  shows "map_of (prune_elapsed t rl) k = map_of (rl_entries rl) k"
  using assms prune_elapsed_cases [OF assms(1), of t k]
  by (auto simp: locked_def duration_since_def)

lemma locked_attempt:
  assumes "locked rl k d" "t < d"
  shows "attempt_entry rl t (map_of (rl_entries rl) k) = (False, the (map_of (rl_entries rl) k))"
  using assms by (auto simp: locked_def attempt_entry_def duration_since_def Let_def)

lemma locked_step:
  assumes inv: "limiter_inv m w l past rl" and m: "m > 0"
    and lock: "locked rl k d" and t: "t < d" and c: "\<not> clears u k c"
  shows "\<not> admitted u k (t, c) rl \<and> locked (limiter_step u (t, c) rl) k d"
proof -
  have p: "hm_wf (rl_entries rl)" "rl_max_attempts rl > 0" "policy_is_enabled (rl_policy rl)"
    using inv m by (simp_all add: limiter_inv_def)
  note same = locked_not_pruned [OF p(1) lock t] and refuse = locked_attempt [OF lock t]
  have some: "Some (the (map_of (rl_entries rl) k)) = map_of (rl_entries rl) k"
    using lock by (auto simp: locked_def)
  have "map_of (rl_entries (limiter_step u (t, c) rl)) k = map_of (rl_entries rl) k"
  proof (cases c)
    case (Attempt raw)
    show ?thesis unfolding Attempt entry_after_attempt [OF inv m] same refuse snd_conv some by simp
  next
    case (Clear raw)
    show ?thesis unfolding Clear entry_after_clear [OF inv] using c by (auto simp: Clear)
  qed
  then have "locked (limiter_step u (t, c) rl) k d"
    using lock by (simp add: locked_def total_window_step max_attempts_step)
  moreover have "\<not> admitted u k (t, c) rl"
  proof (cases c)
    case (Attempt raw)
    show ?thesis
      using check_of_own_key(1) [OF p(3,2), of t u raw] same refuse by (auto simp: Attempt)
  qed simp
  ultimately show ?thesis by simp
qed

lemma locked_steps:
  assumes "limiter_inv m w l (\<lambda>_. True) rl" "m > 0" "locked rl k d"
    and "\<forall>(t, c) \<in> set es. t < d \<and> \<not> clears u k c"
  shows "admissions u k es rl = 0 \<and> locked (fold (limiter_step u) es rl) k d"
  using assms
proof (induction es arbitrary: rl)
  case (Cons e es)
  obtain t c where e: "e = (t, c)" by force
  with Cons.prems have t: "t < d" "\<not> clears u k c" by auto
  note step = locked_step [OF Cons.prems(1,2,3) t]
  from Cons.IH [OF limiter_inv_step [OF Cons.prems(1,2) TrueI] Cons.prems(2) conjunct2 [OF step]] Cons.prems(4) step
  show ?case by (simp add: e)
qed simp

lemma refused_is_locked:
  assumes inv: "limiter_inv m w l (\<lambda>s. s \<le> t) rl" and m: "m > 0"
    and refused: "fst (check_and_record_failure u t raw rl) = Inl err"
  shows "\<exists>d > t. locked (limiter_step u (t, Attempt raw) rl) (limiter_key u raw) d \<and>
    err = Validation (''too many login attempts, try again in '' @ decimal (nat ((d - t) div 1000000000)) @ '' seconds'')"
proof -
  let ?k = "limiter_key u raw"
  have p: "hm_wf (rl_entries rl)" "rl_max_attempts rl > 0" "policy_is_enabled (rl_policy rl)"
    using inv m by (simp_all add: limiter_inv_def)
  have no: "\<not> fst (attempt_entry rl t (map_of (prune_elapsed t rl) ?k))"
    using check_of_own_key(1) [OF p(3,2) refl, of u t raw] refused by simp
  then obtain e where e: "map_of (prune_elapsed t rl) ?k = Some e"
    by (auto simp: attempt_entry_def split: option.splits)
  from pruned_inv [OF inv e] inv have s: "rle_window_start e \<le> t" by (auto simp: limiter_inv_def)
  let ?d = "rle_window_start e + total_window rl"
  from no e s have full: "rl_max_attempts rl \<le> rle_attempts e" and d: "t < ?d"
    and keep: "snd (attempt_entry rl t (Some e)) = e"
    by (auto simp: attempt_entry_def duration_since_def Let_def split: if_splits)
  have "map_of (rl_entries (limiter_step u (t, Attempt raw) rl)) ?k = Some e"
    unfolding entry_after_attempt [OF inv m] by (simp add: e keep)
  moreover have "0 < total_window rl" using d s by linarith
  ultimately have "locked (limiter_step u (t, Attempt raw) rl) ?k ?d"
    using full unfolding locked_def total_window_step max_attempts_step by auto
  moreover have "err = Validation (''too many login attempts, try again in '' @ decimal (nat ((?d - t) div 1000000000)) @ '' seconds'')"
    using refused e s d full p(3)
    by (auto simp: check_and_record_failure_def Let_def duration_since_def algebra_simps split: if_splits)
  ultimately show ?thesis using d by blast
qed

lemma locked_ends:
  assumes inv: "limiter_inv m w l past rl" and m: "m > 0" and "locked rl k d" "limiter_key u raw = k" "d \<le> t"
  shows "is_ok (fst (check_and_record_failure u t raw rl))"
proof -
  have p: "hm_wf (rl_entries rl)" "rl_max_attempts rl > 0" "policy_is_enabled (rl_policy rl)"
    using inv m by (simp_all add: limiter_inv_def)
  from assms(3) obtain e where e: "map_of (rl_entries rl) k = Some e" "rl_max_attempts rl \<le> rle_attempts e"
    "d = rle_window_start e + total_window rl" by (auto simp: locked_def)
  with assms(5) have "fst (attempt_entry rl t (Some e))" "fst (attempt_entry rl t None)"
    by (auto simp: attempt_entry_def duration_since_def Let_def)
  with prune_elapsed_cases [OF p(1), of t k] e(1) show ?thesis
    using check_of_own_key(1) [OF p(3,2) refl, of u t raw] assms(4) by auto
qed

text \<open>
  A refusal tells the truth about the lockout: it names a deadline in whole seconds from
  now, every attempt on the key before the deadline is refused whatever happens to other keys
  meanwhile, and the first attempt from the deadline on is admitted.
\<close>

theorem lockout_until_deadline:
  assumes "m > 0" and "\<forall>(t', c) \<in> set earlier. t' \<le> t"
    and "fst (check_and_record_failure u t raw (fold (limiter_step u) earlier (limiter_new m w l))) = Inl err"
  shows "\<exists>d > t.
    err = Validation (''too many login attempts, try again in '' @ decimal (nat ((d - t) div 1000000000)) @ '' seconds'') \<and>
    (\<forall>es. (\<forall>(t', c) \<in> set es. t' < d \<and> \<not> clears u (limiter_key u raw) c) \<longrightarrow>
      (let rl = fold (limiter_step u) (earlier @ [(t, Attempt raw)]) (limiter_new m w l) in
       admissions u (limiter_key u raw) es rl = 0 \<and>
       is_ok (fst (check_and_record_failure u d raw (fold (limiter_step u) es rl)))))"
proof -
  let ?rl = "fold (limiter_step u) earlier (limiter_new m w l)"
  let ?rl1 = "limiter_step u (t, Attempt raw) ?rl"
  let ?k = "limiter_key u raw"
  have inv: "limiter_inv m w l (\<lambda>s. s \<le> t) ?rl"
    using limiter_inv_steps [OF limiter_inv_new assms(1), of earlier] assms(2) by simp
  have inv': "limiter_inv m w l (\<lambda>_. True) (fold (limiter_step u) es ?rl1)" for es
    using limiter_inv_steps [OF limiter_inv_new assms(1), of "earlier @ (t, Attempt raw) # es" "\<lambda>_. True" w l u]
    by auto
  have inv1: "limiter_inv m w l (\<lambda>_. True) ?rl1" using inv' [of "[]"] by simp
  from refused_is_locked [OF inv assms(1,3)] obtain d where d: "t < d" "locked ?rl1 ?k d"
    "err = Validation (''too many login attempts, try again in '' @ decimal (nat ((d - t) div 1000000000)) @ '' seconds'')"
    by blast
  have "admissions u ?k es ?rl1 = 0 \<and> is_ok (fst (check_and_record_failure u d raw (fold (limiter_step u) es ?rl1)))"
    if "\<forall>(t', c) \<in> set es. t' < d \<and> \<not> clears u ?k c" for es
    using locked_steps [OF inv1 assms(1) d(2) that]
      locked_ends [OF inv' assms(1) _ refl order_refl] by blast
  with d show ?thesis by (auto simp: Let_def)
qed

theorem lockout_until_deadline_witness:
  "\<exists>d > 5. Validation (''too many login attempts, try again in 1199 seconds'') =
      Validation (''too many login attempts, try again in '' @ decimal (nat ((d - 5) div 1000000000)) @ '' seconds'')"
proof -
  have dec: "decimal 1199 = ''1199''" by (simp add: decimal.simps)
  have "fst (check_and_record_failure ascii_tables 5 [98] (fold (limiter_step ascii_tables)
      [(4, Attempt [98])] (limiter_new 1 300 900))) =
    Inl (Validation (''too many login attempts, try again in 1199 seconds''))"
    by (simp add: check_and_record_failure_def limiter_new_def prune_elapsed_def RATE_LIMITER_MAX_ENTRIES_def
        duration_since_def total_window_def duration_from_secs_def Let_def dec)
  from lockout_until_deadline [OF _ _ this] show ?thesis by auto
qed

end
