(* ===== verification/User_Database.thy ===== *)
theory User_Database
  imports Unicode_Text
begin

text \<open>
  User records and their database: \<^verbatim>\<open>UserRecord\<close>, \<^verbatim>\<open>UserInfo\<close> and the trait \<^verbatim>\<open>UserDatabase\<close> of
  \<^verbatim>\<open>src/service/login/mod.rs\<close>, \<^verbatim>\<open>Identity\<close> of \<^verbatim>\<open>src/models/identity.rs\<close>, and the in-memory
  database of \<^verbatim>\<open>src/database/memory.rs\<close>, a map by username with an index from identifiers to
  usernames under one lock. The trait is a record of its methods; the locale \<open>user_database\<close> is
  its contract over an abstract map from identifiers to accounts, interpreted by the in-memory
  database.
\<close>

datatype identity =
    AnonymousIdentity uuid int
  | BasicIdentity uuid int
  | TemporaryIdentity uuid int
  | ServiceIdentity uuid uuid int

record user_record =
  ur_id :: uuid
  ur_username :: "scalar list"
  ur_password_hash :: string
  ur_display_name :: "scalar list option"
  ur_is_active :: bool
  ur_identity :: identity
  ur_created_at :: int
  ur_updated_at :: int

record user_info =
  ui_id :: uuid
  ui_username :: "scalar list"
  ui_display_name :: "scalar list option"
  ui_is_active :: bool
  ui_identity :: identity
  ui_created_at :: int
  ui_updated_at :: int

definition to_public :: "user_record \<Rightarrow> user_info" where
  "to_public u = \<lparr>ui_id = ur_id u, ui_username = ur_username u, ui_display_name = ur_display_name u,
     ui_is_active = ur_is_active u, ui_identity = ur_identity u, ui_created_at = ur_created_at u,
     ui_updated_at = ur_updated_at u\<rparr>"

text \<open>The trait. An update of a password reads the clock.\<close>

record 'd user_database_ops =
  db_create_user :: "user_record \<Rightarrow> 'd \<Rightarrow> unit result \<times> 'd"
  db_find_by_username :: "scalar list \<Rightarrow> 'd \<Rightarrow> user_record option result"
  db_find_by_id :: "uuid \<Rightarrow> 'd \<Rightarrow> user_record option result"
  db_update_password :: "int \<Rightarrow> uuid \<Rightarrow> string \<Rightarrow> 'd \<Rightarrow> unit result \<times> 'd"
  db_delete_user :: "uuid \<Rightarrow> 'd \<Rightarrow> bool result \<times> 'd"
  db_list_users :: "'d \<Rightarrow> user_record list result"
  db_count_users :: "'d \<Rightarrow> nat result"

subsection \<open>The in-memory database\<close>

record in_memory_user_database =
  im_users :: "(scalar list, user_record) hash_map"
  im_id_to_username :: "(uuid, scalar list) hash_map"

definition user_database_new :: in_memory_user_database where
  "user_database_new = \<lparr>im_users = [], im_id_to_username = []\<rparr>"

definition create_user :: "user_record \<Rightarrow> in_memory_user_database \<Rightarrow> unit result \<times> in_memory_user_database" where
  "create_user user db =
     (if map_of (im_users db) (ur_username user) \<noteq> None
      then (Inl (Validation ''username already exists''), db)
      else if map_of (im_id_to_username db) (ur_id user) \<noteq> None
      then (Inl (Validation ''user ID already exists''), db)
      else (Inr (), db\<lparr>im_users := AList.update (ur_username user) user (im_users db),
                       im_id_to_username := AList.update (ur_id user) (ur_username user) (im_id_to_username db)\<rparr>))"

definition find_by_username :: "scalar list \<Rightarrow> in_memory_user_database \<Rightarrow> user_record option result" where
  "find_by_username name db = Inr (map_of (im_users db) name)"

definition find_by_id :: "uuid \<Rightarrow> in_memory_user_database \<Rightarrow> user_record option result" where
  "find_by_id i db =
     Inr (case map_of (im_id_to_username db) i of
            Some name \<Rightarrow> map_of (im_users db) name
          | None \<Rightarrow> None)"

definition update_password ::
  "int \<Rightarrow> uuid \<Rightarrow> string \<Rightarrow> in_memory_user_database \<Rightarrow> unit result \<times> in_memory_user_database" where
  "update_password now i new_hash db =
     (case map_of (im_id_to_username db) i of
        None \<Rightarrow> (Inl (NotFound ''user not found''), db)
      | Some name \<Rightarrow>
          (case map_of (im_users db) name of
             None \<Rightarrow> (Inl (NotFound ''user not found''), db)
           | Some user \<Rightarrow>
               (Inr (), db\<lparr>im_users :=
                  AList.update name (user\<lparr>ur_password_hash := new_hash, ur_updated_at := now\<rparr>) (im_users db)\<rparr>)))"

definition delete_user :: "uuid \<Rightarrow> in_memory_user_database \<Rightarrow> bool result \<times> in_memory_user_database" where
  "delete_user i db =
     (let name = map_of (im_id_to_username db) i;
          db1 = db\<lparr>im_id_to_username := AList.delete i (im_id_to_username db)\<rparr>
      in case name of
           Some n \<Rightarrow> (Inr (map_of (im_users db1) n \<noteq> None), db1\<lparr>im_users := AList.delete n (im_users db1)\<rparr>)
         | None \<Rightarrow> (Inr False, db1))"

definition list_users :: "in_memory_user_database \<Rightarrow> user_record list result" where
  "list_users db = Inr (map snd (im_users db))"

definition count_users :: "in_memory_user_database \<Rightarrow> nat result" where
  "count_users db = Inr (length (im_users db))"

definition in_memory_users :: "in_memory_user_database user_database_ops" where
  "in_memory_users = \<lparr>db_create_user = create_user, db_find_by_username = find_by_username,
     db_find_by_id = find_by_id, db_update_password = update_password, db_delete_user = delete_user,
     db_list_users = list_users, db_count_users = count_users\<rparr>"

subsection \<open>The contract\<close>

definition with_hash :: "int \<Rightarrow> string \<Rightarrow> user_record \<Rightarrow> user_record" where
  "with_hash now h u = u\<lparr>ur_password_hash := h, ur_updated_at := now\<rparr>"

locale user_database =
  fixes db :: "'d user_database_ops"
    and wf :: "'d \<Rightarrow> bool"
    and accounts :: "'d \<Rightarrow> uuid \<Rightarrow> user_record option"
  assumes wf_create: "wf d \<Longrightarrow> wf (snd (db_create_user db u d))"
    and wf_update: "wf d \<Longrightarrow> wf (snd (db_update_password db now i h d))"
    and wf_delete: "wf d \<Longrightarrow> wf (snd (db_delete_user db i d))"
    and account_id: "wf d \<Longrightarrow> accounts d i = Some u \<Longrightarrow> ur_id u = i"
    and account_name: "wf d \<Longrightarrow> accounts d i = Some u \<Longrightarrow> accounts d j = Some v \<Longrightarrow>
      ur_username u = ur_username v \<Longrightarrow> i = j"
    and accounts_finite: "wf d \<Longrightarrow> finite (dom (accounts d))"
    and find_id: "wf d \<Longrightarrow> db_find_by_id db i d = Inr (accounts d i)"
    and find_name: "wf d \<Longrightarrow> \<exists>r. db_find_by_username db n d = Inr r \<and>
      (case r of None \<Rightarrow> (\<forall>u \<in> ran (accounts d). ur_username u \<noteq> n)
       | Some u \<Rightarrow> accounts d (ur_id u) = Some u \<and> ur_username u = n)"
    and create_result: "wf d \<Longrightarrow> is_ok (fst (db_create_user db u d)) \<longleftrightarrow>
      accounts d (ur_id u) = None \<and> (\<forall>v \<in> ran (accounts d). ur_username v \<noteq> ur_username u)"
    and create_accounts: "wf d \<Longrightarrow> accounts (snd (db_create_user db u d)) =
      (if is_ok (fst (db_create_user db u d)) then (accounts d)(ur_id u \<mapsto> u) else accounts d)"
    and update_result: "wf d \<Longrightarrow> is_ok (fst (db_update_password db now i h d)) \<longleftrightarrow> accounts d i \<noteq> None"
    and update_accounts: "wf d \<Longrightarrow> accounts (snd (db_update_password db now i h d)) =
      (accounts d)(i := map_option (with_hash now h) (accounts d i))"
    and delete_result: "wf d \<Longrightarrow> fst (db_delete_user db i d) = Inr (accounts d i \<noteq> None)"
    and delete_accounts: "wf d \<Longrightarrow> accounts (snd (db_delete_user db i d)) = (accounts d)(i := None)"
    and list_accounts: "wf d \<Longrightarrow> \<exists>us. db_list_users db d = Inr us \<and> set us = ran (accounts d) \<and> distinct us"
    and count_accounts: "wf d \<Longrightarrow> db_count_users db d = Inr (card (dom (accounts d)))"

text \<open>The two maps of the in-memory database agree.\<close>

definition users_wf :: "in_memory_user_database \<Rightarrow> bool" where
  "users_wf d \<longleftrightarrow> hm_wf (im_users d) \<and> hm_wf (im_id_to_username d) \<and>
     (\<forall>n u. map_of (im_users d) n = Some u \<longrightarrow>
        ur_username u = n \<and> map_of (im_id_to_username d) (ur_id u) = Some n) \<and>
     (\<forall>i n. map_of (im_id_to_username d) i = Some n \<longrightarrow>
        (\<exists>u. map_of (im_users d) n = Some u \<and> ur_id u = i))"

definition im_accounts :: "in_memory_user_database \<Rightarrow> uuid \<Rightarrow> user_record option" where
  "im_accounts d i =
     (case map_of (im_id_to_username d) i of Some n \<Rightarrow> map_of (im_users d) n | None \<Rightarrow> None)"

lemma users_wf_new [simp]: "users_wf user_database_new" "im_accounts user_database_new i = None"
  by (simp_all add: users_wf_def user_database_new_def im_accounts_def)

lemma users_wfD:
  assumes "users_wf d"
  shows "map_of (im_users d) n = Some u \<Longrightarrow> ur_username u = n \<and> map_of (im_id_to_username d) (ur_id u) = Some n"
    and "map_of (im_id_to_username d) i = Some n \<Longrightarrow> \<exists>u. map_of (im_users d) n = Some u \<and> ur_id u = i"
    and "hm_wf (im_users d)" "hm_wf (im_id_to_username d)"
  using assms by (auto simp: users_wf_def)

lemma users_wfI:
  assumes "hm_wf (im_users d)" "hm_wf (im_id_to_username d)"
    and "\<And>n u. map_of (im_users d) n = Some u \<Longrightarrow>
      ur_username u = n \<and> map_of (im_id_to_username d) (ur_id u) = Some n"
    and "\<And>i n. map_of (im_id_to_username d) i = Some n \<Longrightarrow> \<exists>u. map_of (im_users d) n = Some u \<and> ur_id u = i"
  shows "users_wf d"
  unfolding users_wf_def using assms(1,2) assms(3,4) by blast

lemma im_accounts_iff:
  assumes "users_wf d"
  shows "im_accounts d i = Some u \<longleftrightarrow> map_of (im_users d) (ur_username u) = Some u \<and> ur_id u = i"
proof
  assume "im_accounts d i = Some u"
  then obtain n where "map_of (im_id_to_username d) i = Some n" "map_of (im_users d) n = Some u"
    by (auto simp: im_accounts_def split: option.splits)
  with users_wfD(1) [OF assms this(2)] users_wfD(2) [OF assms this(1)]
  show "map_of (im_users d) (ur_username u) = Some u \<and> ur_id u = i" by auto
next
  assume a: "map_of (im_users d) (ur_username u) = Some u \<and> ur_id u = i"
  with users_wfD(1) [OF assms conjunct1 [OF a]] show "im_accounts d i = Some u"
    by (simp add: im_accounts_def)
qed

lemma im_accounts_None:
  assumes "users_wf d"
  shows "im_accounts d i = None \<longleftrightarrow> map_of (im_id_to_username d) i = None"
  using users_wfD(2) [OF assms] by (fastforce simp: im_accounts_def split: option.splits)

lemma ran_im_accounts:
  assumes "users_wf d"
  shows "u \<in> ran (im_accounts d) \<longleftrightarrow> map_of (im_users d) (ur_username u) = Some u"
  by (simp add: ran_def im_accounts_iff [OF assms])

lemma name_free:
  assumes "users_wf d"
  shows "(\<forall>u \<in> ran (im_accounts d). ur_username u \<noteq> n) \<longleftrightarrow> map_of (im_users d) n = None"
  using users_wfD(1) [OF assms, of n] by (cases "map_of (im_users d) n") (auto simp: ran_im_accounts [OF assms])

subsection \<open>The in-memory database keeps the contract\<close>

lemma create_user_ok:
  assumes "users_wf d"
  shows "is_ok (fst (create_user u d)) \<longleftrightarrow>
    im_accounts d (ur_id u) = None \<and> (\<forall>v \<in> ran (im_accounts d). ur_username v \<noteq> ur_username u)"
  by (simp add: name_free [OF assms] im_accounts_None [OF assms] create_user_def)

lemma create_user_wf:
  assumes "users_wf d"
  shows "users_wf (snd (create_user u d))"
proof (cases "is_ok (fst (create_user u d))")
  case True
  then have d': "snd (create_user u d) = d\<lparr>im_users := AList.update (ur_username u) u (im_users d),
      im_id_to_username := AList.update (ur_id u) (ur_username u) (im_id_to_username d)\<rparr>"
    and fresh: "map_of (im_users d) (ur_username u) = None" "map_of (im_id_to_username d) (ur_id u) = None"
    by (auto simp: create_user_def split: if_splits)
  show ?thesis unfolding d'
  proof (rule users_wfI)
    fix n v assume v: "map_of (im_users (d\<lparr>im_users := AList.update (ur_username u) u (im_users d),
      im_id_to_username := AList.update (ur_id u) (ur_username u) (im_id_to_username d)\<rparr>)) n = Some v"
    then show "ur_username v = n \<and> map_of (im_id_to_username (d\<lparr>im_users := AList.update (ur_username u) u (im_users d),
      im_id_to_username := AList.update (ur_id u) (ur_username u) (im_id_to_username d)\<rparr>)) (ur_id v) = Some n"
      using users_wfD(1) [OF assms, of n v] fresh by (auto simp: hm_simps split: if_splits)
  next
    fix i n assume "map_of (im_id_to_username (d\<lparr>im_users := AList.update (ur_username u) u (im_users d),
      im_id_to_username := AList.update (ur_id u) (ur_username u) (im_id_to_username d)\<rparr>)) i = Some n"
    then show "\<exists>v. map_of (im_users (d\<lparr>im_users := AList.update (ur_username u) u (im_users d),
      im_id_to_username := AList.update (ur_id u) (ur_username u) (im_id_to_username d)\<rparr>)) n = Some v \<and> ur_id v = i"
      using users_wfD(2) [OF assms, of i n] fresh by (auto simp: hm_simps split: if_splits)
  qed (simp_all add: users_wfD(3,4) [OF assms])
next
  case False
  then show ?thesis using assms by (auto simp: create_user_def split: if_splits)
qed

lemma create_user_accounts:
  assumes "users_wf d"
  shows "im_accounts (snd (create_user u d)) =
    (if is_ok (fst (create_user u d)) then (im_accounts d)(ur_id u \<mapsto> u) else im_accounts d)"
proof (cases "is_ok (fst (create_user u d))")
  case True
  then have fresh: "map_of (im_users d) (ur_username u) = None"
    "map_of (im_id_to_username d) (ur_id u) = None"
    by (auto simp: create_user_def split: if_splits)
  have "im_accounts (snd (create_user u d)) i = ((im_accounts d)(ur_id u \<mapsto> u)) i" for i
    using users_wfD(2) [OF assms, of i "ur_username u"] fresh
    by (auto simp: im_accounts_def create_user_def hm_simps split: option.splits)
  with True show ?thesis by auto
next
  case False
  then show ?thesis by (auto simp: create_user_def split: if_splits)
qed

lemma with_hash_fields [simp]:
  "ur_id (with_hash now h u) = ur_id u" "ur_username (with_hash now h u) = ur_username u"
  "ur_password_hash (with_hash now h u) = h" "ur_is_active (with_hash now h u) = ur_is_active u"
  by (simp_all add: with_hash_def)

lemma update_password_cases:
  assumes "users_wf d"
  obtains "im_accounts d i = None" "update_password now i h d = (Inl (NotFound ''user not found''), d)"
  | u where "im_accounts d i = Some u" "ur_id u = i" "map_of (im_users d) (ur_username u) = Some u"
      "update_password now i h d =
        (Inr (), d\<lparr>im_users := AList.update (ur_username u) (with_hash now h u) (im_users d)\<rparr>)"
proof (cases "map_of (im_id_to_username d) i")
  case None
  then show thesis by (intro that(1)) (simp_all add: im_accounts_def update_password_def)
next
  case (Some n)
  then obtain u where "map_of (im_users d) n = Some u" "ur_id u = i"
    using users_wfD(2) [OF assms] by blast
  with Some users_wfD(1) [OF assms this(1)] show thesis
    by (intro that(2) [of u]) (simp_all add: im_accounts_def update_password_def with_hash_def)
qed

lemma update_password_wf:
  assumes "users_wf d"
  shows "users_wf (snd (update_password now i h d))"
proof (cases rule: update_password_cases [OF assms, of i now h])
  case (2 u)
  let ?d = "d\<lparr>im_users := AList.update (ur_username u) (with_hash now h u) (im_users d)\<rparr>"
  have "users_wf ?d"
  proof (rule users_wfI)
    fix n v assume "map_of (im_users ?d) n = Some v"
    then show "ur_username v = n \<and> map_of (im_id_to_username ?d) (ur_id v) = Some n"
      using users_wfD(1) [OF assms, of n v] users_wfD(1) [OF assms 2(3)]
      by (auto simp: hm_simps split: if_splits)
  next
    fix j n assume "map_of (im_id_to_username ?d) j = Some n"
    then obtain v where "map_of (im_users d) n = Some v" "ur_id v = j"
      using users_wfD(2) [OF assms, of j n] by auto
    then show "\<exists>v. map_of (im_users ?d) n = Some v \<and> ur_id v = j"
      using 2(3) by (cases "n = ur_username u") (simp_all add: hm_simps)
  qed (simp_all add: users_wfD(3,4) [OF assms])
  then show ?thesis by (simp add: 2)
qed (simp add: assms)

lemma update_password_accounts:
  assumes "users_wf d"
  shows "im_accounts (snd (update_password now i h d)) =
    (im_accounts d)(i := map_option (with_hash now h) (im_accounts d i))"
proof (cases rule: update_password_cases [OF assms, of i now h])
  case 1
  then show ?thesis by auto
next
  case (2 u)
  have n: "map_of (im_id_to_username d) i = Some (ur_username u)"
    using users_wfD(1) [OF assms 2(3)] 2(2) by auto
  have "im_accounts (snd (update_password now i h d)) j =
      ((im_accounts d)(i := map_option (with_hash now h) (im_accounts d i))) j" for j
  proof (cases "j = i")
    case True
    then show ?thesis by (simp add: im_accounts_def n 2(3,4) hm_simps)
  next
    case False
    have "m \<noteq> ur_username u" if "map_of (im_id_to_username d) j = Some m" for m
      using users_wfD(2) [OF assms that] 2(2,3) False by auto
    with False show ?thesis by (simp add: im_accounts_def 2(4) hm_simps split: option.split)
  qed
  then show ?thesis by auto
qed

lemma delete_user_result:
  assumes "users_wf d"
  shows "fst (delete_user i d) = Inr (im_accounts d i \<noteq> None)"
  using users_wfD(2) [OF assms, of i]
  by (auto simp: delete_user_def im_accounts_def Let_def split: option.splits)

lemma delete_user_wf:
  assumes "users_wf d"
  shows "users_wf (snd (delete_user i d))"
proof (cases "map_of (im_id_to_username d) i")
  case None
  then have "snd (delete_user i d) = d"
    by (simp add: delete_user_def Let_def delete_id [unfolded map_of_eq_None_iff [symmetric]])
  then show ?thesis using assms by simp
next
  case (Some n)
  then obtain u where u: "map_of (im_users d) n = Some u" "ur_id u = i"
    using users_wfD(2) [OF assms] by blast
  let ?d = "d\<lparr>im_id_to_username := AList.delete i (im_id_to_username d),
      im_users := AList.delete n (im_users d)\<rparr>"
  have "users_wf ?d"
  proof (rule users_wfI)
    fix m v assume "map_of (im_users ?d) m = Some v"
    then have v: "m \<noteq> n" "map_of (im_users d) m = Some v" by (auto simp: hm_simps split: if_splits)
    with users_wfD(1) [OF assms v(2)] Some
    show "ur_username v = m \<and> map_of (im_id_to_username ?d) (ur_id v) = Some m"
      by (auto simp: hm_simps)
  next
    fix j m assume "map_of (im_id_to_username ?d) j = Some m"
    then have j: "j \<noteq> i" "map_of (im_id_to_username d) j = Some m" by (auto simp: hm_simps split: if_splits)
    with users_wfD(2) [OF assms j(2)] u show "\<exists>v. map_of (im_users ?d) m = Some v \<and> ur_id v = j"
      by (cases "m = n") (auto simp: hm_simps)
  qed (simp_all add: users_wfD(3,4) [OF assms])
  then show ?thesis by (simp add: delete_user_def Some Let_def)
qed

lemma delete_user_accounts:
  assumes "users_wf d"
  shows "im_accounts (snd (delete_user i d)) = (im_accounts d)(i := None)"
proof
  fix j
  show "im_accounts (snd (delete_user i d)) j = ((im_accounts d)(i := None)) j"
    using users_wfD(2) [OF assms, of j] users_wfD(2) [OF assms, of i]
    by (auto simp: im_accounts_def delete_user_def Let_def hm_simps split: option.splits)
qed

lemma accounts_dom: "users_wf d \<Longrightarrow> dom (im_accounts d) = fst ` set (im_id_to_username d)"
  by (auto simp: dom_def im_accounts_None dom_map_of_conv_image_fst [symmetric])


lemma users_distinct:
  assumes "users_wf d"
  shows "distinct (map snd (im_users d))"
proof -
  have "inj_on snd (set (im_users d))"
  proof (rule inj_onI)
    fix p q assume pq: "p \<in> set (im_users d)" "q \<in> set (im_users d)" "snd p = snd q"
    then have "map_of (im_users d) (fst p) = Some (snd p)" "map_of (im_users d) (fst q) = Some (snd p)"
      using hm_map_of_SomeI [OF users_wfD(3) [OF assms], of "fst p" "snd p"]
        hm_map_of_SomeI [OF users_wfD(3) [OF assms], of "fst q" "snd q"] by (metis prod.collapse)+
    with users_wfD(1) [OF assms, of "fst p"] users_wfD(1) [OF assms, of "fst q"]
    have "fst p = fst q" by fastforce
    with pq(3) show "p = q" by (simp add: prod_eq_iff)
  qed
  moreover have "distinct (im_users d)" using users_wfD(3) [OF assms] by (simp add: hm_wf_def distinct_map)
  ultimately show ?thesis by (simp add: distinct_map)
qed

lemma list_is_ran:
  assumes "users_wf d"
  shows "set (map snd (im_users d)) = ran (im_accounts d)"
proof (intro equalityI subsetI)
  fix u assume "u \<in> set (map snd (im_users d))"
  then obtain n where "map_of (im_users d) n = Some u"
    using hm_map_of_SomeI [OF users_wfD(3) [OF assms]] by force
  with users_wfD(1) [OF assms this] show "u \<in> ran (im_accounts d)" by (simp add: ran_im_accounts [OF assms])
next
  fix u assume "u \<in> ran (im_accounts d)"
  then have "map_of (im_users d) (ur_username u) = Some u" by (simp add: ran_im_accounts [OF assms])
  from map_of_SomeD [OF this] show "u \<in> set (map snd (im_users d))" by force
qed

lemma users_count:
  assumes "users_wf d"
  shows "length (im_users d) = card (dom (im_accounts d))"
proof -
  have "bij_betw ur_id (ran (im_accounts d)) (dom (im_accounts d))"
  proof (rule bij_betwI')
    fix u v assume "u \<in> ran (im_accounts d)" "v \<in> ran (im_accounts d)"
    then have "im_accounts d (ur_id u) = Some u" "im_accounts d (ur_id v) = Some v"
      by (simp_all add: ran_im_accounts [OF assms] im_accounts_iff [OF assms])
    then show "ur_id u = ur_id v \<longleftrightarrow> u = v" by (metis option.inject)
  next
    fix u assume "u \<in> ran (im_accounts d)"
    then show "ur_id u \<in> dom (im_accounts d)"
      using users_wfD(1) [OF assms, of "ur_username u" u]
      by (simp add: ran_im_accounts [OF assms] domIff im_accounts_None [OF assms])
  next
    fix i assume "i \<in> dom (im_accounts d)"
    then obtain u where u: "im_accounts d i = Some u" by blast
    then have "u \<in> ran (im_accounts d)" by (rule ranI)
    with u show "\<exists>u \<in> ran (im_accounts d). i = ur_id u" by (auto simp: im_accounts_iff [OF assms])
  qed
  from bij_betw_same_card [OF this] distinct_card [OF users_distinct [OF assms]] show ?thesis
    unfolding list_is_ran [OF assms] length_map by simp
qed

interpretation mem_users: user_database in_memory_users users_wf im_accounts
proof
  fix d i u v j n now h
  assume wf: "users_wf d"
  show "users_wf (snd (db_create_user in_memory_users u d))" by (simp add: in_memory_users_def create_user_wf wf)
  show "users_wf (snd (db_update_password in_memory_users now i h d))"
    by (simp add: in_memory_users_def update_password_wf wf)
  show "users_wf (snd (db_delete_user in_memory_users i d))" by (simp add: in_memory_users_def delete_user_wf wf)
  show "ur_id u = i" if "im_accounts d i = Some u" using that by (simp add: im_accounts_iff [OF wf])
  show "i = j" if "im_accounts d i = Some u" "im_accounts d j = Some v" "ur_username u = ur_username v"
    using that by (simp add: im_accounts_iff [OF wf])
  show "finite (dom (im_accounts d))" by (simp add: accounts_dom [OF wf])
  show "db_find_by_id in_memory_users i d = Inr (im_accounts d i)"
    by (simp add: in_memory_users_def find_by_id_def im_accounts_def)
  show "\<exists>r. db_find_by_username in_memory_users n d = Inr r \<and>
      (case r of None \<Rightarrow> (\<forall>u \<in> ran (im_accounts d). ur_username u \<noteq> n)
       | Some u \<Rightarrow> im_accounts d (ur_id u) = Some u \<and> ur_username u = n)"
    unfolding name_free [OF wf] using users_wfD(1) [OF wf, of n]
    by (auto simp: in_memory_users_def find_by_username_def im_accounts_iff [OF wf] split: option.split)
  show "is_ok (fst (db_create_user in_memory_users u d)) \<longleftrightarrow>
      im_accounts d (ur_id u) = None \<and> (\<forall>v \<in> ran (im_accounts d). ur_username v \<noteq> ur_username u)"
    by (simp add: in_memory_users_def create_user_ok [OF wf])
  show "im_accounts (snd (db_create_user in_memory_users u d)) =
      (if is_ok (fst (db_create_user in_memory_users u d)) then (im_accounts d)(ur_id u \<mapsto> u) else im_accounts d)"
    using create_user_accounts [OF wf] by (simp add: in_memory_users_def)
  show "is_ok (fst (db_update_password in_memory_users now i h d)) \<longleftrightarrow> im_accounts d i \<noteq> None"
    by (cases rule: update_password_cases [OF wf, of i now h]) (simp_all add: in_memory_users_def)
  show "im_accounts (snd (db_update_password in_memory_users now i h d)) =
      (im_accounts d)(i := map_option (with_hash now h) (im_accounts d i))"
    using update_password_accounts [OF wf] by (simp add: in_memory_users_def)
  show "fst (db_delete_user in_memory_users i d) = Inr (im_accounts d i \<noteq> None)"
    by (simp add: in_memory_users_def delete_user_result [OF wf])
  show "im_accounts (snd (db_delete_user in_memory_users i d)) = (im_accounts d)(i := None)"
    by (simp add: in_memory_users_def delete_user_accounts [OF wf])
  show "\<exists>us. db_list_users in_memory_users d = Inr us \<and> set us = ran (im_accounts d) \<and> distinct us"
    using list_is_ran [OF wf] users_distinct [OF wf] by (simp add: in_memory_users_def list_users_def)
  show "db_count_users in_memory_users d = Inr (card (dom (im_accounts d)))"
    by (simp add: in_memory_users_def count_users_def users_count [OF wf])
qed

subsection \<open>Histories\<close>

datatype user_call =
    CreateUser user_record
  | UpdatePassword int uuid string
  | DeleteUser uuid

fun user_step :: "'d user_database_ops \<Rightarrow> user_call \<Rightarrow> 'd \<Rightarrow> 'd" where
  "user_step db (CreateUser u) d = snd (db_create_user db u d)"
| "user_step db (UpdatePassword now i h) d = snd (db_update_password db now i h d)"
| "user_step db (DeleteUser i) d = snd (db_delete_user db i d)"

text \<open>The same calls on a single map from identifiers to accounts.\<close>

fun account_step :: "user_call \<Rightarrow> (uuid \<Rightarrow> user_record option) \<Rightarrow> uuid \<Rightarrow> user_record option" where
  "account_step (CreateUser u) m =
     (if m (ur_id u) = None \<and> (\<forall>v \<in> ran m. ur_username v \<noteq> ur_username u) then m(ur_id u \<mapsto> u) else m)"
| "account_step (UpdatePassword now i h) m = m(i := map_option (with_hash now h) (m i))"
| "account_step (DeleteUser i) m = m(i := None)"

context user_database begin

lemma step_accounts: "wf d \<Longrightarrow> wf (user_step db c d) \<and> accounts (user_step db c d) = account_step c (accounts d)"
  by (cases c) (simp_all add: wf_create wf_update wf_delete create_accounts create_result
      update_accounts delete_accounts)

lemma steps_accounts:
  "wf d \<Longrightarrow> wf (fold (user_step db) cs d) \<and> accounts (fold (user_step db) cs d) = fold account_step cs (accounts d)"
  by (induction cs arbitrary: d) (simp_all add: step_accounts)

lemma find_name_iff:
  assumes "wf d"
  shows "db_find_by_username db n d = Inr (Some u) \<longleftrightarrow> accounts d (ur_id u) = Some u \<and> ur_username u = n"
proof -
  obtain r where r: "db_find_by_username db n d = Inr r"
    "case r of None \<Rightarrow> (\<forall>u \<in> ran (accounts d). ur_username u \<noteq> n)
     | Some u \<Rightarrow> accounts d (ur_id u) = Some u \<and> ur_username u = n"
    using find_name [OF assms] by blast
  show ?thesis
  proof (cases r)
    case None
    with r show ?thesis using ranI [of "accounts d" "ur_id u" u] by auto
  next
    case (Some v)
    with r account_name [OF assms, of "ur_id u" u "ur_id v" v] show ?thesis by auto
  qed
qed

end

text \<open>
  C15: the in-memory database refines a single map from identifiers to accounts: after any
  sequence of creations, password updates and deletions, both lookups, the listing and the count
  answer from that map, in which no two accounts share a name; the two maps and their index
  never disagree.
\<close>

theorem in_memory_users_refine_accounts:
  "let d = fold (user_step in_memory_users) cs user_database_new;
       m = fold account_step cs (\<lambda>i. None)
   in find_by_id i d = Inr (m i) \<and>
      (find_by_username n d = Inr (Some u) \<longleftrightarrow> m (ur_id u) = Some u \<and> ur_username u = n) \<and>
      inj_on (map_option ur_username \<circ> m) (dom m) \<and>
      (\<exists>us. list_users d = Inr us \<and> set us = ran m \<and> distinct us) \<and>
      count_users d = Inr (card (dom m))"
proof -
  let ?d = "fold (user_step in_memory_users) cs user_database_new"
  have wf: "users_wf ?d" and m: "im_accounts ?d = fold account_step cs (\<lambda>i. None)"
    using mem_users.steps_accounts [of user_database_new cs] ext [of "im_accounts user_database_new" "\<lambda>i. None"]
    by simp_all
  have "inj_on (map_option ur_username \<circ> im_accounts ?d) (dom (im_accounts ?d))"
    by (auto intro!: inj_onI mem_users.account_name [OF wf])
  have fields: "find_by_id = db_find_by_id in_memory_users" "find_by_username = db_find_by_username in_memory_users"
    "list_users = db_list_users in_memory_users" "count_users = db_count_users in_memory_users"
    by (simp_all add: in_memory_users_def)
  show ?thesis
    unfolding Let_def fields m [symmetric]
    using \<open>inj_on _ _\<close> mem_users.find_id [OF wf] mem_users.find_name_iff [OF wf]
      mem_users.list_accounts [OF wf] mem_users.count_accounts [OF wf] by blast
qed

end
