(* ===== verification/Jwt_Credentials.thy ===== *)
theory Jwt_Credentials
  imports Unicode_Text
begin

text \<open>
  \<^verbatim>\<open>src/auth/credential/basic.rs\<close>: the tokens of the root crate and their revocation. The JWT
  library is a parameter, \<open>jwt_lib\<close>; what is relied on is its documented behaviour
  (\<open>jwt_ok\<close>): a token decodes with its own key to the claims it was made of until its expiry
  and the default leeway of 60 seconds have passed. The trait \<^verbatim>\<open>RevocationBackend\<close> is a record
  of its methods, its contract the locale \<open>revocation_backend\<close>, interpreted by the
  process-local table. The manager's lemmas are proved for any backend of the contract.
\<close>

subsection \<open>Claims and manager\<close>

record jwt_claims =
  jc_sub :: "scalar list"
  jc_user_id :: string
  jc_roles :: "string list"
  jc_permissions :: "string list"
  jc_session_id :: "string option"
  jc_jti :: "string option"
  jc_iat :: int
  jc_exp :: int

definition sub_username :: "jwt_claims \<Rightarrow> scalar list" where
  "sub_username c = jc_sub c"

definition sub_uuid :: "jwt_claims \<Rightarrow> string" where
  "sub_uuid c = jc_user_id c"

record jwt_manager =
  jm_secret :: string
  jm_expiration_hours :: int

record jwt_lib =
  jwt_encode :: "string \<Rightarrow> jwt_claims \<Rightarrow> string + string"
  jwt_decode :: "int \<Rightarrow> string \<Rightarrow> string \<Rightarrow> string + jwt_claims"

definition jwt_ok :: "jwt_lib \<Rightarrow> bool" where
  "jwt_ok lib \<longleftrightarrow> (\<forall>k c token now. jwt_encode lib k c = Inr token \<longrightarrow>
     jwt_decode lib now k token = (if jc_exp c < now - 60 then Inl ''ExpiredSignature'' else Inr c))"

definition MIN_JWT_SECRET_LENGTH :: nat where
  "MIN_JWT_SECRET_LENGTH = 32"

definition MAX_JWT_EXPIRATION_HOURS :: int where
  "MAX_JWT_EXPIRATION_HOURS = 87600"

definition REVOCATION_MAX_ENTRIES :: nat where
  "REVOCATION_MAX_ENTRIES = 50000"

definition REVOCATION_AUTO_CLEANUP_WINDOW_SECS :: int where
  "REVOCATION_AUTO_CLEANUP_WINDOW_SECS = 86400 * 7"

text \<open>\<^verbatim>\<open>DateTime::timestamp\<close>: whole seconds, rounded down.\<close>

definition timestamp :: "instant \<Rightarrow> int" where
  "timestamp now = now div 1000000000"

definition hours :: "int \<Rightarrow> int" where
  "hours h = h * 3600 * 1000000000"

definition jwt_manager_new :: "string \<Rightarrow> int \<Rightarrow> jwt_manager result" where
  "jwt_manager_new secret expiration_hours =
     (if length secret < MIN_JWT_SECRET_LENGTH then Inl (Store ''JWT secret must be at least 32 bytes'')
      else Inr \<lparr>jm_secret = secret,
                jm_expiration_hours = min MAX_JWT_EXPIRATION_HOURS (max 1 expiration_hours)\<rparr>)"

definition issue_with_options ::
  "jwt_lib \<Rightarrow> jwt_manager \<Rightarrow> instant \<Rightarrow> string \<Rightarrow> string \<Rightarrow> scalar list \<Rightarrow> string list \<Rightarrow> string list \<Rightarrow>
     string option \<Rightarrow> string result" where
  "issue_with_options lib jm now jti user_id username roles permissions session_id =
     (let claims = \<lparr>jc_sub = username, jc_user_id = user_id, jc_roles = roles,
            jc_permissions = permissions, jc_session_id = session_id, jc_jti = Some jti,
            jc_iat = timestamp now, jc_exp = timestamp (now + hours (jm_expiration_hours jm))\<rparr>
      in case jwt_encode lib (jm_secret jm) claims of
           Inl e \<Rightarrow> Inl (Store (''JWT encode failed: '' @ e))
         | Inr token \<Rightarrow> Inr token)"

definition jwt_issue ::
  "jwt_lib \<Rightarrow> jwt_manager \<Rightarrow> instant \<Rightarrow> string \<Rightarrow> string \<Rightarrow> scalar list \<Rightarrow> string list \<Rightarrow> string result" where
  "jwt_issue lib jm now jti user_id username roles =
     issue_with_options lib jm now jti user_id username roles [] None"

definition jwt_verify :: "jwt_lib \<Rightarrow> jwt_manager \<Rightarrow> instant \<Rightarrow> string \<Rightarrow> jwt_claims result" where
  "jwt_verify lib jm now token =
     (case jwt_decode lib (timestamp now) (jm_secret jm) token of
        Inl e \<Rightarrow> Inl (Store (''JWT verify failed: '' @ e))
      | Inr claims \<Rightarrow> Inr claims)"

subsection \<open>Revocation\<close>

record 'r revocation_ops =
  rv_revoke :: "string \<Rightarrow> int \<Rightarrow> 'r \<Rightarrow> 'r"
  rv_get_not_before :: "'r \<Rightarrow> string \<Rightarrow> int option"
  rv_cleanup_before :: "int \<Rightarrow> 'r \<Rightarrow> 'r"

type_synonym revocation_table = "(string, int) hash_map"

definition mem_revoke :: "string \<Rightarrow> int \<Rightarrow> revocation_table \<Rightarrow> revocation_table" where
  "mem_revoke key not_before m =
     (let m1 = AList.update key not_before m
      in if length m1 > REVOCATION_MAX_ENTRIES
         then let cutoff = not_before - REVOCATION_AUTO_CLEANUP_WINDOW_SECS
              in filter (\<lambda>(_, nb). nb \<ge> cutoff) m1
         else m1)"

definition mem_get_not_before :: "revocation_table \<Rightarrow> string \<Rightarrow> int option" where
  "mem_get_not_before m key = map_of m key"

definition mem_cleanup_before :: "int \<Rightarrow> revocation_table \<Rightarrow> revocation_table" where
  "mem_cleanup_before cutoff m = filter (\<lambda>(_, nb). nb \<ge> cutoff) m"

definition memory_revocation :: "revocation_table revocation_ops" where
  "memory_revocation = \<lparr>rv_revoke = mem_revoke, rv_get_not_before = mem_get_not_before,
     rv_cleanup_before = mem_cleanup_before\<rparr>"

definition session_key :: "string \<Rightarrow> string" where
  "session_key sid = ''session:'' @ sid"

definition revokes :: "int option \<Rightarrow> int \<Rightarrow> bool" where
  "revokes nb iat = (case nb of Some not_before \<Rightarrow> iat \<le> not_before | None \<Rightarrow> False)"

definition verify_with_revocation ::
  "'r revocation_ops \<Rightarrow> jwt_lib \<Rightarrow> jwt_manager \<Rightarrow> instant \<Rightarrow> string \<Rightarrow> 'r \<Rightarrow> jwt_claims result" where
  "verify_with_revocation rv lib jm now token r =
     and_then (jwt_verify lib jm now token) (\<lambda>claims.
       if revokes (rv_get_not_before rv r (jc_user_id claims)) (jc_iat claims)
       then Inl (Store ''token has been revoked'')
       else if (case jc_jti claims of
                  Some jti \<Rightarrow> revokes (rv_get_not_before rv r jti) (jc_iat claims)
                | None \<Rightarrow> False)
       then Inl (Store ''token has been revoked'')
       else if (case jc_session_id claims of
                  Some sid \<Rightarrow> revokes (rv_get_not_before rv r (session_key sid)) (jc_iat claims)
                | None \<Rightarrow> False)
       then Inl (Store ''token has been revoked'')
       else Inr claims)"

definition revoke_token :: "'r revocation_ops \<Rightarrow> instant \<Rightarrow> string \<Rightarrow> 'r \<Rightarrow> 'r" where
  "revoke_token rv now jti r = rv_revoke rv jti (timestamp now) r"

definition revoke_all_for_user :: "'r revocation_ops \<Rightarrow> instant \<Rightarrow> string \<Rightarrow> 'r \<Rightarrow> 'r" where
  "revoke_all_for_user rv now user_id r = rv_revoke rv user_id (timestamp now + 1) r"

definition revoke_session :: "'r revocation_ops \<Rightarrow> instant \<Rightarrow> string \<Rightarrow> 'r \<Rightarrow> 'r" where
  "revoke_session rv now sid r = rv_revoke rv (session_key sid) (timestamp now) r"

definition cleanup_revocation :: "'r revocation_ops \<Rightarrow> instant \<Rightarrow> int \<Rightarrow> 'r \<Rightarrow> 'r" where
  "cleanup_revocation rv now max_token_lifetime_secs r =
     rv_cleanup_before rv (timestamp now - max_token_lifetime_secs) r"

subsection \<open>The contract of a revocation backend\<close>

locale revocation_backend =
  fixes rv :: "'r revocation_ops"
    and wf :: "'r \<Rightarrow> bool"
  assumes wf_revoke: "wf r \<Longrightarrow> wf (rv_revoke rv k nb r)"
    and wf_cleanup: "wf r \<Longrightarrow> wf (rv_cleanup_before rv c r)"
    and get_revoked: "wf r \<Longrightarrow> \<exists>x \<ge> nb. rv_get_not_before rv (rv_revoke rv k nb r) k = Some x"
    and get_other: "wf r \<Longrightarrow> k' \<noteq> k \<Longrightarrow> rv_get_not_before rv r k' = Some x \<Longrightarrow>
      nb - REVOCATION_AUTO_CLEANUP_WINDOW_SECS \<le> x \<Longrightarrow>
      rv_get_not_before rv (rv_revoke rv k nb r) k' = Some x"
    and get_cleaned: "wf r \<Longrightarrow> rv_get_not_before rv r k = Some x \<Longrightarrow> c \<le> x \<Longrightarrow>
      rv_get_not_before rv (rv_cleanup_before rv c r) k = Some x"
    and revoke_origin: "wf r \<Longrightarrow> rv_get_not_before rv (rv_revoke rv k nb r) k' = Some x \<Longrightarrow>
      k' = k \<and> x = nb \<or> rv_get_not_before rv r k' = Some x"
    and cleanup_origin: "wf r \<Longrightarrow> rv_get_not_before rv (rv_cleanup_before rv c r) k = Some x \<Longrightarrow>
      rv_get_not_before rv r k = Some x"

lemmas mem_revocation_defs = memory_revocation_def mem_revoke_def mem_get_not_before_def
  mem_cleanup_before_def Let_def

interpretation mem_rv: revocation_backend memory_revocation hm_wf
  by unfold_locales
    (auto simp: mem_revocation_defs hm_simps hm_map_of_filter REVOCATION_AUTO_CLEANUP_WINDOW_SECS_def
       split: if_splits option.splits)

subsection \<open>When a token passes\<close>

definition token_keys :: "jwt_claims \<Rightarrow> string set" where
  "token_keys c = {jc_user_id c} \<union> set_option (jc_jti c) \<union> session_key ` set_option (jc_session_id c)"

lemma verify_with_revocation_iff:
  "verify_with_revocation rv lib jm now token r = Inr c \<longleftrightarrow>
     jwt_verify lib jm now token = Inr c \<and>
     (\<forall>k \<in> token_keys c. \<not> revokes (rv_get_not_before rv r k) (jc_iat c))"
  by (auto simp: verify_with_revocation_def and_then_eq_Inr token_keys_def split: option.splits if_splits)

lemma jwt_verify_iff: "jwt_verify lib jm now token = Inr c \<longleftrightarrow>
    jwt_decode lib (timestamp now) (jm_secret jm) token = Inr c"
  by (auto simp: jwt_verify_def split: sum.splits)

definition claims_of ::
  "jwt_manager \<Rightarrow> instant \<Rightarrow> string \<Rightarrow> string \<Rightarrow> scalar list \<Rightarrow> string list \<Rightarrow> string list \<Rightarrow> string option \<Rightarrow> jwt_claims" where
  "claims_of jm now jti user_id username roles permissions session_id =
     \<lparr>jc_sub = username, jc_user_id = user_id, jc_roles = roles, jc_permissions = permissions,
      jc_session_id = session_id, jc_jti = Some jti, jc_iat = timestamp now,
      jc_exp = timestamp now + jm_expiration_hours jm * 3600\<rparr>"

lemma timestamp_hours: "timestamp (now + hours h) = timestamp now + h * 3600"
proof -
  have "now + hours h = now + 1000000000 * (h * 3600)" by (simp add: hours_def)
  then show ?thesis by (simp add: timestamp_def del: mult.assoc)
qed

lemma timestamp_mono: "s \<le> t \<Longrightarrow> timestamp s \<le> timestamp t"
  by (simp add: timestamp_def zdiv_mono1)

lemma issue_Inr:
  "issue_with_options lib jm now jti uid name roles perms sid = Inr token \<longleftrightarrow>
     jwt_encode lib (jm_secret jm) (claims_of jm now jti uid name roles perms sid) = Inr token"
  by (simp add: issue_with_options_def claims_of_def timestamp_hours Let_def split: sum.splits)

lemma verify_issued:
  assumes "jwt_ok lib" "issue_with_options lib jm t0 jti uid name roles perms sid = Inr token"
  shows "jwt_verify lib jm now token = Inr c \<longleftrightarrow>
    c = claims_of jm t0 jti uid name roles perms sid \<and>
    timestamp now \<le> timestamp t0 + jm_expiration_hours jm * 3600 + 60"
  using assms by (auto simp: jwt_ok_def jwt_verify_iff issue_Inr claims_of_def)

subsection \<open>Histories of revocations\<close>

datatype revocation_call =
    RevokeToken string
  | RevokeAllForUser string
  | RevokeSession string
  | CleanupRevocation int

fun revocation_step :: "'r revocation_ops \<Rightarrow> instant \<times> revocation_call \<Rightarrow> 'r \<Rightarrow> 'r" where
  "revocation_step rv (now, RevokeToken jti) r = revoke_token rv now jti r"
| "revocation_step rv (now, RevokeAllForUser uid) r = revoke_all_for_user rv now uid r"
| "revocation_step rv (now, RevokeSession sid) r = revoke_session rv now sid r"
| "revocation_step rv (now, CleanupRevocation life) r = cleanup_revocation rv now life r"

text \<open>The key a call writes, and the not-before time it writes there.\<close>

fun revocation_entry :: "instant \<times> revocation_call \<Rightarrow> (string \<times> int) option" where
  "revocation_entry (now, RevokeToken jti) = Some (jti, timestamp now)"
| "revocation_entry (now, RevokeAllForUser uid) = Some (uid, timestamp now + 1)"
| "revocation_entry (now, RevokeSession sid) = Some (session_key sid, timestamp now)"
| "revocation_entry (now, CleanupRevocation life) = None"

text \<open>A cleanup spares the entries that can still match a token issued by this manager.\<close>

fun cleanup_spares :: "int \<Rightarrow> revocation_call \<Rightarrow> bool" where
  "cleanup_spares life (CleanupRevocation longest) \<longleftrightarrow> life \<le> longest"
| "cleanup_spares life _ \<longleftrightarrow> True"

lemmas revocation_call_defs = revoke_token_def revoke_all_for_user_def revoke_session_def cleanup_revocation_def

lemma revocation_step_entry:
  "revocation_entry e = Some (k, nb) \<Longrightarrow> revocation_step rv e r = rv_revoke rv k nb r"
  by (cases e rule: revocation_entry.cases) (auto simp: revocation_call_defs)

lemma revocation_entry_ge: "revocation_entry (now, op) = Some (k, nb) \<Longrightarrow> timestamp now \<le> nb \<and> nb \<le> timestamp now + 1"
  by (cases op) auto

lemma revocation_step_cleanup:
  "revocation_entry (now, op) = None \<Longrightarrow>
    \<exists>m. op = CleanupRevocation m \<and> revocation_step rv (now, op) r = rv_cleanup_before rv (timestamp now - m) r"
  by (cases op) (auto simp: revocation_call_defs)

context revocation_backend begin

lemma wf_step: "wf r \<Longrightarrow> wf (revocation_step rv e r)"
  by (cases e rule: revocation_entry.cases) (auto simp: revocation_call_defs wf_revoke wf_cleanup)

lemma wf_steps: "wf r \<Longrightarrow> wf (fold (revocation_step rv) es r)"
  by (induction es arbitrary: r) (auto simp: wf_step)

text \<open>While a token can be alive, no call lifts the revocation that covers it.\<close>

lemma revokes_step:
  assumes wf: "wf r" and old: "revokes (rv_get_not_before rv r k) iat"
    and "iat \<le> timestamp t" and near: "timestamp t + 1 - REVOCATION_AUTO_CLEANUP_WINDOW_SECS \<le> iat"
    and spare: "cleanup_spares life op" "timestamp t - life \<le> iat"
  shows "revokes (rv_get_not_before rv (revocation_step rv (t, op) r) k) iat"
proof -
  obtain x where x: "rv_get_not_before rv r k = Some x" "iat \<le> x"
    using old by (auto simp: revokes_def split: option.splits)
  show ?thesis
  proof (cases "revocation_entry (t, op)")
    case (Some e)
    obtain k' nb where e: "e = (k', nb)" by force
    note entry = Some [unfolded e]
    show ?thesis
    proof (cases "k' = k")
      case True
      with get_revoked [OF wf, of nb k] revocation_entry_ge [OF entry] assms(3) show ?thesis
        by (auto simp: revocation_step_entry [OF entry] revokes_def)
    next
      case False
      with get_other [OF wf _ x(1), of k' nb] revocation_entry_ge [OF entry] near x(2) show ?thesis
        by (auto simp: revocation_step_entry [OF entry] revokes_def)
    qed
  next
    case None
    then obtain m where m: "op = CleanupRevocation m"
      "revocation_step rv (t, op) r = rv_cleanup_before rv (timestamp t - m) r"
      using revocation_step_cleanup [of t op rv r] by auto
    with spare x(2) get_cleaned [OF wf x(1), of "timestamp t - m"] show ?thesis
      by (auto simp: revokes_def)
  qed
qed

lemma revokes_steps:
  assumes "wf r" "revokes (rv_get_not_before rv r k) iat"
    and "\<forall>(t, op) \<in> set es. iat \<le> timestamp t \<and> timestamp t + 1 - REVOCATION_AUTO_CLEANUP_WINDOW_SECS \<le> iat \<and>
      cleanup_spares life op \<and> timestamp t - life \<le> iat"
  shows "revokes (rv_get_not_before rv (fold (revocation_step rv) es r) k) iat"
  using assms
proof (induction es arbitrary: r)
  case (Cons e es)
  obtain t op where e: "e = (t, op)" by force
  from Cons.prems have "revokes (rv_get_not_before rv (revocation_step rv e r) k) iat"
    by (auto simp: e intro!: revokes_step [where life = life])
  with Cons.IH [OF wf_step [OF Cons.prems(1)], of e] Cons.prems(3) show ?case by simp
qed simp

text \<open>No entry without the call that wrote it.\<close>

lemma steps_origin:
  assumes "wf r" "rv_get_not_before rv (fold (revocation_step rv) es r) k = Some x"
  shows "rv_get_not_before rv r k = Some x \<or> (\<exists>e \<in> set es. revocation_entry e = Some (k, x))"
  using assms
proof (induction es arbitrary: r)
  case (Cons e es)
  obtain t op where e: "e = (t, op)" by force
  from Cons.IH [OF wf_step [OF Cons.prems(1)], of e] Cons.prems(2)
  consider "rv_get_not_before rv (revocation_step rv e r) k = Some x"
    | "\<exists>e \<in> set es. revocation_entry e = Some (k, x)" by auto
  then show ?case
  proof cases
    case 1
    show ?thesis
    proof (cases "revocation_entry e")
      case (Some kn)
      obtain k' nb where kn: "kn = (k', nb)" by force
      from 1 revoke_origin [OF Cons.prems(1), of k' nb k x] show ?thesis
        using Some by (auto simp: kn revocation_step_entry)
    next
      case None
      then obtain m where "revocation_step rv (t, op) r = rv_cleanup_before rv (timestamp t - m) r"
        using revocation_step_cleanup [of t op rv r] by (auto simp: e)
      with 1 cleanup_origin [OF Cons.prems(1)] show ?thesis by (auto simp: e)
    qed
  qed auto
qed simp

end

subsection \<open>Revocation holds until the token expires\<close>

lemma revoked_while_alive:
  assumes life: "jm_expiration_hours jm * 3600 + 61 \<le> REVOCATION_AUTO_CLEANUP_WINDOW_SECS"
    and lib: "jwt_ok lib"
    and issued: "issue_with_options lib jm t0 jti uid name roles perms sid = Inr token"
    and entry: "revocation_entry (t, op) = Some (k, nb)"
    and k: "k \<in> token_keys (claims_of jm t0 jti uid name roles perms sid)"
    and order: "t0 \<le> t" "\<forall>(u, op') \<in> set later. t \<le> u \<and> u \<le> now"
    and spares: "\<forall>(u, op') \<in> set later. cleanup_spares (jm_expiration_hours jm * 3600 + 60) op'"
  shows "\<not> is_ok (verify_with_revocation memory_revocation lib jm now token
    (fold (revocation_step memory_revocation) (earlier @ (t, op) # later) []))"
proof
  let ?c = "claims_of jm t0 jti uid name roles perms sid"
  let ?life = "jm_expiration_hours jm * 3600 + 60"
  let ?r = "fold (revocation_step memory_revocation) earlier []"
  let ?r' = "fold (revocation_step memory_revocation) later (revocation_step memory_revocation (t, op) ?r)"
  assume "is_ok (verify_with_revocation memory_revocation lib jm now token
    (fold (revocation_step memory_revocation) (earlier @ (t, op) # later) []))"
  then obtain c where c: "jwt_verify lib jm now token = Inr c"
    "\<forall>k \<in> token_keys c. \<not> revokes (rv_get_not_before memory_revocation ?r' k) (jc_iat c)"
    by (auto simp: is_ok_iff verify_with_revocation_iff)
  from c(1) have c': "c = ?c" and alive: "timestamp now \<le> timestamp t0 + ?life"
    using verify_issued [OF lib issued] by auto
  have wf: "hm_wf ?r" by (rule mem_rv.wf_steps) simp
  have "timestamp t0 \<le> nb"
    using revocation_entry_ge [OF entry] timestamp_mono [OF order(1)] by linarith
  then have "revokes (rv_get_not_before memory_revocation
      (revocation_step memory_revocation (t, op) ?r) k) (timestamp t0)"
    using mem_rv.get_revoked [OF wf, of nb k] by (auto simp: revocation_step_entry [OF entry] revokes_def)
  then have "revokes (rv_get_not_before memory_revocation ?r' k) (timestamp t0)"
  proof (rule mem_rv.revokes_steps [OF mem_rv.wf_step [OF wf], where life = ?life], safe)
    fix u op' assume u: "(u, op') \<in> set later"
    with order have "timestamp t0 \<le> timestamp u" "timestamp u \<le> timestamp now"
      by (auto intro!: timestamp_mono)
    with alive life show "timestamp t0 \<le> timestamp u" "timestamp u - ?life \<le> timestamp t0"
      "timestamp u + 1 - REVOCATION_AUTO_CLEANUP_WINDOW_SECS \<le> timestamp t0" by linarith+
    from u spares show "cleanup_spares ?life op'" by auto
  qed
  with c(2) k show False by (auto simp: c' claims_of_def)
qed

text \<open>
  C12: once a token has been revoked, by itself, with its session or with all tokens of its user,
  it is never accepted again: whatever is revoked before and after, at whatever times, and
  however often the table of 50,000 entries is cut or cleaned, as long as a token's life and
  leeway fit the clean-up window of seven days and explicit clean-ups spare that life.
\<close>

theorem revoked_token_stays_out:
  assumes "jm_expiration_hours jm * 3600 + 61 \<le> REVOCATION_AUTO_CLEANUP_WINDOW_SECS" and "jwt_ok lib"
    and "issue_with_options lib jm t0 jti uid name roles perms sid = Inr token"
    and "op \<in> {RevokeToken jti, RevokeAllForUser uid} \<union> RevokeSession ` set_option sid"
    and "t0 \<le> t" "\<forall>(u, op') \<in> set later. t \<le> u \<and> u \<le> now"
    and "\<forall>(u, op') \<in> set later. cleanup_spares (jm_expiration_hours jm * 3600 + 60) op'"
  shows "\<not> is_ok (verify_with_revocation memory_revocation lib jm now token
    (fold (revocation_step memory_revocation) (earlier @ (t, op) # later) []))"
proof -
  obtain k nb where "revocation_entry (t, op) = Some (k, nb)"
    "k \<in> token_keys (claims_of jm t0 jti uid name roles perms sid)"
    using assms(4) by (auto simp: token_keys_def claims_of_def)
  from revoked_while_alive [OF assms(1,2,3) this assms(5,6,7)] show ?thesis .
qed

text \<open>An example: a manager whose library knows a single token.\<close>

definition demo_jwt :: jwt_manager where
  "demo_jwt = \<lparr>jm_secret = replicate 32 CHR ''k'', jm_expiration_hours = 24\<rparr>"

definition demo_claims :: jwt_claims where
  "demo_claims = claims_of demo_jwt 5000000000 ''j'' ''u'' [97] [''member''] [] (Some ''s'')"

definition demo_jwt_lib :: jwt_lib where
  "demo_jwt_lib = \<lparr>
     jwt_encode = (\<lambda>k c. if k = jm_secret demo_jwt \<and> c = demo_claims then Inr ''token'' else Inl ''unsupported''),
     jwt_decode = (\<lambda>now k t. if k = jm_secret demo_jwt \<and> t = ''token''
        then if jc_exp demo_claims < now - 60 then Inl ''ExpiredSignature'' else Inr demo_claims
        else Inl ''InvalidToken'')\<rparr>"

lemma demo_jwt_lib_ok [simp]: "jwt_ok demo_jwt_lib"
  by (simp add: jwt_ok_def demo_jwt_lib_def)

lemma demo_issued:
  "issue_with_options demo_jwt_lib demo_jwt 5000000000 ''j'' ''u'' [97] [''member''] [] (Some ''s'') = Inr ''token''"
  by (simp add: issue_Inr demo_jwt_lib_def demo_claims_def)

theorem revoked_token_stays_out_witness:
  "\<not> is_ok (verify_with_revocation memory_revocation demo_jwt_lib demo_jwt 90000000000 ''token''
    (fold (revocation_step memory_revocation)
      ([] @ (6000000000, RevokeSession ''s'') # [(70000000000, CleanupRevocation 100000)]) []))"
  by (rule revoked_token_stays_out [OF _ demo_jwt_lib_ok demo_issued])
    (simp_all add: demo_jwt_def REVOCATION_AUTO_CLEANUP_WINDOW_SECS_def)

text \<open>
  A token is accepted exactly when it verifies and no entry for its user, its identifier or
  its session has a not-before time at or after its issue; in particular a token whose keys no
  call has revoked since the second of its issue passes until its expiry and leeway are over.
\<close>

theorem unrevoked_token_passes:
  assumes "jwt_ok lib" "issue_with_options lib jm t0 jti uid name roles perms sid = Inr token"
    and "\<forall>e \<in> set history. \<forall>k nb. revocation_entry e = Some (k, nb) \<and>
      k \<in> token_keys (claims_of jm t0 jti uid name roles perms sid) \<longrightarrow> nb < timestamp t0"
  shows "verify_with_revocation memory_revocation lib jm now token
      (fold (revocation_step memory_revocation) history []) = Inr c \<longleftrightarrow>
    c = claims_of jm t0 jti uid name roles perms sid \<and>
    timestamp now \<le> timestamp t0 + jm_expiration_hours jm * 3600 + 60"
proof -
  let ?c = "claims_of jm t0 jti uid name roles perms sid"
  let ?r = "fold (revocation_step memory_revocation) history []"
  have "\<not> revokes (rv_get_not_before memory_revocation ?r k) (jc_iat ?c)" if k: "k \<in> token_keys ?c" for k
  proof (cases "rv_get_not_before memory_revocation ?r k")
    case (Some nb)
    have "rv_get_not_before memory_revocation [] k = None"
      by (simp add: memory_revocation_def mem_get_not_before_def)
    with mem_rv.steps_origin [OF _ Some] assms(3) k show ?thesis
      by (auto simp: Some revokes_def claims_of_def)
  qed (simp add: revokes_def)
  with verify_issued [OF assms(1,2)] show ?thesis by (auto simp: verify_with_revocation_iff)
qed

theorem unrevoked_token_passes_witness:
  "verify_with_revocation memory_revocation demo_jwt_lib demo_jwt 90000000000 ''token''
      (fold (revocation_step memory_revocation) [(3000000000, RevokeAllForUser ''u'')] []) = Inr demo_claims"
  unfolding demo_claims_def
  by (subst unrevoked_token_passes [OF demo_jwt_lib_ok demo_issued])
    (simp_all add: demo_jwt_def timestamp_def)

text \<open>
  Revoking a user's tokens at some second also refuses the tokens issued to that user in the
  rest of that second and in the whole of the next one.
\<close>

lemma fresh_token_refused:
  assumes "jwt_ok lib" "issue_with_options lib jm t0 jti uid name roles perms sid = Inr token"
    and "timestamp t0 \<le> timestamp t + 1"
  shows "\<not> is_ok (verify_with_revocation memory_revocation lib jm now token
    (revoke_all_for_user memory_revocation t uid []))"
  using verify_issued [OF assms(1,2)] assms(3)
  by (auto simp: is_ok_iff verify_with_revocation_iff claims_of_def token_keys_def revoke_all_for_user_def
      mem_revocation_defs revokes_def REVOCATION_MAX_ENTRIES_def)

subsection \<open>Making a manager\<close>

lemma jwt_manager_new_Inr:
  "jwt_manager_new secret h = Inr jm \<Longrightarrow> 32 \<le> length (jm_secret jm) \<and> 1 \<le> jm_expiration_hours jm \<and>
     jm_expiration_hours jm \<le> 87600"
  by (auto simp: jwt_manager_new_def MIN_JWT_SECRET_LENGTH_def MAX_JWT_EXPIRATION_HOURS_def split: if_splits)

text \<open>
  A clean-up with the token lifetime as its argument, as documented, revives a revoked token
  while the leeway lasts.
\<close>

lemma cleanup_revives_in_leeway:
  "verify_with_revocation memory_revocation demo_jwt_lib demo_jwt 86406000000000 ''token''
      (fold (revocation_step memory_revocation)
        [(5000000000, RevokeToken ''j''), (86406000000000, CleanupRevocation (24 * 3600))] []) = Inr demo_claims"
  by (simp add: verify_with_revocation_def jwt_verify_def demo_jwt_lib_def demo_jwt_def demo_claims_def
      claims_of_def timestamp_def revocation_call_defs mem_revocation_defs REVOCATION_MAX_ENTRIES_def
      revokes_def)

end
