(* ===== verification/Login_Service.thy ===== *)
theory Login_Service
  imports Rate_Limiter User_Database Jwt_Credentials Rbac_Session Permission_Catalog
begin

text \<open>
  \<^verbatim>\<open>AuthService\<close> of \<^verbatim>\<open>src/service/login/mod.rs\<close>: registration, password login with and without
  a session, token verification, password change, deletion and logout, and the default engine.
  The service is generic over its user database, revocation backend, assignment store and
  session manager; these, and the libraries for tokens, password hashing and identifiers, are
  the fields of \<open>auth_env\<close>. What the service owns and changes is \<open>auth_service\<close>. Instants,
  times, fresh identifiers and salts are arguments. The verification of the dummy hash on the
  path of an unknown user only costs time and has no result.
\<close>

subsection \<open>Environment and state\<close>

record ('d, 'r, 'a, 'p, 'c) auth_env =
  env_db :: "'d user_database_ops"
  env_rv :: "'r revocation_ops"
  env_jwt :: jwt_lib
  env_unicode :: unicode_tables
  env_hash :: "string \<Rightarrow> scalar list \<Rightarrow> string result"
  env_verify :: "scalar list \<Rightarrow> string \<Rightarrow> bool result"
  env_uuid_string :: "uuid \<Rightarrow> string"
  env_parse_uuid :: "string \<Rightarrow> uuid option"
  env_assign_role :: "string \<Rightarrow> string \<Rightarrow> 'a \<Rightarrow> unit result \<times> 'a"
  env_engine :: "'a \<Rightarrow> (string, 'p, 'c) rbac_engine"
  env_perm_name :: "'p \<Rightarrow> string"
  env_iter :: "'p set \<Rightarrow> 'p list"

record ('d, 'r, 'a, 'c) auth_service =
  au_db :: 'd
  au_jwt :: jwt_manager
  au_revocations :: 'r
  au_store :: 'a
  au_cache :: 'c
  au_rate_limiter :: login_rate_limiter
  au_register_rate_limiter :: login_rate_limiter
  au_policy :: password_login_policy
  au_first_user_role :: string
  au_default_role :: string
  au_auto_admin_first_user :: bool
  au_has_first_user :: bool

record login_result =
  lr_token :: string
  lr_user_id :: string
  lr_username :: "scalar list"
  lr_display_name :: "scalar list option"
  lr_roles :: "string list"
  lr_session_id :: "uuid option"

definition auth_service_new ::
  "'d \<Rightarrow> string \<Rightarrow> int \<Rightarrow> 'r \<Rightarrow> 'a \<Rightarrow> 'c \<Rightarrow> string \<Rightarrow> string \<Rightarrow> ('d, 'r, 'a, 'c) auth_service result" where
  "auth_service_new d jwt_secret jwt_expiration_hours revs store cache first_role default_role =
     and_then (jwt_manager_new jwt_secret jwt_expiration_hours) (\<lambda>jwt.
       Inr \<lparr>au_db = d, au_jwt = jwt, au_revocations = revs, au_store = store, au_cache = cache,
            au_rate_limiter = limiter_new 5 300 900, au_register_rate_limiter = limiter_new 3 300 1800,
            au_policy = PolicyEnabled, au_first_user_role = first_role, au_default_role = default_role,
            au_auto_admin_first_user = False, au_has_first_user = False\<rparr>)"

definition with_rate_limiter ::
  "login_rate_limiter \<Rightarrow> ('d, 'r, 'a, 'c) auth_service \<Rightarrow> ('d, 'r, 'a, 'c) auth_service" where
  "with_rate_limiter rl s = s\<lparr>au_rate_limiter := set_policy (au_policy s) rl\<rparr>"

definition with_password_login_policy ::
  "password_login_policy \<Rightarrow> ('d, 'r, 'a, 'c) auth_service \<Rightarrow> ('d, 'r, 'a, 'c) auth_service" where
  "with_password_login_policy p s =
     s\<lparr>au_policy := p, au_rate_limiter := set_policy p (au_rate_limiter s)\<rparr>"

definition with_auto_admin_first_user ::
  "bool \<Rightarrow> ('d, 'r, 'a, 'c) auth_service \<Rightarrow> ('d, 'r, 'a, 'c) auth_service" where
  "with_auto_admin_first_user enabled s = s\<lparr>au_auto_admin_first_user := enabled\<rparr>"

definition ensure_password_login_allowed :: "('d, 'r, 'a, 'c) auth_service \<Rightarrow> unit result" where
  "ensure_password_login_allowed s =
     (if \<not> policy_is_enabled (au_policy s)
      then Inl (Validation ''password login is disabled by policy; sign in with a third-party identity provider'')
      else Inr ())"

subsection \<open>Registration\<close>

text \<open>Whether this registration takes the first-user exemption, and the latch afterwards.\<close>

definition claim_first_user ::
  "('d, 'r, 'a, 'p, 'c) auth_env \<Rightarrow> ('d, 'r, 'a, 'c) auth_service \<Rightarrow> bool result \<times> ('d, 'r, 'a, 'c) auth_service" where
  "claim_first_user env s =
     (if \<not> au_auto_admin_first_user s then (Inr False, s)
      else
        let previous = au_has_first_user s; s' = s\<lparr>au_has_first_user := True\<rparr>
        in if previous then (Inr False, s')
           else (and_then (db_count_users (env_db env) (au_db s')) (\<lambda>n. Inr (n = 0)), s'))"

definition register_impl ::
  "('d, 'r, 'a, 'p, 'c) auth_env \<Rightarrow> int \<Rightarrow> uuid \<Rightarrow> string \<Rightarrow> scalar list \<Rightarrow> scalar list \<Rightarrow> scalar list option \<Rightarrow>
     ('d, 'r, 'a, 'c) auth_service \<Rightarrow> user_info result \<times> ('d, 'r, 'a, 'c) auth_service" where
  "register_impl env now fresh salt username password display s =
     (case db_find_by_username (env_db env) username (au_db s) of
        Inl e \<Rightarrow> (Inl e, s)
      | Inr (Some u) \<Rightarrow> (Inl (Validation ''username already exists''), s)
      | Inr None \<Rightarrow>
          (case env_hash env salt password of
             Inl e \<Rightarrow> (Inl e, s)
           | Inr hash \<Rightarrow>
               let user = \<lparr>ur_id = fresh, ur_username = username, ur_password_hash = hash,
                     ur_display_name = display, ur_is_active = True,
                     ur_identity = BasicIdentity fresh now, ur_created_at = now, ur_updated_at = now\<rparr>;
                   (claim, s1) = claim_first_user env s
               in case claim of
                    Inl e \<Rightarrow> (Inl e, s1)
                  | Inr is_first \<Rightarrow>
                      (case db_create_user (env_db env) user (au_db s1) of
                         (Inl e, d) \<Rightarrow> (Inl e, s1\<lparr>au_db := d\<rparr>)
                       | (Inr _, d) \<Rightarrow>
                           let s2 = s1\<lparr>au_db := d\<rparr>;
                               role_name = (if is_first then au_first_user_role s2 else au_default_role s2)
                           in case env_assign_role env (env_uuid_string env fresh) role_name (au_store s2) of
                                (Inl e, st) \<Rightarrow> (Inl e, s2\<lparr>au_store := st\<rparr>)
                              | (Inr _, st) \<Rightarrow> (Inr (to_public user), s2\<lparr>au_store := st\<rparr>))))"

definition register_user ::
  "('d, 'r, 'a, 'p, 'c) auth_env \<Rightarrow> instant \<Rightarrow> int \<Rightarrow> uuid \<Rightarrow> string \<Rightarrow> scalar list \<Rightarrow> scalar list \<Rightarrow>
     scalar list option \<Rightarrow> ('d, 'r, 'a, 'c) auth_service \<Rightarrow> user_info result \<times> ('d, 'r, 'a, 'c) auth_service" where
  "register_user env inst now fresh salt raw_username password display s =
     (case validate_username raw_username of
        Inl e \<Rightarrow> (Inl e, s)
      | Inr username \<Rightarrow>
          (case validate_password (env_unicode env) password of
             Inl e \<Rightarrow> (Inl e, s)
           | Inr _ \<Rightarrow>
               let (r, rl) = check_and_record_failure (env_unicode env) inst username (au_register_rate_limiter s);
                   s1 = s\<lparr>au_register_rate_limiter := rl\<rparr>
               in case r of
                    Inl e \<Rightarrow> (Inl e, s1)
                  | Inr _ \<Rightarrow>
                      let (r', s2) = register_impl env now fresh salt username password display s1
                      in if is_ok r'
                         then (r', s2\<lparr>au_register_rate_limiter :=
                                 limiter_reset (env_unicode env) username (au_register_rate_limiter s2)\<rparr>)
                         else (r', s2)))"

subsection \<open>Login\<close>

definition authenticate_user ::
  "('d, 'r, 'a, 'p, 'c) auth_env \<Rightarrow> scalar list \<Rightarrow> scalar list \<Rightarrow> ('d, 'r, 'a, 'c) auth_service \<Rightarrow>
     user_record result \<times> ('d, 'r, 'a, 'c) auth_service" where
  "authenticate_user env username password s =
     (case db_find_by_username (env_db env) username (au_db s) of
        Inl e \<Rightarrow> (Inl e, s)
      | Inr None \<Rightarrow> (Inl AuthenticationFailed, s)
      | Inr (Some user) \<Rightarrow>
          if \<not> ur_is_active user then (Inl AuthenticationFailed, s)
          else
            (case env_verify env password (ur_password_hash user) of
               Inl e \<Rightarrow> (Inl e, s)
             | Inr False \<Rightarrow> (Inl AuthenticationFailed, s)
             | Inr True \<Rightarrow>
                 (Inr user, s\<lparr>au_rate_limiter := limiter_reset (env_unicode env) username (au_rate_limiter s)\<rparr>)))"

definition map_err :: "('e \<Rightarrow> 'f) \<Rightarrow> 'e + 'a \<Rightarrow> 'f + 'a" where
  "map_err f r = (case r of Inl e \<Rightarrow> Inl (f e) | Inr x \<Rightarrow> Inr x)"

definition fetch_user_roles_and_perms ::
  "('d, 'r, 'a, 'p, 'c) auth_env \<Rightarrow> string \<Rightarrow> 'a \<Rightarrow> (string list \<times> string list) result" where
  "fetch_user_roles_and_perms env uid st =
     and_then (map_err (\<lambda>_. AuthorizationDenied ''store unavailable'')
                (roles_of (eng_assignment_store (env_engine env st)) uid)) (\<lambda>roles.
       and_then (map_err (\<lambda>_. AuthorizationDenied ''store unavailable'')
                  (effective_permissions (env_engine env st) uid)) (\<lambda>perms.
         Inr (roles, map (env_perm_name env) (env_iter env perms))))"

text \<open>The steps that both login entry points begin with.\<close>

definition sign_in ::
  "('d, 'r, 'a, 'p, 'c) auth_env \<Rightarrow> instant \<Rightarrow> scalar list \<Rightarrow> scalar list \<Rightarrow> ('d, 'r, 'a, 'c) auth_service \<Rightarrow>
     (user_record \<times> string list \<times> string list) result \<times> ('d, 'r, 'a, 'c) auth_service" where
  "sign_in env inst raw_username password s =
     (case ensure_password_login_allowed s of
        Inl e \<Rightarrow> (Inl e, s)
      | Inr _ \<Rightarrow>
          let username = trim raw_username;
              (r, rl) = check_and_record_failure (env_unicode env) inst username (au_rate_limiter s);
              s1 = s\<lparr>au_rate_limiter := rl\<rparr>
          in case r of
               Inl e \<Rightarrow> (Inl e, s1)
             | Inr _ \<Rightarrow>
                 let (r', s2) = authenticate_user env username password s1
                 in (and_then r' (\<lambda>user.
                       and_then (fetch_user_roles_and_perms env (env_uuid_string env (ur_id user)) (au_store s2))
                         (\<lambda>(roles, perms). Inr (user, roles, perms))), s2))"

definition login ::
  "('d, 'r, 'a, 'p, 'c) auth_env \<Rightarrow> instant \<Rightarrow> int \<Rightarrow> string \<Rightarrow> scalar list \<Rightarrow> scalar list \<Rightarrow>
     ('d, 'r, 'a, 'c) auth_service \<Rightarrow> login_result result \<times> ('d, 'r, 'a, 'c) auth_service" where
  "login env inst now jti raw_username password s =
     (let (r, s') = sign_in env inst raw_username password s
      in (and_then r (\<lambda>(user, roles, perms).
            let uid = env_uuid_string env (ur_id user)
            in and_then (issue_with_options (env_jwt env) (au_jwt s') now jti uid (ur_username user) roles perms None)
                 (\<lambda>token. Inr \<lparr>lr_token = token, lr_user_id = uid, lr_username = ur_username user,
                    lr_display_name = ur_display_name user, lr_roles = roles, lr_session_id = None\<rparr>)), s'))"

definition login_with_session ::
  "('d, 'r, 'a, 'p, 'c) auth_env \<Rightarrow> (string \<Rightarrow> string list \<Rightarrow> int \<Rightarrow> 'm \<Rightarrow> string session result \<times> 'm) \<Rightarrow>
     instant \<Rightarrow> int \<Rightarrow> string \<Rightarrow> scalar list \<Rightarrow> scalar list \<Rightarrow> int \<Rightarrow> 'm \<Rightarrow> ('d, 'r, 'a, 'c) auth_service \<Rightarrow>
     (login_result \<times> string session) result \<times> 'm \<times> ('d, 'r, 'a, 'c) auth_service" where
  "login_with_session env create inst now jti raw_username password session_ttl m s =
     (case sign_in env inst raw_username password s of
        (Inl e, s') \<Rightarrow> (Inl e, m, s')
      | (Inr (user, roles, perms), s') \<Rightarrow>
          let uid = env_uuid_string env (ur_id user);
              (created, m') = create uid (remdups roles) session_ttl m
          in (and_then created (\<lambda>session.
                and_then (issue_with_options (env_jwt env) (au_jwt s') now jti uid (ur_username user) roles perms
                            (Some (env_uuid_string env (session_id session))))
                  (\<lambda>token. Inr (\<lparr>lr_token = token, lr_user_id = uid, lr_username = ur_username user,
                     lr_display_name = ur_display_name user, lr_roles = roles,
                     lr_session_id = Some (session_id session)\<rparr>, session))), m', s'))"

subsection \<open>Tokens, passwords and accounts\<close>

definition verify_token ::
  "('d, 'r, 'a, 'p, 'c) auth_env \<Rightarrow> int \<Rightarrow> string \<Rightarrow> ('d, 'r, 'a, 'c) auth_service \<Rightarrow> jwt_claims result" where
  "verify_token env now token s =
     verify_with_revocation (env_rv env) (env_jwt env) (au_jwt s) now token (au_revocations s)"

definition service_check_permission ::
  "('d, 'r, 'a, 'p, 'c) auth_env \<Rightarrow> instant \<Rightarrow> string \<Rightarrow> 'p \<Rightarrow> ('d, 'r, 'a, 'c) auth_service \<Rightarrow>
     bool \<times> ('d, 'r, 'a, 'c) auth_service" where
  "service_check_permission env inst uid p s =
     (let (granted, c) = check (env_engine env (au_store s)) inst uid p (au_cache s)
      in (granted, s\<lparr>au_cache := c\<rparr>))"

text \<open>
  A change of password awaits three times: the account is looked up and the passwords are checked, the
  tokens are revoked, the new hash is stored. Other calls may run in between, so the parts are definitions
  of their own; \<open>change_password\<close> is a call that nothing interrupts.
\<close>

definition change_password_check ::
  "('d, 'r, 'a, 'p, 'c) auth_env \<Rightarrow> string \<Rightarrow> string \<Rightarrow> scalar list \<Rightarrow> scalar list \<Rightarrow>
     ('d, 'r, 'a, 'c) auth_service \<Rightarrow> (uuid \<times> string) result" where
  "change_password_check env salt uid old_password new_password s =
     (case env_parse_uuid env uid of
        None \<Rightarrow> Inl (Validation ''invalid user_id'')
      | Some i \<Rightarrow>
          (case db_find_by_id (env_db env) i (au_db s) of
             Inl e \<Rightarrow> Inl e
           | Inr None \<Rightarrow> Inl (NotFound ''user not found'')
           | Inr (Some user) \<Rightarrow>
               (case env_verify env old_password (ur_password_hash user) of
                  Inl e \<Rightarrow> Inl e
                | Inr False \<Rightarrow> Inl AuthenticationFailed
                | Inr True \<Rightarrow>
                    (case validate_password (env_unicode env) new_password of
                       Inl e \<Rightarrow> Inl e
                     | Inr _ \<Rightarrow>
                         (case env_hash env salt new_password of
                            Inl e \<Rightarrow> Inl e
                          | Inr new_hash \<Rightarrow> Inr (i, new_hash))))))"

definition change_password_revoke ::
  "('d, 'r, 'a, 'p, 'c) auth_env \<Rightarrow> int \<Rightarrow> string \<Rightarrow> ('d, 'r, 'a, 'c) auth_service \<Rightarrow> ('d, 'r, 'a, 'c) auth_service" where
  "change_password_revoke env now uid s =
     s\<lparr>au_revocations := revoke_all_for_user (env_rv env) now uid (au_revocations s)\<rparr>"

definition change_password_update ::
  "('d, 'r, 'a, 'p, 'c) auth_env \<Rightarrow> int \<Rightarrow> uuid \<Rightarrow> string \<Rightarrow> ('d, 'r, 'a, 'c) auth_service \<Rightarrow>
     unit result \<times> ('d, 'r, 'a, 'c) auth_service" where
  "change_password_update env now i new_hash s =
     (let (r, d) = db_update_password (env_db env) now i new_hash (au_db s) in (r, s\<lparr>au_db := d\<rparr>))"

definition change_password ::
  "('d, 'r, 'a, 'p, 'c) auth_env \<Rightarrow> int \<Rightarrow> string \<Rightarrow> string \<Rightarrow> scalar list \<Rightarrow> scalar list \<Rightarrow>
     ('d, 'r, 'a, 'c) auth_service \<Rightarrow> unit result \<times> ('d, 'r, 'a, 'c) auth_service" where
  "change_password env now salt uid old_password new_password s =
     (case change_password_check env salt uid old_password new_password s of
        Inl e \<Rightarrow> (Inl e, s)
      | Inr (i, new_hash) \<Rightarrow> change_password_update env now i new_hash (change_password_revoke env now uid s))"

lemmas change_password_steps = change_password_check_def change_password_revoke_def change_password_update_def

definition service_list_users ::
  "('d, 'r, 'a, 'p, 'c) auth_env \<Rightarrow> ('d, 'r, 'a, 'c) auth_service \<Rightarrow> user_info list result" where
  "service_list_users env s = and_then (db_list_users (env_db env) (au_db s)) (\<lambda>users. Inr (map to_public users))"

definition service_delete_user ::
  "('d, 'r, 'a, 'p, 'c) auth_env \<Rightarrow> int \<Rightarrow> string \<Rightarrow> ('d, 'r, 'a, 'c) auth_service \<Rightarrow>
     bool result \<times> ('d, 'r, 'a, 'c) auth_service" where
  "service_delete_user env now uid s =
     (case env_parse_uuid env uid of
        None \<Rightarrow> (Inl (Validation ''invalid user_id''), s)
      | Some i \<Rightarrow>
          let s1 = s\<lparr>au_revocations := revoke_all_for_user (env_rv env) now uid (au_revocations s)\<rparr>;
              (r, d) = db_delete_user (env_db env) i (au_db s1)
          in (r, s1\<lparr>au_db := d\<rparr>))"

definition logout ::
  "('d, 'r, 'a, 'p, 'c) auth_env \<Rightarrow> (uuid \<Rightarrow> 'm \<Rightarrow> unit result \<times> 'm) \<Rightarrow> int \<Rightarrow> uuid \<Rightarrow> 'm \<Rightarrow>
     ('d, 'r, 'a, 'c) auth_service \<Rightarrow> unit result \<times> 'm \<times> ('d, 'r, 'a, 'c) auth_service" where
  "logout env destroy now sid m s =
     (let s1 = s\<lparr>au_revocations := revoke_session (env_rv env) now (env_uuid_string env sid) (au_revocations s)\<rparr>;
          (r, m') = destroy sid m
      in (r, m', s1))"

subsection \<open>The default engine\<close>

definition MEMBER_PATHS :: "string list" where
  "MEMBER_PATHS = [''provider.list'', ''provider.use'', ''mcp.list'', ''mcp.use'', ''agent.list'', ''agent.use'',
     ''channel.list'', ''channel.use'', ''workspace.list'', ''workspace.create'', ''device.list'', ''device.connect'']"

definition default_role_registry :: "leaf static_role_registry" where
  "default_role_registry =
     (let all = leaves catalog;
          role = (\<lambda>n ps. register (hierarchy_node_new n (set ps)))
      in (role ''viewer'' (filter (\<lambda>p. suffix ''.list'' (leaf_name p) \<or> leaf_name p = ''deploy.read'') all)
        \<circ> role ''member'' (filter (\<lambda>p. leaf_name p \<in> set MEMBER_PATHS) all)
        \<circ> role ''operator'' (filter (\<lambda>p. leaf_domain p \<noteq> ''system'' \<and> leaf_domain p \<noteq> ''rbac'') all)
        \<circ> role ''admin'' all) srr_new)"

definition build_default_engine :: "leaf in_memory_assignment_store \<Rightarrow> (string, leaf, ttl_permission_cache) rbac_engine" where
  "build_default_engine st = mem_engine id leaf_name default_role_registry st"

subsection \<open>What a login does\<close>

lemma authenticate_Inr:
  "fst (authenticate_user env name pw s) = Inr user \<longleftrightarrow>
     db_find_by_username (env_db env) name (au_db s) = Inr (Some user) \<and> ur_is_active user \<and>
     env_verify env pw (ur_password_hash user) = Inr True"
  by (auto simp: authenticate_user_def split: sum.splits option.splits bool.splits)

lemma authenticate_keeps:
  "au_db (snd (authenticate_user env name pw s)) = au_db s" "au_jwt (snd (authenticate_user env name pw s)) = au_jwt s"
  "au_store (snd (authenticate_user env name pw s)) = au_store s"
  "au_revocations (snd (authenticate_user env name pw s)) = au_revocations s"
  "au_policy (snd (authenticate_user env name pw s)) = au_policy s"
  by (simp_all add: authenticate_user_def split: sum.splits option.splits bool.splits)

lemma sign_in_on:
  assumes "au_policy s = PolicyEnabled"
  shows "sign_in env inst raw pw s =
    (let checked = check_and_record_failure (env_unicode env) inst (trim raw) (au_rate_limiter s);
         s1 = s\<lparr>au_rate_limiter := snd checked\<rparr>;
         found = authenticate_user env (trim raw) pw s1
     in case fst checked of
          Inl e \<Rightarrow> (Inl e, s1)
        | Inr _ \<Rightarrow> (and_then (fst found) (\<lambda>user.
            and_then (fetch_user_roles_and_perms env (env_uuid_string env (ur_id user)) (au_store s))
              (\<lambda>(roles, perms). Inr (user, roles, perms))), snd found))"
  using assms
  by (simp add: sign_in_def ensure_password_login_allowed_def Let_def case_prod_beta authenticate_keeps
      split: sum.split)

lemma sign_in_off:
  assumes "au_policy s \<noteq> PolicyEnabled"
  shows "sign_in env inst raw pw s =
    (Inl (Validation ''password login is disabled by policy; sign in with a third-party identity provider''), s)"
  using assms by (cases "au_policy s") (simp_all add: sign_in_def ensure_password_login_allowed_def)

lemma sign_in_Inr:
  "fst (sign_in env inst raw pw s) = Inr (user, roles, perms) \<longleftrightarrow>
     au_policy s = PolicyEnabled \<and>
     is_ok (fst (check_and_record_failure (env_unicode env) inst (trim raw) (au_rate_limiter s))) \<and>
     db_find_by_username (env_db env) (trim raw) (au_db s) = Inr (Some user) \<and> ur_is_active user \<and>
     env_verify env pw (ur_password_hash user) = Inr True \<and>
     fetch_user_roles_and_perms env (env_uuid_string env (ur_id user)) (au_store s) = Inr (roles, perms)"
proof (cases "au_policy s = PolicyEnabled")
  case True
  show ?thesis
    unfolding sign_in_on [OF True]
    by (auto simp: True Let_def and_then_eq_Inr authenticate_Inr split: sum.split)
next
  case False
  then show ?thesis by (simp add: sign_in_off)
qed

lemma fetch_Inr:
  "fetch_user_roles_and_perms env uid st = Inr (roles, names) \<longleftrightarrow>
     roles_of (eng_assignment_store (env_engine env st)) uid = Inr roles \<and>
     (\<exists>perms. effective_permissions (env_engine env st) uid = Inr perms \<and>
        names = map (env_perm_name env) (env_iter env perms))"
  by (auto simp: fetch_user_roles_and_perms_def and_then_eq_Inr map_err_def split: sum.splits)

lemma sign_in_keeps:
  "au_db (snd (sign_in env inst raw pw s)) = au_db s" "au_jwt (snd (sign_in env inst raw pw s)) = au_jwt s"
  "au_store (snd (sign_in env inst raw pw s)) = au_store s"
  "au_revocations (snd (sign_in env inst raw pw s)) = au_revocations s"
  "au_policy (snd (sign_in env inst raw pw s)) = au_policy s"
  by (cases "au_policy s = PolicyEnabled";
      simp add: sign_in_on sign_in_off Let_def authenticate_keeps split: sum.split)+

text \<open>
  C13: a login succeeds exactly when password login is offered, the limiter admits the attempt,
  the trimmed name belongs to an active account whose stored hash verifies the password, the
  roles and permissions can be read and the token can be signed; the token then carries those
  roles and the permissions in force, and the result the account's data.
\<close>

theorem login_exact:
  "fst (login env inst now jti raw pw s) = Inr lr \<longleftrightarrow>
     (\<exists>user roles perms token. au_policy s = PolicyEnabled \<and>
        is_ok (fst (check_and_record_failure (env_unicode env) inst (trim raw) (au_rate_limiter s))) \<and>
        db_find_by_username (env_db env) (trim raw) (au_db s) = Inr (Some user) \<and> ur_is_active user \<and>
        env_verify env pw (ur_password_hash user) = Inr True \<and>
        roles_of (eng_assignment_store (env_engine env (au_store s))) (env_uuid_string env (ur_id user)) = Inr roles \<and>
        effective_permissions (env_engine env (au_store s)) (env_uuid_string env (ur_id user)) = Inr perms \<and>
        issue_with_options (env_jwt env) (au_jwt s) now jti (env_uuid_string env (ur_id user)) (ur_username user)
          roles (map (env_perm_name env) (env_iter env perms)) None = Inr token \<and>
        lr = \<lparr>lr_token = token, lr_user_id = env_uuid_string env (ur_id user),
              lr_username = ur_username user, lr_display_name = ur_display_name user,
              lr_roles = roles, lr_session_id = None\<rparr>)"
proof -
  have "fst (login env inst now jti raw pw s) = Inr lr \<longleftrightarrow>
    (\<exists>user roles names. fst (sign_in env inst raw pw s) = Inr (user, roles, names) \<and>
      (\<exists>token. issue_with_options (env_jwt env) (au_jwt s) now jti (env_uuid_string env (ur_id user))
          (ur_username user) roles names None = Inr token \<and>
        lr = \<lparr>lr_token = token, lr_user_id = env_uuid_string env (ur_id user),
              lr_username = ur_username user, lr_display_name = ur_display_name user,
              lr_roles = roles, lr_session_id = None\<rparr>))"
    by (auto simp: login_def and_then_eq_Inr Let_def case_prod_beta sign_in_keeps)
  then show ?thesis unfolding sign_in_Inr fetch_Inr by blast
qed

text \<open>The outcome of an attempt whose credentials do not match an active account.\<close>

definition bad_credentials ::
  "('d, 'r, 'a, 'p, 'c) auth_env \<Rightarrow> scalar list \<Rightarrow> scalar list \<Rightarrow> 'd \<Rightarrow> bool" where
  "bad_credentials env name pw d \<longleftrightarrow>
     (case db_find_by_username (env_db env) name d of
        Inl e \<Rightarrow> False
      | Inr None \<Rightarrow> True
      | Inr (Some user) \<Rightarrow> \<not> ur_is_active user \<or> env_verify env pw (ur_password_hash user) = Inr False)"

lemma sign_in_bad:
  assumes "bad_credentials env (trim raw) pw (au_db s)"
  shows "sign_in env inst raw pw s =
    (case ensure_password_login_allowed s of
       Inl e \<Rightarrow> (Inl e, s)
     | Inr _ \<Rightarrow>
         let (r, rl) = check_and_record_failure (env_unicode env) inst (trim raw) (au_rate_limiter s)
         in (Inl (case r of Inl e \<Rightarrow> e | Inr _ \<Rightarrow> AuthenticationFailed), s\<lparr>au_rate_limiter := rl\<rparr>))"
proof -
  have found: "authenticate_user env (trim raw) pw (s\<lparr>au_rate_limiter := rl\<rparr>) =
      (Inl AuthenticationFailed, s\<lparr>au_rate_limiter := rl\<rparr>)" for rl
    using assms by (auto simp: authenticate_user_def bad_credentials_def split: sum.splits option.splits)
  show ?thesis
    by (simp add: sign_in_def found Let_def case_prod_beta split: sum.split)
qed

text \<open>
  C14: to whoever holds no valid credentials a login says nothing about accounts: for an
  unknown name, a deactivated account and a wrong password the answer and the state afterwards
  are the same function of the switch and the rate limiter alone, with and without a session.
\<close>

theorem failed_login_is_uniform:
  assumes "bad_credentials env (trim raw) pw (au_db s)"
  shows "let outcome = (case ensure_password_login_allowed s of
             Inl e \<Rightarrow> (e, s)
           | Inr _ \<Rightarrow>
               let (r, rl) = check_and_record_failure (env_unicode env) inst (trim raw) (au_rate_limiter s)
               in (case r of Inl e \<Rightarrow> e | Inr _ \<Rightarrow> AuthenticationFailed, s\<lparr>au_rate_limiter := rl\<rparr>))
         in login env inst now jti raw pw s = (Inl (fst outcome), snd outcome) \<and>
            login_with_session env create inst now jti raw pw session_ttl m s = (Inl (fst outcome), m, snd outcome)"
  by (simp add: login_def login_with_session_def sign_in_bad [OF assms] Let_def case_prod_beta split: sum.split)

text \<open>
  With password login off, both entry points refuse before anything is read or counted.
\<close>

lemma disabled_login_touches_nothing:
  "login env inst now jti raw pw (with_password_login_policy PolicyDisabled s) =
     (Inl (Validation ''password login is disabled by policy; sign in with a third-party identity provider''),
      with_password_login_policy PolicyDisabled s)"
  by (simp add: login_def sign_in_def ensure_password_login_allowed_def with_password_login_policy_def)

lemma limiter_policy_in_step:
  "rl_policy (au_rate_limiter (with_rate_limiter rl s)) = au_policy (with_rate_limiter rl s)"
  "rl_policy (au_rate_limiter (with_password_login_policy p s)) = au_policy (with_password_login_policy p s)"
  by (simp_all add: with_rate_limiter_def with_password_login_policy_def set_policy_def)

subsection \<open>An example\<close>

text \<open>
  A service over the in-memory database and store, with a library that knows one token, a hash
  that is the password itself, and identifiers that can be read in two spellings, as the
  identifier library reads several.
\<close>

definition demo_env ::
  "(in_memory_user_database, revocation_table, leaf in_memory_assignment_store, leaf, ttl_permission_cache) auth_env" where
  "demo_env = \<lparr>env_db = in_memory_users, env_rv = memory_revocation, env_jwt = demo_jwt_lib,
     env_unicode = ascii_tables, env_hash = (\<lambda>salt pw. Inr (map char_of pw)),
     env_verify = (\<lambda>pw h. Inr (pw = ascii h)),
     env_uuid_string = (\<lambda>i. if i = 7 then ''u'' else decimal i),
     env_parse_uuid = (\<lambda>s. if s \<in> {''u'', ''U''} then Some 7 else None),
     env_assign_role = (\<lambda>uid role st. (Inr (), assign_role id uid role st)),
     env_engine = build_default_engine, env_perm_name = leaf_name,
     env_iter = (\<lambda>ps. filter (\<lambda>p. p \<in> ps) (leaves catalog))\<rparr>"

definition demo_user :: user_record where
  "demo_user = \<lparr>ur_id = 7, ur_username = [97, 98], ur_password_hash = ''Old-pass-1'', ur_display_name = None,
     ur_is_active = True, ur_identity = BasicIdentity 7 0, ur_created_at = 0, ur_updated_at = 0\<rparr>"

definition demo_service ::
  "(in_memory_user_database, revocation_table, leaf in_memory_assignment_store, ttl_permission_cache) auth_service" where
  "demo_service = \<lparr>au_db = snd (create_user demo_user user_database_new), au_jwt = demo_jwt, au_revocations = [],
     au_store = assignment_store_new, au_cache = ttl_cache_new 60, au_rate_limiter = limiter_new 5 300 900,
     au_register_rate_limiter = limiter_new 3 300 1800, au_policy = PolicyEnabled, au_first_user_role = ''admin'',
     au_default_role = ''member'', au_auto_admin_first_user = True, au_has_first_user = False\<rparr>"

lemma demo_find_name: "find_by_username n (au_db demo_service) = Inr (if n = [97, 98] then Some demo_user else None)"
  by (simp add: demo_service_def find_by_username_def create_user_def user_database_new_def demo_user_def)

lemma demo_find_id: "find_by_id i (au_db demo_service) = Inr (if i = 7 then Some demo_user else None)"
  by (simp add: demo_service_def find_by_id_def create_user_def user_database_new_def demo_user_def)

theorem failed_login_is_uniform_witness:
  "fst (login demo_env 0 0 ''j'' [97, 98] [1] demo_service) = Inl AuthenticationFailed"
proof -
  have bad: "bad_credentials demo_env (trim [97, 98]) [1] (au_db demo_service)"
    by (simp add: bad_credentials_def demo_env_def in_memory_users_def demo_find_name trim_def
        is_whitespace_def) (simp add: demo_user_def ascii_def)
  show ?thesis
    unfolding failed_login_is_uniform [OF bad, unfolded Let_def, THEN conjunct1]
    by (simp add: ensure_password_login_allowed_def demo_service_def demo_env_def limiter_new_def
        check_and_record_failure_def prune_elapsed_def RATE_LIMITER_MAX_ENTRIES_def duration_since_def
        duration_from_secs_def total_window_def Let_def)
qed

end
