(* ===== verification/Login_Security.thy ===== *)
theory Login_Security
  imports Login_Service
begin

text \<open>
  What the login service guarantees over histories: guesses at a password are bounded, a changed
  password ends the tokens issued before, and the first-user exemption is handed out at most
  once, also when registrations run concurrently.
\<close>

subsection \<open>A changed password\<close>

lemma change_password_check_Inr:
  assumes "change_password_check env salt uid old_password new_password s = Inr (i, h)"
  shows "env_parse_uuid env uid = Some i"
    "\<exists>user. db_find_by_id (env_db env) i (au_db s) = Inr (Some user) \<and>
      env_verify env old_password (ur_password_hash user) = Inr True"
    "validate_password (env_unicode env) new_password = Inr ()" "env_hash env salt new_password = Inr h"
  using assms by (auto simp: change_password_check_def split: option.splits sum.splits bool.splits)

text \<open>
  C5: a change of password, called with the identifier as the tokens carry it, ends the tokens issued to the
  account up to its revocation: none of them verifies later, whatever is revoked before and after,
  as long as the life of a token fits the clean-up window and clean-ups spare it; and it stores the hash of a
  new password that passes the policy and leaves every other account alone. The three parts of the call
  (check, revocation, update) each find the state that other calls have made meanwhile. (In
  another spelling of the identifier, and for a login between revocation and update, see below.)
\<close>

theorem password_change_ends_tokens:
  assumes "env_db env = in_memory_users" "users_wf (au_db s2)" "env_rv env = memory_revocation" "jwt_ok (env_jwt env)"
    and life: "jm_expiration_hours (au_jwt s1) * 3600 + 61 \<le> REVOCATION_AUTO_CLEANUP_WINDOW_SECS"
    and checked: "change_password_check env salt uid old_password new_password s0 = Inr (i, h)"
    and "au_revocations s1 = fold (revocation_step memory_revocation) earlier []"
    and issued: "issue_with_options (env_jwt env) (au_jwt s1) t0 jti uid name roles perms sid = Inr token"
    and "t0 \<le> t" "\<forall>(u, op) \<in> set later. t \<le> u \<and> u \<le> now"
    and "\<forall>(u, op) \<in> set later. cleanup_spares (jm_expiration_hours (au_jwt s1) * 3600 + 60) op"
    and "au_revocations s3 = fold (revocation_step memory_revocation) later (au_revocations (change_password_revoke env t uid s1))"
      "au_jwt s3 = au_jwt s1"
    and updated: "im_accounts (au_db s2) i = Some user"
  shows "\<not> is_ok (verify_token env now token s3) \<and>
    validate_password (env_unicode env) new_password = Inr () \<and> env_hash env salt new_password = Inr h \<and>
    im_accounts (au_db (snd (change_password_update env t' i h s2))) = (im_accounts (au_db s2))(i \<mapsto> with_hash t' h user)"
proof -
  have "\<not> is_ok (verify_with_revocation memory_revocation (env_jwt env) (au_jwt s1) now token
      (fold (revocation_step memory_revocation) (earlier @ (t, RevokeAllForUser uid) # later) []))"
    by (rule revoked_while_alive [OF life assms(4) issued _ _ assms(9,10,11),
          where k = uid and nb = "timestamp t + 1"])
      (simp_all add: token_keys_def claims_of_def)
  then have "\<not> is_ok (verify_token env now token s3)"
    by (simp add: verify_token_def assms(3,7,12,13) change_password_revoke_def)
  moreover have "im_accounts (au_db (snd (change_password_update env t' i h s2))) = (im_accounts (au_db s2))(i \<mapsto> with_hash t' h user)"
    using mem_users.update_accounts [OF assms(2), of t' i h]
    by (simp add: assms(1) updated change_password_update_def case_prod_beta Let_def)
  ultimately show ?thesis using change_password_check_Inr [OF checked] by simp
qed

lemma demo_new_password: "validate_password ascii_tables (ascii ''New-pass-2'') = Inr ()"
  by (simp add: validate_password_def ascii_def str_len_def as_bytes_def utf8_def MIN_PASSWORD_LEN_def
      MAX_PASSWORD_LEN_def password_categories_def ascii_tables_def is_ascii_digit_def is_ascii_alphanumeric_def)

lemma demo_env_fields:
  "env_parse_uuid demo_env s = (if s \<in> {''u'', ''U''} then Some 7 else None)" "env_unicode demo_env = ascii_tables"
  "env_verify demo_env pw h = Inr (pw = ascii h)" "env_hash demo_env salt pw = Inr (map char_of pw)"
  "env_uuid_string demo_env 7 = ''u''" "db_find_by_id in_memory_users = find_by_id"
  "db_find_by_username in_memory_users = find_by_username"
  "db_update_password in_memory_users = update_password" "env_rv demo_env = memory_revocation"
  "env_jwt demo_env = demo_jwt_lib" "env_db demo_env = in_memory_users"
  by (simp_all add: demo_env_def in_memory_users_def)

lemma demo_user_fields: "ur_password_hash demo_user = ''Old-pass-1''" "ur_is_active demo_user" "ur_id demo_user = 7"
  by (simp_all add: demo_user_def)

theorem password_change_ends_tokens_witness:
  "let s1 = change_password_revoke demo_env 6000000000 ''u'' demo_service
   in \<not> is_ok (verify_token demo_env 90000000000 ''token''
        (s1\<lparr>au_revocations := fold (revocation_step memory_revocation) [(70000000000, RevokeToken ''x'')] (au_revocations s1)\<rparr>))"
proof -
  have checked: "change_password_check demo_env ''salt'' ''u'' (ascii ''Old-pass-1'') (ascii ''New-pass-2'') demo_service =
      Inr (7, map char_of (ascii ''New-pass-2''))"
    by (simp add: change_password_check_def demo_new_password demo_env_fields demo_find_id demo_user_fields)
  have wf: "users_wf (au_db demo_service)"
    by (simp add: demo_service_def create_user_wf)
  have issued: "issue_with_options (env_jwt demo_env) (au_jwt demo_service) 5000000000 ''j'' ''u''
      [97] [''member''] [] (Some ''s'') = Inr ''token''"
    using demo_issued by (simp add: demo_env_fields demo_service_def)
  have user: "im_accounts (au_db demo_service) 7 = Some demo_user"
    using mem_users.find_id [OF wf, of 7] demo_find_id by (simp add: demo_env_fields)
  show ?thesis
    unfolding Let_def
    using password_change_ends_tokens [where earlier = "[]" and later = "[(70000000000, RevokeToken ''x'')]"
        and now = 90000000000 and t = 6000000000 and env = demo_env and ?s1.0 = demo_service and ?s2.0 = demo_service
        and ?s3.0 = "(change_password_revoke demo_env 6000000000 ''u'' demo_service)
          \<lparr>au_revocations := fold (revocation_step memory_revocation) [(70000000000, RevokeToken ''x'')]
            (au_revocations (change_password_revoke demo_env 6000000000 ''u'' demo_service))\<rparr>",
        OF _ wf _ _ _ checked _ issued _ _ _ _ _ user]
    by (simp add: demo_env_fields demo_service_def demo_jwt_def REVOCATION_AUTO_CLEANUP_WINDOW_SECS_def
      change_password_revoke_def)
qed

text \<open>
  The tokens are revoked before the new hash is stored. Whoever logs in with the old password in between,
  two seconds after the revocation or later, holds a token that the change does not end.
\<close>

lemma login_during_change_survives:
  assumes "jwt_ok lib" "issue_with_options lib jm t0 jti uid name roles perms sid = Inr token"
    and "timestamp t + 1 < timestamp t0" "timestamp now \<le> timestamp t0 + jm_expiration_hours jm * 3600"
  shows "is_ok (verify_with_revocation memory_revocation lib jm now token (revoke_all_for_user memory_revocation t uid []))"
proof -
  have "\<forall>e \<in> set [(t, RevokeAllForUser uid)]. \<forall>k nb. revocation_entry e = Some (k, nb) \<and>
      k \<in> token_keys (claims_of jm t0 jti uid name roles perms sid) \<longrightarrow> nb < timestamp t0"
    using assms(3) by simp
  from unrevoked_token_passes [OF assms(1,2) this] assms(4) show ?thesis by (simp add: is_ok_iff)
qed

text \<open>
  The token is revoked under the identifier as the caller wrote it. In another spelling that
  reads as the same account, the password changes and the tokens stay valid.
\<close>

lemma other_spelling_keeps_tokens:
  "let (r, s') = change_password demo_env 6000000000 ''salt'' ''U'' (ascii ''Old-pass-1'') (ascii ''New-pass-2'') demo_service
   in r = Inr () \<and> verify_token demo_env 90000000000 ''token'' s' = Inr demo_claims"
proof -
  have c: "change_password demo_env 6000000000 ''salt'' ''U'' (ascii ''Old-pass-1'') (ascii ''New-pass-2'') demo_service =
      (Inr (), demo_service\<lparr>au_revocations := [(''U'', 7)],
         au_db := snd (update_password 6000000000 7 (map char_of (ascii ''New-pass-2'')) (au_db demo_service))\<rparr>)"
    by (simp add: change_password_def change_password_steps demo_new_password demo_env_fields demo_find_id Let_def demo_user_fields)
      (simp add: demo_new_password demo_env_fields update_password_def case_prod_beta demo_service_def
        create_user_def user_database_new_def demo_user_def Let_def revoke_all_for_user_def mem_revocation_defs
        REVOCATION_MAX_ENTRIES_def timestamp_def)
  show ?thesis
    unfolding c
    by (simp add: verify_token_def verify_with_revocation_def demo_env_fields jwt_verify_def demo_service_def
        demo_jwt_lib_def demo_jwt_def demo_claims_def claims_of_def timestamp_def mem_revocation_defs revokes_def
        session_key_def)
qed

subsection \<open>Guesses\<close>

type_synonym login_attempt = "instant \<times> int \<times> string \<times> scalar list \<times> scalar list"

fun login_step ::
  "('d, 'r, 'a, 'p, 'c) auth_env \<Rightarrow> login_attempt \<Rightarrow> ('d, 'r, 'a, 'c) auth_service \<Rightarrow> ('d, 'r, 'a, 'c) auth_service" where
  "login_step env (inst, now, jti, raw, pw) s = snd (login env inst now jti raw pw s)"

text \<open>How often a login under the key is answered with a failed authentication.\<close>

fun wrong_guesses ::
  "('d, 'r, 'a, 'p, 'c) auth_env \<Rightarrow> scalar list \<Rightarrow> login_attempt list \<Rightarrow> ('d, 'r, 'a, 'c) auth_service \<Rightarrow> nat" where
  "wrong_guesses env k [] s = 0"
| "wrong_guesses env k ((inst, now, jti, raw, pw) # es) s =
     of_bool (limiter_key (env_unicode env) raw = k \<and>
       fst (login env inst now jti raw pw s) = Inl AuthenticationFailed)
     + wrong_guesses env k es (login_step env (inst, now, jti, raw, pw) s)"

lemma check_error: "fst (check_and_record_failure u now raw rl) = Inl e \<Longrightarrow> e \<noteq> AuthenticationFailed"
  by (auto simp: check_and_record_failure_def Let_def split: if_splits)

lemma limiter_key_trim [simp]: "limiter_key u (trim raw) = limiter_key u raw"
  by (simp add: limiter_key_def)

lemma login_snd: "snd (login env inst now jti raw pw s) = snd (sign_in env inst raw pw s)"
  by (simp add: login_def case_prod_beta Let_def)

text \<open>What a login does to the limiter, as calls of the limiter.\<close>

definition login_calls ::
  "('d, 'r, 'a, 'p, 'c) auth_env \<Rightarrow> login_attempt \<Rightarrow> ('d, 'r, 'a, 'c) auth_service \<Rightarrow> (instant \<times> limiter_call) list" where
  "login_calls env e s = (case e of (inst, now, jti, raw, pw) \<Rightarrow>
     if au_policy s \<noteq> PolicyEnabled then []
     else (inst, Attempt (trim raw)) #
       (if is_ok (fst (check_and_record_failure (env_unicode env) inst (trim raw) (au_rate_limiter s))) \<and>
           is_ok (fst (authenticate_user env (trim raw) pw s))
        then [(inst, Clear (trim raw))] else []))"

lemma authenticate_limiter:
  "au_rate_limiter (snd (authenticate_user env name pw (s\<lparr>au_rate_limiter := rl\<rparr>))) =
     (if is_ok (fst (authenticate_user env name pw s)) then limiter_reset (env_unicode env) name rl else rl)"
  by (simp add: authenticate_user_def split: sum.split option.split bool.split)

lemma login_limiter:
  "au_rate_limiter (login_step env e s) = fold (limiter_step (env_unicode env)) (login_calls env e s) (au_rate_limiter s)"
proof -
  obtain inst now jti raw pw where e: "e = (inst, now, jti, raw, pw)" by (cases e)
  show ?thesis
    by (cases "au_policy s = PolicyEnabled")
      (auto simp: e login_snd login_calls_def sign_in_on sign_in_off Let_def authenticate_limiter is_ok_iff
        split: sum.split)
qed

lemma login_wrong:
  assumes "limiter_key (env_unicode env) raw = k" "fst (login env inst now jti raw pw s) = Inl AuthenticationFailed"
  shows "1 \<le> admissions (env_unicode env) k (login_calls env (inst, now, jti, raw, pw) s) (au_rate_limiter s)"
proof (cases "au_policy s = PolicyEnabled")
  case True
  have "is_ok (fst (check_and_record_failure (env_unicode env) inst (trim raw) (au_rate_limiter s)))"
  proof (cases "fst (check_and_record_failure (env_unicode env) inst (trim raw) (au_rate_limiter s))")
    case (Inl e)
    with assms(2) check_error [OF Inl] show ?thesis
      by (simp add: login_def sign_in_on [OF True] Let_def)
  qed simp
  then show ?thesis using assms(1) by (simp add: login_calls_def True)
next
  case False
  then show ?thesis using assms(2) by (simp add: login_def sign_in_off)
qed

lemma admissions_append:
  "admissions u k (as @ bs) rl = admissions u k as rl + admissions u k bs (fold (limiter_step u) as rl)"
  by (induction as arbitrary: rl) simp_all

lemma login_keeps_db: "au_db (login_step env e s) = au_db s"
  by (cases e) (simp add: login_snd sign_in_keeps)

lemma authenticate_db:
  "au_db s = au_db s' \<Longrightarrow> is_ok (fst (authenticate_user env name pw s)) = is_ok (fst (authenticate_user env name pw s'))"
  by (simp add: authenticate_user_def split: sum.split option.split bool.split)

lemma guesses_are_admissions:
  assumes "\<forall>(inst, now, jti, raw, pw) \<in> set es. P inst \<and>
    (limiter_key (env_unicode env) raw = k \<longrightarrow> \<not> is_ok (fst (authenticate_user env (trim raw) pw s)))"
  shows "\<exists>cs. wrong_guesses env k es s \<le> admissions (env_unicode env) k cs (au_rate_limiter s) \<and>
    (\<forall>(t, c) \<in> set cs. P t \<and> \<not> clears (env_unicode env) k c)"
  using assms
proof (induction es arbitrary: s)
  case Nil
  show ?case by (rule exI [of _ "[]"]) simp
next
  case (Cons e es)
  obtain inst now jti raw pw where e: "e = (inst, now, jti, raw, pw)" by (cases e)
  have "is_ok (fst (authenticate_user env n p (login_step env e s))) = is_ok (fst (authenticate_user env n p s))" for n p
    by (rule authenticate_db) (rule login_keeps_db)
  with Cons.prems Cons.IH [of "login_step env e s"] obtain cs where
    cs: "wrong_guesses env k es (login_step env e s) \<le>
        admissions (env_unicode env) k cs (au_rate_limiter (login_step env e s))"
      "\<forall>(t, c) \<in> set cs. P t \<and> \<not> clears (env_unicode env) k c" by auto
  let ?calls = "login_calls env e s"
  have "\<forall>(t, c) \<in> set ?calls. P t \<and> \<not> clears (env_unicode env) k c"
    using Cons.prems by (auto simp: e login_calls_def)
  moreover have "wrong_guesses env k (e # es) s \<le> admissions (env_unicode env) k (?calls @ cs) (au_rate_limiter s)"
    using login_wrong [of env raw k inst now jti pw s] cs(1)
    by (auto simp: e admissions_append login_limiter [symmetric] simp del: login_step.simps)
  ultimately show ?case using cs(2) by (intro exI [of _ "?calls @ cs"]) auto
qed

text \<open>
  C6: password guessing is slow: within any span shorter than the window, a sequence of logins
  in which nobody authenticates under a key tests at most twice the limiter's maximum less one passwords
  under it, nine for the service's default, whatever else is tried in between.
\<close>

theorem login_guesses_bounded:
  assumes "m > 0" "au_rate_limiter s = fold (limiter_step (env_unicode env)) earlier (limiter_new m w l)"
    and "\<forall>(inst, now, jti, raw, pw) \<in> set es. (a \<le> inst \<and> inst < a + duration_from_secs w) \<and>
      (limiter_key (env_unicode env) raw = k \<longrightarrow> \<not> is_ok (fst (authenticate_user env (trim raw) pw s)))"
  shows "wrong_guesses env k es s \<le> 2 * m - 1"
proof -
  obtain cs where cs: "wrong_guesses env k es s \<le> admissions (env_unicode env) k cs (au_rate_limiter s)"
    "\<forall>(t, c) \<in> set cs. (a \<le> t \<and> t < a + duration_from_secs w) \<and> \<not> clears (env_unicode env) k c"
    using guesses_are_admissions [OF assms(3)] by blast
  have "admissions (env_unicode env) k cs (au_rate_limiter s) \<le> 2 * m - 1"
    unfolding assms(2) by (rule guesses_bounded_lemma [OF assms(1), where a = a and w = w]) (use cs(2) in auto)
  with cs(1) show ?thesis by linarith
qed

theorem login_guesses_bounded_witness:
  "wrong_guesses demo_env [97, 98] [(0, 0, ''j'', [97, 98], [1]), (1, 0, ''j'', [65, 98], [2])] demo_service \<le> 2 * 5 - 1"
proof (rule login_guesses_bounded [where earlier = "[]" and w = 300 and l = 900 and a = 0])
  show "au_rate_limiter demo_service = fold (limiter_step (env_unicode demo_env)) [] (limiter_new 5 300 900)"
    by (simp add: demo_service_def)
  show "\<forall>(inst, now, jti, raw, pw) \<in> set [(0, 0, ''j'', [97, 98], [1]), (1, 0, ''j'', [65, 98], [2])].
      (0 \<le> inst \<and> inst < 0 + duration_from_secs 300) \<and>
      (limiter_key (env_unicode demo_env) raw = [97, 98] \<longrightarrow>
       \<not> is_ok (fst (authenticate_user demo_env (trim raw) pw demo_service)))"
    by (simp add: duration_from_secs_def authenticate_user_def demo_env_fields demo_find_name trim_def is_whitespace_def
        demo_user_fields ascii_def)
qed simp

subsection \<open>The first user\<close>

text \<open>
  A registration in flight, between the shared accesses of \<open>register_impl\<close>: the swap of the
  latch, the count of the accounts, the creation, the assignment of the role. The flag tells
  whether the registration takes the first-user exemption.
\<close>

datatype reg_task =
    RegWaiting user_record
  | RegSwapped user_record
  | RegCounted user_record bool
  | RegCreated user_record bool
  | RegDone user_record bool
  | RegFailed kirino_error

fun reg_task_step ::
  "('d, 'r, 'a, 'p, 'c) auth_env \<Rightarrow> reg_task \<Rightarrow> ('d, 'r, 'a, 'c) auth_service \<Rightarrow> reg_task \<times> ('d, 'r, 'a, 'c) auth_service" where
  "reg_task_step env (RegWaiting u) s =
     (if \<not> au_auto_admin_first_user s then (RegCounted u False, s)
      else (if au_has_first_user s then RegCounted u False else RegSwapped u, s\<lparr>au_has_first_user := True\<rparr>))"
| "reg_task_step env (RegSwapped u) s =
     (case db_count_users (env_db env) (au_db s) of
        Inl e \<Rightarrow> (RegFailed e, s)
      | Inr n \<Rightarrow> (RegCounted u (n = 0), s))"
| "reg_task_step env (RegCounted u first) s =
     (case db_create_user (env_db env) u (au_db s) of
        (Inl e, d) \<Rightarrow> (RegFailed e, s\<lparr>au_db := d\<rparr>)
      | (Inr _, d) \<Rightarrow> (RegCreated u first, s\<lparr>au_db := d\<rparr>))"
| "reg_task_step env (RegCreated u first) s =
     (case env_assign_role env (env_uuid_string env (ur_id u))
             (if first then au_first_user_role s else au_default_role s) (au_store s) of
        (Inl e, st) \<Rightarrow> (RegFailed e, s\<lparr>au_store := st\<rparr>)
      | (Inr _, st) \<Rightarrow> (RegDone u first, s\<lparr>au_store := st\<rparr>))"
| "reg_task_step env (RegDone u first) s = (RegDone u first, s)"
| "reg_task_step env (RegFailed e) s = (RegFailed e, s)"

text \<open>Run alone, the steps of a task are \<open>register_impl\<close>.\<close>

fun reg_outcome :: "reg_task \<Rightarrow> user_info result" where
  "reg_outcome (RegDone u first) = Inr (to_public u)"
| "reg_outcome (RegFailed e) = Inl e"
| "reg_outcome _ = Inl (Internal '''')"

fun run_reg :: "nat \<Rightarrow> ('d, 'r, 'a, 'p, 'c) auth_env \<Rightarrow> reg_task \<Rightarrow> ('d, 'r, 'a, 'c) auth_service \<Rightarrow> reg_task \<times> ('d, 'r, 'a, 'c) auth_service" where
  "run_reg 0 env t s = (t, s)"
| "run_reg (Suc n) env t s = (let (t', s') = reg_task_step env t s in run_reg n env t' s')"

lemma register_impl_runs_task:
  assumes "db_find_by_username (env_db env) name (au_db s) = Inr None" "env_hash env salt pw = Inr h"
  shows "register_impl env now fresh salt name pw display s =
    (let u = \<lparr>ur_id = fresh, ur_username = name, ur_password_hash = h, ur_display_name = display,
           ur_is_active = True, ur_identity = BasicIdentity fresh now, ur_created_at = now, ur_updated_at = now\<rparr>;
         (t, s') = run_reg 4 env (RegWaiting u) s
     in (reg_outcome t, s'))"
  using assms
  by (auto simp: register_impl_def claim_first_user_def Let_def numeral_eq_Suc split: sum.split prod.split)

text \<open>
  Registrations that run concurrently take their steps in any order; between them, anything may
  happen to the database, the store and the rest of the service but the latch.
\<close>

inductive reg_step ::
  "('d, 'r, 'a, 'p, 'c) auth_env \<Rightarrow> reg_task list \<times> ('d, 'r, 'a, 'c) auth_service \<Rightarrow>
     reg_task list \<times> ('d, 'r, 'a, 'c) auth_service \<Rightarrow> bool" for env where
  task: "i < length ts \<Longrightarrow> reg_task_step env (ts ! i) s = (t, s') \<Longrightarrow> reg_step env (ts, s) (ts[i := t], s')"
| arrives: "reg_step env (ts, s) (ts @ [RegWaiting u], s)"
| other: "au_has_first_user s' = au_has_first_user s \<Longrightarrow> reg_step env (ts, s) (ts, s')"

fun exempt :: "reg_task \<Rightarrow> bool" where
  "exempt (RegSwapped u) = True"
| "exempt (RegCounted u first) = first"
| "exempt (RegCreated u first) = first"
| "exempt (RegDone u first) = first"
| "exempt _ = False"

definition exempt_inv :: "reg_task list \<times> ('d, 'r, 'a, 'c) auth_service \<Rightarrow> bool" where
  "exempt_inv c \<longleftrightarrow> length (filter exempt (fst c)) \<le> of_bool (au_has_first_user (snd c))"

lemma filter_update_le:
  "i < length xs \<Longrightarrow> (P y \<Longrightarrow> P (xs ! i)) \<Longrightarrow> length (filter P (xs[i := y])) \<le> length (filter P xs)"
proof (induction xs arbitrary: i)
  case (Cons x xs)
  then show ?case by (cases i) auto
qed simp

lemma filter_update_Suc:
  "i < length xs \<Longrightarrow> length (filter P (xs[i := y])) \<le> Suc (length (filter P xs))"
proof (induction xs arbitrary: i)
  case (Cons x xs)
  then show ?case by (cases i) (auto simp: le_SucI)
qed simp

lemma reg_task_step_exempt:
  assumes "reg_task_step env t s = (t', s')"
  shows "(exempt t' \<longrightarrow> exempt t \<or> \<not> au_has_first_user s \<and> au_has_first_user s') \<and>
    (au_has_first_user s \<longrightarrow> au_has_first_user s')"
  using assms by (cases t) (auto split: if_splits sum.splits prod.splits)

lemma reg_step_inv: "reg_step env c c' \<Longrightarrow> exempt_inv c \<Longrightarrow> exempt_inv c'"
proof (induction rule: reg_step.induct)
  case (task i ts s t s')
  note ex = reg_task_step_exempt [OF task(2)]
  show ?case
  proof (cases "exempt t \<longrightarrow> exempt (ts ! i)")
    case True
    with filter_update_le [OF task(1), of exempt t] task.prems ex show ?thesis
      by (cases "au_has_first_user s") (auto simp: exempt_inv_def)
  next
    case False
    with ex have "\<not> au_has_first_user s" "au_has_first_user s'" by auto
    with filter_update_Suc [OF task(1), of exempt t] task.prems show ?thesis by (simp add: exempt_inv_def)
  qed
qed (auto simp: exempt_inv_def)

text \<open>
  C7: however many registrations run concurrently, in whatever order their accesses interleave
  and whatever else happens to the stores meanwhile, at most one of them ever takes the
  first-user exemption, and so at most one account is given the first user's role because of it.
\<close>

theorem first_user_role_once:
  assumes "(reg_step env)\<^sup>*\<^sup>* ([], s) (ts, s')"
  shows "length (filter exempt ts) \<le> 1"
proof -
  have "exempt_inv (ts, s')"
    using assms
    by (induction rule: rtranclp_induct) (auto simp: exempt_inv_def [of "([], s)"] intro: reg_step_inv)
  then show ?thesis by (cases "au_has_first_user s'") (simp_all add: exempt_inv_def)
qed

theorem first_user_role_once_witness:
  "length (filter exempt [RegSwapped demo_user]) \<le> 1"
proof -
  let ?s = "demo_service"
  have "reg_step demo_env ([], ?s) ([] @ [RegWaiting demo_user], ?s)" by (rule reg_step.arrives)
  moreover have "reg_step demo_env ([RegWaiting demo_user], ?s)
      ([RegWaiting demo_user][0 := RegSwapped demo_user], ?s\<lparr>au_has_first_user := True\<rparr>)"
    by (rule reg_step.task) (simp_all add: demo_service_def)
  ultimately have "(reg_step demo_env)\<^sup>*\<^sup>* ([], ?s) ([RegSwapped demo_user], ?s\<lparr>au_has_first_user := True\<rparr>)"
    by (simp add: converse_rtranclp_into_rtranclp)
  then show ?thesis by (rule first_user_role_once)
qed

text \<open>
  The latch is set before the count and never cleared: when the registration that set it fails,
  the exemption is lost, and no later registration of this process takes it, even while there is
  no account.
\<close>

lemma first_user_exemption_is_burned:
  assumes "au_auto_admin_first_user s" "\<not> au_has_first_user s" "db_count_users (env_db env) (au_db s) = Inl e"
  shows "fst (claim_first_user env s) = Inl e \<and>
    fst (claim_first_user env (snd (claim_first_user env s))) = Inr False"
  using assms by (simp add: claim_first_user_def Let_def)

subsection \<open>The default roles\<close>

lemma default_role_permissions:
  "get_role_permissions (static_registry default_role_registry) ''admin'' = Some (set (leaves catalog))"
  "get_role_permissions (static_registry default_role_registry) ''operator'' =
     Some {p \<in> set (leaves catalog). leaf_domain p \<noteq> ''system'' \<and> leaf_domain p \<noteq> ''rbac''}"
  "get_role_permissions (static_registry default_role_registry) ''member'' =
     Some {p \<in> set (leaves catalog). leaf_name p \<in> set MEMBER_PATHS}"
  "get_role_permissions (static_registry default_role_registry) ''viewer'' =
     Some {p \<in> set (leaves catalog). suffix ''.list'' (leaf_name p) \<or> leaf_name p = ''deploy.read''}"
  by (simp_all add: default_role_registry_def Let_def static_registry_simps hierarchy_node_new_def hm_simps)

text \<open>
  Two of the paths listed for members are not in the catalogue, and the viewer may read
  deployments, which the member may not.
\<close>

lemma member_paths_dangle:
  "from_path catalog ''agent.list'' = None \<and> from_path catalog ''agent.use'' = None"
proof -
  have "s \<notin> set (map leaf_name (leaves catalog)) \<Longrightarrow> from_path catalog s = None" for s
    by (auto simp: from_path_def find_None_iff)
  then show ?thesis unfolding catalog_names by simp
qed

lemma viewer_exceeds_member:
  "\<exists>p \<in> the (get_role_permissions (static_registry default_role_registry) ''viewer'').
     leaf_name p = ''deploy.read'' \<and>
     p \<notin> the (get_role_permissions (static_registry default_role_registry) ''member'')"
proof -
  have "''deploy.read'' \<in> set (map leaf_name (leaves catalog))" unfolding catalog_names by simp
  then obtain p where "p \<in> set (leaves catalog)" "leaf_name p = ''deploy.read''" by auto
  moreover have "''deploy.read'' \<notin> set MEMBER_PATHS" by (simp add: MEMBER_PATHS_def)
  ultimately show ?thesis
    by (intro bexI [of _ p]) (simp_all add: default_role_permissions)
qed

end
