(* ===== verification/Metering.thy ===== *)
theory Metering
  imports Kirino_Prelude
begin

text \<open>
  Counting what a component lets through. A history of calls is counted against a budget: the
  state holds an amount, some calls add to it, and every counted event uses up one unit. The
  locale \<open>metered\<close> states this for one step; its lemma bounds the events of any history. It is
  interpreted by the stores of one-time tokens, verification codes, proof-of-work seeds and
  captchas, where the events are the uses of one secret.
\<close>

fun tally :: "('op \<Rightarrow> 's \<Rightarrow> 's) \<Rightarrow> ('op \<Rightarrow> 's \<Rightarrow> bool) \<Rightarrow> 'op list \<Rightarrow> 's \<Rightarrow> nat" where
  "tally step counted [] s = 0"
| "tally step counted (c # cs) s = of_bool (counted c s) + tally step counted cs (step c s)"

locale metered =
  fixes step :: "'op \<Rightarrow> 's \<Rightarrow> 's"
    and ok :: "'s \<Rightarrow> bool"
    and counted :: "'op \<Rightarrow> 's \<Rightarrow> bool"
    and credit :: "'op \<Rightarrow> nat"
    and budget :: "'s \<Rightarrow> nat"
  assumes ok_step: "ok s \<Longrightarrow> ok (step c s)"
    and budget_step: "ok s \<Longrightarrow> budget (step c s) + of_bool (counted c s) \<le> budget s + credit c"
begin

lemma ok_steps: "ok s \<Longrightarrow> ok (fold step cs s)"
  by (induction cs arbitrary: s) (simp_all add: ok_step)

lemma tally_bounded:
  "ok s \<Longrightarrow> tally step counted cs s + budget (fold step cs s) \<le> budget s + sum_list (map credit cs)"
proof (induction cs arbitrary: s)
  case (Cons c cs)
  from Cons.IH [OF ok_step [OF Cons.prems], of c] budget_step [OF Cons.prems, of c] show ?case by simp
qed simp

lemma tally_le: "ok s \<Longrightarrow> tally step counted cs s \<le> budget s + sum_list (map credit cs)"
  using tally_bounded [of s cs] by linarith

end

end
