(* ===== verification/One_Time.thy ===== *)
theory One_Time
  imports Kirino_Utils Metering
begin

text \<open>
  \<^verbatim>\<open>src/auth/credential/one_time.rs\<close> and \<^verbatim>\<open>service.rs\<close>: a credential that verifies once, the
  in-memory store of one-time tokens, which keeps their digests, and the service credential.
  The digest and the HMAC are parameters, random draws arguments. A \<^verbatim>\<open>str\<close> is its bytes.
\<close>

subsection \<open>The one-time credential\<close>

record one_time_credential =
  otc_token :: string
  otc_used :: bool

definition one_time_new :: "string \<Rightarrow> one_time_credential" where
  "one_time_new token = \<lparr>otc_token = token, otc_used = False\<rparr>"

definition TOKEN_LENGTH :: nat where
  "TOKEN_LENGTH = 32"

definition CHARSET :: string where
  "CHARSET = ''ABCDEFGHIJKLMNOPQRSTUVWXYZabcdefghijklmnopqrstuvwxyz0123456789''"

definition generate_one_time_token :: "nat list \<Rightarrow> string" where
  "generate_one_time_token draws = map (\<lambda>idx. CHARSET ! idx) draws"

definition one_time_generate :: "nat list \<Rightarrow> one_time_credential" where
  "one_time_generate draws = one_time_new (generate_one_time_token (take TOKEN_LENGTH draws))"

definition str_bytes :: "string \<Rightarrow> byte list" where
  "str_bytes s = map of_char s"

text \<open>The compare-and-exchange of the flag is one step, so concurrent verifications are a sequence.\<close>

definition one_time_verify :: "string \<Rightarrow> one_time_credential \<Rightarrow> bool \<times> one_time_credential" where
  "one_time_verify token c =
     (if \<not> constant_time_eq (str_bytes (otc_token c)) (str_bytes token) then (False, c)
      else if otc_used c then (False, c)
      else (True, c\<lparr>otc_used := True\<rparr>))"

lemma str_bytes_inj [simp]: "str_bytes s = str_bytes t \<longleftrightarrow> s = t"
proof -
  have "inj (of_char :: char \<Rightarrow> byte)"
  proof (rule injI)
    fix x y :: char assume "(of_char x :: byte) = of_char y"
    then have "unat (of_char x :: byte) = unat (of_char y :: byte)" by simp
    moreover have "unat (of_char c :: byte) = of_char c" for c :: char
    proof -
      have "(of_char c :: byte) = of_nat (of_char c)" by (simp add: of_nat_of_char)
      then show ?thesis using nat_of_char_less_256 [of c] by (simp add: unsigned_of_nat take_bit_nat_eq_self)
    qed
    ultimately show "x = y" by (simp add: of_char_eq_iff)
  qed
  then show ?thesis by (simp add: str_bytes_def inj_map_eq_map)
qed

lemma one_time_verify_eq:
  "one_time_verify token c =
     (token = otc_token c \<and> \<not> otc_used c, c\<lparr>otc_used := otc_used c \<or> token = otc_token c\<rparr>)"
  by (auto simp: one_time_verify_def constant_time_eq_iff)

interpretation otc: metered "\<lambda>t c. snd (one_time_verify t c)" "\<lambda>_. True" "\<lambda>t c. fst (one_time_verify t c)"
  "\<lambda>_. 0" "\<lambda>c. of_bool (\<not> otc_used c)"
  by unfold_locales (auto simp: one_time_verify_eq)

lemma one_time_credential_once:
  "tally (\<lambda>t c. snd (one_time_verify t c)) (\<lambda>t c. fst (one_time_verify t c)) ts c \<le> 1"
  using otc.tally_le [where s = c and cs = ts] by (simp add: of_bool_def split: if_splits)

subsection \<open>The store\<close>

type_synonym one_time_store = "(string, instant) hash_map"

definition ot_cleanup_expired :: "instant \<Rightarrow> one_time_store \<Rightarrow> nat \<times> one_time_store" where
  "ot_cleanup_expired now tokens =
     (let tokens' = filter (\<lambda>(_, expires_at). now < expires_at) tokens
      in (length tokens - length tokens', tokens'))"

definition ot_claim :: "(string \<Rightarrow> string) \<Rightarrow> instant \<Rightarrow> string \<Rightarrow> one_time_store \<Rightarrow> bool \<times> one_time_store" where
  "ot_claim hash_token now token tokens =
     (let hash = hash_token token
      in case map_of tokens hash of
           Some expires_at \<Rightarrow> (now < expires_at, AList.delete hash tokens)
         | None \<Rightarrow> (False, tokens))"

definition ot_issue ::
  "(string \<Rightarrow> string) \<Rightarrow> nat list \<Rightarrow> instant \<Rightarrow> nat \<Rightarrow> one_time_store \<Rightarrow> string \<times> one_time_store" where
  "ot_issue hash_token draws now ttl_secs tokens =
     (let token = otc_token (one_time_generate draws);
          hash = hash_token token;
          tokens' = filter (\<lambda>(_, expires_at). now < expires_at) tokens
      in (token, AList.update hash (now + int ttl_secs * 1000000000) tokens'))"

datatype one_time_call =
    OtClaim string
  | OtIssue "nat list" nat
  | OtCleanup

fun ot_step :: "(string \<Rightarrow> string) \<Rightarrow> instant \<times> one_time_call \<Rightarrow> one_time_store \<Rightarrow> one_time_store" where
  "ot_step h (now, OtClaim token) m = snd (ot_claim h now token m)"
| "ot_step h (now, OtIssue draws ttl) m = snd (ot_issue h draws now ttl m)"
| "ot_step h (now, OtCleanup) m = snd (ot_cleanup_expired now m)"

text \<open>The ledger the store implements: the deadline of each digest that was issued and not claimed.\<close>

fun ledger_step :: "(string \<Rightarrow> string) \<Rightarrow> instant \<times> one_time_call \<Rightarrow> (string \<Rightarrow> instant option) \<Rightarrow> string \<Rightarrow> instant option" where
  "ledger_step h (now, OtClaim token) m = m(h token := None)"
| "ledger_step h (now, OtIssue draws ttl) m =
     m(h (otc_token (one_time_generate draws)) \<mapsto> now + int ttl * 1000000000)"
| "ledger_step h (now, OtCleanup) m = m"

text \<open>The store has what the ledger has, except for deadlines that have passed.\<close>

definition ledger_view :: "instant \<Rightarrow> instant option \<Rightarrow> instant option \<Rightarrow> bool" where
  "ledger_view now c a \<longleftrightarrow> c = a \<or> c = None \<and> (\<exists>d. a = Some d \<and> d \<le> now)"

definition store_refines :: "instant \<Rightarrow> one_time_store \<Rightarrow> (string \<Rightarrow> instant option) \<Rightarrow> bool" where
  "store_refines now m l \<longleftrightarrow> hm_wf m \<and> (\<forall>k. ledger_view now (map_of m k) (l k))"

lemma store_refinesD: "store_refines now m l \<Longrightarrow> ledger_view now (map_of m k) (l k)"
  by (simp add: store_refines_def)

lemma store_refines_later: "store_refines s m l \<Longrightarrow> s \<le> t \<Longrightarrow> store_refines t m l"
  unfolding store_refines_def ledger_view_def by (meson order_trans)

lemma store_refines_prune:
  assumes "store_refines now m l"
  shows "store_refines now (filter (\<lambda>(_, d). now < d) m) l"
  unfolding store_refines_def
proof (intro conjI allI)
  have wf: "hm_wf m" using assms by (simp add: store_refines_def)
  then show "hm_wf (filter (\<lambda>(_, d). now < d) m)" by simp
  show "ledger_view now (map_of (filter (\<lambda>(_, d). now < d) m) k) (l k)" for k
    using store_refinesD [OF assms, of k]
    by (cases "map_of m k"; cases "l k") (auto simp: ledger_view_def hm_map_of_filter [OF wf])
qed

lemma store_refines_insert:
  "store_refines now m l \<Longrightarrow> store_refines now (AList.update k d m) (l(k \<mapsto> d))"
  by (simp add: store_refines_def ledger_view_def hm_simps)

lemma store_refines_remove:
  "store_refines now m l \<Longrightarrow> store_refines now (AList.delete k m) (l(k := None))"
  by (simp add: store_refines_def ledger_view_def hm_simps)

lemma ot_claim_snd: "snd (ot_claim h now token m) = AList.delete (h token) m"
  by (simp add: ot_claim_def Let_def delete_id [unfolded map_of_eq_None_iff [symmetric]] split: option.split)

lemma store_refines_step:
  assumes "store_refines now m l"
  shows "store_refines now (ot_step h (now, c) m) (ledger_step h (now, c) l)"
  using store_refines_prune [OF assms]
  by (cases c) (simp_all add: ot_claim_snd ot_issue_def ot_cleanup_expired_def Let_def assms
      store_refines_insert store_refines_remove)

lemma store_refines_steps:
  "store_refines t0 m l \<Longrightarrow> sorted (t0 # map fst cs @ [now]) \<Longrightarrow>
     store_refines now (fold (ot_step h) cs m) (fold (ledger_step h) cs l)"
proof (induction cs arbitrary: t0 m l)
  case Nil
  then show ?case by (simp add: store_refines_later)
next
  case (Cons e cs)
  obtain t c where e: "e = (t, c)" by force
  from Cons.prems(2) have t: "t0 \<le> t" "sorted (t # map fst cs @ [now])" by (auto simp: e)
  from Cons.IH [OF store_refines_step [OF store_refines_later [OF Cons.prems(1) t(1)]] t(2), of h c]
  show ?case by (simp add: e del: ot_step.simps ledger_step.simps)
qed

text \<open>
  Claiming a one-time token succeeds exactly when it is in the ledger with a deadline still
  ahead, that is when it was issued and since then neither claimed, successfully or not, nor
  expired; what the store prunes on the way makes no difference.
\<close>

theorem one_time_claim_exact:
  assumes "sorted (map fst cs @ [now])"
  shows "fst (ot_claim h now token (fold (ot_step h) cs [])) \<longleftrightarrow>
    (\<exists>d. fold (ledger_step h) cs (\<lambda>_. None) (h token) = Some d \<and> now < d)"
proof -
  let ?t0 = "hd (map fst cs @ [now])"
  have "store_refines ?t0 [] (\<lambda>_. None)" by (simp add: store_refines_def ledger_view_def)
  moreover have "sorted (?t0 # map fst cs @ [now])" using assms by (cases cs) auto
  ultimately have "store_refines now (fold (ot_step h) cs []) (fold (ledger_step h) cs (\<lambda>_. None))"
    by (rule store_refines_steps)
  from store_refinesD [OF this, of "h token"] show ?thesis
    by (cases "map_of (fold (ot_step h) cs []) (h token)"; cases "fold (ledger_step h) cs (\<lambda>_. None) (h token)")
      (auto simp: ledger_view_def ot_claim_def Let_def)
qed

theorem one_time_claim_exact_witness:
  "fst (ot_claim id 5 ''BB'' (fold (ot_step id) [(1, OtIssue [1, 1] 60), (2, OtCleanup)] []))"
  by (subst one_time_claim_exact)
    (simp_all add: one_time_generate_def generate_one_time_token_def one_time_new_def CHARSET_def TOKEN_LENGTH_def)

text \<open>A token is claimed successfully at most as often as it was issued, at whatever times.\<close>

fun ot_claimed :: "(string \<Rightarrow> string) \<Rightarrow> string \<Rightarrow> instant \<times> one_time_call \<Rightarrow> one_time_store \<Rightarrow> bool" where
  "ot_claimed h k (now, OtClaim token) m \<longleftrightarrow> h token = k \<and> fst (ot_claim h now token m)"
| "ot_claimed h k (now, _) m \<longleftrightarrow> False"

fun ot_credit :: "(string \<Rightarrow> string) \<Rightarrow> string \<Rightarrow> instant \<times> one_time_call \<Rightarrow> nat" where
  "ot_credit h k (now, OtIssue draws ttl) = of_bool (h (otc_token (one_time_generate draws)) = k)"
| "ot_credit h k (now, _) = 0"

interpretation ot_meter: metered "ot_step h" hm_wf "ot_claimed h k" "ot_credit h k" "\<lambda>m. of_bool (map_of m k \<noteq> None)"
  for h k
proof
  fix m :: one_time_store and e :: "instant \<times> one_time_call"
  assume wf: "hm_wf m"
  obtain now c where e: "e = (now, c)" by force
  show "hm_wf (ot_step h e m)"
    using wf by (cases c) (auto simp: e ot_claim_def ot_issue_def ot_cleanup_expired_def Let_def split: option.split)
  show "of_bool (map_of (ot_step h e m) k \<noteq> None) + of_bool (ot_claimed h k e m)
      \<le> of_bool (map_of m k \<noteq> None) + ot_credit h k e"
    using wf by (cases c) (auto simp: e ot_claim_def ot_issue_def ot_cleanup_expired_def Let_def hm_simps
        hm_map_of_filter split: option.split)
qed

lemma one_time_token_once:
  "tally (ot_step h) (ot_claimed h k) cs [] \<le> sum_list (map (ot_credit h k) cs)"
  using ot_meter.tally_le [of "[]" h k cs] by simp

subsection \<open>The service credential\<close>

record service_credential =
  sv_token_hash :: string
  sv_key :: "byte list"

definition service_from_shared_key ::
  "(byte list \<Rightarrow> byte list \<Rightarrow> string result) \<Rightarrow> byte list \<Rightarrow> string \<Rightarrow> service_credential result" where
  "service_from_shared_key hmac_hex key token =
     (if key = [] then Inl (Validation ''ServiceCredential key must not be empty'')
      else and_then (hmac_hex key (str_bytes token)) (\<lambda>hash. Inr \<lparr>sv_token_hash = hash, sv_key = key\<rparr>))"

definition service_from_hash :: "string \<Rightarrow> byte list \<Rightarrow> service_credential result" where
  "service_from_hash token_hash key =
     (if key = [] then Inl (Validation ''ServiceCredential key must not be empty'')
      else Inr \<lparr>sv_token_hash = token_hash, sv_key = key\<rparr>)"

definition service_verify ::
  "(byte list \<Rightarrow> byte list \<Rightarrow> string result) \<Rightarrow> string \<Rightarrow> service_credential \<Rightarrow> bool result" where
  "service_verify hmac_hex token c =
     and_then (hmac_hex (sv_key c) (str_bytes token)) (\<lambda>computed.
       Inr (constant_time_eq (str_bytes (sv_token_hash c)) (str_bytes computed)))"

text \<open>A stored hash verifies the token it was made of, and only tokens with the same HMAC.\<close>

lemma service_verify_iff:
  assumes "service_from_shared_key hmac_hex key token = Inr c"
  shows "service_verify hmac_hex t c = Inr True \<longleftrightarrow> hmac_hex key (str_bytes t) = hmac_hex key (str_bytes token)"
  using assms
  by (auto simp: service_from_shared_key_def service_verify_def and_then_eq_Inr constant_time_eq_iff split: if_splits)

end
