(* ===== verification/Verification_Codes.thy ===== *)
theory Verification_Codes
  imports One_Time
begin

text \<open>
  \<^verbatim>\<open>src/service/verify/verification\<close>: the store of pending verification codes
  (\<^verbatim>\<open>code_store.rs\<close>) and the two verifiers over it (\<^verbatim>\<open>email.rs\<close>, \<^verbatim>\<open>sms.rs\<close>), whose sending is
  a log line. Keys and codes are compared as bytes; the count of attempts stays below its
  maximum plus two, so it is a natural number.
\<close>

subsection \<open>Definitions\<close>

record pending_code =
  pc_code :: string
  pc_expires_at :: instant
  pc_attempts :: nat
  pc_max_attempts :: nat

type_synonym code_store = "(string, pending_code) hash_map"

definition store_with_attempts :: "instant \<Rightarrow> string \<Rightarrow> string \<Rightarrow> int \<Rightarrow> nat \<Rightarrow> code_store \<Rightarrow> code_store" where
  "store_with_attempts now key code code_ttl max_attempts codes =
     (let codes' = filter (\<lambda>(_, v). pc_expires_at v > now) codes
      in AList.update key \<lparr>pc_code = code, pc_expires_at = now + code_ttl, pc_attempts = 0,
           pc_max_attempts = max max_attempts 1\<rparr> codes')"

definition store_code :: "instant \<Rightarrow> string \<Rightarrow> string \<Rightarrow> int \<Rightarrow> code_store \<Rightarrow> code_store" where
  "store_code now key code code_ttl = store_with_attempts now key code code_ttl 3"

definition verify_pending :: "instant \<Rightarrow> string \<Rightarrow> string \<Rightarrow> code_store \<Rightarrow> bool \<times> code_store" where
  "verify_pending now key code codes =
     (case map_of codes key of
        None \<Rightarrow> (False, codes)
      | Some pending \<Rightarrow>
          if now \<ge> pc_expires_at pending then (False, AList.delete key codes)
          else
            let pending' = pending\<lparr>pc_attempts := pc_attempts pending + 1\<rparr>
            in if pc_attempts pending' > pc_max_attempts pending' then (False, AList.delete key codes)
               else
                 let r = constant_time_eq (str_bytes (pc_code pending')) (str_bytes code)
                 in (r, if r then AList.delete key codes else AList.update key pending' codes))"

definition generate_numeric_code :: "nat list \<Rightarrow> string" where
  "generate_numeric_code draws = map (\<lambda>d. ''0123456789'' ! d) draws"

definition DEFAULT_CODE_TTL :: int where
  "DEFAULT_CODE_TTL = 300 * 1000000000"

record code_verifier =
  cv_sender :: string
  cv_store :: code_store

definition code_verifier_new :: "string \<Rightarrow> code_verifier" where
  "code_verifier_new sender = \<lparr>cv_sender = sender, cv_store = []\<rparr>"

definition send_code_with_ttl :: "instant \<Rightarrow> string \<Rightarrow> string \<Rightarrow> int \<Rightarrow> code_verifier \<Rightarrow> unit result \<times> code_verifier" where
  "send_code_with_ttl now address code code_ttl v =
     (Inr (), v\<lparr>cv_store := store_code now address code code_ttl (cv_store v)\<rparr>)"

definition send_code :: "instant \<Rightarrow> string \<Rightarrow> string \<Rightarrow> code_verifier \<Rightarrow> unit result \<times> code_verifier" where
  "send_code now address code v = send_code_with_ttl now address code DEFAULT_CODE_TTL v"

definition verify_sent_code :: "instant \<Rightarrow> string \<Rightarrow> string \<Rightarrow> code_verifier \<Rightarrow> bool result \<times> code_verifier" where
  "verify_sent_code now address code v =
     (let (r, st) = verify_pending now address code (cv_store v) in (Inr r, v\<lparr>cv_store := st\<rparr>))"

subsection \<open>The life of a code\<close>

datatype code_call =
    StoreCode string string int nat
  | VerifyCode string string

fun code_step :: "instant \<times> code_call \<Rightarrow> code_store \<Rightarrow> code_store" where
  "code_step (now, StoreCode key code code_ttl m) s = store_with_attempts now key code code_ttl m s"
| "code_step (now, VerifyCode key code) s = snd (verify_pending now key code s)"

text \<open>The guesses a history makes at one key.\<close>

definition guesses :: "string \<Rightarrow> (instant \<times> code_call) list \<Rightarrow> string list" where
  "guesses key cs =
     List.map_filter (\<lambda>(_, c). case c of VerifyCode k g \<Rightarrow> if k = key then Some g else None | _ \<Rightarrow> None) cs"

fun stores_key :: "string \<Rightarrow> code_call \<Rightarrow> bool" where
  "stores_key key (StoreCode k code code_ttl m) \<longleftrightarrow> k = key"
| "stores_key key (VerifyCode k g) \<longleftrightarrow> False"

text \<open>What is left of a code after some guesses before its expiry.\<close>

definition code_after :: "string \<Rightarrow> instant \<Rightarrow> nat \<Rightarrow> string list \<Rightarrow> pending_code option" where
  "code_after code expires m gs =
     (if code \<in> set gs \<or> length gs > m then None
      else Some \<lparr>pc_code = code, pc_expires_at = expires, pc_attempts = length gs, pc_max_attempts = m\<rparr>)"

lemma verify_pending_iff:
  "fst (verify_pending now key g s) \<longleftrightarrow>
     (\<exists>p. map_of s key = Some p \<and> now < pc_expires_at p \<and> pc_attempts p < pc_max_attempts p \<and> g = pc_code p)"
  by (auto simp: verify_pending_def Let_def constant_time_eq_iff split: option.split)

lemma verify_pending_other:
  "k \<noteq> key \<Longrightarrow> map_of (snd (verify_pending now key g s)) k = map_of s k"
  by (simp add: verify_pending_def Let_def hm_simps split: option.split)

lemma verify_pending_own:
  assumes "map_of s key = code_after code expires m gs" "now < expires"
  shows "map_of (snd (verify_pending now key g s)) key = code_after code expires m (gs @ [g])"
  using assms
  by (auto simp: verify_pending_def code_after_def Let_def hm_simps constant_time_eq_iff split: if_splits)

lemma verify_pending_wf: "hm_wf s \<Longrightarrow> hm_wf (snd (verify_pending now key g s))"
  by (simp add: verify_pending_def Let_def split: option.split)

lemma code_step_wf: "hm_wf s \<Longrightarrow> hm_wf (code_step (now, c) s)"
  by (cases c) (simp_all add: verify_pending_wf store_with_attempts_def Let_def)

lemma code_step_after:
  assumes wf: "hm_wf s" and s: "map_of s key = code_after code expires m gs"
    and c: "\<not> stores_key key c" and now: "now < expires"
  shows "map_of (code_step (now, c) s) key = code_after code expires m (gs @ guesses key [(now, c)])"
proof (cases c)
  case (StoreCode k code' code_ttl m')
  with c have "k \<noteq> key" by simp
  with s now show ?thesis
    by (simp add: StoreCode store_with_attempts_def guesses_def List.map_filter_def hm_simps hm_map_of_filter [OF wf])
      (simp add: code_after_def)
next
  case (VerifyCode k g)
  show ?thesis
  proof (cases "k = key")
    case True
    with verify_pending_own [OF s now, of g] show ?thesis
      by (simp add: VerifyCode guesses_def List.map_filter_def)
  next
    case False
    with s show ?thesis by (simp add: VerifyCode guesses_def List.map_filter_def verify_pending_other)
  qed
qed

lemma guesses_Cons: "guesses key (c # cs) = guesses key [c] @ guesses key cs"
  by (simp add: guesses_def List.map_filter_def)

lemma code_steps_after:
  "hm_wf s \<Longrightarrow> map_of s key = code_after code expires m gs \<Longrightarrow>
     \<forall>(t, c) \<in> set cs. t < expires \<and> \<not> stores_key key c \<Longrightarrow>
     map_of (fold code_step cs s) key = code_after code expires m (gs @ guesses key cs)"
proof (induction cs arbitrary: s gs)
  case Nil
  then show ?case by (simp add: guesses_def List.map_filter_def)
next
  case (Cons e cs)
  obtain t c where e: "e = (t, c)" by force
  from Cons.prems(3) have c: "\<not> stores_key key c" "t < expires" by (auto simp: e)
  from Cons.IH [OF code_step_wf [OF Cons.prems(1)] code_step_after [OF Cons.prems(1,2) c]] Cons.prems(3)
  show ?case using guesses_Cons [of key e cs] by (simp add: e del: code_step.simps)
qed

text \<open>
  A stored code verifies exactly when it is guessed right within the allowed number of
  tries, before its expiry and for the first time: whatever else is stored and verified
  in between, a guess succeeds if and only if it is the code, fewer than the maximum of guesses at
  the key went before it, and none of them was right.
\<close>

theorem verification_code_exact:
  assumes "hm_wf s" "now < t0 + code_ttl"
    and "\<forall>(t, c) \<in> set cs. t < t0 + code_ttl \<and> \<not> stores_key key c"
  shows "fst (verify_pending now key g (fold code_step cs (store_with_attempts t0 key code code_ttl m s))) \<longleftrightarrow>
    g = code \<and> length (guesses key cs) < max m 1 \<and> code \<notin> set (guesses key cs)"
proof -
  let ?s = "store_with_attempts t0 key code code_ttl m s"
  have "hm_wf ?s" using assms(1) by (simp add: store_with_attempts_def Let_def)
  moreover have "map_of ?s key = code_after code (t0 + code_ttl) (max m 1) []"
    by (simp add: store_with_attempts_def code_after_def Let_def hm_simps)
  ultimately have "map_of (fold code_step cs ?s) key = code_after code (t0 + code_ttl) (max m 1) ([] @ guesses key cs)"
    using assms(3) by (rule code_steps_after)
  then show ?thesis using assms(2) by (auto simp: verify_pending_iff code_after_def)
qed

theorem verification_code_exact_witness:
  "fst (verify_pending 9 ''a'' ''123'' (fold code_step [(5, VerifyCode ''a'' ''122''), (6, StoreCode ''b'' ''9'' 7 3)]
    (store_with_attempts 0 ''a'' ''123'' 10 3 [])))"
  by (subst verification_code_exact) (simp_all add: guesses_def List.map_filter_def)

text \<open>A generated code consists of as many decimal digits as were drawn.\<close>

lemma generate_numeric_code_shape:
  assumes "\<forall>d \<in> set draws. d < 10"
  shows "length (generate_numeric_code draws) = length draws \<and>
    set (generate_numeric_code draws) \<subseteq> set ''0123456789''"
proof -
  have "''0123456789'' ! d \<in> set ''0123456789''" if "d < 10" for d
    using that by (intro nth_mem) simp
  with assms show ?thesis by (auto simp only: generate_numeric_code_def length_map set_map)
qed

end
