(* ===== verification/Proof_Of_Work.thy ===== *)
theory Proof_Of_Work
  imports One_Time
begin

text \<open>
  \<^verbatim>\<open>src/auth/passport/pow.rs\<close>: the store of single-use challenge seeds and the difficulty test.
  The hash function and the random seed are parameters; an operation runs at one instant.
  The test is shown to be the usual comparison of the hash, read as a number, with a target.
\<close>

subsection \<open>Definitions\<close>

definition DEFAULT_POW_BITS :: nat where "DEFAULT_POW_BITS = 12"
definition SEED_TTL_SECS :: nat where "SEED_TTL_SECS = 120"
definition SEED_STORE_CAP :: nat where "SEED_STORE_CAP = 10000"

datatype pow_error = InvalidSeed | PowExpired | InsufficientWork | InvalidBits

record pow_issued =
  pi_seed :: string
  pi_bits :: nat

record pow_challenge =
  pw_seeds :: "(string, instant) hash_map"
  pw_ttl :: int
  pw_cap :: nat

definition pow_new :: pow_challenge where
  "pow_new = \<lparr>pw_seeds = [], pw_ttl = int SEED_TTL_SECS * 1000000000, pw_cap = SEED_STORE_CAP\<rparr>"

definition pow_with_limits :: "int \<Rightarrow> nat \<Rightarrow> pow_challenge" where
  "pow_with_limits seed_ttl cap = \<lparr>pw_seeds = [], pw_ttl = seed_ttl, pw_cap = cap\<rparr>"

definition elapsed_since :: "instant \<Rightarrow> instant \<Rightarrow> int" where
  "elapsed_since now t = max 0 (now - t)"

definition pow_prune :: "instant \<Rightarrow> pow_challenge \<Rightarrow> pow_challenge" where
  "pow_prune now st = st\<lparr>pw_seeds := filter (\<lambda>(_, t). elapsed_since now t \<le> pw_ttl st) (pw_seeds st)\<rparr>"

definition pow_evict :: "pow_challenge \<Rightarrow> (string, instant) hash_map" where
  "pow_evict st =
     (if length (pw_seeds st) \<ge> pw_cap st
      then take (pw_cap st) (rev (sort_key snd (pw_seeds st)))
      else pw_seeds st)"

definition pow_issue :: "instant \<Rightarrow> string \<Rightarrow> nat \<Rightarrow> pow_challenge \<Rightarrow> (pow_error + pow_issued) \<times> pow_challenge" where
  "pow_issue now seed bits st =
     (if \<not> (4 \<le> bits \<and> bits \<le> 32) then (Inl InvalidBits, st)
      else
        let st1 = pow_prune now st
        in (Inr \<lparr>pi_seed = seed, pi_bits = bits\<rparr>,
            st1\<lparr>pw_seeds := AList.update seed now (pow_evict st1)\<rparr>))"

text \<open>Leading zeros of a byte, and of a digest.\<close>

definition byte_leading_zeros :: "byte \<Rightarrow> nat" where
  "byte_leading_zeros b = length (takeWhile (\<lambda>i. \<not> bit b i) (rev [0..<8]))"

fun leading_zero_bits :: "byte list \<Rightarrow> nat" where
  "leading_zero_bits [] = 0"
| "leading_zero_bits (b # rest) = (if b = 0 then 8 + leading_zero_bits rest else byte_leading_zeros b)"

definition pow_verify ::
  "(byte list \<Rightarrow> byte list) \<Rightarrow> instant \<Rightarrow> string \<Rightarrow> u64 \<Rightarrow> nat \<Rightarrow> pow_challenge \<Rightarrow> (pow_error + unit) \<times> pow_challenge" where
  "pow_verify sha256 now seed counter bits st =
     (case map_of (pw_seeds st) seed of
        None \<Rightarrow> (Inl InvalidSeed, st)
      | Some issued_at \<Rightarrow>
          let st1 = st\<lparr>pw_seeds := AList.delete seed (pw_seeds st)\<rparr>
          in if elapsed_since now issued_at > pw_ttl st then (Inl PowExpired, st1)
             else
               let hash = sha256 (str_bytes seed @ str_bytes (decimal (unat counter)))
               in if leading_zero_bits hash < bits then (Inl InsufficientWork, st1) else (Inr (), st1))"

subsection \<open>The difficulty test\<close>

text \<open>The digest read as a big-endian number.\<close>

definition be_nat :: "byte list \<Rightarrow> nat" where
  "be_nat bs = foldl (\<lambda>a b. 256 * a + unat b) 0 bs"

lemma foldl_be_nat: "foldl (\<lambda>a b. 256 * a + unat b) n bs = n * 2 ^ (8 * length bs) + be_nat bs"
proof (induction bs arbitrary: n)
  case Nil
  then show ?case by (simp add: be_nat_def)
next
  case (Cons b bs)
  have "foldl (\<lambda>a b. 256 * a + unat b) n (b # bs) = (256 * n + unat b) * 2 ^ (8 * length bs) + be_nat bs"
    by (simp add: Cons.IH)
  moreover have "be_nat (b # bs) = unat b * 2 ^ (8 * length bs) + be_nat bs"
    using Cons.IH [of "unat b"] by (simp add: be_nat_def)
  ultimately show ?case by (simp add: algebra_simps power_add)
qed

lemma be_nat_Cons: "be_nat (b # bs) = unat b * 2 ^ (8 * length bs) + be_nat bs"
  using foldl_be_nat [of "unat b" bs] by (simp add: be_nat_def)

lemma be_nat_less: "be_nat bs < 2 ^ (8 * length bs)"
proof (induction bs)
  case (Cons b bs)
  have "unat b < 2 ^ LENGTH(8)" by (rule unsigned_less)
  then have "unat b + 1 \<le> 256" by simp
  then have "(unat b + 1) * 2 ^ (8 * length bs) \<le> 256 * 2 ^ (8 * length bs)" by (rule mult_le_mono1)
  moreover have "(2 :: nat) ^ (8 * length (b # bs)) = 256 * 2 ^ (8 * length bs)" by (simp add: power_add)
  moreover have "(unat b + 1) * 2 ^ (8 * length bs) = unat b * 2 ^ (8 * length bs) + 2 ^ (8 * length bs)"
    by simp
  ultimately show ?case using Cons unfolding be_nat_Cons by linarith
qed (simp add: be_nat_def)

lemma le_length_takeWhile: "n \<le> length xs \<Longrightarrow> n \<le> length (takeWhile P xs) \<longleftrightarrow> (\<forall>i < n. P (xs ! i))"
proof (induction xs arbitrary: n)
  case (Cons x xs)
  then show ?case
    by (cases n) (auto simp: nth_Cons split: nat.splits)
qed simp

lemma byte_leading_zeros_iff:
  assumes "n \<le> 8"
  shows "n \<le> byte_leading_zeros b \<longleftrightarrow> unat b < 2 ^ (8 - n)"
proof -
  have "n \<le> byte_leading_zeros b \<longleftrightarrow> (\<forall>i < n. \<not> bit b (7 - i))"
    using assms by (simp add: byte_leading_zeros_def le_length_takeWhile rev_nth)
  also have "\<dots> \<longleftrightarrow> (\<forall>j. 8 - n \<le> j \<and> j < 8 \<longrightarrow> \<not> bit b j)"
  proof safe
    fix j assume a: "\<forall>i < n. \<not> bit b (7 - i)" and j: "8 - n \<le> j" "j < 8" "bit b j"
    from j(1,2) have "7 - j < n" "7 - (7 - j) = j" by linarith+
    with a j(3) show False by metis
  next
    fix i assume a: "\<forall>j. 8 - n \<le> j \<and> j < 8 \<longrightarrow> \<not> bit b j" and i: "i < n" "bit b (7 - i)"
    from i assms have "8 - n \<le> 7 - i" "7 - i < 8" by linarith+
    with a i(2) show False by blast
  qed
  also have "\<dots> \<longleftrightarrow> drop_bit (8 - n) b = 0"
  proof
    assume a: "\<forall>j. 8 - n \<le> j \<and> j < 8 \<longrightarrow> \<not> bit b j"
    show "drop_bit (8 - n) b = 0"
    proof (rule bit_word_eqI)
      fix k show "bit (drop_bit (8 - n) b) k = bit (0 :: byte) k"
        using a bit_imp_le_length [of b "8 - n + k"] by (cases "8 - n + k < 8") (auto simp: bit_drop_bit_eq)
    qed
  next
    assume z: "drop_bit (8 - n) b = 0"
    show "\<forall>j. 8 - n \<le> j \<and> j < 8 \<longrightarrow> \<not> bit b j"
    proof (intro allI impI)
      fix j assume "8 - n \<le> j \<and> j < 8"
      then have "bit b j = bit (drop_bit (8 - n) b) (j - (8 - n))" by (simp add: bit_drop_bit_eq)
      then show "\<not> bit b j" by (simp add: z)
    qed
  qed
  also have "\<dots> \<longleftrightarrow> unat (drop_bit (8 - n) b) = 0"
    using unsigned_word_eqI [of "drop_bit (8 - n) b" 0] by auto
  also have "\<dots> \<longleftrightarrow> unat b < 2 ^ (8 - n)"
  proof -
    have "unat (drop_bit (8 - n) b) = drop_bit (8 - n) (unat b)"
      by (rule bit_eqI) (simp add: bit_simps)
    then show ?thesis by (simp add: drop_bit_eq_div div_eq_0_iff)
  qed
  finally show ?thesis .
qed

lemma byte_leading_zeros_le: "byte_leading_zeros b \<le> 8"
  using length_takeWhile_le [of "\<lambda>i. \<not> bit b i" "rev [0..<8]"] by (simp add: byte_leading_zeros_def)

lemma digit_less_iff: "r < p \<Longrightarrow> a * p + r < c * p \<longleftrightarrow> a < (c :: nat)"
proof
  assume "r < p" "a < c"
  then have "Suc a * p \<le> c * p" by (intro mult_le_mono1) simp
  with \<open>r < p\<close> show "a * p + r < c * p" by simp
next
  assume "r < p" "a * p + r < c * p"
  show "a < c"
  proof (rule ccontr)
    assume "\<not> a < c"
    then have "c * p \<le> a * p" by (intro mult_le_mono1) simp
    with \<open>a * p + r < c * p\<close> show False by linarith
  qed
qed

lemma leading_zero_bits_target:
  "n \<le> 8 * length h \<Longrightarrow> n \<le> leading_zero_bits h \<longleftrightarrow> be_nat h < 2 ^ (8 * length h - n)"
proof (induction h arbitrary: n)
  case Nil
  then show ?case by (simp add: be_nat_def)
next
  case (Cons b h)
  let ?p = "(2 :: nat) ^ (8 * length h)"
  have p: "be_nat h < ?p" by (rule be_nat_less)
  show ?case
  proof (cases "n \<le> 8")
    case True
    then have "8 * length (b # h) - n = (8 - n) + 8 * length h" by simp
    then have "(2 :: nat) ^ (8 * length (b # h) - n) = 2 ^ (8 - n) * ?p" by (simp only: power_add)
    then have "be_nat (b # h) < 2 ^ (8 * length (b # h) - n) \<longleftrightarrow> unat b < 2 ^ (8 - n)"
      by (simp only: be_nat_Cons digit_less_iff [OF p])
    moreover have "n \<le> leading_zero_bits (b # h) \<longleftrightarrow> unat b < 2 ^ (8 - n)"
      using True byte_leading_zeros_iff [OF True, of b] by (cases "b = 0") simp_all
    ultimately show ?thesis by blast
  next
    case False
    then have len: "8 * length (b # h) - n = 8 * length h - (n - 8)" "n - 8 \<le> 8 * length h"
      using Cons.prems by simp_all
    show ?thesis
    proof (cases "b = 0")
      case True
      then have "be_nat (b # h) = be_nat h" by (simp add: be_nat_Cons)
      with Cons.IH [OF len(2)] len(1) True False show ?thesis by auto
    next
      case b: False
      then have "1 \<le> unat b" using unsigned_word_eqI [of b 0] by (cases "unat b") auto
      then have "1 * ?p \<le> unat b * ?p" by (rule mult_le_mono1)
      then have "?p \<le> be_nat (b # h)" unfolding be_nat_Cons by linarith
      moreover have "(2 :: nat) ^ (8 * length (b # h) - n) \<le> ?p" unfolding len(1) by (rule power_increasing) simp_all
      ultimately have "\<not> be_nat (b # h) < 2 ^ (8 * length (b # h) - n)" by linarith
      moreover have "\<not> n \<le> leading_zero_bits (b # h)" using b False byte_leading_zeros_le [of b] by simp
      ultimately show ?thesis by blast
    qed
  qed
qed

text \<open>
  The difficulty test is a comparison with a target: for a digest of any length, at least
  \<open>n\<close> leading zero bits are counted exactly when the digest, read as a big-endian number, is
  below two to the remaining number of bits.
\<close>

theorem pow_is_target_comparison:
  assumes "n \<le> 8 * length h"
  shows "n \<le> leading_zero_bits h \<longleftrightarrow> be_nat h < 2 ^ (8 * length h - n)"
  using assms by (rule leading_zero_bits_target)

theorem pow_is_target_comparison_witness:
  "12 \<le> leading_zero_bits [0, 15] \<and> \<not> 12 \<le> leading_zero_bits [0, 16]"
proof -
  have "(12 :: nat) \<le> 8 * length [0, 15 :: byte]" "(12 :: nat) \<le> 8 * length [0, 16 :: byte]" by simp_all
  from this [THEN pow_is_target_comparison] show ?thesis by (simp add: be_nat_def)
qed

subsection \<open>Seeds\<close>

datatype pow_call =
    PowIssue string nat
  | PowVerify string u64 nat

fun pow_step :: "(byte list \<Rightarrow> byte list) \<Rightarrow> instant \<times> pow_call \<Rightarrow> pow_challenge \<Rightarrow> pow_challenge" where
  "pow_step sha (now, PowIssue seed bits) st = snd (pow_issue now seed bits st)"
| "pow_step sha (now, PowVerify seed counter bits) st = snd (pow_verify sha now seed counter bits st)"

fun pow_solved :: "(byte list \<Rightarrow> byte list) \<Rightarrow> string \<Rightarrow> instant \<times> pow_call \<Rightarrow> pow_challenge \<Rightarrow> bool" where
  "pow_solved sha k (now, PowVerify seed counter bits) st \<longleftrightarrow>
     seed = k \<and> fst (pow_verify sha now seed counter bits st) = Inr ()"
| "pow_solved sha k (now, PowIssue seed bits) st \<longleftrightarrow> False"

fun pow_credit :: "string \<Rightarrow> instant \<times> pow_call \<Rightarrow> nat" where
  "pow_credit k (now, PowIssue seed bits) = of_bool (seed = k)"
| "pow_credit k (now, PowVerify seed counter bits) = 0"

definition pow_ok :: "pow_challenge \<Rightarrow> bool" where
  "pow_ok st \<longleftrightarrow> hm_wf (pw_seeds st)"

lemma pow_evict_ok:
  assumes "hm_wf (pw_seeds st)"
  shows "hm_wf (pow_evict st) \<and> set (pow_evict st) \<subseteq> set (pw_seeds st)"
proof -
  let ?l = "rev (sort_key snd (pw_seeds st))"
  have "mset (map fst ?l) = mset (map fst (pw_seeds st))" by simp
  then have "distinct (map fst ?l)"
    using assms unfolding hm_wf_def by (metis mset_eq_imp_distinct_iff)
  then have "hm_wf (take (pw_cap st) ?l)" by (simp add: hm_wf_def take_map [symmetric])
  moreover have "set (take (pw_cap st) ?l) \<subseteq> set (pw_seeds st)"
    using set_take_subset [of "pw_cap st" ?l] by simp
  ultimately show ?thesis using assms by (simp add: pow_evict_def)
qed

lemma map_of_subset_None:
  "set ys \<subseteq> set xs \<Longrightarrow> map_of xs k = None \<Longrightarrow> map_of ys k = None"
  by (auto simp: map_of_eq_None_iff)

lemma pow_issue_seeds:
  assumes "pow_ok st"
  shows "pow_ok (snd (pow_issue now seed bits st))"
    and "k \<noteq> seed \<Longrightarrow> map_of (pw_seeds st) k = None \<Longrightarrow> map_of (pw_seeds (snd (pow_issue now seed bits st))) k = None"
proof -
  have "hm_wf (pw_seeds (pow_prune now st))" using assms by (simp add: pow_ok_def pow_prune_def)
  note ev = pow_evict_ok [OF this]
  then show "pow_ok (snd (pow_issue now seed bits st))"
    using assms by (simp add: pow_issue_def pow_ok_def Let_def)
  assume k: "k \<noteq> seed" "map_of (pw_seeds st) k = None"
  have "set (pow_evict (pow_prune now st)) \<subseteq> set (pw_seeds st)"
    using ev by (auto simp: pow_prune_def)
  from map_of_subset_None [OF this k(2)] k
  show "map_of (pw_seeds (snd (pow_issue now seed bits st))) k = None"
    by (simp add: pow_issue_def Let_def hm_simps)
qed

interpretation pow_meter: metered "pow_step sha" pow_ok "pow_solved sha k" "pow_credit k"
  "\<lambda>st. of_bool (map_of (pw_seeds st) k \<noteq> None)" for sha k
proof
  fix st :: pow_challenge and e :: "instant \<times> pow_call"
  assume ok: "pow_ok st"
  obtain now c where e: "e = (now, c)" by force
  show "pow_ok (pow_step sha e st)"
    using ok pow_issue_seeds(1) [OF ok] by (cases c) (auto simp: e pow_verify_def pow_ok_def Let_def split: option.split)
  show "of_bool (map_of (pw_seeds (pow_step sha e st)) k \<noteq> None) + of_bool (pow_solved sha k e st)
      \<le> of_bool (map_of (pw_seeds st) k \<noteq> None) + pow_credit k e"
  proof (cases c)
    case (PowIssue seed bits)
    show ?thesis
      using pow_issue_seeds(2) [OF ok, of k seed now bits]
      by (cases "k = seed"; cases "map_of (pw_seeds st) k = None") (simp_all add: e PowIssue)
  next
    case (PowVerify seed counter bits)
    show ?thesis by (auto simp: e PowVerify pow_verify_def Let_def hm_simps split: option.splits)
  qed
qed

text \<open>
  A proof of work is accepted exactly for a stored seed that is not too old and a hash of
  seed and counter that meets the difficulty; and in any history, whatever is issued, verified or
  evicted in between, a seed is accepted at most once for each time it was issued.
\<close>

theorem pow_seed_once:
  "(fst (pow_verify sha now seed counter bits st) = Inr () \<longleftrightarrow>
      (\<exists>t. map_of (pw_seeds st) seed = Some t \<and> elapsed_since now t \<le> pw_ttl st \<and>
        bits \<le> leading_zero_bits (sha (str_bytes seed @ str_bytes (decimal (unat counter)))))) \<and>
   tally (pow_step sha) (pow_solved sha k) cs (pow_with_limits seed_ttl cap) \<le> sum_list (map (pow_credit k) cs)"
proof
  show "fst (pow_verify sha now seed counter bits st) = Inr () \<longleftrightarrow>
      (\<exists>t. map_of (pw_seeds st) seed = Some t \<and> elapsed_since now t \<le> pw_ttl st \<and>
        bits \<le> leading_zero_bits (sha (str_bytes seed @ str_bytes (decimal (unat counter)))))"
    by (auto simp: pow_verify_def Let_def split: option.split)
  show "tally (pow_step sha) (pow_solved sha k) cs (pow_with_limits seed_ttl cap) \<le> sum_list (map (pow_credit k) cs)"
    using pow_meter.tally_le [where s = "pow_with_limits seed_ttl cap" and cs = cs]
    by (simp add: pow_with_limits_def pow_ok_def)
qed

text \<open>The store may hold one seed more than its capacity, and does when it is full.\<close>

lemma length_update_le: "length (AList.update k v m) \<le> Suc (length m)"
  by (induction m) auto

lemma pow_store_size:
  assumes "length (pw_seeds st) \<le> Suc (pw_cap st)"
  shows "length (pw_seeds (pow_step sha e st)) \<le> Suc (pw_cap (pow_step sha e st))"
proof -
  obtain now c where e: "e = (now, c)" by force
  have ev: "length (AList.update k v (pow_evict st')) \<le> Suc (pw_cap st')" for k v st'
    using length_update_le [of k v "pow_evict st'"] by (auto simp: pow_evict_def)
  show ?thesis
  proof (cases c)
    case (PowIssue seed bits)
    then show ?thesis
      using assms ev [of seed now "pow_prune now st"]
      by (simp add: e pow_issue_def Let_def pow_prune_def)
  next
    case (PowVerify seed counter bits)
    have "length (AList.delete seed (pw_seeds st)) \<le> length (pw_seeds st)"
      by (rule length_delete_le)
    then show ?thesis
      using assms by (simp add: e PowVerify pow_verify_def Let_def split: option.split)
  qed
qed

lemma pow_store_overfull:
  "length (pw_seeds (fold (pow_step id) [(0, PowIssue ''a'' 4), (1, PowIssue ''b'' 4)] (pow_with_limits 9 1))) = 2"
  by (simp add: pow_issue_def pow_prune_def pow_evict_def pow_with_limits_def elapsed_since_def Let_def)

end
