(* ===== verification/Dynamic_Trust.thy ===== *)
theory Dynamic_Trust
  imports Float64
begin

text \<open>
  \<^verbatim>\<open>src/rbac/dynamic/trust.rs\<close>: the trust record of a delegator with its updates and its
  decay, the store trait as a record of its methods, the in-memory store, and one cycle of the
  decay worker. A method of a store yields a result and, when it writes, the new store. A
  \<^verbatim>\<open>Duration\<close> is its nanoseconds.
\<close>

subsection \<open>Trust records\<close>

record trust_score =
  ts_value :: f64
  ts_confidence :: f64
  ts_evidence_count :: u64
  ts_last_updated :: instant
  ts_degradation_rate :: f64

definition trust_default :: "instant \<Rightarrow> trust_score" where
  "trust_default now =
     \<lparr>ts_value = lit 0, ts_confidence = lit 0, ts_evidence_count = 0,
      ts_last_updated = now, ts_degradation_rate = lit (1 / 100)\<rparr>"

definition trust_new :: "instant \<Rightarrow> f64 \<Rightarrow> trust_score" where
  "trust_new now initial_value =
     \<lparr>ts_value = f64_clamp initial_value (lit 0) (lit 1), ts_confidence = f64_min initial_value (lit (1 / 2)),
      ts_evidence_count = 0, ts_last_updated = now, ts_degradation_rate = lit (1 / 100)\<rparr>"

definition weighted :: "trust_score \<Rightarrow> f64" where
  "weighted t = f64_mul (ts_value t) (ts_confidence t)"

definition evidence_confidence :: "u64 \<Rightarrow> f64" where
  "evidence_confidence n =
     f64_min (f64_sub (lit 1) (f64_div (lit 1) (f64_add (lit 1) (f64_div (f64_of_nat (unat n)) (lit 100)))))
       (lit (99 / 100))"

definition on_compliant_behavior :: "instant \<Rightarrow> f64 \<Rightarrow> trust_score \<Rightarrow> trust_score" where
  "on_compliant_behavior now severity t =
     (let delta = f64_mul (lit (1 / 100)) severity;
          n = ts_evidence_count t + 1
      in t\<lparr>ts_value := f64_min (f64_add (ts_value t) delta) (lit 1), ts_evidence_count := n,
           ts_confidence := evidence_confidence n, ts_last_updated := now\<rparr>)"

definition violation_penalty :: "f64 \<Rightarrow> f64" where
  "violation_penalty severity =
     f64_add (f64_mul (lit (1 / 10)) severity)
       (f64_mul (lit (2 / 10)) (f64_max (f64_sub severity (lit (8 / 10))) (lit 0)))"

definition on_policy_violation :: "instant \<Rightarrow> f64 \<Rightarrow> trust_score \<Rightarrow> trust_score" where
  "on_policy_violation now severity t =
     (let n = ts_evidence_count t + 1
      in t\<lparr>ts_value := f64_max (f64_sub (ts_value t) (violation_penalty severity)) (lit 0),
           ts_evidence_count := n, ts_confidence := evidence_confidence n, ts_last_updated := now\<rparr>)"

definition as_secs_f64 :: "int \<Rightarrow> f64" where
  "as_secs_f64 d =
     f64_add (rnd (of_int (d div 1000000000))) (f64_div (rnd (of_int (d mod 1000000000))) (lit 1000000000))"

definition decay_of :: "int \<Rightarrow> trust_score \<Rightarrow> f64" where
  "decay_of elapsed t = f64_mul (ts_degradation_rate t) (f64_div (as_secs_f64 elapsed) (lit 3600))"

definition degrade :: "instant \<Rightarrow> int \<Rightarrow> trust_score \<Rightarrow> trust_score" where
  "degrade now elapsed t =
     (let decay = decay_of elapsed t
      in t\<lparr>ts_value := f64_max (f64_sub (ts_value t) decay) (lit 0),
           ts_confidence := f64_max (f64_sub (ts_confidence t) (f64_mul decay (lit (1 / 2)))) (lit 0),
           ts_last_updated := now\<rparr>)"

subsection \<open>Stores\<close>

record 's trust_store_ops =
  tso_get :: "'s \<Rightarrow> string \<Rightarrow> trust_score option result"
  tso_set :: "string \<Rightarrow> trust_score \<Rightarrow> 's \<Rightarrow> unit result \<times> 's"
  tso_delete :: "string \<Rightarrow> 's \<Rightarrow> unit result \<times> 's"
  tso_list_ids :: "'s \<Rightarrow> string list result"

type_synonym mem_trust_store = "(string, trust_score) hash_map"

definition mem_trust_new :: mem_trust_store where
  "mem_trust_new = []"

definition mem_trust_get :: "mem_trust_store \<Rightarrow> string \<Rightarrow> trust_score option result" where
  "mem_trust_get scores delegator_id = Inr (map_of scores delegator_id)"

definition mem_trust_set :: "string \<Rightarrow> trust_score \<Rightarrow> mem_trust_store \<Rightarrow> unit result \<times> mem_trust_store" where
  "mem_trust_set delegator_id score scores = (Inr (), AList.update delegator_id score scores)"

definition mem_trust_delete :: "string \<Rightarrow> mem_trust_store \<Rightarrow> unit result \<times> mem_trust_store" where
  "mem_trust_delete delegator_id scores = (Inr (), AList.delete delegator_id scores)"

definition mem_trust_list_ids :: "mem_trust_store \<Rightarrow> string list result" where
  "mem_trust_list_ids scores = Inr (map fst scores)"

text \<open>
  \<^verbatim>\<open>chrono::Duration\<close> holds at most \<open>i64::MAX\<close> milliseconds; a longer age is capped to a year. Stepping
  back from an instant is \<^verbatim>\<open>chrono\<close>'s, which panics when the date leaves its range: it is the
  parameter \<open>sub_dur\<close>, \<open>None\<close> for the panic.
\<close>

definition CHRONO_MAX :: int where
  "CHRONO_MAX = (2 ^ 63 - 1) * 1000000"

definition chrono_from_std :: "int \<Rightarrow> int" where
  "chrono_from_std max_age = (if max_age \<le> CHRONO_MAX then max_age else 365 * 86400 * 1000000000)"

definition mem_trust_sweep_stale ::
  "(instant \<Rightarrow> int \<Rightarrow> instant option) \<Rightarrow> instant \<Rightarrow> int \<Rightarrow> mem_trust_store \<Rightarrow>
     (string list \<times> mem_trust_store) option" where
  "mem_trust_sweep_stale sub_dur now max_age scores =
     (if max_age = 0 then Some ([], scores)
      else case sub_dur now (chrono_from_std max_age) of
             None \<Rightarrow> None
           | Some cutoff \<Rightarrow>
               let stale = map fst (filter (\<lambda>(k, s). ts_last_updated s < cutoff) scores)
               in Some (stale, fold AList.delete stale scores))"

definition mem_trust_ops :: "mem_trust_store trust_store_ops" where
  "mem_trust_ops =
     \<lparr>tso_get = mem_trust_get, tso_set = mem_trust_set, tso_delete = mem_trust_delete,
      tso_list_ids = mem_trust_list_ids\<rparr>"

subsection \<open>The decay worker\<close>

fun decay_ids ::
  "'s trust_store_ops \<Rightarrow> instant \<Rightarrow> int \<Rightarrow> string list \<Rightarrow> nat \<Rightarrow> 's \<Rightarrow> nat result \<times> 's" where
  "decay_ids ops now elapsed [] decayed s = (Inr decayed, s)"
| "decay_ids ops now elapsed (i # ids) decayed s =
     (case tso_get ops s i of
        Inl err \<Rightarrow> (Inl err, s)
      | Inr None \<Rightarrow> decay_ids ops now elapsed ids decayed s
      | Inr (Some score) \<Rightarrow>
          (case tso_set ops i (degrade now elapsed score) s of
             (Inl err, s') \<Rightarrow> (Inl err, s')
           | (Inr _, s') \<Rightarrow> decay_ids ops now elapsed ids (decayed + 1) s'))"

definition run_once :: "'s trust_store_ops \<Rightarrow> instant \<Rightarrow> int \<Rightarrow> 's \<Rightarrow> nat result \<times> 's" where
  "run_once ops now decay_elapsed s =
     (case tso_list_ids ops s of
        Inl err \<Rightarrow> (Inl err, s)
      | Inr ids \<Rightarrow> decay_ids ops now decay_elapsed ids 0 s)"

record decay_worker =
  dw_interval :: int
  dw_decay_elapsed :: int

definition from_secs :: "nat \<Rightarrow> int" where
  "from_secs n = int n * 1000000000"

definition worker_hourly :: decay_worker where
  "worker_hourly = \<lparr>dw_interval = from_secs 3600, dw_decay_elapsed = from_secs 3600\<rparr>"

definition worker_resilient :: "int \<Rightarrow> decay_worker" where
  "worker_resilient interval = \<lparr>dw_interval = interval, dw_decay_elapsed = interval\<rparr>"

text \<open>The endless loop, up to the ticks given by their instants: a failed cycle is logged and lost.\<close>

fun worker_run :: "'s trust_store_ops \<Rightarrow> decay_worker \<Rightarrow> instant list \<Rightarrow> 's \<Rightarrow> 's" where
  "worker_run ops w [] s = s"
| "worker_run ops w (now # ticks) s = worker_run ops w ticks (snd (run_once ops now (dw_decay_elapsed w) s))"

subsection \<open>The ranges of a trust record\<close>

definition trust_ok :: "trust_score \<Rightarrow> bool" where
  "trust_ok t \<longleftrightarrow> unit_f64 (ts_value t) \<and> unit_f64 (ts_confidence t) \<and> unit_f64 (ts_degradation_rate t)"

lemma weighted_unit: "trust_ok t \<Longrightarrow> unit_f64 (weighted t)"
  by (simp add: trust_ok_def weighted_def unit_mul)

lemma trust_ok_default: "trust_ok (trust_default now)"
  by (simp add: trust_ok_def trust_default_def unit_rnd)

lemma trust_ok_new:
  assumes "0 \<le> q" "q \<le> 1"
  shows "trust_ok (trust_new now (lit q))"
proof -
  obtain r where r: "rnd q = Fin r" "representable r" "0 \<le> r" "r \<le> 1"
    using unit_rnd [OF assms] by (rule f64_inE)
  obtain h where h: "rnd (1 / 2) = Fin h" "representable h" "0 \<le> h" "h \<le> 1"
    using unit_rnd [of "1 / 2"] by (rule f64_inE) simp_all
  show ?thesis
    using r h by (simp add: trust_ok_def trust_new_def f64_simps unit_rnd min_def max_def)
qed

lemma unit_min_upper:
  assumes "f64_ok x" "x = NaN \<or> f64_le (lit 0) x" "unit_f64 y"
  shows "unit_f64 (f64_min x y)"
  using assms by (cases x) (auto elim!: f64_inE simp: f64_min_def)

lemma unit_max_lower:
  assumes "f64_ok x" "x = NaN \<or> f64_le x (lit 1)" "unit_f64 y"
  shows "unit_f64 (f64_max x y)"
  using assms by (cases x) (auto elim!: f64_inE simp: f64_max_def)

lemma div_one_unit:
  assumes "f64_le (lit 1) x"
  shows "unit_f64 (f64_div (lit 1) x)"
  using assms by (cases x) (auto intro!: unit_rnd)

lemma evidence_confidence_unit: "unit_f64 (evidence_confidence n)"
proof -
  have rep: "representable (2 ^ 64)" "representable (2 ^ 65)"
    using representable_pow2 [of 64] representable_pow2 [of 65] by (simp_all add: pow2_nat)
  have "unat n < 2 ^ LENGTH(64)" by (rule unsigned_less)
  then have "unat n \<le> 2 ^ 64" by simp
  then have "(of_nat (unat n) :: rat) \<le> of_nat (2 ^ 64)" by (simp only: of_nat_le_iff)
  moreover have "(0 :: rat) \<le> of_nat (unat n)" by (rule of_nat_0_le_iff)
  moreover define x where "x = (of_nat (unat n) :: rat)"
  ultimately have n: "0 \<le> x" "x \<le> 2 ^ 64" by simp_all
  have "f64_in 0 (2 ^ 64) (f64_of_nat (unat n))"
    unfolding f64_of_nat_def x_def [symmetric] by (rule f64_in_rnd) (use n rep in simp_all)
  then obtain a where a: "f64_of_nat (unat n) = Fin a" "0 \<le> a" "a \<le> 2 ^ 64" by (rule f64_inE)
  have "f64_in 0 (2 ^ 64) (rnd (a / 100))"
    by (rule f64_in_rnd) (use a rep in simp_all)
  then obtain b where b: "rnd (a / 100) = Fin b" "0 \<le> b" "b \<le> 2 ^ 64" by (rule f64_inE)
  have "f64_in 1 (2 ^ 65) (rnd (1 + b))"
    by (rule f64_in_rnd) (use b rep in simp_all)
  then obtain c where c: "rnd (1 + b) = Fin c" "1 \<le> c" by (rule f64_inE)
  have "unit_f64 (rnd (1 / c))" using c(2) by (intro unit_rnd) simp_all
  then have "unit_f64 (f64_sub (lit 1) (rnd (1 / c)))" by (rule unit_one_minus)
  then obtain d where d: "f64_sub (Fin 1) (rnd (1 / c)) = Fin d" "representable d" "0 \<le> d" "d \<le> 1"
    by (auto elim: f64_inE)
  obtain e where e: "rnd (99 / 100) = Fin e" "representable e" "0 \<le> e" "e \<le> 1"
    using unit_rnd [of "99 / 100"] by (rule f64_inE) simp_all
  have "rnd 100 = Fin 100" using rnd_of_int [of 100] by simp
  then show ?thesis
    using a(1) b(1) c d e by (simp add: evidence_confidence_def f64_simps min_def)
qed


text \<open>Subtracting, with the floor at zero, stays in the unit interval and does not rise.\<close>

lemma sub_floor:
  assumes "unit_f64 v" "nonneg p"
  shows "unit_f64 (f64_max (f64_sub v p) (Fin 0))" and "f64_le (f64_max (f64_sub v p) (Fin 0)) v"
proof -
  obtain q where q: "v = Fin q" "representable q" "0 \<le> q" "q \<le> 1" using assms(1) by (rule f64_inE)
  have bound: "\<bar>r\<bar> \<le> 2 ^ 53" if "0 \<le> r" "r \<le> 1" for r :: rat
    using that by simp
  have "unit_f64 (f64_max (f64_sub v p) (Fin 0)) \<and> f64_le (f64_max (f64_sub v p) (Fin 0)) v"
  proof (cases p)
    case (Fin r)
    with assms(2) have "0 \<le> r" by (simp add: nonneg_def)
    then have "f64_le (rnd (q - r)) (rnd q)" by (intro rnd_mono) simp
    moreover have "rnd q = Fin q" by (rule rnd_id [OF q(2) bound [OF q(3,4)]])
    ultimately have le: "f64_le (rnd (q - r)) (Fin q)" by simp
    have ok: "f64_ok (rnd (q - r))" by simp
    show ?thesis
      using le ok q Fin by (cases "rnd (q - r)") (auto simp: f64_simps f64_max_def)
  next
    case NegInf
    with assms(2) show ?thesis by (simp add: nonneg_def)
  qed (use q in \<open>auto simp: f64_sub_def f64_max_def\<close>)
  then show "unit_f64 (f64_max (f64_sub v p) (Fin 0))" "f64_le (f64_max (f64_sub v p) (Fin 0)) v" by blast+
qed

lemma add_cap:
  assumes "unit_f64 v" "unit_f64 d"
  shows "unit_f64 (f64_min (f64_add v d) (Fin 1))" and "f64_le v (f64_min (f64_add v d) (Fin 1))"
proof -
  obtain q where q: "v = Fin q" "representable q" "0 \<le> q" "q \<le> 1" using assms(1) by (rule f64_inE)
  obtain r where r: "d = Fin r" "0 \<le> r" "r \<le> 1" using assms(2) by (rule f64_inE)
  have "f64_in q 2 (rnd (q + r))"
    by (rule f64_in_rnd) (use q r representable_int [of 2] in simp_all)
  then obtain s where "rnd (q + r) = Fin s" "representable s" "q \<le> s" by (rule f64_inE)
  with q r show "unit_f64 (f64_min (f64_add v d) (Fin 1))" "f64_le v (f64_min (f64_add v d) (Fin 1))"
    by (simp_all add: f64_simps min_def)
qed

lemma nonneg_penalty: "nonneg severity \<Longrightarrow> nonneg (violation_penalty severity)"
  unfolding violation_penalty_def
  by (intro nonneg_add nonneg_mul nonneg_max nonneg_rnd) simp_all

lemma trust_ok_compliant: "trust_ok t \<Longrightarrow> unit_f64 severity \<Longrightarrow> trust_ok (on_compliant_behavior now severity t)"
  by (simp add: trust_ok_def on_compliant_behavior_def Let_def evidence_confidence_unit add_cap unit_mul unit_rnd)

lemma compliant_raises: "trust_ok t \<Longrightarrow> unit_f64 severity \<Longrightarrow>
    f64_le (ts_value t) (ts_value (on_compliant_behavior now severity t))"
  by (simp add: trust_ok_def on_compliant_behavior_def Let_def add_cap unit_mul unit_rnd)

lemma trust_ok_violation: "trust_ok t \<Longrightarrow> nonneg severity \<Longrightarrow> trust_ok (on_policy_violation now severity t)"
  by (simp add: trust_ok_def on_policy_violation_def Let_def evidence_confidence_unit sub_floor nonneg_penalty)

lemma violation_lowers: "trust_ok t \<Longrightarrow> nonneg severity \<Longrightarrow>
    f64_le (ts_value (on_policy_violation now severity t)) (ts_value t)"
  by (simp add: trust_ok_def on_policy_violation_def Let_def sub_floor nonneg_penalty)

lemma nonneg_decay:
  assumes "0 \<le> elapsed" "trust_ok t"
  shows "nonneg (decay_of elapsed t)"
proof -
  have lits: "rnd 3600 = Fin 3600" "rnd 1000000000 = Fin 1000000000"
    using rnd_of_int [of 3600] rnd_of_int [of 1000000000] by simp_all
  have "0 \<le> elapsed div 1000000000" "0 \<le> elapsed mod 1000000000" using assms(1) by simp_all
  then have "nonneg (as_secs_f64 elapsed)"
    unfolding as_secs_f64_def lits by (intro nonneg_add nonneg_div nonneg_rnd) simp_all
  then have "nonneg (f64_div (as_secs_f64 elapsed) (lit 3600))" unfolding lits by (rule nonneg_div) simp
  moreover have "nonneg (ts_degradation_rate t)" using assms(2) by (simp add: trust_ok_def unit_nonneg)
  ultimately show ?thesis unfolding decay_of_def by (intro nonneg_mul)
qed

lemma trust_ok_degrade:
  assumes "trust_ok t" "0 \<le> elapsed"
  shows "trust_ok (degrade now elapsed t)"
proof -
  have d: "nonneg (decay_of elapsed t)" by (rule nonneg_decay [OF assms(2,1)])
  then have "nonneg (f64_mul (decay_of elapsed t) (lit (1 / 2)))" by (rule nonneg_mul) (simp add: nonneg_rnd)
  with d assms(1) show ?thesis by (simp add: trust_ok_def degrade_def Let_def sub_floor)
qed


subsection \<open>A store that keeps what it is given\<close>

locale trust_store =
  fixes ops :: "'s trust_store_ops"
    and ok :: "'s \<Rightarrow> bool"
    and stored :: "'s \<Rightarrow> string \<Rightarrow> trust_score option"
  assumes get_stored: "ok s \<Longrightarrow> tso_get ops s k = Inr (stored s k)"
    and set_stored: "ok s \<Longrightarrow> \<exists>s'. tso_set ops k v s = (Inr (), s') \<and> ok s' \<and> stored s' = (stored s)(k \<mapsto> v)"
    and ids_stored: "ok s \<Longrightarrow> \<exists>ids. tso_list_ids ops s = Inr ids \<and> distinct ids \<and> set ids = dom (stored s)"
begin

lemma decay_ids_stored:
  "ok s \<Longrightarrow> distinct ids \<Longrightarrow> set ids \<subseteq> dom (stored s) \<Longrightarrow>
     \<exists>s'. decay_ids ops now e ids n s = (Inr (n + length ids), s') \<and> ok s' \<and>
       (\<forall>k. stored s' k = (if k \<in> set ids then map_option (degrade now e) (stored s k) else stored s k))"
proof (induction ids arbitrary: s n)
  case Nil
  then show ?case by simp
next
  case (Cons i ids)
  then obtain t where t: "stored s i = Some t" by auto
  obtain s1 where s1: "tso_set ops i (degrade now e t) s = (Inr (), s1)" "ok s1"
    "stored s1 = (stored s)(i \<mapsto> degrade now e t)"
    using set_stored [OF Cons.prems(1)] by blast
  have "distinct ids" "set ids \<subseteq> dom (stored s1)" using Cons.prems s1(3) by auto
  from Cons.IH [OF s1(2) this, of "n + 1"] obtain s' where
    s': "decay_ids ops now e ids (n + 1) s1 = (Inr (n + 1 + length ids), s')" "ok s'"
      "\<And>k. stored s' k = (if k \<in> set ids then map_option (degrade now e) (stored s1 k) else stored s1 k)"
    by blast
  have "decay_ids ops now e (i # ids) n s = (Inr (n + length (i # ids)), s')"
    using get_stored [OF Cons.prems(1), of i] t s1(1) s'(1) by simp
  moreover have "stored s' k = (if k \<in> set (i # ids) then map_option (degrade now e) (stored s k) else stored s k)" for k
    using Cons.prems(2) t s1(3) s'(3) [of k] by auto
  ultimately show ?case using s'(2) by blast
qed

lemma run_once_stored:
  assumes "ok s"
  obtains s' where "run_once ops now e s = (Inr (card (dom (stored s))), s')" "ok s'"
    "\<And>k. stored s' k = map_option (degrade now e) (stored s k)"
proof -
  obtain ids where ids: "tso_list_ids ops s = Inr ids" "distinct ids" "set ids = dom (stored s)"
    using ids_stored [OF assms] by blast
  from decay_ids_stored [OF assms ids(2), of now e 0] ids(3) obtain s' where
    s': "decay_ids ops now e ids 0 s = (Inr (length ids), s')" "ok s'"
      "\<And>k. stored s' k = (if k \<in> set ids then map_option (degrade now e) (stored s k) else stored s k)"
    by auto
  have "run_once ops now e s = (Inr (card (dom (stored s))), s')"
    using s'(1) ids by (simp add: run_once_def flip: distinct_card)
  moreover have "stored s' k = map_option (degrade now e) (stored s k)" for k
    using s'(3) [of k] ids(3) by (cases "stored s k") auto
  ultimately show thesis using that s'(2) by blast
qed

lemma worker_run_stored:
  "ok s \<Longrightarrow> ok (worker_run ops w ticks s) \<and>
     (\<forall>k. stored (worker_run ops w ticks s) k =
        map_option (fold (\<lambda>now. degrade now (dw_decay_elapsed w)) ticks) (stored s k))"
proof (induction ticks arbitrary: s)
  case Nil
  then show ?case by (simp add: option.map_ident)
next
  case (Cons now ticks)
  obtain s' where "run_once ops now (dw_decay_elapsed w) s = (Inr (card (dom (stored s))), s')" "ok s'"
    "\<And>k. stored s' k = map_option (degrade now (dw_decay_elapsed w)) (stored s k)"
    using run_once_stored [OF Cons.prems] by blast
  with Cons.IH [of s'] show ?case by (simp add: option.map_comp o_def)
qed

end

interpretation mem_trust: trust_store mem_trust_ops hm_wf map_of
proof
  fix s :: mem_trust_store and k v
  assume wf: "hm_wf s"
  show "tso_get mem_trust_ops s k = Inr (map_of s k)"
    by (simp add: mem_trust_ops_def mem_trust_get_def)
  show "\<exists>s'. tso_set mem_trust_ops k v s = (Inr (), s') \<and> hm_wf s' \<and> map_of s' = (map_of s)(k \<mapsto> v)"
    using wf by (auto simp: mem_trust_ops_def mem_trust_set_def update_conv')
  show "\<exists>ids. tso_list_ids mem_trust_ops s = Inr ids \<and> distinct ids \<and> set ids = dom (map_of s)"
    using wf by (simp add: mem_trust_ops_def mem_trust_list_ids_def hm_wf_def dom_map_of_conv_image_fst)
qed

lemma map_of_fold_delete: "map_of (fold AList.delete ks m) k = (if k \<in> set ks then None else map_of m k)"
  by (induction ks arbitrary: m) (auto simp: delete_conv')

text \<open>A sweep removes and reports exactly the records older than the age; age zero sweeps nothing.\<close>

lemma sweep_stale_exact:
  assumes "hm_wf s" "mem_trust_sweep_stale sub_dur now max_age s = Some (stale, s')"
  shows "map_of s' k = (if k \<in> set stale then None else map_of s k)"
    and "k \<in> set stale \<longleftrightarrow> max_age \<noteq> 0 \<and>
      (\<exists>cutoff t. sub_dur now (chrono_from_std max_age) = Some cutoff \<and> map_of s k = Some t \<and> ts_last_updated t < cutoff)"
  using assms
  by (auto simp: mem_trust_sweep_stale_def Let_def map_of_fold_delete hm_in_set_iff image_iff split: if_splits option.splits)

text \<open>Trust loses at least 0.00999 an hour, rounding included.\<close>

definition default_rate :: "trust_score \<Rightarrow> bool" where
  "default_rate t \<longleftrightarrow> trust_ok t \<and> ts_degradation_rate t = lit (1 / 100)"

lemma hourly_decay:
  assumes "ts_degradation_rate t = lit (1 / 100)"
  shows "decay_of (from_secs 3600) t = Fin (round_rat (1 / 100))"
proof -
  have "rnd (3600 :: rat) = Fin 3600" "rnd (1000000000 :: rat) = Fin 1000000000"
    using rnd_of_int [of 3600] rnd_of_int [of 1000000000] by simp_all
  moreover have "rnd (1 / 100 :: rat) = Fin (round_rat (1 / 100))" by (rule rnd_Fin) simp
  moreover have "rnd (round_rat (1 / 100)) = Fin (round_rat (1 / 100))"
    by (rule rnd_id) (use round_rat_ge [of 0 "1 / 100"] round_rat_le [of 1 "1 / 100"] in simp_all)
  ultimately show ?thesis using assms by (simp add: decay_of_def as_secs_f64_def from_secs_def)
qed

lemma hourly_step:
  assumes "default_rate t" "ts_value t = Fin v" "v \<le> b"
  shows "default_rate (degrade now (from_secs 3600) t)"
    and "\<exists>v'. ts_value (degrade now (from_secs 3600) t) = Fin v' \<and> 0 \<le> v' \<and> v' \<le> max 0 (b - 999 / 100000)"
proof -
  have t: "trust_ok t" "ts_degradation_rate t = lit (1 / 100)" using assms(1) by (simp_all add: default_rate_def)
  have "trust_ok (degrade now (from_secs 3600) t)" by (rule trust_ok_degrade [OF t(1)]) (simp add: from_secs_def)
  then show "default_rate (degrade now (from_secs 3600) t)"
    using t(2) by (simp add: default_rate_def degrade_def Let_def)
  define d where "d = round_rat (1 / 100)"
  have k: "pow2 (0 - 53) = 1 / 9007199254740992" by (simp add: power_int_def power_one_over)
  have v: "0 \<le> v" "v \<le> 1" using t(1) assms(2) by (simp_all add: trust_ok_def)
  have d: "\<bar>d - 1 / 100\<bar> \<le> 1 / 9007199254740992"
    using round_rat_error [of "1 / 100" 0] unfolding k d_def by simp
  have "\<bar>v - d\<bar> \<le> 1" using v d by linarith
  then have e: "\<bar>round_rat (v - d) - (v - d)\<bar> \<le> 1 / 9007199254740992"
    using round_rat_error [of "v - d" 0] unfolding k by simp
  have "\<bar>v - d\<bar> \<le> 2 ^ 53" using \<open>\<bar>v - d\<bar> \<le> 1\<close> by simp
  then have "rnd (v - d) = Fin (round_rat (v - d))" by (intro rnd_Fin two_53_less)
  then have "ts_value (degrade now (from_secs 3600) t) = Fin (max (round_rat (v - d)) 0)"
    using assms(2) by (simp add: degrade_def Let_def hourly_decay [OF t(2)] f64_simps d_def)
  moreover have "round_rat (v - d) \<le> b - 999 / 100000" using d e assms(3) by linarith
  ultimately show "\<exists>v'. ts_value (degrade now (from_secs 3600) t) = Fin v' \<and> 0 \<le> v' \<and> v' \<le> max 0 (b - 999 / 100000)"
    by auto
qed

lemma hourly_fold:
  "default_rate t \<Longrightarrow> ts_value t = Fin v \<Longrightarrow> v \<le> b \<Longrightarrow>
     \<exists>v'. ts_value (fold (\<lambda>now. degrade now (from_secs 3600)) ticks t) = Fin v' \<and>
       v' \<le> max (if ticks = [] then b else 0) (b - of_nat (length ticks) * (999 / 100000)) \<and>
       default_rate (fold (\<lambda>now. degrade now (from_secs 3600)) ticks t)"
proof (induction ticks arbitrary: t v b)
  case Nil
  then show ?case by simp
next
  case (Cons now ticks)
  obtain v1 where v1: "ts_value (degrade now (from_secs 3600) t) = Fin v1" "0 \<le> v1" "v1 \<le> max 0 (b - 999 / 100000)"
    using hourly_step(2) [OF Cons.prems, of now] by blast
  from Cons.IH [OF hourly_step(1) [OF Cons.prems] v1(1,3)] obtain v' where
    v': "ts_value (fold (\<lambda>now. degrade now (from_secs 3600)) (now # ticks) t) = Fin v'"
    "v' \<le> max (if ticks = [] then max 0 (b - 999 / 100000) else 0) (max 0 (b - 999 / 100000) - of_nat (length ticks) * (999 / 100000))"
    "default_rate (fold (\<lambda>now. degrade now (from_secs 3600)) (now # ticks) t)"
    by auto
  define l where "l = rat_of_nat (length ticks) * (999 / 100000)"
  then have l: "rat_of_nat (length ticks) * (999 / 100000) = l" "0 \<le> l" "ticks = [] \<Longrightarrow> l = 0" by simp_all
  have "v' \<le> max 0 (b - (l + 999 / 100000))"
    using v'(2) l(2,3) unfolding l(1) by (auto simp: max_def split: if_splits)
  moreover have "rat_of_nat (length (now # ticks)) * (999 / 100000) = l + 999 / 100000"
    using l(1) by (simp add: algebra_simps)
  ultimately have "v' \<le> max (if now # ticks = [] then b else 0)
      (b - rat_of_nat (length (now # ticks)) * (999 / 100000))"
    by (simp only: list.distinct if_False)
  with v'(1,3) show ?case by blast
qed


text \<open>
  C25: idle trust vanishes. In the in-memory store, after 101 ticks of the hourly worker and
  no other write, every record with the default rate has trust zero, and stays in the store:
  each delegator is then scored with the full penalty, however much trust it had gained. The
  rounding of every subtraction is accounted for.
\<close>

theorem idle_trust_vanishes:
  assumes wf: "hm_wf s" and t: "map_of s k = Some t" "default_rate t" and enough: "101 \<le> length ticks"
  shows "\<exists>t'. map_of (worker_run mem_trust_ops worker_hourly ticks s) k = Some t' \<and>
    ts_value t' = Fin 0 \<and> weighted t' = Fin 0"
proof -
  have stored: "map_of (worker_run mem_trust_ops worker_hourly ticks s) k =
      Some (fold (\<lambda>now. degrade now (from_secs 3600)) ticks t)"
    using mem_trust.worker_run_stored [OF wf, of worker_hourly ticks] t(1) by (simp add: worker_hourly_def)
  obtain v where v: "ts_value t = Fin v" "v \<le> 1"
    using t(2) by (auto simp: default_rate_def trust_ok_def elim: f64_inE)
  obtain v' where v': "ts_value (fold (\<lambda>now. degrade now (from_secs 3600)) ticks t) = Fin v'"
      "v' \<le> max (if ticks = [] then 1 else 0) (1 - of_nat (length ticks) * (999 / 100000))"
      "default_rate (fold (\<lambda>now. degrade now (from_secs 3600)) ticks t)"
    using hourly_fold [OF t(2) v] by blast
  have "of_nat 101 * (999 / 100000) \<le> of_nat (length ticks) * (999 / 100000 :: rat)"
    using enough by (intro mult_right_mono iffD2 [OF of_nat_le_iff]) simp_all
  with v'(2) enough have "v' \<le> 0" by (auto simp: max_def split: if_splits)
  moreover have "trust_ok (fold (\<lambda>now. degrade now (from_secs 3600)) ticks t)"
    using v'(3) by (simp add: default_rate_def)
  ultimately have zero: "ts_value (fold (\<lambda>now. degrade now (from_secs 3600)) ticks t) = Fin 0"
    and c: "unit_f64 (ts_confidence (fold (\<lambda>now. degrade now (from_secs 3600)) ticks t))"
    using v'(1) by (auto simp: trust_ok_def)
  from c have "weighted (fold (\<lambda>now. degrade now (from_secs 3600)) ticks t) = Fin 0"
    by (auto simp: weighted_def zero elim!: f64_inE)
  with stored zero show ?thesis by blast
qed

theorem idle_trust_vanishes_witness:
  "\<exists>t'. map_of (worker_run mem_trust_ops worker_hourly (replicate 101 7) [(''agent'', trust_new 0 (lit 1))]) ''agent'' = Some t' \<and>
    ts_value t' = Fin 0 \<and> weighted t' = Fin 0"
proof (rule idle_trust_vanishes)
  show "default_rate (trust_new 0 (lit 1))"
    unfolding default_rate_def by (intro conjI trust_ok_new) (simp_all add: trust_new_def)
qed (simp_all add: hm_wf_def)

end
