(* ===== verification/Dynamic_Domain.thy ===== *)
theory Dynamic_Domain
  imports Float64
begin

text \<open>
  \<^verbatim>\<open>delegator.rs\<close>, \<^verbatim>\<open>metrics.rs\<close> and \<^verbatim>\<open>domain.rs\<close> of \<^verbatim>\<open>src/rbac/dynamic\<close>: who acts, what kind of
  action is requested, and the domains a task is confined to. JSON values are never read by the
  code; their type is left open.
\<close>

subsection \<open>Delegators and requests\<close>

datatype delegator_type = Human | Agent | SubAgent | ExternalSystem | Scheduler

record delegator =
  dg_id :: string
  dg_type :: delegator_type
  dg_session_badge :: string
  dg_parent_id :: "string option"

definition delegator_human :: "string \<Rightarrow> string \<Rightarrow> delegator" where
  "delegator_human i badge = \<lparr>dg_id = i, dg_type = Human, dg_session_badge = badge, dg_parent_id = None\<rparr>"

definition delegator_agent :: "string \<Rightarrow> string \<Rightarrow> delegator" where
  "delegator_agent i badge = \<lparr>dg_id = i, dg_type = Agent, dg_session_badge = badge, dg_parent_id = None\<rparr>"

definition delegator_sub_agent :: "string \<Rightarrow> string \<Rightarrow> string \<Rightarrow> delegator" where
  "delegator_sub_agent i badge parent =
     \<lparr>dg_id = i, dg_type = SubAgent, dg_session_badge = badge, dg_parent_id = Some parent\<rparr>"

definition delegator_with_parent :: "string \<Rightarrow> delegator \<Rightarrow> delegator" where
  "delegator_with_parent parent d = d\<lparr>dg_parent_id := Some parent\<rparr>"

datatype action_category =
  ReadOnly | StateWrite | FileWrite | NetworkEgress | ProcessExec | ContainerLifecycle | PrivilegedOp

fun base_weight :: "action_category \<Rightarrow> f64" where
  "base_weight ReadOnly = lit (1 / 10)"
| "base_weight StateWrite = lit (3 / 10)"
| "base_weight FileWrite = lit (5 / 10)"
| "base_weight NetworkEgress = lit (7 / 10)"
| "base_weight ProcessExec = lit (8 / 10)"
| "base_weight ContainerLifecycle = lit (9 / 10)"
| "base_weight PrivilegedOp = lit 1"

typedecl json_value

record action_request =
  rq_delegator :: delegator
  rq_action :: string
  rq_category :: action_category
  rq_parameters :: "(string \<times> json_value) list"
  rq_resource_path :: "string option"
  rq_timestamp :: instant

definition request_simple :: "instant \<Rightarrow> delegator \<Rightarrow> string \<Rightarrow> action_category \<Rightarrow> action_request" where
  "request_simple now d action cat =
     \<lparr>rq_delegator = d, rq_action = action, rq_category = cat, rq_parameters = [],
      rq_resource_path = None, rq_timestamp = now\<rparr>"

definition request_with_resource :: "string \<Rightarrow> action_request \<Rightarrow> action_request" where
  "request_with_resource path rq = rq\<lparr>rq_resource_path := Some path\<rparr>"

definition request_with_parameters :: "(string \<times> json_value) list \<Rightarrow> action_request \<Rightarrow> action_request" where
  "request_with_parameters params rq = rq\<lparr>rq_parameters := params\<rparr>"

record action_sensitivity =
  as_action :: string
  as_category :: action_category
  as_base_weight :: f64

definition action_sensitivity_new :: "string \<Rightarrow> action_category \<Rightarrow> action_sensitivity" where
  "action_sensitivity_new action cat = \<lparr>as_action = action, as_category = cat, as_base_weight = base_weight cat\<rparr>"

subsection \<open>Domains\<close>

record task_domain =
  td_name :: string
  td_categories :: "action_category set"
  td_prefixes :: "string list"
  td_trust_floor :: f64

definition task_domain_new :: "string \<Rightarrow> action_category set \<Rightarrow> string list \<Rightarrow> f64 \<Rightarrow> task_domain" where
  "task_domain_new name categories pfxs trust_floor =
     \<lparr>td_name = name, td_categories = categories, td_prefixes = pfxs,
      td_trust_floor = f64_clamp trust_floor (lit 0) (lit 1)\<rparr>"

fun path_step :: "string list \<Rightarrow> string list \<Rightarrow> string list" where
  "path_step components [] = components"
| "path_step components (part # parts) =
     (if part = [] \<or> part = ''.'' then path_step components parts
      else if part = ''..'' then path_step (butlast components) parts
      else path_step (components @ [part]) parts)"

definition render_path :: "string list \<Rightarrow> string" where
  "render_path components = concat (map (\<lambda>c. CHR ''/'' # c) components)"

definition normalize_path :: "string \<Rightarrow> string" where
  "normalize_path path =
     (let components = path_step [] (split_on (CHR ''/'') path)
      in if components = [] then ''/'' else render_path components)"

definition is_resource_allowed :: "task_domain \<Rightarrow> string \<Rightarrow> bool" where
  "is_resource_allowed d path \<longleftrightarrow>
     td_prefixes d = [] \<or> list_ex (\<lambda>p. prefix p (normalize_path path)) (td_prefixes d)"

record domain_scope =
  sc_current :: task_domain
  sc_adjacent :: "task_domain list"

definition scope_single :: "task_domain \<Rightarrow> domain_scope" where
  "scope_single d = \<lparr>sc_current = d, sc_adjacent = []\<rparr>"

definition scope_with_adjacent :: "task_domain \<Rightarrow> task_domain list \<Rightarrow> domain_scope" where
  "scope_with_adjacent d adjacent = \<lparr>sc_current = d, sc_adjacent = adjacent\<rparr>"

datatype domain_match =
    InDomain
  | Adjacent f64
  | DomainResourceMismatch f64
  | OutOfDomain f64

fun excess_weight :: "domain_match \<Rightarrow> f64" where
  "excess_weight InDomain = lit 0"
| "excess_weight (Adjacent w) = w"
| "excess_weight (DomainResourceMismatch w) = w"
| "excess_weight (OutOfDomain w) = w"

definition DOMAIN_RESOURCE_MISMATCH_WEIGHT :: f64 where
  "DOMAIN_RESOURCE_MISMATCH_WEIGHT = lit (3 / 10)"

definition ADJACENT_DOMAIN_WEIGHT :: f64 where
  "ADJACENT_DOMAIN_WEIGHT = lit (15 / 100)"

definition OUT_OF_DOMAIN_WEIGHT :: f64 where
  "OUT_OF_DOMAIN_WEIGHT = lit (6 / 10)"

definition resource_ok :: "task_domain \<Rightarrow> string option \<Rightarrow> bool" where
  "resource_ok d path = (case path of Some p \<Rightarrow> is_resource_allowed d p | None \<Rightarrow> True)"

definition domain_evaluate :: "domain_scope \<Rightarrow> action_category \<Rightarrow> string option \<Rightarrow> domain_match" where
  "domain_evaluate scope cat path =
     (let in_domain = cat \<in> td_categories (sc_current scope);
          res_ok = resource_ok (sc_current scope) path
      in if in_domain \<and> res_ok then InDomain
         else if in_domain \<and> \<not> res_ok then DomainResourceMismatch DOMAIN_RESOURCE_MISMATCH_WEIGHT
         else if list_ex (\<lambda>d. cat \<in> td_categories d) (sc_adjacent scope)
         then if \<not> list_ex (\<lambda>d. cat \<in> td_categories d \<and> resource_ok d path) (sc_adjacent scope)
              then DomainResourceMismatch (f64_add ADJACENT_DOMAIN_WEIGHT DOMAIN_RESOURCE_MISMATCH_WEIGHT)
              else Adjacent ADJACENT_DOMAIN_WEIGHT
         else OutOfDomain OUT_OF_DOMAIN_WEIGHT)"

subsection \<open>Paths\<close>

text \<open>A canonical component is a name: not empty, not a dot or two, and without separator.\<close>

definition path_name :: "string \<Rightarrow> bool" where
  "path_name c \<longleftrightarrow> c \<noteq> [] \<and> c \<noteq> ''.'' \<and> c \<noteq> ''..'' \<and> CHR ''/'' \<notin> set c"

lemma split_on_no_sep: "\<forall>c \<in> set (split_on sep s). sep \<notin> set c"
  by (induction sep s rule: split_on.induct) (auto split: list.splits)

lemma path_step_names:
  "\<forall>c \<in> set parts. CHR ''/'' \<notin> set c \<Longrightarrow> \<forall>c \<in> set comps. path_name c \<Longrightarrow>
     \<forall>c \<in> set (path_step comps parts). path_name c"
proof (induction parts arbitrary: comps)
  case (Cons part parts)
  have parts: "\<forall>c \<in> set parts. CHR ''/'' \<notin> set c" and part: "CHR ''/'' \<notin> set part"
    using Cons.prems(1) by simp_all
  have up: "\<forall>c \<in> set (butlast comps). path_name c" using Cons.prems(2) by (blast dest: in_set_butlastD)
  consider "part = [] \<or> part = ''.''" | "part = ''..''" | "part \<noteq> []" "part \<noteq> ''.''" "part \<noteq> ''..''" by blast
  then show ?case
  proof cases
    case 1
    then show ?thesis using Cons.IH [OF parts Cons.prems(2)] by (simp only: path_step.simps if_True)
  next
    case 2
    then have "path_step comps (part # parts) = path_step (butlast comps) parts" by simp
    then show ?thesis using Cons.IH [OF parts up] by (simp only:)
  next
    case 3
    then have "path_step comps (part # parts) = path_step (comps @ [part]) parts" by simp
    moreover have "\<forall>c \<in> set (comps @ [part]). path_name c"
      using 3 part Cons.prems(2) unfolding path_name_def by (simp only: set_append set_simps) blast
    ultimately show ?thesis using Cons.IH [OF parts] by (simp only:)
  qed
qed simp

lemma path_step_of_names: "\<forall>c \<in> set parts. path_name c \<Longrightarrow> path_step comps parts = comps @ parts"
  by (induction parts arbitrary: comps) (simp_all add: path_name_def)

lemma split_render:
  "\<forall>c \<in> set comps. path_name c \<Longrightarrow> comps \<noteq> [] \<Longrightarrow> split_on (CHR ''/'') (render_path comps) = [] # comps"
proof (induction comps)
  case (Cons c comps)
  show ?case
  proof (cases comps)
    case Nil
    with Cons.prems show ?thesis by (simp add: render_path_def split_on_name path_name_def)
  next
    case (Cons d rest)
    with Cons.IH Cons.prems have ih: "split_on (CHR ''/'') (render_path comps) = [] # comps" by simp
    obtain r where r: "render_path comps = CHR ''/'' # r" using Cons by (simp add: render_path_def)
    with ih have "split_on (CHR ''/'') r = comps" by simp
    with r Cons.prems show ?thesis by (simp add: render_path_def path_name_def split_on_append)
  qed
qed simp

text \<open>
  What a path denotes, told without the code's walk: cancellations of its parts, in any order and
  anywhere. An empty part and a dot cancel, a name cancels with two dots behind it, and two
  dots at the root cancel. What the parts of the path cancel down to, names only, is where it leads.
\<close>

inductive cancels :: "string list \<Rightarrow> string list \<Rightarrow> bool" where
  empty_part: "cancels (ps @ [] # qs) (ps @ qs)"
| dot: "cancels (ps @ ''.'' # qs) (ps @ qs)"
| parent: "path_name n \<Longrightarrow> cancels (ps @ n # ''..'' # qs) (ps @ qs)"
| root_parent: "cancels (''..'' # qs) qs"

definition resolves :: "string \<Rightarrow> string list \<Rightarrow> bool" where
  "resolves path comps \<longleftrightarrow> cancels\<^sup>*\<^sup>* (split_on (CHR ''/'') path) comps \<and> list_all path_name comps"

lemma path_step_append: "path_step comps (ps @ qs) = path_step (path_step comps ps) qs"
  by (induction ps arbitrary: comps) simp_all

lemma path_step_name: "path_name n \<Longrightarrow> path_step comps (n # qs) = path_step (comps @ [n]) qs"
  by (simp add: path_name_def)

lemma path_step_cancel: "cancels ps qs \<Longrightarrow> path_step [] ps = path_step [] qs"
proof (induction rule: cancels.induct)
  case (parent n ps qs)
  then have "path_step comps (n # ''..'' # qs) = path_step comps qs" for comps
    by (simp add: path_step_name del: path_step.simps(2)) simp
  then show ?case by (simp only: path_step_append)
qed (simp_all add: path_step_append)

lemma path_step_cancels: "cancels\<^sup>*\<^sup>* ps qs \<Longrightarrow> path_step [] ps = path_step [] qs"
  by (induction rule: rtranclp_induct) (simp_all add: path_step_cancel)

lemma cancels_path_step:
  "\<forall>c \<in> set ps. CHR ''/'' \<notin> set c \<Longrightarrow> \<forall>c \<in> set comps. path_name c \<Longrightarrow> cancels\<^sup>*\<^sup>* (comps @ ps) (path_step comps ps)"
proof (induction ps arbitrary: comps)
  case (Cons p ps)
  have ps: "\<forall>c \<in> set ps. CHR ''/'' \<notin> set c" using Cons.prems(1) by simp
  consider "p = []" | "p = ''.''" | "p = ''..''" | "p \<noteq> []" "p \<noteq> ''.''" "p \<noteq> ''..''" by blast
  then show ?case
  proof cases
    case 1
    then have "cancels (comps @ p # ps) (comps @ ps)" by (simp add: cancels.empty_part)
    with Cons.IH [OF ps Cons.prems(2)] 1 show ?thesis by (simp add: converse_rtranclp_into_rtranclp)
  next
    case 2
    then have "cancels (comps @ p # ps) (comps @ ps)" by (simp add: cancels.dot)
    with Cons.IH [OF ps Cons.prems(2)] 2 show ?thesis by (simp add: converse_rtranclp_into_rtranclp)
  next
    case 3
    have "cancels (comps @ p # ps) (butlast comps @ ps)"
    proof (cases comps rule: rev_cases)
      case Nil
      then show ?thesis using 3 by (simp add: cancels.root_parent)
    next
      case (snoc comps' n)
      then show ?thesis using 3 Cons.prems(2) cancels.parent [of n comps' ps] by simp
    qed
    moreover have "\<forall>c \<in> set (butlast comps). path_name c" using Cons.prems(2) by (blast dest: in_set_butlastD)
    ultimately show ?thesis using Cons.IH [OF ps] 3 by (simp add: converse_rtranclp_into_rtranclp)
  next
    case 4
    then have "path_name p" using Cons.prems(1) by (simp add: path_name_def)
    then show ?thesis using Cons.IH [OF ps, of "comps @ [p]"] Cons.prems(2) by (simp only: path_step_name) simp
  qed
qed simp

lemma resolves_iff: "resolves path comps \<longleftrightarrow> comps = path_step [] (split_on (CHR ''/'') path)"
proof
  assume r: "resolves path comps"
  then have "path_step [] (split_on (CHR ''/'') path) = path_step [] comps"
    by (simp add: resolves_def path_step_cancels)
  also have "\<dots> = comps" using r by (simp add: resolves_def list_all_iff path_step_of_names)
  finally show "comps = path_step [] (split_on (CHR ''/'') path)" by simp
next
  assume "comps = path_step [] (split_on (CHR ''/'') path)"
  then show "resolves path comps"
    using cancels_path_step [of "split_on (CHR ''/'') path" "[]"] path_step_names [of "split_on (CHR ''/'') path" "[]"]
    by (simp add: resolves_def list_all_iff split_on_no_sep)
qed

lemma normalize_resolves:
  "resolves path comps \<Longrightarrow> normalize_path path = (if comps = [] then ''/'' else render_path comps)"
  by (simp add: resolves_iff normalize_path_def Let_def)

lemma resolves_normal: "resolves path comps \<Longrightarrow> resolves (normalize_path path) comps"
proof (cases "comps = []")
  case False
  assume r: "resolves path comps"
  then have names: "\<forall>c \<in> set comps. path_name c" by (simp add: resolves_def list_all_iff)
  have "normalize_path path = render_path comps" using normalize_resolves [OF r] False by simp
  then show ?thesis
    using split_render [OF names False] path_step_of_names [OF names] by (simp add: resolves_iff)
qed (simp add: normalize_resolves resolves_iff)

lemma prefix_render:
  "list_all path_name ps \<Longrightarrow> list_all path_name comps \<Longrightarrow>
    prefix (render_path ps @ ''/'') (render_path comps) \<longleftrightarrow> strict_prefix ps comps"
proof (induction ps arbitrary: comps)
  case Nil
  then show ?case by (cases comps) (simp_all add: render_path_def)
next
  case (Cons p ps)
  show ?case
  proof (cases comps)
    case (Cons c cs)
    have plain: "CHR ''/'' \<notin> set p" "CHR ''/'' \<notin> set c" using Cons.prems \<open>comps = c # cs\<close> by (simp_all add: path_name_def)
    obtain x where x: "render_path ps @ ''/'' = CHR ''/'' # x" by (cases ps) (simp_all add: render_path_def)
    have "prefix (p @ CHR ''/'' # x) (c @ render_path cs) \<longleftrightarrow> p = c \<and> prefix (CHR ''/'' # x) (render_path cs)"
    proof (cases cs)
      case Nil
      then show ?thesis using plain(2) set_mono_prefix [of "p @ CHR ''/'' # x" c] by (auto simp: render_path_def)
    next
      case (Cons c' cs')
      then obtain y where y: "render_path cs = CHR ''/'' # y" by (simp add: render_path_def)
      have "prefix (p @ CHR ''/'' # x) (c @ CHR ''/'' # y) \<longleftrightarrow> (\<exists>z. c @ CHR ''/'' # y = p @ CHR ''/'' # (x @ z))"
        by (simp add: prefix_def)
      then show ?thesis unfolding y append_at_separator [OF plain(2,1)] by (auto simp: prefix_def)
    qed
    moreover have "render_path (p # ps) @ ''/'' = CHR ''/'' # p @ CHR ''/'' # x"
      "render_path (c # cs) = CHR ''/'' # c @ render_path cs"
      using x by (simp_all add: render_path_def)
    ultimately show ?thesis
      using Cons.IH [of cs] Cons.prems \<open>comps = c # cs\<close> by (simp only: x) (auto simp: strict_prefix_def)
  qed (simp add: render_path_def)
qed

text \<open>
  C26: path normalization computes what a path denotes. Cancelling its parts in whatever order ends in one
  list of names, where the path leads, and normalization renders that list; the normal form is its own
  normal form; and a domain that is confined to a directory, its prefix written with the trailing
  separator, allows exactly the paths that lead strictly below that directory, so no sequence of dots and
  separators leads out of it.
\<close>

theorem normalize_path_canonical:
  assumes "resolves path comps" "list_all path_name dir" "dir \<noteq> []"
  shows "(\<exists>!c. resolves path c) \<and>
    normalize_path path = (if comps = [] then ''/'' else render_path comps) \<and>
    normalize_path (normalize_path path) = normalize_path path \<and>
    (is_resource_allowed (task_domain_new name cats [render_path dir @ ''/''] fl) path \<longleftrightarrow> strict_prefix dir comps)"
proof (intro conjI)
  show "\<exists>!c. resolves path c" by (simp add: resolves_iff)
  show norm: "normalize_path path = (if comps = [] then ''/'' else render_path comps)"
    by (rule normalize_resolves [OF assms(1)])
  show "normalize_path (normalize_path path) = normalize_path path"
    using normalize_resolves [OF resolves_normal [OF assms(1)]] norm by simp
  have "prefix (render_path dir @ ''/'') (normalize_path path) \<longleftrightarrow> strict_prefix dir comps"
  proof (cases "comps = []")
    case True
    obtain d ds where "dir = d # ds" using assms(3) by (cases dir) auto
    with assms(2) True norm show ?thesis by (auto simp: render_path_def path_name_def)
  next
    case False
    then show ?thesis using prefix_render [OF assms(2), of comps] assms(1) norm by (simp add: resolves_def)
  qed
  then show "is_resource_allowed (task_domain_new name cats [render_path dir @ ''/''] fl) path \<longleftrightarrow> strict_prefix dir comps"
    by (simp add: is_resource_allowed_def task_domain_new_def)
qed

theorem normalize_path_canonical_witness:
  "normalize_path ''/tank/./a//../b'' = ''/tank/b'' \<and>
   is_resource_allowed (task_domain_new ''d'' {} [''/tank/''] (lit 0)) ''/tank/./a//../b'' \<and>
   \<not> is_resource_allowed (task_domain_new ''d'' {} [''/tank/''] (lit 0)) ''/tank/../etc/x''"
proof -
  have 1: "resolves ''/tank/./a//../b'' [''tank'', ''b'']" "resolves ''/tank/../etc/x'' [''etc'', ''x'']"
    by (simp_all add: resolves_iff)
  have 2: "list_all path_name [''tank'']" by (simp add: path_name_def)
  show ?thesis
    using normalize_path_canonical [OF 1(1) 2, of "''d''" "{}" "lit 0"] normalize_path_canonical [OF 1(2) 2, of "''d''" "{}" "lit 0"]
    by (simp add: render_path_def)
qed

text \<open>With a trailing separator in the prefix the directory itself is outside.\<close>

lemma trailing_separator_excludes_directory:
  "\<not> is_resource_allowed (task_domain_new ''d'' {} [''/tank/''] (lit 0)) ''/tank/''"
  by (simp add: is_resource_allowed_def task_domain_new_def normalize_path_def render_path_def)

lemma excess_weight_unit: "unit_f64 (excess_weight (domain_evaluate scope cat path))"
proof -
  have "unit_f64 (f64_add ADJACENT_DOMAIN_WEIGHT DOMAIN_RESOURCE_MISMATCH_WEIGHT)"
  proof -
    have half: "representable (1 / 2)" using representable_pow2 [of "- 1"] by (simp add: power_int_def)
    have "f64_in 0 (1 / 2) (lit (15 / 100))" "f64_in 0 (1 / 2) (lit (3 / 10))"
      by (rule f64_in_rnd; simp add: half)+
    then show ?thesis
      unfolding ADJACENT_DOMAIN_WEIGHT_def DOMAIN_RESOURCE_MISMATCH_WEIGHT_def
      by (auto elim!: f64_inE intro!: unit_rnd)
  qed
  then show ?thesis
    by (simp add: domain_evaluate_def Let_def unit_rnd ADJACENT_DOMAIN_WEIGHT_def
        DOMAIN_RESOURCE_MISMATCH_WEIGHT_def OUT_OF_DOMAIN_WEIGHT_def)
qed

lemma base_weight_unit: "unit_f64 (base_weight cat)"
  by (cases cat) (simp_all add: unit_rnd)

end
