(* ===== verification/Dynamic_Anomaly.thy ===== *)
theory Dynamic_Anomaly
  imports Dynamic_Domain
begin

text \<open>
  \<^verbatim>\<open>src/rbac/dynamic/anomaly.rs\<close>: the behavioural detector of one delegator, with its sliding
  window, the category profile, and the baseline learned from the first 100 observations. The
  count of observations cannot reach the bound of its 64-bit counter and is a natural number.
\<close>

subsection \<open>Definitions\<close>

definition DEFAULT_WINDOW_SIZE :: nat where
  "DEFAULT_WINDOW_SIZE = 20"

definition BASELINE_MIN_SAMPLES :: nat where
  "BASELINE_MIN_SAMPLES = 100"

record anomaly_score =
  an_value :: f64
  an_reason :: string

record action_record =
  rc_action :: string
  rc_category :: action_category
  rc_timestamp :: instant

record behavior_baseline =
  bb_category_means :: "(action_category, f64) hash_map"
  bb_category_stdevs :: "(action_category, f64) hash_map"

record anomaly_detector =
  det_recent_actions :: "action_record list"
  det_window_size :: nat
  det_category_profile :: "(action_category, f64) hash_map"
  det_baseline :: "behavior_baseline option"
  det_total_observed :: nat
  det_history :: "action_record list"

definition detector_new :: "nat \<Rightarrow> anomaly_detector" where
  "detector_new window_size =
     \<lparr>det_recent_actions = [], det_window_size = window_size, det_category_profile = [],
      det_baseline = None, det_total_observed = 0, det_history = []\<rparr>"

definition detector_default :: anomaly_detector where
  "detector_default = detector_new DEFAULT_WINDOW_SIZE"

definition with_baseline :: "behavior_baseline \<Rightarrow> anomaly_detector \<Rightarrow> anomaly_detector" where
  "with_baseline b d = d\<lparr>det_baseline := Some b\<rparr>"

definition is_baseline_ready :: "anomaly_detector \<Rightarrow> bool" where
  "is_baseline_ready d \<longleftrightarrow> det_total_observed d \<ge> BASELINE_MIN_SAMPLES"

text \<open>\<^verbatim>\<open>*m.entry(cat).or_insert(0.0) += 1.0\<close>\<close>

definition count_entry :: "action_record \<Rightarrow> (action_category, f64) hash_map \<Rightarrow> (action_category, f64) hash_map" where
  "count_entry r m =
     AList.update (rc_category r)
       (f64_add (case map_of m (rc_category r) of None \<Rightarrow> lit 0 | Some v \<Rightarrow> v) (lit 1)) m"

definition recompute_profile :: "anomaly_detector \<Rightarrow> anomaly_detector" where
  "recompute_profile d =
     (if det_recent_actions d = [] then d\<lparr>det_category_profile := []\<rparr>
      else
        let n = f64_of_nat (length (det_recent_actions d));
            m = fold count_entry (det_recent_actions d) []
        in d\<lparr>det_category_profile := map (\<lambda>(k, v). (k, f64_div v n)) m\<rparr>)"

definition sample_stdev :: "f64 \<Rightarrow> f64 \<Rightarrow> f64" where
  "sample_stdev n cnt =
     (let p = f64_div cnt n;
          sample_var =
            (if f64_lt (lit 1) n
             then f64_div (f64_mul (f64_mul p (f64_sub (lit 1) p)) n) (f64_sub n (lit 1))
             else f64_mul p (f64_sub (lit 1) p))
      in f64_max (f64_sqrt sample_var) (lit (1 / 100)))"

definition build_baseline_from_history :: "anomaly_detector \<Rightarrow> anomaly_detector" where
  "build_baseline_from_history d =
     (if det_total_observed d < BASELINE_MIN_SAMPLES then d
      else
        let n = f64_of_nat (length (det_history d))
        in if f64_eq n (lit 0) then d
           else
             let counts = fold count_entry (det_history d) []
             in d\<lparr>det_baseline := Some
                   \<lparr>bb_category_means = map (\<lambda>(k, c). (k, f64_div c n)) counts,
                    bb_category_stdevs = map (\<lambda>(k, c). (k, sample_stdev n c)) counts\<rparr>\<rparr>)"

definition z_score :: "behavior_baseline \<Rightarrow> action_category \<Rightarrow> f64 \<Rightarrow> f64" where
  "z_score b cat current_freq =
     (let mean = (case map_of (bb_category_means b) cat of None \<Rightarrow> lit 0 | Some v \<Rightarrow> v);
          stdev = (case map_of (bb_category_stdevs b) cat of None \<Rightarrow> lit (1 / 10) | Some v \<Rightarrow> v)
      in if f64_lt (lit 0) stdev then f64_div (f64_sub current_freq mean) stdev
         else if f64_lt (f64_abs (f64_sub current_freq mean)) (lit (1 / 1000000000000)) then lit 0
         else lit 2)"

text \<open>The two loops over the profile and over the baseline, with the sum and the count so far.\<close>

definition add_present :: "behavior_baseline \<Rightarrow> action_category \<times> f64 \<Rightarrow> f64 \<times> nat \<Rightarrow> f64 \<times> nat" where
  "add_present b = (\<lambda>(cat, current_freq) (total_dev, n). (f64_add total_dev (f64_abs (z_score b cat current_freq)), n + 1))"

definition add_absent ::
  "(action_category, f64) hash_map \<Rightarrow> action_category \<times> f64 \<Rightarrow> f64 \<times> nat \<Rightarrow> f64 \<times> nat" where
  "add_absent profile = (\<lambda>(cat, mean) (total_dev, n).
     if map_of profile cat = None \<and> f64_lt (lit (1 / 100)) mean then (f64_add total_dev (lit 2), n + 1) else (total_dev, n))"

definition pattern_deviation :: "anomaly_detector \<Rightarrow> f64" where
  "pattern_deviation d =
     (case det_baseline d of
        None \<Rightarrow> lit 0
      | Some b \<Rightarrow>
          (case fold (add_absent (det_category_profile d)) (bb_category_means b)
                  (fold (add_present b) (det_category_profile d) (lit 0, 0)) of
             (total_dev, n) \<Rightarrow>
               if n = 0 then lit 0
               else f64_min (f64_div (f64_div total_dev (f64_of_nat n)) (lit 3)) (lit 1)))"

definition record_of :: "action_request \<Rightarrow> action_record" where
  "record_of rq = \<lparr>rc_action = rq_action rq, rc_category = rq_category rq, rc_timestamp = rq_timestamp rq\<rparr>"

definition push_window :: "nat \<Rightarrow> action_record \<Rightarrow> action_record list \<Rightarrow> action_record list" where
  "push_window w r rs = (if length rs \<ge> w then tl rs else rs) @ [r]"

text \<open>The state changes of \<open>observe\<close>, and its score.\<close>

definition observe_state :: "action_request \<Rightarrow> anomaly_detector \<Rightarrow> anomaly_detector" where
  "observe_state rq d =
     (let d1 = d\<lparr>det_total_observed := det_total_observed d + 1,
                det_recent_actions := push_window (det_window_size d) (record_of rq) (det_recent_actions d)\<rparr>;
          d2 = (if det_baseline d1 = None \<and> length (det_history d1) < BASELINE_MIN_SAMPLES
                then d1\<lparr>det_history := det_history d1 @ [record_of rq]\<rparr> else d1);
          d3 = recompute_profile d2
      in if is_baseline_ready d3 \<and> det_baseline d3 = None
         then (build_baseline_from_history d3)\<lparr>det_history := []\<rparr> else d3)"

definition observe :: "action_request \<Rightarrow> anomaly_detector \<Rightarrow> anomaly_score \<times> anomaly_detector" where
  "observe rq d =
     (let d' = observe_state rq d
      in if \<not> is_baseline_ready d' then (\<lparr>an_value = lit (1 / 10), an_reason = ''insufficient-samples''\<rparr>, d')
         else
           let deviation = pattern_deviation d'
           in (if f64_lt (lit (7 / 10)) deviation
               then \<lparr>an_value = deviation, an_reason = ''high-pattern-deviation''\<rparr>
               else if f64_lt (lit (4 / 10)) deviation
               then \<lparr>an_value = deviation, an_reason = ''moderate-pattern-deviation''\<rparr>
               else \<lparr>an_value = deviation, an_reason = ''normal''\<rparr>, d'))"

subsection \<open>The deviation is in the unit interval, whatever the baseline\<close>

lemma nonneg_abs: "nonneg (f64_abs x)"
  by (cases x) (simp_all add: nonneg_def)

lemma nonneg_zero [simp]: "nonneg (Fin 0)"
  by (simp add: nonneg_def)

lemma fold_add_present: "nonneg (fst st) \<Longrightarrow> nonneg (fst (fold (add_present b) ps st))"
  by (induction ps arbitrary: st) (auto simp: add_present_def nonneg_add nonneg_abs split: prod.splits)

lemma fold_add_absent: "nonneg (fst st) \<Longrightarrow> nonneg (fst (fold (add_absent pr) ms st))"
  by (induction ms arbitrary: st) (auto simp: add_absent_def nonneg_add nonneg_rnd split: prod.splits)

lemma f64_ok_div [simp]: "f64_ok (f64_div a b)"
  by (cases a; cases b) simp_all

lemma pattern_deviation_unit: "unit_f64 (pattern_deviation d)"
proof (cases "det_baseline d")
  case None
  then show ?thesis by (simp add: pattern_deviation_def)
next
  case (Some b)
  obtain total_dev n where tn: "fold (add_absent (det_category_profile d)) (bb_category_means b)
      (fold (add_present b) (det_category_profile d) (lit 0, 0)) = (total_dev, n)" by force
  have total_dev: "nonneg total_dev"
    using fold_add_absent [OF fold_add_present [of "(lit 0, 0)"]] tn by (metis fst_conv nonneg_zero rnd_0)
  have three: "lit 3 = Fin 3" using rnd_of_int [of 3] by simp
  let ?x = "f64_div (f64_div total_dev (f64_of_nat n)) (lit 3)"
  have "unit_f64 (f64_min ?x (lit 1))" if "n \<noteq> 0"
  proof -
    have "nonneg (f64_div total_dev (f64_of_nat n))"
    proof (cases "f64_of_nat n")
      case (Fin q)
      have "f64_le (rnd 1) (rnd (of_nat n))" using that by (intro rnd_mono) simp
      with Fin have "0 < q" by (simp add: f64_of_nat_def)
      with Fin total_dev show ?thesis by (simp add: nonneg_div)
    next
      case NegInf
      have "f64_le (rnd 0) (rnd (of_nat n))" by (rule rnd_mono) simp
      with NegInf show ?thesis by (simp add: f64_of_nat_def)
    next
      case PosInf
      with total_dev show ?thesis by (cases total_dev) (simp_all add: nonneg_def)
    qed (simp add: f64_of_nat_def)
    then have "nonneg ?x" unfolding three by (rule nonneg_div) simp
    moreover have "f64_ok ?x" by simp
    ultimately show ?thesis by (cases ?x) (auto simp: nonneg_def f64_min_def)
  qed
  then show ?thesis using Some tn by (simp add: pattern_deviation_def)
qed

lemma observe_unit: "unit_f64 (an_value (fst (observe rq d)))"
  by (simp add: observe_def Let_def pattern_deviation_unit unit_rnd)


subsection \<open>What the detector remembers\<close>

definition occurrences :: "action_category \<Rightarrow> action_record list \<Rightarrow> nat" where
  "occurrences cat rs = length (filter (\<lambda>r. rc_category r = cat) rs)"

lemma occurrences_simps [simp]:
  "occurrences cat [] = 0"
  "occurrences cat (rs @ [r]) = occurrences cat rs + of_bool (rc_category r = cat)"
  by (simp_all add: occurrences_def)

lemma occurrences_le: "occurrences cat rs \<le> length rs"
  by (simp add: occurrences_def)

lemma fold_count_entry:
  "length rs \<le> 2 ^ 53 \<Longrightarrow>
     map_of (fold count_entry rs []) cat =
       (if occurrences cat rs = 0 then None else Some (Fin (of_nat (occurrences cat rs))))"
proof (induction rs rule: rev_induct)
  case Nil
  then show ?case by simp
next
  case (snoc r rs)
  then have ih: "map_of (fold count_entry rs []) c =
      (if occurrences c rs = 0 then None else Some (Fin (of_nat (occurrences c rs))))" if "c = cat" for c
    using that by simp
  have "occurrences cat rs + 1 \<le> 2 ^ 53"
    using occurrences_le [of cat rs] snoc.prems by simp
  from rnd_of_nat [OF this] ih [OF refl] show ?case
    by (auto simp: count_entry_def [of r] update_conv' add.commute)
qed

lemma map_of_map_val: "map_of (map (\<lambda>(k, v). (k, f v)) m) k = map_option f (map_of m k)"
  by (induction m) auto

text \<open>The frequencies of a window, each correctly rounded.\<close>

lemma profile_lookup:
  assumes "length (det_recent_actions d) \<le> 2 ^ 53" "det_recent_actions d \<noteq> []"
  shows "map_of (det_category_profile (recompute_profile d)) cat =
    (if occurrences cat (det_recent_actions d) = 0 then None
     else Some (rnd (of_nat (occurrences cat (det_recent_actions d)) / of_nat (length (det_recent_actions d)))))"
  using assms by (simp add: recompute_profile_def map_of_map_val fold_count_entry f64_of_nat_def rnd_of_nat)

definition learned_baseline :: "action_record list \<Rightarrow> behavior_baseline" where
  "learned_baseline rs =
     (let n = f64_of_nat (length rs); counts = fold count_entry rs []
      in \<lparr>bb_category_means = map (\<lambda>(k, c). (k, f64_div c n)) counts,
          bb_category_stdevs = map (\<lambda>(k, c). (k, sample_stdev n c)) counts\<rparr>)"

lemma push_window_drop:
  "n = length xs \<Longrightarrow> push_window w r (drop (n - max 1 w) xs) = drop (Suc n - max 1 w) (xs @ [r])"
proof (cases "w = 0")
  case True
  assume "n = length xs"
  moreover have "tl (drop (length xs - 1) xs) = []"
    by (cases xs rule: rev_cases) simp_all
  ultimately show ?thesis using True by (simp add: push_window_def)
next
  case False
  assume "n = length xs"
  then show ?thesis
    using False by (cases "w \<le> n") (simp_all add: push_window_def tl_drop drop_Suc Suc_diff_le max_def flip: drop_Suc)
qed

definition remembers :: "nat \<Rightarrow> action_request list \<Rightarrow> anomaly_detector \<Rightarrow> bool" where
  "remembers w rqs d \<longleftrightarrow>
     det_total_observed d = length rqs \<and> det_window_size d = w \<and>
     det_recent_actions d = drop (length rqs - max 1 w) (map record_of rqs) \<and>
     (if length rqs < BASELINE_MIN_SAMPLES
      then det_baseline d = None \<and> det_history d = map record_of rqs
      else det_baseline d = Some (learned_baseline (map record_of (take BASELINE_MIN_SAMPLES rqs))) \<and> det_history d = [])"

lemma recompute_profile_fields [simp]:
  "det_total_observed (recompute_profile d) = det_total_observed d"
  "det_window_size (recompute_profile d) = det_window_size d"
  "det_recent_actions (recompute_profile d) = det_recent_actions d"
  "det_baseline (recompute_profile d) = det_baseline d"
  "det_history (recompute_profile d) = det_history d"
  by (simp_all add: recompute_profile_def Let_def)

lemma remembers_observe:
  assumes "remembers w rqs d"
  shows "remembers w (rqs @ [rq]) (observe_state rq d)"
proof -
  have win: "push_window w (record_of rq) (drop (length rqs - max 1 w) (map record_of rqs)) =
      drop (Suc (length rqs) - max 1 w) (map record_of rqs @ [record_of rq])"
    by (rule push_window_drop) simp
  consider "Suc (length rqs) < BASELINE_MIN_SAMPLES" | "Suc (length rqs) = BASELINE_MIN_SAMPLES"
    | "BASELINE_MIN_SAMPLES \<le> length rqs" by linarith
  then show ?thesis
  proof cases
    case 1
    with assms win show ?thesis
      by (simp add: remembers_def observe_state_def Let_def is_baseline_ready_def)
  next
    case 2
    have hundred: "f64_of_nat BASELINE_MIN_SAMPLES = Fin 100"
      using rnd_of_int [of 100] by (simp add: f64_of_nat_def BASELINE_MIN_SAMPLES_def)
    from 2 assms win show ?thesis
      by (simp add: remembers_def observe_state_def Let_def is_baseline_ready_def
          build_baseline_from_history_def learned_baseline_def hundred f64_simps)
  next
    case 3
    with assms win show ?thesis
      by (simp add: remembers_def observe_state_def Let_def is_baseline_ready_def)
  qed
qed

lemma remembers_all: "remembers w rqs (fold observe_state rqs (detector_new w))"
proof (induction rqs rule: rev_induct)
  case Nil
  then show ?case by (simp add: remembers_def detector_new_def BASELINE_MIN_SAMPLES_def)
next
  case (snoc rq rqs)
  from remembers_observe [OF this, of rq] show ?case by simp
qed


text \<open>
  What a detector remembers. After any history of requests the window holds the last
  requests, at most the window size but never fewer than one; the profile gives each category
  its share of the window, correctly rounded; and the baseline is learned from the first hundred
  requests and from nothing else, however many follow. The score of every observation is in the
  unit interval.
\<close>

theorem detector_exact:
  assumes "length rqs \<le> 2 ^ 53"
  shows "let d = fold observe_state rqs (detector_new w);
             window = drop (length rqs - max 1 w) (map record_of rqs)
  in det_recent_actions d = window \<and>
    (rqs \<noteq> [] \<longrightarrow> map_of (det_category_profile d) cat =
       (if occurrences cat window = 0 then None
        else Some (rnd (of_nat (occurrences cat window) / of_nat (length window))))) \<and>
    det_baseline d =
      (if length rqs < 100 then None else Some (learned_baseline (map record_of (take 100 rqs)))) \<and>
    unit_f64 (an_value (fst (observe rq d)))"
proof -
  define d where "d = fold observe_state rqs (detector_new w)"
  define window where "window = drop (length rqs - max 1 w) (map record_of rqs)"
  have r: "remembers w rqs d" unfolding d_def by (rule remembers_all)
  then have recent: "det_recent_actions d = window" by (simp add: remembers_def window_def)
  have base: "det_baseline d = (if length rqs < 100 then None else Some (learned_baseline (map record_of (take 100 rqs))))"
    using r by (auto simp: remembers_def BASELINE_MIN_SAMPLES_def)
  have share: "map_of (det_category_profile d) cat =
      (if occurrences cat window = 0 then None
       else Some (rnd (of_nat (occurrences cat window) / of_nat (length window))))" if ne: "rqs \<noteq> []"
  proof -
    have prof: "det_category_profile (observe_state rq' d') =
        det_category_profile (recompute_profile (observe_state rq' d'))" for rq' d'
      by (simp add: observe_state_def Let_def build_baseline_from_history_def recompute_profile_def)
    have "d = observe_state (last rqs) (fold observe_state (butlast rqs) (detector_new w))"
      using ne unfolding d_def by (cases rqs rule: rev_cases) simp_all
    then have "det_category_profile d = det_category_profile (recompute_profile d)" using prof by simp
    moreover have "length rqs - max 1 w < length rqs"
      by (rule diff_less) (use ne in \<open>simp_all add: less_max_iff_disj\<close>)
    then have "window \<noteq> []" by (simp add: window_def)
    moreover have "length window \<le> 2 ^ 53" using assms(1) by (simp add: window_def)
    ultimately show ?thesis using profile_lookup [of d cat] by (simp add: recent)
  qed
  show ?thesis
    unfolding Let_def d_def [symmetric] window_def [symmetric]
    using recent base share observe_unit [of rq d] by blast
qed

theorem detector_exact_witness:
  "let rq = request_simple 5 (delegator_agent ''a'' ''b'') ''read'' ReadOnly;
       d = fold observe_state [rq] (detector_new 0)
   in det_recent_actions d = [record_of rq] \<and> map_of (det_category_profile d) ReadOnly = Some (Fin 1)"
proof -
  define rq where "rq = request_simple 5 (delegator_agent ''a'' ''b'') ''read'' ReadOnly"
  have "length [rq] \<le> 2 ^ 53" by simp
  from detector_exact [OF this, of 0 ReadOnly rq]
  show ?thesis by (simp add: rq_def [symmetric] Let_def occurrences_def)
    (simp add: rq_def record_of_def request_simple_def)
qed

end
