(* ===== verification/Dynamic_Policy.thy ===== *)
theory Dynamic_Policy
  imports Float64
begin

text \<open>
  \<^verbatim>\<open>verdict.rs\<close> and \<^verbatim>\<open>policy.rs\<close> of \<^verbatim>\<open>src/rbac/dynamic\<close>: autonomy levels, strategies, scores and
  verdicts; the policy that maps a risk to a level and a level to a strategy. An ordered map
  over the five levels is a function; the order of its iteration is the order of the levels.
\<close>

subsection \<open>Levels and strategies\<close>

datatype autonomy_level = L0Frozen | L1Assisted | L2SemiAutonomous | L3Conditional | L4FullAutonomy

fun level_discriminant :: "autonomy_level \<Rightarrow> nat" where
  "level_discriminant L0Frozen = 0"
| "level_discriminant L1Assisted = 1"
| "level_discriminant L2SemiAutonomous = 2"
| "level_discriminant L3Conditional = 3"
| "level_discriminant L4FullAutonomy = 4"

lemma level_discriminant_inject [simp]: "level_discriminant a = level_discriminant b \<longleftrightarrow> a = b"
  by (cases a; cases b) simp_all

instantiation autonomy_level :: linorder
begin

definition less_eq_autonomy_level :: "autonomy_level \<Rightarrow> autonomy_level \<Rightarrow> bool" where
  "less_eq_autonomy_level a b \<longleftrightarrow> level_discriminant a \<le> level_discriminant b"

definition less_autonomy_level :: "autonomy_level \<Rightarrow> autonomy_level \<Rightarrow> bool" where
  "less_autonomy_level a b \<longleftrightarrow> level_discriminant a < level_discriminant b"

instance
  by standard (auto simp: less_eq_autonomy_level_def less_autonomy_level_def)

end

definition levels :: "autonomy_level list" where
  "levels = [L0Frozen, L1Assisted, L2SemiAutonomous, L3Conditional, L4FullAutonomy]"

lemma levels_sorted: "sorted levels" and set_levels: "set levels = UNIV"
proof -
  show "sorted levels" by (simp add: levels_def less_eq_autonomy_level_def)
  have "x \<in> set levels" for x by (cases x) (simp_all add: levels_def)
  then show "set levels = UNIV" by blast
qed

fun level_display :: "autonomy_level \<Rightarrow> string" where
  "level_display L0Frozen = ''L0-Frozen''"
| "level_display L1Assisted = ''L1-Assisted''"
| "level_display L2SemiAutonomous = ''L2-SemiAutonomous''"
| "level_display L3Conditional = ''L3-Conditional''"
| "level_display L4FullAutonomy = ''L4-FullAutonomy''"

definition is_operational :: "autonomy_level \<Rightarrow> bool" where
  "is_operational l \<longleftrightarrow> l \<ge> L2SemiAutonomous"

datatype strategy =
    Allow bool
  | Throttle u32
  | RequireConfirmation
  | Block string

fun strategy_display :: "strategy \<Rightarrow> string" where
  "strategy_display (Allow auto) = ''Allow(auto_approve='' @ (if auto then ''true'' else ''false'') @ '')''"
| "strategy_display (Throttle n) = ''Throttle(max='' @ decimal (unat n) @ ''/min)''"
| "strategy_display RequireConfirmation = ''RequireConfirmation''"
| "strategy_display (Block reason) = ''Block('' @ reason @ '')''"

subsection \<open>Scores and verdicts\<close>

record sub_scores =
  ss_delegator_weight :: f64
  ss_trust_penalty :: f64
  ss_sensitivity :: f64
  ss_domain_mismatch :: f64
  ss_anomaly :: f64

record risk_score =
  rk_value :: f64
  rk_sub_scores :: sub_scores

datatype action_outcome =
    Success
  | Failure string
  | PolicyViolation string
  | Anomalous f64

record authorization_verdict =
  av_allowed :: bool
  av_autonomy_level :: autonomy_level
  av_risk_score :: f64
  av_sub_scores :: sub_scores
  av_evidence :: "string list"
  av_mitigation :: "strategy option"
  av_timestamp :: instant

definition verdict_denied :: "instant \<Rightarrow> autonomy_level \<Rightarrow> f64 \<Rightarrow> sub_scores \<Rightarrow> string \<Rightarrow> authorization_verdict" where
  "verdict_denied now level risk sub reason =
     \<lparr>av_allowed = False, av_autonomy_level = level, av_risk_score = risk, av_sub_scores = sub,
      av_evidence = [reason], av_mitigation = Some (Block reason), av_timestamp = now\<rparr>"

subsection \<open>The policy\<close>

record dimension_weights =
  dw_delegator :: f64
  dw_trust :: f64
  dw_sensitivity :: f64
  dw_domain :: f64
  dw_anomaly :: f64

record dynamic_policy =
  dp_weights :: dimension_weights
  dp_thresholds :: "autonomy_level \<Rightarrow> (f64 \<times> f64) option"
  dp_strategies :: "autonomy_level \<Rightarrow> strategy option"

definition weight_list :: "dimension_weights \<Rightarrow> f64 list" where
  "weight_list w = [dw_delegator w, dw_trust w, dw_sensitivity w, dw_domain w, dw_anomaly w]"

fun first_band :: "(autonomy_level \<Rightarrow> (f64 \<times> f64) option) \<Rightarrow> f64 \<Rightarrow> autonomy_level list \<Rightarrow> autonomy_level" where
  "first_band bands risk [] = L0Frozen"
| "first_band bands risk (l # ls) =
     (case bands l of
        Some (lo, hi) \<Rightarrow> if f64_le lo risk \<and> f64_lt risk hi then l else first_band bands risk ls
      | None \<Rightarrow> first_band bands risk ls)"

definition map_to_level :: "dynamic_policy \<Rightarrow> f64 \<Rightarrow> autonomy_level" where
  "map_to_level p risk = first_band (dp_thresholds p) risk (rev levels)"

definition strategy_for :: "dynamic_policy \<Rightarrow> autonomy_level \<Rightarrow> strategy" where
  "strategy_for p level =
     (case dp_strategies p level of Some s \<Rightarrow> s | None \<Rightarrow> Block ''no-strategy-defined'')"

datatype policy_error =
    WeightSum f64
  | WeightRange f64
  | EmptyBand autonomy_level
  | BandRange autonomy_level
  | NoStrategy autonomy_level

fun check_weights :: "f64 list \<Rightarrow> policy_error + unit" where
  "check_weights [] = Inr ()"
| "check_weights (w # ws) = (if \<not> (f64_le (lit 0) w \<and> f64_le w (lit 1)) then Inl (WeightRange w) else check_weights ws)"

fun check_bands :: "dynamic_policy \<Rightarrow> autonomy_level list \<Rightarrow> policy_error + unit" where
  "check_bands p [] = Inr ()"
| "check_bands p (l # ls) =
     (case dp_thresholds p l of
        None \<Rightarrow> check_bands p ls
      | Some (lo, hi) \<Rightarrow>
          if f64_le hi lo then Inl (EmptyBand l)
          else if f64_lt lo (lit 0) \<or> f64_lt (lit (11 / 10)) hi then Inl (BandRange l)
          else if dp_strategies p l = None then Inl (NoStrategy l)
          else check_bands p ls)"

definition policy_validate :: "dynamic_policy \<Rightarrow> policy_error + unit" where
  "policy_validate p =
     (let w = foldl f64_add (lit 0) (weight_list (dp_weights p))
      in if f64_lt (lit (5 / 100)) (f64_abs (f64_sub w (lit 1))) then Inl (WeightSum w)
         else and_then (check_weights (weight_list (dp_weights p))) (\<lambda>_. check_bands p levels))"

fun default_band :: "autonomy_level \<Rightarrow> f64 \<times> f64" where
  "default_band L4FullAutonomy = (lit 0, lit (15 / 100))"
| "default_band L3Conditional = (lit (15 / 100), lit (35 / 100))"
| "default_band L2SemiAutonomous = (lit (35 / 100), lit (60 / 100))"
| "default_band L1Assisted = (lit (60 / 100), lit (80 / 100))"
| "default_band L0Frozen = (lit (80 / 100), lit (101 / 100))"

fun default_strategy :: "autonomy_level \<Rightarrow> strategy" where
  "default_strategy L4FullAutonomy = Allow True"
| "default_strategy L3Conditional = Throttle 30"
| "default_strategy L2SemiAutonomous = RequireConfirmation"
| "default_strategy L1Assisted = RequireConfirmation"
| "default_strategy L0Frozen = Block []"

definition default_dynamic_policy :: dynamic_policy where
  "default_dynamic_policy =
     \<lparr>dp_weights = \<lparr>dw_delegator = lit (10 / 100), dw_trust = lit (30 / 100), dw_sensitivity = lit (25 / 100),
                    dw_domain = lit (25 / 100), dw_anomaly = lit (10 / 100)\<rparr>,
      dp_thresholds = (\<lambda>l. Some (default_band l)), dp_strategies = (\<lambda>l. Some (default_strategy l))\<rparr>"

subsection \<open>Risks and levels\<close>

lemma first_band_in: "first_band bands risk ls = l \<Longrightarrow> l \<noteq> L0Frozen \<Longrightarrow>
    \<exists>lo hi. bands l = Some (lo, hi) \<and> f64_le lo risk \<and> f64_lt risk hi"
  by (induction ls) (auto split: option.splits if_splits)

lemma map_to_level_NaN [simp]: "map_to_level p NaN = L0Frozen"
proof -
  have "first_band bands NaN ls = L0Frozen" for bands ls
    by (induction ls) (auto split: option.splits)
  then show ?thesis by (simp add: map_to_level_def)
qed

text \<open>The literals of the bands are in order.\<close>

lemma lit_less: "q + 1 / 1000 \<le> r \<Longrightarrow> 0 \<le> q \<Longrightarrow> r \<le> 2 \<Longrightarrow> f64_lt (lit q) (lit r)"
  by (rule approx_less [OF approx_lit approx_lit]) (simp_all add: eps_def)

lemma f64_not_le: "a \<noteq> NaN \<Longrightarrow> b \<noteq> NaN \<Longrightarrow> \<not> f64_le a b \<longleftrightarrow> f64_lt b a"
  by (cases a; cases b) (auto simp: f64_lt_def)

lemma f64_less_le_trans: "f64_lt a b \<Longrightarrow> f64_le b c \<Longrightarrow> f64_lt a c"
  by (meson f64_le_trans f64_lt_def)

lemma f64_le_less_trans: "f64_le a b \<Longrightarrow> f64_lt b c \<Longrightarrow> f64_lt a c"
  by (meson f64_le_trans f64_lt_def)


lemma lit_neq_NaN [simp]: "lit q \<noteq> NaN"
  by simp

lemma default_bands:
  "dp_thresholds default_dynamic_policy = (\<lambda>l. Some (default_band l))"
  by (simp add: default_dynamic_policy_def)

lemma default_level:
  assumes "unit_f64 v"
  shows "map_to_level default_dynamic_policy v =
    (if f64_lt v (lit (15 / 100)) then L4FullAutonomy
     else if f64_lt v (lit (35 / 100)) then L3Conditional
     else if f64_lt v (lit (60 / 100)) then L2SemiAutonomous
     else if f64_lt v (lit (80 / 100)) then L1Assisted
     else L0Frozen)"
proof -
  have v: "v \<noteq> NaN" "f64_le (Fin 0) v" using assms by (auto elim: f64_inE)
  have not: "\<not> f64_lt v (lit q) \<longleftrightarrow> f64_le (lit q) v" for q
    using f64_not_le [of "lit q" v] v(1) by auto
  show ?thesis
    using v not by (auto simp: map_to_level_def default_bands levels_def)
qed

text \<open>The built-in policy is valid: every risk from 0 to 1 has a band, and every band a strategy.\<close>

lemma default_policy_valid: "policy_validate default_dynamic_policy = Inr ()"
proof -
  let ?w = "\<lparr>dw_delegator = lit (10 / 100), dw_trust = lit (30 / 100), dw_sensitivity = lit (25 / 100),
      dw_domain = lit (25 / 100), dw_anomaly = lit (10 / 100)\<rparr>"
  have e: "0 \<le> eps" "eps \<le> 1 / 1000" by (simp_all add: eps_def)
  have "approx (foldl f64_add (lit 0) (weight_list ?w))
      (0 + 10 / 100 + 30 / 100 + 25 / 100 + 25 / 100 + 10 / 100)
      (0 + eps + eps + eps + eps + eps + eps + eps + eps + eps + eps)"
    unfolding weight_list_def dimension_weights.simps foldl.simps rnd_0
    by (intro approx_add approx_lit approx_Fin) (use e in simp_all)
  then have "approx (foldl f64_add (lit 0) (weight_list ?w)) 1 (10 * eps)" by simp
  then obtain s where s: "foldl f64_add (lit 0) (weight_list ?w) = Fin s" "\<bar>s - 1\<bar> \<le> 10 * eps"
    unfolding approx_def by blast
  have "approx (f64_sub (Fin s) (lit 1)) 0 (10 * eps + eps)"
    unfolding rnd_1 f64_simps by (rule approx_rnd) (use s e in \<open>simp_all add: eps_def\<close>)
  then obtain t where t: "f64_sub (Fin s) (lit 1) = Fin t" "\<bar>t\<bar> \<le> 11 * eps"
    unfolding approx_def by auto
  have "approx (Fin \<bar>t\<bar>) 0 (11 * eps)" using t(2) by (simp add: approx_def)
  from approx_less [OF this approx_lit [of "5 / 100"]] have "f64_lt (Fin \<bar>t\<bar>) (lit (5 / 100))"
    by (simp add: eps_def)
  then have sum: "\<not> f64_lt (lit (5 / 100)) (f64_abs (f64_sub (Fin s) (lit 1)))"
    unfolding t(1) by (simp add: f64_lt_def)
  have unit: "f64_le (Fin 0) (lit q) \<and> f64_le (lit q) (Fin 1)" if "0 \<le> q" "q \<le> 1" for q
    using unit_rnd [OF that] by (auto elim: f64_inE)
  have band: "f64_lt (lit q) (lit r)" "\<not> f64_le (lit r) (lit q)" "\<not> f64_lt (lit r) (lit q)"
    if "q + 1 / 1000 \<le> r" "0 \<le> q" "r \<le> 2" for q r
    using lit_less [OF that] by (auto simp: f64_lt_def)
  have lo: "\<not> f64_lt (lit q) (Fin 0)" if "0 \<le> q" for q
    using rnd_mono [OF that] by (auto simp: f64_lt_def)
  have ws: "check_weights (weight_list ?w) = Inr ()"
    by (simp add: weight_list_def unit)
  have bs: "check_bands default_dynamic_policy levels = Inr ()"
    using band [of 0 "15 / 100"] lo
    by (simp add: levels_def default_dynamic_policy_def band f64_lt_def)
  show ?thesis
    using sum ws bs s(1) by (simp add: policy_validate_def default_dynamic_policy_def Let_def)
qed


lemma default_level_antitone:
  assumes "unit_f64 v" "unit_f64 v'" "f64_le v v'"
  shows "map_to_level default_dynamic_policy v' \<le> map_to_level default_dynamic_policy v"
proof -
  have up: "f64_lt v b" if "f64_lt v' b" for b
    using f64_le_less_trans [OF assms(3) that] .
  show ?thesis
    unfolding default_level [OF assms(1)] default_level [OF assms(2)]
    using up by (auto simp: less_eq_autonomy_level_def)
qed

text \<open>
  The built-in policy is valid and its bands are complete. Every risk from 0 to 1 falls into
  exactly the documented band, as 64-bit numbers compare; a NaN falls into none and is frozen;
  and a higher risk never gives a higher level.
\<close>

theorem default_policy_exact:
  assumes "unit_f64 v" "unit_f64 v'"
  shows "policy_validate default_dynamic_policy = Inr () \<and>
    map_to_level default_dynamic_policy v =
      (if f64_lt v (lit (15 / 100)) then L4FullAutonomy
       else if f64_lt v (lit (35 / 100)) then L3Conditional
       else if f64_lt v (lit (60 / 100)) then L2SemiAutonomous
       else if f64_lt v (lit (80 / 100)) then L1Assisted
       else L0Frozen) \<and>
    map_to_level default_dynamic_policy NaN = L0Frozen \<and>
    (f64_le v v' \<longrightarrow> map_to_level default_dynamic_policy v' \<le> map_to_level default_dynamic_policy v)"
  using default_policy_valid default_level [OF assms(1)] map_to_level_NaN default_level_antitone [OF assms]
  by blast

theorem default_policy_exact_witness:
  "policy_validate default_dynamic_policy = Inr () \<and>
   map_to_level default_dynamic_policy (lit 1) \<le> map_to_level default_dynamic_policy (lit 0)"
proof -
  have "unit_f64 (lit 0)" "unit_f64 (lit 1)" by simp_all
  from default_policy_exact [OF this] have "policy_validate default_dynamic_policy = Inr ()"
    "f64_le (lit 0) (lit 1) \<longrightarrow> map_to_level default_dynamic_policy (lit 1) \<le> map_to_level default_dynamic_policy (lit 0)"
    by blast+
  then show ?thesis using rnd_mono [OF zero_le_one] by blast
qed

text \<open>A band whose bounds are NaN passes the validation; it matches no risk.\<close>

lemma nan_band_is_valid:
  "policy_validate (default_dynamic_policy\<lparr>dp_thresholds := (\<lambda>l. Some (NaN, NaN))\<rparr>) = Inr ()"
proof -
  have "check_bands (default_dynamic_policy\<lparr>dp_thresholds := (\<lambda>l. Some (NaN, NaN))\<rparr>) levels = Inr ()"
    by (simp add: levels_def default_dynamic_policy_def)
  then show ?thesis
    using default_policy_valid by (auto simp: policy_validate_def Let_def and_then_eq_Inr split: if_splits)
qed

end
