(* ===== verification/Dynamic_Arbiter.thy ===== *)
theory Dynamic_Arbiter
  imports Dynamic_Trust Dynamic_Anomaly Dynamic_Policy Audit_Trail
begin

text \<open>
  The arbiter of \<^verbatim>\<open>src/rbac/dynamic/arbiter.rs\<close>, over any trust store. A clone of an arbiter
  is a handle to the same state, so its methods are operations on one state; a method takes its
  locks one after the other, and the state that another call can change in between is the
  business of the history of calls. The clock, the three-digit printing of scores
  (\<open>fmt3\<close>) and the stepping back of dates by the audit logger (\<open>sub_secs\<close>) are arguments.
\<close>

subsection \<open>Definitions\<close>

definition MAX_ANOMALY_DETECTORS :: nat where
  "MAX_ANOMALY_DETECTORS = 10000"

definition DEFAULT_ANOMALY_SCORE_WHEN_AT_CAPACITY :: f64 where
  "DEFAULT_ANOMALY_SCORE_WHEN_AT_CAPACITY = lit (15 / 100)"

definition LOCKDOWN_EVIDENCE_COUNT :: u64 where
  "LOCKDOWN_EVIDENCE_COUNT = 999"

record 's arbiter =
  ab_trust_store :: 's
  ab_detectors :: "(string, anomaly_detector) hash_map"
  ab_max_detectors :: nat
  ab_domain_scope :: "domain_scope option"
  ab_policy :: dynamic_policy
  ab_frozen :: "string set"
  ab_audit :: "f64 audit_logger option"

definition arbiter_new :: "'s \<Rightarrow> dynamic_policy \<Rightarrow> 's arbiter" where
  "arbiter_new store policy =
     \<lparr>ab_trust_store = store, ab_detectors = [], ab_max_detectors = MAX_ANOMALY_DETECTORS,
      ab_domain_scope = None, ab_policy = policy, ab_frozen = {}, ab_audit = None\<rparr>"

definition with_max_detectors :: "nat \<Rightarrow> 's arbiter \<Rightarrow> 's arbiter" where
  "with_max_detectors m ar = ar\<lparr>ab_max_detectors := m\<rparr>"

definition with_audit :: "f64 audit_logger \<Rightarrow> 's arbiter \<Rightarrow> 's arbiter" where
  "with_audit lg ar = ar\<lparr>ab_audit := Some lg\<rparr>"

definition with_domain_scope :: "domain_scope \<Rightarrow> 's arbiter \<Rightarrow> 's arbiter" where
  "with_domain_scope scope ar = ar\<lparr>ab_domain_scope := Some scope\<rparr>"

definition set_policy :: "dynamic_policy \<Rightarrow> 's arbiter \<Rightarrow> (policy_error + unit) \<times> 's arbiter" where
  "set_policy policy ar =
     (case policy_validate policy of
        Inl err \<Rightarrow> (Inl err, ar)
      | Inr _ \<Rightarrow> (Inr (), ar\<lparr>ab_policy := policy\<rparr>))"

definition set_domain_scope :: "domain_scope \<Rightarrow> 's arbiter \<Rightarrow> 's arbiter" where
  "set_domain_scope scope ar = ar\<lparr>ab_domain_scope := Some scope\<rparr>"

fun type_weight :: "delegator_type \<Rightarrow> f64" where
  "type_weight Human = lit 0"
| "type_weight Agent = lit (5 / 100)"
| "type_weight SubAgent = lit (15 / 100)"
| "type_weight ExternalSystem = lit (30 / 100)"
| "type_weight Scheduler = lit (2 / 100)"

definition scored_trust :: "'s trust_store_ops \<Rightarrow> instant \<Rightarrow> string \<Rightarrow> 's \<Rightarrow> trust_score" where
  "scored_trust ops now i store =
     (case tso_get ops store i of
        Inr (Some score) \<Rightarrow> score
      | Inr None \<Rightarrow> trust_default now
      | Inl _ \<Rightarrow> (trust_default now)\<lparr>ts_value := lit 0, ts_confidence := lit 1\<rparr>)"

text \<open>The domain dimension and the trust penalty raised by the floor of the domain.\<close>

definition domain_dimension :: "domain_scope option \<Rightarrow> action_request \<Rightarrow> f64" where
  "domain_dimension scope rq =
     (case scope of
        Some sc \<Rightarrow> excess_weight (domain_evaluate sc (rq_category rq) (rq_resource_path rq))
      | None \<Rightarrow> lit 0)"

definition penalty_of :: "domain_scope option \<Rightarrow> trust_score \<Rightarrow> f64" where
  "penalty_of scope trust =
     (let base = f64_clamp (f64_sub (lit 1) (weighted trust)) (lit 0) (lit 1)
      in case scope of
           None \<Rightarrow> base
         | Some sc \<Rightarrow>
             let floor = td_trust_floor (sc_current sc)
             in if f64_lt (lit 0) floor \<and> f64_lt (weighted trust) floor
                then f64_min (f64_add base (f64_clamp (f64_sub floor (weighted trust)) (lit 0) (lit 1))) (lit 1)
                else base)"

text \<open>Observing a request in the delegator's detector, unless there are too many.\<close>

definition observe_delegator :: "action_request \<Rightarrow> 's arbiter \<Rightarrow> f64 \<times> 's arbiter" where
  "observe_delegator rq ar =
     (let i = dg_id (rq_delegator rq)
      in if length (ab_detectors ar) \<ge> ab_max_detectors ar \<and> map_of (ab_detectors ar) i = None
         then (DEFAULT_ANOMALY_SCORE_WHEN_AT_CAPACITY, ar)
         else
           case observe rq (case map_of (ab_detectors ar) i of Some d \<Rightarrow> d | None \<Rightarrow> detector_default) of
             (score, d') \<Rightarrow> (an_value score, ar\<lparr>ab_detectors := AList.update i d' (ab_detectors ar)\<rparr>))"

definition raw_risk :: "dimension_weights \<Rightarrow> sub_scores \<Rightarrow> f64" where
  "raw_risk w s =
     f64_add (f64_add (f64_add (f64_add
       (f64_mul (ss_delegator_weight s) (dw_delegator w))
       (f64_mul (ss_trust_penalty s) (dw_trust w)))
       (f64_mul (ss_sensitivity s) (dw_sensitivity w)))
       (f64_mul (ss_domain_mismatch s) (dw_domain w)))
       (f64_mul (ss_anomaly s) (dw_anomaly w))"

definition risk_of :: "'s trust_store_ops \<Rightarrow> instant \<Rightarrow> action_request \<Rightarrow> 's arbiter \<Rightarrow> risk_score \<times> 's arbiter" where
  "risk_of ops now rq ar =
     (let trust = scored_trust ops now (dg_id (rq_delegator rq)) (ab_trust_store ar)
      in case observe_delegator rq ar of
           (anom, ar') \<Rightarrow>
             let sub = \<lparr>ss_delegator_weight = type_weight (dg_type (rq_delegator rq)),
                        ss_trust_penalty = penalty_of (ab_domain_scope ar) trust,
                        ss_sensitivity = base_weight (rq_category rq),
                        ss_domain_mismatch = domain_dimension (ab_domain_scope ar) rq,
                        ss_anomaly = anom\<rparr>
             in (\<lparr>rk_value = f64_clamp (raw_risk (dp_weights (ab_policy ar)) sub) (lit 0) (lit 1),
                 rk_sub_scores = sub\<rparr>, ar'))"

fun type_debug :: "delegator_type \<Rightarrow> string" where
  "type_debug Human = ''Human''"
| "type_debug Agent = ''Agent''"
| "type_debug SubAgent = ''SubAgent''"
| "type_debug ExternalSystem = ''ExternalSystem''"
| "type_debug Scheduler = ''Scheduler''"

text \<open>The operations of the audit trail on scores, for 64-bit floats.\<close>

definition f64_score_ops :: "f64 score_ops" where
  "f64_score_ops =
     \<lparr>f_ge = (\<lambda>a b. f64_le b a), f_le = f64_le, f_lt = f64_lt, f_one_minus = (\<lambda>a. f64_sub (lit 1) a),
      f_zero = lit 0, f_high = lit (6 / 10)\<rparr>"

definition entry_of :: "(f64 \<Rightarrow> string) \<Rightarrow> authorization_verdict \<Rightarrow> action_request \<Rightarrow> f64 audit_entry" where
  "entry_of fmt3 v rq =
     \<lparr>ae_id = 0, ae_subject_id = dg_id (rq_delegator rq), ae_subject_type = type_debug (dg_type (rq_delegator rq)),
      ae_permission = rq_action rq,
      ae_endpoint = ''dynamic:'' @ level_display (av_autonomy_level v) @ '':risk='' @ fmt3 (av_risk_score v),
      ae_granted = av_allowed v, ae_created_at = av_timestamp v,
      ae_verdict = Some
        \<lparr>autonomy_level = level_display (av_autonomy_level v), risk_score = av_risk_score v,
         sub_scores =
           \<lparr>delegator_weight = ss_delegator_weight (av_sub_scores v), trust_penalty = ss_trust_penalty (av_sub_scores v),
            sensitivity = ss_sensitivity (av_sub_scores v), domain_mismatch = ss_domain_mismatch (av_sub_scores v),
            anomaly = ss_anomaly (av_sub_scores v)\<rparr>,
         evidence = av_evidence v, mitigation = map_option strategy_display (av_mitigation v)\<rparr>\<rparr>"

text \<open>Logging a verdict; whether it returned (the alert rules may panic on a date).\<close>

definition log_verdict ::
  "(f64 \<Rightarrow> string) \<Rightarrow> (instant \<Rightarrow> int \<Rightarrow> instant option) \<Rightarrow> instant \<Rightarrow> authorization_verdict \<Rightarrow>
     action_request \<Rightarrow> 's arbiter \<Rightarrow> bool \<times> 's arbiter" where
  "log_verdict fmt3 sub_secs now v rq ar =
     (case ab_audit ar of
        None \<Rightarrow> (True, ar)
      | Some lg \<Rightarrow>
          (case logger_log f64_score_ops sub_secs now (entry_of fmt3 v rq) lg of
             (alerts, lg') \<Rightarrow> (alerts \<noteq> None, ar\<lparr>ab_audit := Some lg'\<rparr>)))"

definition frozen_verdict :: "instant \<Rightarrow> string \<Rightarrow> authorization_verdict" where
  "frozen_verdict now i =
     \<lparr>av_allowed = False, av_autonomy_level = L0Frozen, av_risk_score = lit 1,
      av_sub_scores = \<lparr>ss_delegator_weight = lit 0, ss_trust_penalty = lit 1, ss_sensitivity = lit 0,
                       ss_domain_mismatch = lit 0, ss_anomaly = lit 0\<rparr>,
      av_evidence = [''delegator '' @ [CHR 0x27] @ i @ [CHR 0x27] @ '' is frozen (lockdown active)''],
      av_mitigation = Some (Block ''lockdown''), av_timestamp = now\<rparr>"

definition evidence_lines :: "(f64 \<Rightarrow> string) \<Rightarrow> risk_score \<Rightarrow> autonomy_level \<Rightarrow> delegator_type \<Rightarrow> string list" where
  "evidence_lines fmt3 risk level ty =
     [''risk='' @ fmt3 (rk_value risk) @ '' level='' @ level_display level @ '' delegator_type='' @ type_debug ty,
      ''sub: delegator_w='' @ fmt3 (ss_delegator_weight (rk_sub_scores risk)) @
      '' trust_p='' @ fmt3 (ss_trust_penalty (rk_sub_scores risk)) @
      '' sens='' @ fmt3 (ss_sensitivity (rk_sub_scores risk)) @
      '' domain='' @ fmt3 (ss_domain_mismatch (rk_sub_scores risk)) @
      '' anomaly='' @ fmt3 (ss_anomaly (rk_sub_scores risk))]"

fun is_throttle :: "strategy \<Rightarrow> bool" where
  "is_throttle (Throttle n) = True"
| "is_throttle s = False"

definition scored_verdict ::
  "(f64 \<Rightarrow> string) \<Rightarrow> instant \<Rightarrow> dynamic_policy \<Rightarrow> risk_score \<Rightarrow> action_request \<Rightarrow> authorization_verdict" where
  "scored_verdict fmt3 now policy risk rq =
     (let level = map_to_level policy (rk_value risk);
          strat = strategy_for policy level;
          allowed = (level = L4FullAutonomy \<or> level = L3Conditional)
      in \<lparr>av_allowed = allowed, av_autonomy_level = level, av_risk_score = rk_value risk,
          av_sub_scores = rk_sub_scores risk,
          av_evidence = evidence_lines fmt3 risk level (dg_type (rq_delegator rq)),
          av_mitigation = (if allowed then if is_throttle strat then Some strat else None else Some strat),
          av_timestamp = now\<rparr>)"

text \<open>The verdict, \<open>None\<close> when the audit logger panicked.\<close>

definition authorize ::
  "'s trust_store_ops \<Rightarrow> (f64 \<Rightarrow> string) \<Rightarrow> (instant \<Rightarrow> int \<Rightarrow> instant option) \<Rightarrow> instant \<Rightarrow> action_request \<Rightarrow>
     's arbiter \<Rightarrow> authorization_verdict option \<times> 's arbiter" where
  "authorize ops fmt3 sub_secs now rq ar =
     (if dg_id (rq_delegator rq) \<in> ab_frozen ar
      then
        let v = frozen_verdict now (dg_id (rq_delegator rq))
        in case log_verdict fmt3 sub_secs now v rq ar of (ok, ar') \<Rightarrow> (if ok then Some v else None, ar')
      else
        case risk_of ops now rq ar of
          (risk, ar1) \<Rightarrow>
            let v = scored_verdict fmt3 now (ab_policy ar1) risk rq
            in case log_verdict fmt3 sub_secs now v rq ar1 of (ok, ar') \<Rightarrow> (if ok then Some v else None, ar'))"

definition outcome_update :: "instant \<Rightarrow> action_outcome \<Rightarrow> trust_score \<Rightarrow> trust_score" where
  "outcome_update now outcome trust =
     (case outcome of
        Success \<Rightarrow> on_compliant_behavior now (lit (1 / 2)) trust
      | Failure _ \<Rightarrow> on_policy_violation now (lit (2 / 10)) trust
      | PolicyViolation _ \<Rightarrow> on_policy_violation now (lit (8 / 10)) trust
      | Anomalous deviation \<Rightarrow> on_policy_violation now deviation trust)"

definition feedback ::
  "'s trust_store_ops \<Rightarrow> instant \<Rightarrow> action_request \<Rightarrow> action_outcome \<Rightarrow> 's arbiter \<Rightarrow> 's arbiter" where
  "feedback ops now rq outcome ar =
     (let i = dg_id (rq_delegator rq);
          trust = (case tso_get ops (ab_trust_store ar) i of Inr (Some t) \<Rightarrow> t | _ \<Rightarrow> trust_default now)
      in ar\<lparr>ab_trust_store := snd (tso_set ops i (outcome_update now outcome trust) (ab_trust_store ar))\<rparr>)"

definition lockdown :: "'s trust_store_ops \<Rightarrow> instant \<Rightarrow> string \<Rightarrow> 's arbiter \<Rightarrow> 's arbiter" where
  "lockdown ops now i ar =
     (let trust = (trust_new now (lit 0))\<lparr>ts_confidence := lit 1, ts_evidence_count := LOCKDOWN_EVIDENCE_COUNT\<rparr>
      in ar\<lparr>ab_frozen := insert i (ab_frozen ar),
            ab_trust_store := snd (tso_set ops i trust (ab_trust_store ar))\<rparr>)"

fun target_trust :: "autonomy_level \<Rightarrow> f64" where
  "target_trust L4FullAutonomy = lit (95 / 100)"
| "target_trust L3Conditional = lit (8 / 10)"
| "target_trust L2SemiAutonomous = lit (6 / 10)"
| "target_trust L1Assisted = lit (4 / 10)"
| "target_trust L0Frozen = lit (1 / 10)"

definition restore :: "'s trust_store_ops \<Rightarrow> instant \<Rightarrow> string \<Rightarrow> autonomy_level \<Rightarrow> 's arbiter \<Rightarrow> 's arbiter" where
  "restore ops now i target ar =
     (let trust = (trust_new now (target_trust target))\<lparr>ts_confidence := lit (8 / 10), ts_evidence_count := 10\<rparr>
      in ar\<lparr>ab_frozen := ab_frozen ar - {i},
            ab_trust_store := snd (tso_set ops i trust (ab_trust_store ar)),
            ab_detectors := AList.delete i (ab_detectors ar)\<rparr>)"

record status_report =
  sr_enabled :: bool
  sr_delegator_id :: string
  sr_frozen :: bool
  sr_trust_store_ok :: bool
  sr_trust_score :: f64
  sr_trust_confidence :: f64
  sr_trust_evidence_count :: u64
  sr_anomaly_baseline_ready :: bool

definition status_summary :: "'s trust_store_ops \<Rightarrow> instant \<Rightarrow> string \<Rightarrow> 's arbiter \<Rightarrow> status_report" where
  "status_summary ops now i ar =
     (case (case tso_get ops (ab_trust_store ar) i of
              Inr (Some score) \<Rightarrow> (score, True)
            | Inr None \<Rightarrow> (trust_default now, True)
            | Inl _ \<Rightarrow> (trust_default now, False)) of
        (trust, store_ok) \<Rightarrow>
          \<lparr>sr_enabled = True, sr_delegator_id = i, sr_frozen = (i \<in> ab_frozen ar), sr_trust_store_ok = store_ok,
           sr_trust_score = weighted trust, sr_trust_confidence = ts_confidence trust,
           sr_trust_evidence_count = ts_evidence_count trust,
           sr_anomaly_baseline_ready =
             (case map_of (ab_detectors ar) i of Some d \<Rightarrow> is_baseline_ready d | None \<Rightarrow> False)\<rparr>)"


subsection \<open>Sub-scores and risk\<close>

lemma f64_in_add:
  assumes "f64_in 0 a x" "f64_in 0 b y" "representable (a + b)" "a + b \<le> 2 ^ 53"
  shows "f64_in 0 (a + b) (f64_add x y)"
proof -
  obtain p q where pq: "x = Fin p" "0 \<le> p" "p \<le> a" "y = Fin q" "0 \<le> q" "q \<le> b"
    using assms(1,2) by (auto elim!: f64_inE)
  then have "\<bar>a + b\<bar> \<le> 2 ^ 53" using assms(4) by simp
  from two_53_less [OF this] have "f64_in 0 (a + b) (rnd (p + q))"
    using pq assms(3) by (intro f64_in_rnd) simp_all
  with pq show ?thesis by simp
qed

lemma f64_min_one_mono: "f64_le x y \<Longrightarrow> f64_le (f64_min x (Fin 1)) (f64_min y (Fin 1))"
  by (cases x; cases y) (auto simp: f64_min_def)

definition policy_ok :: "dynamic_policy \<Rightarrow> bool" where
  "policy_ok p \<longleftrightarrow> list_all unit_f64 (weight_list (dp_weights p))"

definition scope_ok :: "domain_scope option \<Rightarrow> bool" where
  "scope_ok scope \<longleftrightarrow> (case scope of None \<Rightarrow> True | Some sc \<Rightarrow> unit_f64 (td_trust_floor (sc_current sc)))"

lemma valid_policy_ok:
  assumes "policy_validate p = Inr ()" "list_all f64_ok (weight_list (dp_weights p))"
  shows "policy_ok p"
proof -
  have "check_weights ws = Inr () \<Longrightarrow> list_all f64_ok ws \<Longrightarrow> list_all unit_f64 ws" for ws
    by (induction ws) (auto split: if_splits elim!: f64_ok.elims)
  with assms show ?thesis
    by (auto simp: policy_ok_def policy_validate_def Let_def and_then_eq_Inr split: if_splits)
qed

lemma default_policy_ok: "policy_ok default_dynamic_policy"
  by (rule valid_policy_ok [OF default_policy_valid]) (simp add: weight_list_def default_dynamic_policy_def)

lemma type_weight_unit: "unit_f64 (type_weight ty)"
  by (cases ty) (simp_all add: unit_rnd)

lemma domain_dimension_unit: "unit_f64 (domain_dimension scope rq)"
  by (simp add: domain_dimension_def excess_weight_unit split: option.split)

lemma base_penalty:
  assumes "unit_f64 w"
  shows "unit_f64 (f64_clamp (f64_sub (lit 1) w) (lit 0) (lit 1))"
proof (rule unit_clamp)
  have u: "unit_f64 (f64_sub (lit 1) w)" by (rule unit_one_minus [OF assms])
  then show "f64_ok (f64_sub (lit 1) w)" by (rule unit_ok)
  from u show "f64_sub (lit 1) w \<noteq> NaN" by (auto elim: f64_inE)
qed

lemma floor_penalty:
  assumes "unit_f64 w" "unit_f64 fl"
  shows "unit_f64 (f64_clamp (f64_sub fl w) (lit 0) (lit 1))"
proof (rule unit_clamp)
  show "f64_ok (f64_sub fl w)" by (simp add: assms unit_ok)
  show "f64_sub fl w \<noteq> NaN" using assms by (auto elim!: f64_inE simp: f64_simps)
qed

lemma penalty_of_unit:
  assumes "scope_ok scope" "unit_f64 (weighted trust)"
  shows "unit_f64 (penalty_of scope trust)"
  using assms add_cap(1) [OF base_penalty [OF assms(2)] floor_penalty [OF assms(2)]] base_penalty [OF assms(2)]
  by (auto simp: penalty_of_def scope_ok_def Let_def split: option.splits)

lemma penalty_of_antimono:
  assumes scope: "scope_ok scope"
    and w: "unit_f64 (weighted t)" "unit_f64 (weighted u)" "f64_le (weighted t) (weighted u)"
  shows "f64_le (penalty_of scope u) (penalty_of scope t)"
proof -
  let ?base = "\<lambda>t. f64_clamp (f64_sub (lit 1) (weighted t)) (lit 0) (lit 1)"
  have sub: "f64_le (f64_sub c (weighted u)) (f64_sub c (weighted t))" if "unit_f64 c" for c
    using f64_one_minus_antimono [OF w(3,1,2), of c] that by (auto simp: f64_in_def)
  have base: "f64_le (?base u) (?base t)"
    by (intro f64_clamp_mono sub) simp
  show ?thesis
  proof (cases scope)
    case None
    with base show ?thesis by (simp add: penalty_of_def)
  next
    case (Some sc)
    define fl where "fl = td_trust_floor (sc_current sc)"
    let ?extra = "\<lambda>t. f64_clamp (f64_sub fl (weighted t)) (lit 0) (lit 1)"
    have fl: "unit_f64 fl" using scope Some by (simp add: scope_ok_def fl_def)
    have extra: "f64_le (?extra u) (?extra t)" by (intro f64_clamp_mono sub fl)
    have both: "f64_le (f64_min (f64_add (?base u) (?extra u)) (Fin 1)) (f64_min (f64_add (?base t) (?extra t)) (Fin 1))"
      by (rule f64_min_one_mono, rule f64_add_mono [OF base extra base_penalty [OF w(2)] base_penalty [OF w(1)]
            floor_penalty [OF w(2) fl] floor_penalty [OF w(1) fl]])
    have one: "f64_le (?base u) (f64_min (f64_add (?base t) (?extra t)) (Fin 1))"
      by (rule f64_le_trans [OF base add_cap(2)]) (intro base_penalty floor_penalty w fl)+
    have "f64_lt (weighted u) fl \<Longrightarrow> f64_lt (weighted t) fl"
      using f64_le_less_trans [OF w(3)] .
    with both one base show ?thesis by (auto simp: penalty_of_def Some Let_def fl_def)
  qed
qed

lemma observe_delegator_unit: "unit_f64 (fst (observe_delegator rq ar))"
proof -
  have "unit_f64 (an_value (fst (observe rq d)))" for d by (rule observe_unit)
  then have "observe rq d = (sc, d') \<Longrightarrow> unit_f64 (an_value sc)" for d sc d'
    by (metis fst_conv)
  then show ?thesis
    by (simp add: observe_delegator_def Let_def DEFAULT_ANOMALY_SCORE_WHEN_AT_CAPACITY_def unit_rnd
        split: prod.splits)
qed

definition sub_scores_unit :: "sub_scores \<Rightarrow> bool" where
  "sub_scores_unit s \<longleftrightarrow> list_all unit_f64
     [ss_delegator_weight s, ss_trust_penalty s, ss_sensitivity s, ss_domain_mismatch s, ss_anomaly s]"

lemma raw_risk_bounds:
  assumes "list_all unit_f64 (weight_list w)" "sub_scores_unit s"
  shows "f64_in 0 5 (raw_risk w s)"
proof -
  have t: "unit_f64 (f64_mul (ss_delegator_weight s) (dw_delegator w))" "unit_f64 (f64_mul (ss_trust_penalty s) (dw_trust w))"
    "unit_f64 (f64_mul (ss_sensitivity s) (dw_sensitivity w))" "unit_f64 (f64_mul (ss_domain_mismatch s) (dw_domain w))"
    "unit_f64 (f64_mul (ss_anomaly s) (dw_anomaly w))"
    using assms by (simp_all add: sub_scores_unit_def weight_list_def unit_mul)
  have r: "representable 2" "representable 3" "representable 4" "representable 5"
    using representable_int [of 2] representable_int [of 3] representable_int [of 4] representable_int [of 5]
    by simp_all
  have "f64_in 0 (1 + 1 + 1 + 1 + 1) (raw_risk w s)"
    unfolding raw_risk_def by (intro f64_in_add t) (simp_all add: r)
  then show ?thesis by simp
qed


lemma raw_risk_mono:
  assumes "list_all unit_f64 (weight_list w)" "sub_scores_unit s" "unit_f64 p"
    and "f64_le (ss_trust_penalty s) p"
  shows "f64_le (raw_risk w s) (raw_risk w (s\<lparr>ss_trust_penalty := p\<rparr>))"
proof -
  have u: "unit_f64 (dw_delegator w)" "unit_f64 (dw_trust w)" "unit_f64 (dw_sensitivity w)" "unit_f64 (dw_domain w)"
    "unit_f64 (dw_anomaly w)" using assms(1) by (simp_all add: weight_list_def)
  have v: "unit_f64 (ss_delegator_weight s)" "unit_f64 (ss_trust_penalty s)" "unit_f64 (ss_sensitivity s)"
    "unit_f64 (ss_domain_mismatch s)" "unit_f64 (ss_anomaly s)"
    using assms(2) by (simp_all add: sub_scores_unit_def)
  have r: "representable 2" "representable 3" "representable 4"
    using representable_int [of 2] representable_int [of 3] representable_int [of 4] by simp_all
  let ?a = "f64_mul (ss_delegator_weight s) (dw_delegator w)"
  let ?b = "\<lambda>q. f64_mul q (dw_trust w)"
  let ?c = "f64_mul (ss_sensitivity s) (dw_sensitivity w)"
  let ?d = "f64_mul (ss_domain_mismatch s) (dw_domain w)"
  let ?e = "f64_mul (ss_anomaly s) (dw_anomaly w)"
  have t: "unit_f64 ?a" "\<And>q. unit_f64 q \<Longrightarrow> unit_f64 (?b q)" "unit_f64 ?c" "unit_f64 ?d" "unit_f64 ?e"
    using u v by (simp_all add: unit_mul)
  have nan: "x \<noteq> NaN" if "f64_in lo hi x" for lo hi x using that by (auto elim: f64_inE)
  have i2: "f64_in 0 2 (f64_add ?a (?b q))" if "unit_f64 q" for q
    using f64_in_add [OF t(1) t(2) [OF that]] r by simp
  have i3: "f64_in 0 3 (f64_add (f64_add ?a (?b q)) ?c)" if "unit_f64 q" for q
    using f64_in_add [OF i2 [OF that] t(3)] r by simp
  have i4: "f64_in 0 4 (f64_add (f64_add (f64_add ?a (?b q)) ?c) ?d)" if "unit_f64 q" for q
    using f64_in_add [OF i3 [OF that] t(4)] r by simp
  have b: "f64_le (?b (ss_trust_penalty s)) (?b p)" by (rule f64_mul_mono [OF assms(4) v(2) assms(3) u(2)])
  have "f64_le (f64_add ?a (?b (ss_trust_penalty s))) (f64_add ?a (?b p))"
    by (rule f64_add_mono [OF _ b t(1) t(1) t(2) [OF v(2)] t(2) [OF assms(3)]]) (simp add: nan [OF t(1)])
  from f64_add_mono [OF this _ i2 [OF v(2)] i2 [OF assms(3)] t(3) t(3)]
  have "f64_le (f64_add (f64_add ?a (?b (ss_trust_penalty s))) ?c) (f64_add (f64_add ?a (?b p)) ?c)"
    by (simp add: nan [OF t(3)])
  from f64_add_mono [OF this _ i3 [OF v(2)] i3 [OF assms(3)] t(4) t(4)]
  have "f64_le (f64_add (f64_add (f64_add ?a (?b (ss_trust_penalty s))) ?c) ?d)
      (f64_add (f64_add (f64_add ?a (?b p)) ?c) ?d)"
    by (simp add: nan [OF t(4)])
  from f64_add_mono [OF this _ i4 [OF v(2)] i4 [OF assms(3)] t(5) t(5)]
  show ?thesis by (simp add: raw_risk_def nan [OF t(5)])
qed

lemma weighted_default: "weighted (trust_default now) = Fin 0"
  by (simp add: weighted_def trust_default_def)

lemma weighted_failing: "weighted ((trust_default now)\<lparr>ts_value := lit 0, ts_confidence := lit 1\<rparr>) = Fin 0"
  by (simp add: weighted_def)

lemma risk_of_sub_scores:
  assumes "scope_ok (ab_domain_scope ar)"
    and "unit_f64 (weighted (scored_trust ops now (dg_id (rq_delegator rq)) (ab_trust_store ar)))"
  shows "sub_scores_unit (rk_sub_scores (fst (risk_of ops now rq ar)))"
  using observe_delegator_unit [of rq ar] penalty_of_unit [OF assms] domain_dimension_unit base_weight_unit type_weight_unit
  by (auto simp: risk_of_def Let_def sub_scores_unit_def split: prod.splits)

lemma risk_of_value:
  "rk_value (fst (risk_of ops now rq ar)) =
     f64_clamp (raw_risk (dp_weights (ab_policy ar)) (rk_sub_scores (fst (risk_of ops now rq ar)))) (lit 0) (lit 1)"
  by (simp add: risk_of_def Let_def split: prod.splits)

lemma risk_of_unit:
  assumes "policy_ok (ab_policy ar)" "scope_ok (ab_domain_scope ar)"
    and "unit_f64 (weighted (scored_trust ops now (dg_id (rq_delegator rq)) (ab_trust_store ar)))"
  shows "unit_f64 (rk_value (fst (risk_of ops now rq ar)))"
proof -
  have "f64_in 0 5 (raw_risk (dp_weights (ab_policy ar)) (rk_sub_scores (fst (risk_of ops now rq ar))))"
    using assms risk_of_sub_scores by (intro raw_risk_bounds) (simp_all add: policy_ok_def)
  then show ?thesis unfolding risk_of_value by (intro unit_clamp) (auto elim: f64_inE)
qed

text \<open>Two arbiters that differ in their trust store only.\<close>

lemma risk_of_trust_mono:
  assumes ok: "policy_ok (ab_policy ar)" "scope_ok (ab_domain_scope ar)"
    and w: "unit_f64 (weighted (scored_trust ops now (dg_id (rq_delegator rq)) s))"
      "unit_f64 (weighted (scored_trust ops now (dg_id (rq_delegator rq)) s'))"
    and le: "f64_le (weighted (scored_trust ops now (dg_id (rq_delegator rq)) s))
      (weighted (scored_trust ops now (dg_id (rq_delegator rq)) s'))"
  shows "f64_le (rk_value (fst (risk_of ops now rq (ar\<lparr>ab_trust_store := s'\<rparr>))))
    (rk_value (fst (risk_of ops now rq (ar\<lparr>ab_trust_store := s\<rparr>))))"
proof -
  let ?r = "\<lambda>s. rk_sub_scores (fst (risk_of ops now rq (ar\<lparr>ab_trust_store := s\<rparr>)))"
  have obs: "fst (observe_delegator rq (ar\<lparr>ab_trust_store := s\<rparr>)) = fst (observe_delegator rq ar)" for s
    by (simp add: observe_delegator_def Let_def split: prod.split)
  have sub: "?r s = (?r s')\<lparr>ss_trust_penalty := ss_trust_penalty (?r s)\<rparr>"
    using obs [of s] obs [of s'] by (auto simp: risk_of_def Let_def split: prod.splits)
  have pen: "ss_trust_penalty (?r s) = penalty_of (ab_domain_scope ar) (scored_trust ops now (dg_id (rq_delegator rq)) s)" for s
    by (simp add: risk_of_def Let_def split: prod.splits)
  have unit: "sub_scores_unit (?r s')" using risk_of_sub_scores [of "ar\<lparr>ab_trust_store := s'\<rparr>"] ok(2) w(2) by simp
  have p: "unit_f64 (ss_trust_penalty (?r s))" unfolding pen by (rule penalty_of_unit [OF ok(2) w(1)])
  have "f64_le (ss_trust_penalty (?r s')) (ss_trust_penalty (?r s))"
    unfolding pen by (rule penalty_of_antimono [OF ok(2) w le])
  from raw_risk_mono [OF _ unit p this, of "dp_weights (ab_policy ar)"] ok(1)
  have "f64_le (raw_risk (dp_weights (ab_policy ar)) (?r s')) (raw_risk (dp_weights (ab_policy ar)) (?r s))"
    unfolding sub [symmetric] by (simp add: policy_ok_def)
  from f64_clamp_mono [OF this] show ?thesis unfolding risk_of_value by simp
qed


subsection \<open>Verdicts\<close>

lemma observe_delegator_other [simp]:
  "ab_policy (snd (observe_delegator rq ar)) = ab_policy ar"
  "ab_frozen (snd (observe_delegator rq ar)) = ab_frozen ar"
  "ab_trust_store (snd (observe_delegator rq ar)) = ab_trust_store ar"
  "ab_domain_scope (snd (observe_delegator rq ar)) = ab_domain_scope ar"
  "ab_audit (snd (observe_delegator rq ar)) = ab_audit ar"
  by (simp_all add: observe_delegator_def Let_def split: prod.split)

lemma snd_risk_of: "snd (risk_of ops now rq ar) = snd (observe_delegator rq ar)"
  by (simp add: risk_of_def Let_def split: prod.split)

lemma log_verdict_other [simp]:
  "ab_policy (snd (log_verdict fmt3 sub_secs now v rq ar)) = ab_policy ar"
  "ab_frozen (snd (log_verdict fmt3 sub_secs now v rq ar)) = ab_frozen ar"
  "ab_trust_store (snd (log_verdict fmt3 sub_secs now v rq ar)) = ab_trust_store ar"
  "ab_domain_scope (snd (log_verdict fmt3 sub_secs now v rq ar)) = ab_domain_scope ar"
  by (simp_all add: log_verdict_def split: prod.split option.split)

lemma authorize_verdict:
  "fst (authorize ops fmt3 sub_secs now rq ar) = Some v \<Longrightarrow>
     v = (if dg_id (rq_delegator rq) \<in> ab_frozen ar then frozen_verdict now (dg_id (rq_delegator rq))
          else scored_verdict fmt3 now (ab_policy ar) (fst (risk_of ops now rq ar)) rq)"
  using snd_risk_of [of ops now rq ar]
  by (auto simp: authorize_def Let_def split: prod.splits if_splits)

lemma authorize_returns:
  "ab_audit ar = None \<Longrightarrow> fst (authorize ops fmt3 sub_secs now rq ar) \<noteq> None"
  using snd_risk_of [of ops now rq ar] observe_delegator_other(5) [of rq ar]
  by (auto simp: authorize_def Let_def log_verdict_def split: prod.splits)

lemma snd_authorize:
  "snd (authorize ops fmt3 sub_secs now rq ar) =
     (if dg_id (rq_delegator rq) \<in> ab_frozen ar
      then snd (log_verdict fmt3 sub_secs now (frozen_verdict now (dg_id (rq_delegator rq))) rq ar)
      else snd (log_verdict fmt3 sub_secs now
        (scored_verdict fmt3 now (ab_policy ar) (fst (risk_of ops now rq ar)) rq) rq (snd (observe_delegator rq ar))))"
  unfolding snd_risk_of [of ops now rq ar, symmetric]
  by (auto simp: authorize_def Let_def snd_risk_of split: prod.splits) (metis observe_delegator_other(1) snd_conv snd_risk_of)+

lemma authorize_state [simp]:
  "ab_policy (snd (authorize ops fmt3 sub_secs now rq ar)) = ab_policy ar"
  "ab_frozen (snd (authorize ops fmt3 sub_secs now rq ar)) = ab_frozen ar"
  "ab_trust_store (snd (authorize ops fmt3 sub_secs now rq ar)) = ab_trust_store ar"
  "ab_domain_scope (snd (authorize ops fmt3 sub_secs now rq ar)) = ab_domain_scope ar"
  by (simp_all add: snd_authorize)

lemma scored_verdict_allowed:
  "av_allowed (scored_verdict fmt3 now p r rq) \<longleftrightarrow> map_to_level p (rk_value r) \<ge> L3Conditional"
  by (cases "map_to_level p (rk_value r)")
    (simp_all add: scored_verdict_def Let_def less_eq_autonomy_level_def)

text \<open>
  C22: the arbiter allows only below the boundary. With the built-in policy and trust records in
  their range, a verdict allows exactly when the delegator is not locked down and the computed
  risk is below 0.35, a number from 0 to 1; an allowed verdict carries the throttle of 30 a
  minute exactly when the risk is at least 0.15, and a denied one always carries a mitigation.
  Without an audit logger there is always a verdict.
\<close>

theorem authorize_boundary:
  assumes "ab_policy ar = default_dynamic_policy" "scope_ok (ab_domain_scope ar)"
    and "unit_f64 (weighted (scored_trust ops now (dg_id (rq_delegator rq)) (ab_trust_store ar)))"
  shows "let risk = rk_value (fst (risk_of ops now rq ar))
    in unit_f64 risk \<and>
       (ab_audit ar = None \<longrightarrow> fst (authorize ops fmt3 sub_secs now rq ar) \<noteq> None) \<and>
       (\<forall>v. fst (authorize ops fmt3 sub_secs now rq ar) = Some v \<longrightarrow>
          (av_allowed v \<longleftrightarrow> dg_id (rq_delegator rq) \<notin> ab_frozen ar \<and> f64_lt risk (lit (35 / 100))) \<and>
          (av_allowed v \<longrightarrow> av_mitigation v = (if f64_lt risk (lit (15 / 100)) then None else Some (Throttle 30))) \<and>
          (\<not> av_allowed v \<longrightarrow> av_mitigation v \<noteq> None))"
proof -
  define risk where "risk = rk_value (fst (risk_of ops now rq ar))"
  have unit: "unit_f64 risk"
    unfolding risk_def using assms by (intro risk_of_unit) (simp_all add: default_policy_ok)
  note level = default_level [OF unit]
  have less: "f64_lt risk (lit (35 / 100))" if "f64_lt risk (lit (15 / 100))"
    using f64_less_le_trans [OF that rnd_mono [of "15 / 100" "35 / 100"]] by simp
  have "(av_allowed v \<longleftrightarrow> dg_id (rq_delegator rq) \<notin> ab_frozen ar \<and> f64_lt risk (lit (35 / 100))) \<and>
      (av_allowed v \<longrightarrow> av_mitigation v = (if f64_lt risk (lit (15 / 100)) then None else Some (Throttle 30))) \<and>
      (\<not> av_allowed v \<longrightarrow> av_mitigation v \<noteq> None)"
    if "fst (authorize ops fmt3 sub_secs now rq ar) = Some v" for v
  proof (cases "dg_id (rq_delegator rq) \<in> ab_frozen ar")
    case True
    with authorize_verdict [OF that] show ?thesis by (simp add: frozen_verdict_def)
  next
    case False
    then have v: "v = scored_verdict fmt3 now default_dynamic_policy (fst (risk_of ops now rq ar)) rq"
      using authorize_verdict [OF that] assms(1) by simp
    have strat: "strategy_for default_dynamic_policy l = default_strategy l" for l
      by (simp add: strategy_for_def default_dynamic_policy_def)
    show ?thesis
      using False less
      by (simp add: v scored_verdict_def Let_def level strat flip: risk_def)
  qed
  then show ?thesis using unit authorize_returns unfolding Let_def risk_def [symmetric] by blast
qed


theorem authorize_boundary_witness:
  "let ar = arbiter_new [] default_dynamic_policy;
       rq = request_simple 5 (delegator_agent ''a'' ''badge'') ''read'' ReadOnly
   in fst (authorize mem_trust_ops (\<lambda>_. ''0.330'') (\<lambda>_ _. None) 7 rq ar) \<noteq> None"
proof -
  let ?ar = "arbiter_new [] default_dynamic_policy :: mem_trust_store arbiter"
  let ?rq = "request_simple 5 (delegator_agent ''a'' ''badge'') ''read'' ReadOnly"
  have a: "ab_policy ?ar = default_dynamic_policy" "scope_ok (ab_domain_scope ?ar)" "ab_audit ?ar = None"
    by (simp_all add: arbiter_new_def scope_ok_def)
  have b: "unit_f64 (weighted (scored_trust mem_trust_ops 7 (dg_id (rq_delegator ?rq)) (ab_trust_store ?ar)))"
    by (simp add: arbiter_new_def scored_trust_def mem_trust_ops_def mem_trust_get_def weighted_default)
  from authorize_boundary [OF a(1,2) b, of "\<lambda>_. ''0.330''" "\<lambda>_ _. None"] a(3) show ?thesis
    unfolding Let_def by blast
qed

end
