(* ===== verification/Arbiter_Safety.thy ===== *)
theory Arbiter_Safety
  imports Dynamic_Arbiter
begin

text \<open>
  Histories of calls of the arbiter (\<^verbatim>\<open>src/rbac/dynamic/arbiter.rs\<close>): lockdowns hold until they
  are lifted, trust records stay in their range, less trust never allows more, and a trust store
  that fails can only deny.
\<close>

subsection \<open>Histories\<close>

datatype arbiter_call =
    Authorize action_request
  | RiskScore action_request
  | Feedback action_request action_outcome
  | Lockdown string
  | Restore string autonomy_level
  | SetPolicy dynamic_policy
  | SetDomainScope domain_scope
  | Decay int

text \<open>Every call at its instant; \<open>Decay\<close> is one cycle of the worker on the shared store.\<close>

fun arbiter_step ::
  "'s trust_store_ops \<Rightarrow> (f64 \<Rightarrow> string) \<Rightarrow> (instant \<Rightarrow> int \<Rightarrow> instant option) \<Rightarrow> instant \<times> arbiter_call \<Rightarrow>
     's arbiter \<Rightarrow> 's arbiter" where
  "arbiter_step ops fmt3 sub_secs (now, Authorize rq) ar = snd (authorize ops fmt3 sub_secs now rq ar)"
| "arbiter_step ops fmt3 sub_secs (now, RiskScore rq) ar = snd (risk_of ops now rq ar)"
| "arbiter_step ops fmt3 sub_secs (now, Feedback rq outcome) ar = feedback ops now rq outcome ar"
| "arbiter_step ops fmt3 sub_secs (now, Lockdown i) ar = lockdown ops now i ar"
| "arbiter_step ops fmt3 sub_secs (now, Restore i target) ar = restore ops now i target ar"
| "arbiter_step ops fmt3 sub_secs (now, SetPolicy p) ar = snd (set_policy p ar)"
| "arbiter_step ops fmt3 sub_secs (now, SetDomainScope sc) ar = set_domain_scope sc ar"
| "arbiter_step ops fmt3 sub_secs (now, Decay elapsed) ar =
     ar\<lparr>ab_trust_store := snd (run_once ops now elapsed (ab_trust_store ar))\<rparr>"

fun restores :: "string \<Rightarrow> instant \<times> arbiter_call \<Rightarrow> bool" where
  "restores i (now, Restore j target) \<longleftrightarrow> i = j"
| "restores i _ \<longleftrightarrow> False"

subsection \<open>Lockdown\<close>

lemma set_policy_frozen [simp]: "ab_frozen (snd (set_policy p ar)) = ab_frozen ar"
  by (simp add: set_policy_def split: sum.split)

lemma frozen_step:
  "i \<in> ab_frozen ar \<Longrightarrow> \<not> restores i e \<Longrightarrow> i \<in> ab_frozen (arbiter_step ops fmt3 sub_secs e ar)"
  by (cases "(i, e)" rule: restores.cases)
    (auto simp: snd_risk_of feedback_def lockdown_def restore_def set_domain_scope_def Let_def)

lemma frozen_run:
  "i \<in> ab_frozen ar \<Longrightarrow> \<not> list_ex (restores i) es \<Longrightarrow> i \<in> ab_frozen (fold (arbiter_step ops fmt3 sub_secs) es ar)"
  by (induction es arbitrary: ar) (auto simp: frozen_step)

text \<open>
  C21: a lockdown holds until it is lifted. After the lockdown of a delegator, whatever is
  authorized, reported, decayed, reconfigured or locked in between, and whatever the trust
  store answers, every request of that delegator is denied at level L0 with risk 1 and the
  lockdown as its reason, until that delegator is restored.
\<close>

theorem lockdown_holds:
  assumes "\<not> list_ex (restores i) es" "dg_id (rq_delegator rq) = i"
    and "fst (authorize ops fmt3 sub_secs now' rq
        (fold (arbiter_step ops fmt3 sub_secs) es (lockdown ops now i ar))) = Some v"
  shows "\<not> av_allowed v \<and> av_autonomy_level v = L0Frozen \<and> av_risk_score v = lit 1 \<and>
    av_mitigation v = Some (Block ''lockdown'')"
proof -
  have "i \<in> ab_frozen (lockdown ops now i ar)" by (simp add: lockdown_def Let_def)
  from frozen_run [OF this assms(1), of ops fmt3 sub_secs] authorize_verdict [OF assms(3)] assms(2)
  show ?thesis by (simp add: frozen_verdict_def)
qed

theorem lockdown_holds_witness:
  "let rq = request_simple 5 (delegator_agent ''a'' ''badge'') ''read'' ReadOnly;
       ar = arbiter_new [] default_dynamic_policy;
       ar' = fold (arbiter_step mem_trust_ops (\<lambda>_. []) (\<lambda>_ _. None))
         [(2, Restore ''b'' L4FullAutonomy), (3, Feedback rq Success)] (lockdown mem_trust_ops 1 ''a'' ar)
   in \<exists>v. fst (authorize mem_trust_ops (\<lambda>_. []) (\<lambda>_ _. None) 9 rq ar') = Some v \<and> \<not> av_allowed v"
proof -
  define rq where "rq = request_simple 5 (delegator_agent ''a'' ''badge'') ''read'' ReadOnly"
  define es where "es = [(2 :: int, Restore ''b'' L4FullAutonomy), (3, Feedback rq Success)]"
  define ar where "ar = (arbiter_new [] default_dynamic_policy :: mem_trust_store arbiter)"
  define ar' where "ar' = fold (arbiter_step mem_trust_ops (\<lambda>_. []) (\<lambda>_ _. None)) es (lockdown mem_trust_ops 1 ''a'' ar)"
  have "ab_audit ar' = None"
    by (simp add: ar'_def es_def ar_def feedback_def restore_def lockdown_def arbiter_new_def Let_def)
  then obtain v where v: "fst (authorize mem_trust_ops (\<lambda>_. []) (\<lambda>_ _. None) 9 rq ar') = Some v"
    using authorize_returns [of ar' mem_trust_ops "\<lambda>_. []" "\<lambda>_ _. None" 9 rq] by blast
  have "\<not> list_ex (restores ''a'') es" by (simp add: es_def)
  moreover have "dg_id (rq_delegator rq) = ''a''" by (simp add: rq_def request_simple_def delegator_agent_def)
  ultimately have "\<not> av_allowed v"
    using lockdown_holds [of "''a''" es rq mem_trust_ops "\<lambda>_. []" "\<lambda>_ _. None" 9 1 ar v] v
    by (simp add: ar'_def)
  with v show ?thesis unfolding Let_def rq_def [symmetric] es_def [symmetric] ar_def [symmetric] ar'_def [symmetric]
    by blast
qed

subsection \<open>Trust and decisions\<close>

lemma allowed_with_more_trust:
  assumes ok: "ab_policy ar = default_dynamic_policy" "scope_ok (ab_domain_scope ar)"
    and w: "unit_f64 (weighted (scored_trust ops now (dg_id (rq_delegator rq)) s))"
      "unit_f64 (weighted (scored_trust ops now (dg_id (rq_delegator rq)) s'))"
    and le: "f64_le (weighted (scored_trust ops now (dg_id (rq_delegator rq)) s))
      (weighted (scored_trust ops now (dg_id (rq_delegator rq)) s'))"
    and v: "fst (authorize ops fmt3 sub_secs now rq (ar\<lparr>ab_trust_store := s\<rparr>)) = Some v"
      "fst (authorize ops fmt3' sub_secs' now rq (ar\<lparr>ab_trust_store := s'\<rparr>)) = Some v'"
    and allowed: "av_allowed v"
  shows "av_allowed v'"
proof -
  let ?risk = "\<lambda>s. rk_value (fst (risk_of ops now rq (ar\<lparr>ab_trust_store := s\<rparr>)))"
  have p: "policy_ok (ab_policy ar)" using ok(1) default_policy_ok by simp
  have le': "f64_le (?risk s') (?risk s)" by (rule risk_of_trust_mono [OF p ok(2) w le])
  have unit: "unit_f64 (?risk s)" "unit_f64 (?risk s')"
    using risk_of_unit [of "ar\<lparr>ab_trust_store := s\<rparr>"] risk_of_unit [of "ar\<lparr>ab_trust_store := s'\<rparr>"] p ok(2) w by simp_all
  have "map_to_level default_dynamic_policy (?risk s) \<le> map_to_level default_dynamic_policy (?risk s')"
    by (rule default_level_antitone [OF unit(2,1) le'])
  with allowed authorize_verdict [OF v(1)] authorize_verdict [OF v(2)] ok(1) show ?thesis
    by (auto simp: scored_verdict_allowed frozen_verdict_def split: if_splits)
qed


text \<open>
  C23: trust decides monotonically, and failure closes. Under the built-in policy, with the trust
  floor of the domain, where there is one, between 0 and 1, take two trust stores and the same request in
  the same state, the delegator's effective trust in the second being between 0 and 1, the range in which
  the property after this one shows every record to stay. If the request is allowed with the first,
  and the first store fails, knows nothing of the delegator, or gives it an effective trust in that
  range that is not above the second's, then it is allowed with the second. So neither a record that is
  lost nor a failing store nor a drop of effective trust within the range turns a denial into a
  permission.
\<close>

theorem less_trust_never_allows_more:
  assumes "ab_policy ar = default_dynamic_policy" "scope_ok (ab_domain_scope ar)"
    and "unit_f64 (weighted (scored_trust ops now (dg_id (rq_delegator rq)) s'))"
    and "(\<exists>err. tso_get ops s (dg_id (rq_delegator rq)) = Inl err) \<or>
      tso_get ops s (dg_id (rq_delegator rq)) = Inr None \<or>
      unit_f64 (weighted (scored_trust ops now (dg_id (rq_delegator rq)) s)) \<and>
      f64_le (weighted (scored_trust ops now (dg_id (rq_delegator rq)) s))
        (weighted (scored_trust ops now (dg_id (rq_delegator rq)) s'))"
    and "fst (authorize ops fmt3 sub_secs now rq (ar\<lparr>ab_trust_store := s\<rparr>)) = Some v"
      "fst (authorize ops fmt3 sub_secs now rq (ar\<lparr>ab_trust_store := s'\<rparr>)) = Some v'"
    and "av_allowed v"
  shows "av_allowed v'"
proof -
  let ?w = "weighted (scored_trust ops now (dg_id (rq_delegator rq)) s)"
  let ?w' = "weighted (scored_trust ops now (dg_id (rq_delegator rq)) s')"
  have zero: "?w = Fin 0"
    if "(\<exists>err. tso_get ops s (dg_id (rq_delegator rq)) = Inl err) \<or> tso_get ops s (dg_id (rq_delegator rq)) = Inr None"
    using that weighted_failing [of now] by (auto simp: scored_trust_def weighted_default)
  have "f64_le (Fin 0) ?w'" using assms(3) by (auto elim: f64_inE)
  moreover have "unit_f64 (Fin 0)" by simp
  ultimately have "unit_f64 ?w \<and> f64_le ?w ?w'" using zero assms(4) by metis
  from allowed_with_more_trust [OF assms(1,2) conjunct1 [OF this] assms(3) conjunct2 [OF this] assms(5-7)]
  show ?thesis .
qed

definition failing_ops :: "mem_trust_store option trust_store_ops" where
  "failing_ops =
     \<lparr>tso_get = (\<lambda>s k. case s of None \<Rightarrow> Inl (Store ''down'') | Some m \<Rightarrow> mem_trust_get m k),
      tso_set = (\<lambda>k v s. (Inl (Store ''down''), s)), tso_delete = (\<lambda>k s. (Inl (Store ''down''), s)),
      tso_list_ids = (\<lambda>s. Inl (Store ''down''))\<rparr>"

text \<open>A human who reads, without any trust: the risk is 0.335 up to rounding, and the request is allowed.\<close>

lemma untrusted_read_risk:
  "approx (f64_add (f64_add (f64_add (f64_add (f64_mul (Fin 0) (lit (10 / 100))) (f64_mul (Fin 1) (lit (30 / 100))))
      (f64_mul (lit (1 / 10)) (lit (25 / 100)))) (f64_mul (Fin 0) (lit (25 / 100)))) (f64_mul (lit (1 / 10)) (lit (10 / 100))))
    (335 / 1000) (24 * eps)" (is "approx ?raw _ _")
proof -
  have e: "0 \<le> eps" "eps \<le> 1 / 1000" "eps * eps \<le> eps" by (simp_all add: eps_def)
  have scaled: "approx (f64_mul x (lit (q / 100))) (p * (q / 100)) (4 * eps)"
    if "approx x p eps" "0 \<le> p" "p \<le> 1" "0 \<le> q" "q \<le> 100" for x p q
  proof -
    have "approx (f64_mul x (lit (q / 100))) (p * (q / 100)) (eps + eps + eps * eps + eps)"
      by (intro approx_mul approx_lit that) (use that e in simp_all)
    with e show ?thesis by (fastforce simp: approx_def)
  qed
  have w: "approx (Fin 0) 0 eps" "approx (Fin 1) 1 eps" "approx (lit (1 / 10)) (1 / 10) eps"
    using approx_lit [of "1 / 10"] e by (simp_all add: approx_def)
  have "approx ?raw (0 * (10 / 100) + 1 * (30 / 100) + 1 / 10 * (25 / 100) + 0 * (25 / 100) + 1 / 10 * (10 / 100))
      (4 * eps + 4 * eps + eps + 4 * eps + eps + 4 * eps + eps + 4 * eps + eps)"
    by (intro approx_add scaled w) (use e in simp_all)
  then show ?thesis by simp
qed

lemma untrusted_human_reads:
  assumes "weighted (scored_trust ops now ''a'' s) = Fin 0"
    and "rq = request_simple 5 (delegator_human ''a'' ''badge'') ''read'' ReadOnly"
    and "ar = (arbiter_new s0 default_dynamic_policy)\<lparr>ab_trust_store := s\<rparr>"
  shows "map_to_level default_dynamic_policy (rk_value (fst (risk_of ops now rq ar))) \<ge> L3Conditional"
proof -
  let ?risk = "rk_value (fst (risk_of ops now rq ar))"
  have rq: "dg_id (rq_delegator rq) = ''a''" "dg_type (rq_delegator rq) = Human" "rq_category rq = ReadOnly"
    by (simp_all add: assms(2) request_simple_def delegator_human_def)
  have "det_total_observed (observe_state rq detector_default) = 1"
    by (simp add: observe_state_def recompute_profile_def build_baseline_from_history_def Let_def
      detector_default_def detector_new_def)
  then have "fst (observe_delegator rq ar) = lit (1 / 10)"
    by (simp add: observe_delegator_def observe_def rq assms(3) arbiter_new_def is_baseline_ready_def
      BASELINE_MIN_SAMPLES_def MAX_ANOMALY_DETECTORS_def)
  then obtain ar' where obs: "observe_delegator rq ar = (lit (1 / 10), ar')" by (metis prod.collapse)
  have ar: "ab_policy ar = default_dynamic_policy" "ab_domain_scope ar = None" "ab_trust_store ar = s"
    by (simp_all add: assms(3) arbiter_new_def)
  have "?risk = f64_clamp (raw_risk (dp_weights default_dynamic_policy)
      \<lparr>ss_delegator_weight = Fin 0, ss_trust_penalty = Fin 1, ss_sensitivity = lit (1 / 10),
       ss_domain_mismatch = Fin 0, ss_anomaly = lit (1 / 10)\<rparr>) (lit 0) (lit 1)"
    using assms(1) by (simp add: risk_of_def obs penalty_of_def domain_dimension_def rq ar Let_def f64_simps)
  moreover obtain r where r: "raw_risk (dp_weights default_dynamic_policy)
      \<lparr>ss_delegator_weight = Fin 0, ss_trust_penalty = Fin 1, ss_sensitivity = lit (1 / 10),
       ss_domain_mismatch = Fin 0, ss_anomaly = lit (1 / 10)\<rparr> = Fin r" "\<bar>r - 335 / 1000\<bar> \<le> 24 * eps"
    using untrusted_read_risk unfolding approx_def raw_risk_def default_dynamic_policy_def by auto
  moreover have "24 * eps \<le> 1 / 10" by (simp add: eps_def)
  then have "0 \<le> r" "r \<le> 1" using r(2) by linarith+
  ultimately have "?risk = Fin r" by (simp add: f64_simps)
  then have "approx ?risk (335 / 1000) (24 * eps)" using r(2) by (simp add: approx_def)
  then have "f64_lt ?risk (lit (35 / 100))"
    by (rule approx_less [OF _ approx_lit]) (simp_all add: eps_def)
  moreover have "unit_f64 ?risk"
    using default_policy_ok assms(1) by (intro risk_of_unit) (simp_all add: ar scope_ok_def rq)
  ultimately show ?thesis by (simp add: default_level less_eq_autonomy_level_def)
qed

theorem less_trust_never_allows_more_witness:
  "let ar = arbiter_new None default_dynamic_policy;
       rq = request_simple 5 (delegator_human ''a'' ''badge'') ''read'' ReadOnly;
       s' = Some [(''a'', (trust_default 7)\<lparr>ts_value := lit 1, ts_confidence := lit 1\<rparr>)]
   in \<exists>v. fst (authorize failing_ops (\<lambda>_. []) (\<lambda>_ _. None) 7 rq (ar\<lparr>ab_trust_store := s'\<rparr>)) = Some v \<and> av_allowed v"
proof -
  define ar where "ar = (arbiter_new None default_dynamic_policy :: mem_trust_store option arbiter)"
  define rq where "rq = request_simple 5 (delegator_human ''a'' ''badge'') ''read'' ReadOnly"
  define s' where "s' = Some [(''a'', (trust_default 7)\<lparr>ts_value := lit 1, ts_confidence := lit 1\<rparr>)]"
  have ar: "ab_policy ar = default_dynamic_policy" "scope_ok (ab_domain_scope ar)" "ab_audit ar = None" "ab_frozen ar = {}"
    by (simp_all add: ar_def arbiter_new_def scope_ok_def)
  have "\<exists>v. fst (authorize failing_ops (\<lambda>_. []) (\<lambda>_ _. None) 7 rq (ar\<lparr>ab_trust_store := s\<rparr>)) = Some v" for s
    using authorize_returns [of "ar\<lparr>ab_trust_store := s\<rparr>" failing_ops "\<lambda>_. []" "\<lambda>_ _. None" 7 rq] ar(3) by auto
  then obtain v v' where
    v: "fst (authorize failing_ops (\<lambda>_. []) (\<lambda>_ _. None) 7 rq (ar\<lparr>ab_trust_store := None\<rparr>)) = Some v" and
    v': "fst (authorize failing_ops (\<lambda>_. []) (\<lambda>_ _. None) 7 rq (ar\<lparr>ab_trust_store := s'\<rparr>)) = Some v'"
    by blast
  have "weighted (scored_trust failing_ops 7 (dg_id (rq_delegator rq)) None) = Fin 0"
    using weighted_failing [of 7] by (auto simp: scored_trust_def failing_ops_def)
  then have "weighted (scored_trust failing_ops 7 ''a'' None) = Fin 0"
    by (simp add: rq_def request_simple_def delegator_human_def)
  from untrusted_human_reads [OF this rq_def arg_cong [OF ar_def, of "ab_trust_store_update (\<lambda>_. None)"]]
  have allowed: "av_allowed v" using authorize_verdict [OF v] ar by (simp add: scored_verdict_allowed)
  have "tso_get failing_ops None (dg_id (rq_delegator rq)) = Inl (Store ''down'')" by (simp add: failing_ops_def)
  moreover have "unit_f64 (weighted (scored_trust failing_ops 7 (dg_id (rq_delegator rq)) s'))"
    by (simp add: scored_trust_def failing_ops_def mem_trust_get_def s'_def rq_def request_simple_def
      delegator_human_def weighted_def)
  ultimately have "av_allowed v'"
    using less_trust_never_allows_more [OF ar(1,2) _ _ v v' allowed] by blast
  with v' show ?thesis unfolding Let_def ar_def [symmetric] rq_def [symmetric] s'_def [symmetric] by blast
qed

subsection \<open>Every record and every risk in its range\<close>

definition sane :: "instant \<times> arbiter_call \<Rightarrow> bool" where
  "sane e = (case snd e of
     Feedback rq (Anomalous deviation) \<Rightarrow> nonneg deviation
   | SetPolicy p \<Rightarrow> list_all f64_ok (weight_list (dp_weights p))
   | SetDomainScope sc \<Rightarrow> unit_f64 (td_trust_floor (sc_current sc))
   | Decay elapsed \<Rightarrow> 0 \<le> elapsed
   | _ \<Rightarrow> True)"

lemma trust_ok_outcome:
  assumes "trust_ok t" "\<And>d. outcome = Anomalous d \<Longrightarrow> nonneg d"
  shows "trust_ok (outcome_update now outcome t)"
  using assms by (cases outcome)
    (simp_all add: outcome_update_def trust_ok_compliant trust_ok_violation unit_rnd nonneg_rnd)

lemma trust_ok_seed:
  assumes "0 \<le> q" "q \<le> 1" "unit_f64 c"
  shows "trust_ok ((trust_new now (lit q))\<lparr>ts_confidence := c, ts_evidence_count := n\<rparr>)"
  using trust_ok_new [OF assms(1,2), of now] assms(3) by (simp add: trust_ok_def)

context trust_store
begin

definition in_range :: "'s arbiter \<Rightarrow> bool" where
  "in_range ar \<longleftrightarrow> ok (ab_trust_store ar) \<and> (\<forall>k t. stored (ab_trust_store ar) k = Some t \<longrightarrow> trust_ok t) \<and>
     policy_ok (ab_policy ar) \<and> scope_ok (ab_domain_scope ar)"

lemma in_range_set:
  assumes "in_range ar" "trust_ok t"
  shows "in_range (ar\<lparr>ab_trust_store := snd (tso_set ops k t (ab_trust_store ar))\<rparr>)"
proof -
  obtain s' where "tso_set ops k t (ab_trust_store ar) = (Inr (), s')" "ok s'"
    "stored s' = (stored (ab_trust_store ar))(k \<mapsto> t)"
    using set_stored [of "ab_trust_store ar"] assms(1) unfolding in_range_def by blast
  with assms show ?thesis by (auto simp: in_range_def split: if_splits)
qed

lemma in_range_fields:
  "in_range (ar\<lparr>ab_frozen := f\<rparr>) \<longleftrightarrow> in_range ar"
  "in_range (ar\<lparr>ab_detectors := ds\<rparr>) \<longleftrightarrow> in_range ar"
  by (simp_all add: in_range_def)

lemma in_range_step:
  assumes ar: "in_range ar" and sane: "sane e"
  shows "in_range (arbiter_step ops fmt3 sub_secs e ar)"
proof -
  obtain now c where e: "e = (now, c)" by force
  have ok: "ok (ab_trust_store ar)" using ar by (simp add: in_range_def)
  show ?thesis
  proof (cases c)
    case (Feedback rq outcome)
    let ?i = "dg_id (rq_delegator rq)"
    have "trust_ok (outcome_update now outcome
        (case tso_get ops (ab_trust_store ar) ?i of Inr (Some t) \<Rightarrow> t | _ \<Rightarrow> trust_default now))"
      using ar get_stored [OF ok, of ?i] sane
      by (intro trust_ok_outcome)
        (auto simp: in_range_def sane_def e Feedback trust_ok_default split: option.split)
    from in_range_set [OF ar this] show ?thesis by (simp add: e Feedback feedback_def Let_def)
  next
    case (Lockdown i)
    from in_range_set [OF ar trust_ok_seed [where q = 0 and c = "lit 1" and now = now and n = LOCKDOWN_EVIDENCE_COUNT], of i]
    show ?thesis by (simp add: e Lockdown lockdown_def Let_def in_range_def)
  next
    case (Restore i target)
    obtain q where q: "target_trust target = lit q" "0 \<le> q" "q \<le> 1"
      by (cases target) force+
    from in_range_set [OF ar trust_ok_seed [OF q(2,3), where c = "lit (8 / 10)" and now = now and n = 10], of i]
    show ?thesis by (simp add: e Restore restore_def Let_def in_range_def unit_rnd q(1))
  next
    case (SetPolicy p)
    with ar sane show ?thesis
      by (auto simp: e set_policy_def in_range_def sane_def valid_policy_ok split: sum.split)
  next
    case (SetDomainScope sc)
    with ar sane show ?thesis by (simp add: e set_domain_scope_def in_range_def sane_def scope_ok_def)
  next
    case (Decay elapsed)
    obtain s' where "run_once ops now elapsed (ab_trust_store ar) = (Inr (card (dom (stored (ab_trust_store ar)))), s')"
      "ok s'" "\<And>k. stored s' k = map_option (degrade now elapsed) (stored (ab_trust_store ar) k)"
      using run_once_stored [OF ok] by blast
    with ar sane show ?thesis
      by (auto simp: e Decay in_range_def sane_def trust_ok_degrade)
  qed (use ar in \<open>simp_all add: e in_range_def snd_risk_of\<close>)
qed

lemma in_range_run: "in_range ar \<Longrightarrow> list_all sane es \<Longrightarrow> in_range (fold (arbiter_step ops fmt3 sub_secs) es ar)"
  by (induction es arbitrary: ar) (auto simp: in_range_step)

lemma in_range_risk:
  assumes "in_range ar"
  shows "unit_f64 (rk_value (fst (risk_of ops now rq ar)))"
proof (rule risk_of_unit)
  show "policy_ok (ab_policy ar)" "scope_ok (ab_domain_scope ar)" using assms by (simp_all add: in_range_def)
  have "tso_get ops (ab_trust_store ar) k = Inr (stored (ab_trust_store ar) k)" for k
    using assms by (intro get_stored) (simp add: in_range_def)
  then show "unit_f64 (weighted (scored_trust ops now (dg_id (rq_delegator rq)) (ab_trust_store ar)))"
    using assms by (auto simp: in_range_def scored_trust_def weighted_default intro!: weighted_unit split: option.split)
qed

end


lemma in_range_new: "policy_ok p \<Longrightarrow> mem_trust.in_range (arbiter_new mem_trust_new p)"
  by (simp add: mem_trust.in_range_def arbiter_new_def mem_trust_new_def scope_ok_def)

text \<open>
  C24: the numbers of the arbiter are well typed. Start from the in-memory store and a policy
  with weights from 0 to 1, and let any history of calls follow whose reported deviations are
  not negative, whose installed scopes have a floor from 0 to 1 and whose decay spans are not
  negative. Then every stored record has value, confidence and rate in the unit interval, and
  every request scores a risk that is a number from 0 to 1: no rounding, overflow or NaN leads
  out of the range that the bands of the policy are defined on.
\<close>

theorem arbiter_scores_typed:
  assumes "policy_ok p" "list_all sane es"
  shows "let ar = fold (arbiter_step mem_trust_ops fmt3 sub_secs) es (arbiter_new mem_trust_new p)
    in (map_of (ab_trust_store ar) k = Some t \<longrightarrow> trust_ok t) \<and>
       unit_f64 (rk_value (fst (risk_of mem_trust_ops now rq ar))) \<and> policy_ok (ab_policy ar)"
proof -
  note range = mem_trust.in_range_run [OF in_range_new [OF assms(1)] assms(2), of fmt3 sub_secs]
  from range mem_trust.in_range_risk [OF range, of now rq] show ?thesis
    by (auto simp: mem_trust.in_range_def Let_def)
qed

theorem arbiter_scores_typed_witness:
  "let rq = request_simple 5 (delegator_agent ''a'' ''badge'') ''read'' ReadOnly;
       ar = fold (arbiter_step mem_trust_ops (\<lambda>_. []) (\<lambda>_ _. None))
         [(1, Feedback rq (Anomalous NaN)), (2, Feedback rq (Anomalous PosInf)), (3, Decay 9)]
         (arbiter_new mem_trust_new default_dynamic_policy)
   in unit_f64 (rk_value (fst (risk_of mem_trust_ops 7 rq ar)))"
proof -
  define rq where "rq = request_simple 5 (delegator_agent ''a'' ''badge'') ''read'' ReadOnly"
  have "list_all sane [(1, Feedback rq (Anomalous NaN)), (2, Feedback rq (Anomalous PosInf)), (3, Decay 9)]"
    by (simp add: sane_def nonneg_def)
  from arbiter_scores_typed [OF default_policy_ok this, of "\<lambda>_. []" "\<lambda>_ _. None" k t 7 rq for k t]
  show ?thesis unfolding Let_def rq_def [symmetric] by blast
qed

subsection \<open>Two surprises of feedback\<close>

text \<open>A deviation of minus infinity, or any large negative one, lifts the trust out of its range.\<close>

lemma negative_deviation_leaves_range:
  "ts_value (outcome_update now (Anomalous NegInf) (trust_default now)) = PosInf"
proof -
  have tenth: "approx (lit (1 / 10)) (1 / 10) eps" "approx (lit (2 / 10)) (2 / 10) eps" by (simp_all add: approx_lit)
  obtain a where a: "lit (1 / 10) = Fin a" "0 < a" using approx_less [OF approx_Fin [of 0] tenth(1)] tenth(1)
    by (auto simp: approx_def eps_def f64_simps)
  obtain b where b: "lit (2 / 10) = Fin b" using tenth(2) by (auto simp: approx_def)
  obtain c where c: "lit (8 / 10) = Fin c" using approx_lit [of "8 / 10"] by (auto simp: approx_def)
  show ?thesis
    unfolding outcome_update_def on_policy_violation_def violation_penalty_def a(1) b c
    using a(2) by (simp add: Let_def trust_default_def f64_sub_def f64_max_def f64_inf_def sgn_if)
qed

lemma approx_min_left:
  "approx x p d \<Longrightarrow> approx y q e \<Longrightarrow> p + d \<le> q - e \<Longrightarrow> approx (f64_min x y) p d"
  unfolding approx_def by (auto simp: f64_simps min_def)

lemma approx_max_left:
  "approx x p d \<Longrightarrow> approx y q e \<Longrightarrow> q + e \<le> p - d \<Longrightarrow> approx (f64_max x y) p d"
  unfolding approx_def by (auto simp: f64_simps max_def)

lemma approx_confidence:
  assumes "1 \<le> unat w" "unat w \<le> 90"
  shows "approx (evidence_confidence w) (1 - 1 / (1 + of_nat (unat w) / 100)) (4 * eps)"
proof -
  define x where "x = (of_nat (unat w) :: rat)"
  have "x \<le> of_nat 90" "of_nat 1 \<le> x" unfolding x_def using assms by (simp_all only: of_nat_le_iff)
  then have x: "1 \<le> x" "x \<le> 90" by simp_all
  have e: "eps = 1 / 4503599627370496" by (rule eps_def)
  have lits: "f64_of_nat (unat w) = Fin x" "lit 100 = Fin 100"
    using rnd_of_nat [of "unat w"] assms rnd_of_int [of 100] by (simp_all add: f64_of_nat_def x_def)
  have "approx (rnd (x / 100)) (x / 100) (0 + eps)" by (rule approx_rnd) (use x in simp_all)
  then have "approx (f64_div (f64_of_nat (unat w)) (lit 100)) (x / 100) eps" by (simp add: lits)
  from approx_add [OF approx_Fin [of 1] this] have "approx (f64_add (lit 1) (f64_div (f64_of_nat (unat w)) (lit 100)))
      (1 + x / 100) (2 * eps)" using x by (simp add: e)
  from approx_inverse [OF this] have i: "approx (f64_div (lit 1) (f64_add (lit 1) (f64_div (f64_of_nat (unat w)) (lit 100))))
      (1 / (1 + x / 100)) (3 * eps)" using x by (simp add: e)
  define y where "y = 1 / (1 + x / 100)"
  have y: "1 / 2 \<le> y" "y \<le> 1" using x by (simp_all add: y_def field_simps)
  from approx_sub [OF approx_Fin [of 1] i] have s: "approx (f64_sub (lit 1)
      (f64_div (lit 1) (f64_add (lit 1) (f64_div (f64_of_nat (unat w)) (lit 100))))) (1 - y) (4 * eps)"
    unfolding y_def [symmetric] using y by (simp add: e)
  from approx_min_left [OF s approx_lit [of "99 / 100"]] show ?thesis
    unfolding evidence_confidence_def x_def [symmetric] y_def [symmetric] using y by (simp add: e)
qed

text \<open>
  After a restore to full autonomy and one success, a failure lowers the trust value but raises
  the effective trust, because the report counts as evidence.
\<close>

lemma failure_raises_effective_trust:
  "let seed = (trust_new 0 (target_trust L4FullAutonomy))\<lparr>ts_confidence := lit (8 / 10), ts_evidence_count := 10\<rparr>;
       before = outcome_update 1 Success seed;
       after = outcome_update 2 (Failure ''timeout'') before
   in f64_lt (weighted before) (weighted after)"
proof -
  define seed where "seed = (trust_new 0 (target_trust L4FullAutonomy))\<lparr>ts_confidence := lit (8 / 10), ts_evidence_count := 10\<rparr>"
  define before where "before = outcome_update 1 Success seed"
  define after where "after = outcome_update 2 (Failure ''timeout'') before"
  have e: "eps = 1 / 4503599627370496" by (rule eps_def)
  have "unit_f64 (lit (95 / 100))" by (rule unit_rnd) simp_all
  then have "ts_value seed = lit (95 / 100)"
    by (auto simp: seed_def trust_new_def f64_simps elim!: f64_inE)
  then have v0: "approx (ts_value seed) (95 / 100) eps" by (simp add: approx_lit)
  have "approx (f64_mul (lit (1 / 100)) (lit (1 / 2))) (1 / 200) (4 * eps)"
    using approx_mul [OF approx_lit [of "1 / 100"] approx_lit [of "1 / 2"]] unfolding approx_def e by force
  from approx_add [OF v0 this] have "approx (f64_add (ts_value seed) (f64_mul (lit (1 / 100)) (lit (1 / 2)))) (955 / 1000) (6 * eps)"
    by (simp add: e)
  from approx_min_left [OF this approx_lit [of 1]] have v1: "approx (ts_value before) (955 / 1000) (6 * eps)"
    by (simp add: before_def outcome_update_def on_compliant_behavior_def Let_def e)
  have c1: "approx (ts_confidence before) (11 / 111) (4 * eps)"
    using approx_confidence [of 11]
    by (simp add: before_def outcome_update_def on_compliant_behavior_def Let_def seed_def)
  have n1: "ts_evidence_count before = 11"
    by (simp add: before_def outcome_update_def on_compliant_behavior_def Let_def seed_def)
  have "approx (f64_mul (lit (1 / 10)) (lit (2 / 10))) (2 / 100) (4 * eps)"
    using approx_mul [OF approx_lit [of "1 / 10"] approx_lit [of "2 / 10"]] unfolding approx_def e by force
  moreover have "approx (f64_mul (lit (2 / 10)) (f64_max (f64_sub (lit (2 / 10)) (lit (8 / 10))) (lit 0))) 0 (2 * eps)"
  proof -
    have "approx (f64_sub (lit (2 / 10)) (lit (8 / 10))) (- 6 / 10) (3 * eps)"
      using approx_sub [OF approx_lit [of "2 / 10"] approx_lit [of "8 / 10"]] by (simp add: e)
    then have "f64_max (f64_sub (lit (2 / 10)) (lit (8 / 10))) (lit 0) = Fin 0"
      using approx_less [OF _ approx_Fin [of 0], of "f64_sub (lit (2 / 10)) (lit (8 / 10))" "- 6 / 10" "3 * eps"]
      by (auto simp: approx_def f64_simps max_def e)
    then show ?thesis
      using approx_mul [OF approx_lit [of "2 / 10"] approx_Fin [of 0]] by (simp add: e)
  qed
  ultimately have "approx (violation_penalty (lit (2 / 10))) (2 / 100) (7 * eps)"
    unfolding violation_penalty_def using approx_add by (fastforce simp: e)
  from approx_sub [OF v1 this] have "approx (f64_sub (ts_value before) (violation_penalty (lit (2 / 10)))) (935 / 1000) (14 * eps)"
    by (simp add: e)
  from approx_max_left [OF this approx_Fin [of 0]] have v2: "approx (ts_value after) (935 / 1000) (14 * eps)"
    by (simp add: after_def outcome_update_def on_policy_violation_def Let_def e)
  have c2: "approx (ts_confidence after) (3 / 28) (4 * eps)"
    using approx_confidence [of 12]
    by (simp add: after_def outcome_update_def on_policy_violation_def Let_def n1)
  have "f64_lt (weighted before) (weighted after)"
    unfolding weighted_def by (rule approx_less [OF approx_mul [OF v1 c1] approx_mul [OF v2 c2]]) (simp_all add: e)
  then show ?thesis by (simp add: Let_def before_def after_def seed_def)
qed

end
