(* ===== verification/Captcha.thy ===== *)
theory Captcha
  imports Proof_Of_Work Unicode_Text
begin

text \<open>
  \<^verbatim>\<open>src/auth/passport/captcha.rs\<close>: arithmetic challenges, each with an answer, an expiry and a
  budget of attempts. The background task of \<^verbatim>\<open>with_background_cleanup\<close> runs
  \<^verbatim>\<open>cleanup_expired\<close> at some instants, which any history of calls may contain. The two random
  summands and the identifier of a challenge are arguments; \<open>elapsed_since\<close> is
  \<^verbatim>\<open>Instant::duration_since\<close>.
\<close>

subsection \<open>Definitions\<close>

record challenge_entry =
  ce_answer :: "scalar list"
  ce_created_at :: instant
  ce_attempts :: nat

definition DEFAULT_CAPTCHA_TTL_SECS :: nat where "DEFAULT_CAPTCHA_TTL_SECS = 300"
definition DEFAULT_CAPTCHA_MAX_ATTEMPTS :: nat where "DEFAULT_CAPTCHA_MAX_ATTEMPTS = 3"
definition CAPTCHA_CLEANUP_THRESHOLD :: nat where "CAPTCHA_CLEANUP_THRESHOLD = 1000"

record captcha_verifier =
  cap_challenges :: "(string, challenge_entry) hash_map"
  cap_ttl :: int
  cap_max_attempts :: nat

record captcha_challenge =
  cc_id :: string
  cc_challenge_data :: string

definition captcha_new :: captcha_verifier where
  "captcha_new = \<lparr>cap_challenges = [], cap_ttl = int DEFAULT_CAPTCHA_TTL_SECS * 1000000000,
     cap_max_attempts = DEFAULT_CAPTCHA_MAX_ATTEMPTS\<rparr>"

definition captcha_with_options :: "int \<Rightarrow> nat \<Rightarrow> captcha_verifier" where
  "captcha_with_options lifetime max_attempts =
     \<lparr>cap_challenges = [], cap_ttl = lifetime, cap_max_attempts = max max_attempts 1\<rparr>"

definition captcha_cleanup_expired :: "instant \<Rightarrow> captcha_verifier \<Rightarrow> captcha_verifier" where
  "captcha_cleanup_expired now v =
     v\<lparr>cap_challenges := filter (\<lambda>(_, e). elapsed_since now (ce_created_at e) \<le> cap_ttl v) (cap_challenges v)\<rparr>"

definition captcha_remove :: "string \<Rightarrow> captcha_verifier \<Rightarrow> captcha_verifier" where
  "captcha_remove i v = v\<lparr>cap_challenges := AList.delete i (cap_challenges v)\<rparr>"

definition captcha_verify ::
  "instant \<Rightarrow> string \<Rightarrow> scalar list \<Rightarrow> captcha_verifier \<Rightarrow> bool result \<times> captcha_verifier" where
  "captcha_verify now i user_response v =
     (case map_of (cap_challenges v) i of
        None \<Rightarrow> (Inl (Store ''challenge not found or expired''), v)
      | Some entry \<Rightarrow>
          if elapsed_since now (ce_created_at entry) > cap_ttl v
          then (Inl (Store ''challenge expired''), captcha_remove i v)
          else if ce_attempts entry \<ge> cap_max_attempts v
          then (Inl (Store (''too many attempts (max '' @ decimal (cap_max_attempts v) @ '')'')), captcha_remove i v)
          else
            let entry' = entry\<lparr>ce_attempts := ce_attempts entry + 1\<rparr>;
                v1 = v\<lparr>cap_challenges := AList.update i entry' (cap_challenges v)\<rparr>;
                correct = constant_time_eq (as_bytes (ce_answer entry')) (as_bytes (trim user_response));
                v2 = if correct then captcha_remove i v1 else v1;
                v3 = if length (cap_challenges v2) > CAPTCHA_CLEANUP_THRESHOLD
                     then captcha_cleanup_expired now v2 else v2
            in (Inr correct, v3))"

definition generate_challenge ::
  "instant \<Rightarrow> nat \<Rightarrow> nat \<Rightarrow> string \<Rightarrow> captcha_verifier \<Rightarrow> captcha_challenge result \<times> captcha_verifier" where
  "generate_challenge now a b i v =
     (let answer = ascii (decimal (a + b));
          challenge_text = decimal a @ '' + '' @ decimal b @ '' = ?'';
          v1 = captcha_cleanup_expired now v
      in (Inr \<lparr>cc_id = i, cc_challenge_data = challenge_text\<rparr>,
          v1\<lparr>cap_challenges := AList.update i \<lparr>ce_answer = answer, ce_created_at = now, ce_attempts = 0\<rparr>
            (cap_challenges v1)\<rparr>))"

definition active_challenge_count :: "captcha_verifier \<Rightarrow> nat" where
  "active_challenge_count v = length (cap_challenges v)"

subsection \<open>The life of a challenge\<close>

datatype captcha_call =
    Generate nat nat string
  | Respond string "scalar list"
  | CleanUp

fun captcha_step :: "instant \<times> captcha_call \<Rightarrow> captcha_verifier \<Rightarrow> captcha_verifier" where
  "captcha_step (now, Generate a b i) v = snd (generate_challenge now a b i v)"
| "captcha_step (now, Respond i g) v = snd (captcha_verify now i g v)"
| "captcha_step (now, CleanUp) v = captcha_cleanup_expired now v"

fun generates :: "string \<Rightarrow> captcha_call \<Rightarrow> bool" where
  "generates i (Generate a b j) \<longleftrightarrow> i = j"
| "generates i _ \<longleftrightarrow> False"

fun responses :: "string \<Rightarrow> (instant \<times> captcha_call) list \<Rightarrow> scalar list list" where
  "responses i [] = []"
| "responses i ((_, Respond j g) # cs) = (if i = j then trim g # responses i cs else responses i cs)"
| "responses i (_ # cs) = responses i cs"

text \<open>What is left of a challenge after some responses within its time.\<close>

definition challenge_after :: "scalar list \<Rightarrow> instant \<Rightarrow> nat \<Rightarrow> scalar list list \<Rightarrow> challenge_entry option" where
  "challenge_after answer t0 m gs =
     (if answer \<in> set gs \<or> length gs > m then None
      else Some \<lparr>ce_answer = answer, ce_created_at = t0, ce_attempts = length gs\<rparr>)"

definition captcha_wf :: "captcha_verifier \<Rightarrow> bool" where
  "captcha_wf v \<longleftrightarrow> hm_wf (cap_challenges v)"

lemma captcha_simps [simp]:
  "cap_ttl (captcha_cleanup_expired now v) = cap_ttl v"
  "cap_max_attempts (captcha_cleanup_expired now v) = cap_max_attempts v"
  "cap_ttl (captcha_remove i v) = cap_ttl v"
  "cap_max_attempts (captcha_remove i v) = cap_max_attempts v"
  "map_of (cap_challenges (captcha_remove i v)) j = (if i = j then None else map_of (cap_challenges v) j)"
  by (simp_all add: captcha_cleanup_expired_def captcha_remove_def hm_simps)

lemma captcha_wf_ops [simp]:
  "captcha_wf v \<Longrightarrow> captcha_wf (captcha_cleanup_expired now v)"
  "captcha_wf v \<Longrightarrow> captcha_wf (captcha_remove i v)"
  "captcha_wf v \<Longrightarrow> captcha_wf (v\<lparr>cap_challenges := AList.update i e (cap_challenges v)\<rparr>)"
  by (simp_all add: captcha_wf_def captcha_cleanup_expired_def captcha_remove_def)

lemma cleanup_lookup:
  "captcha_wf v \<Longrightarrow> map_of (cap_challenges (captcha_cleanup_expired now v)) i =
     (case map_of (cap_challenges v) i of
        None \<Rightarrow> None
      | Some e \<Rightarrow> if elapsed_since now (ce_created_at e) \<le> cap_ttl v then Some e else None)"
  by (simp add: captcha_wf_def captcha_cleanup_expired_def hm_map_of_filter split: option.split)

lemma cleanup_keeps:
  assumes "captcha_wf v" "map_of (cap_challenges v) i = challenge_after answer t0 m gs" "elapsed_since now t0 \<le> cap_ttl v"
  shows "map_of (cap_challenges (captcha_cleanup_expired now v)) i = challenge_after answer t0 m gs"
  using assms by (simp add: cleanup_lookup challenge_after_def)

lemma captcha_step_simps:
  "captcha_wf v \<Longrightarrow> captcha_wf (captcha_step c v)"
  "cap_ttl (captcha_step c v) = cap_ttl v"
  "cap_max_attempts (captcha_step c v) = cap_max_attempts v"
  by (cases "(c, v)" rule: captcha_step.cases;
      simp add: captcha_verify_def generate_challenge_def Let_def split: option.split)+

text \<open>The answer to a response, and the entry of its challenge afterwards.\<close>

lemma verify_own:
  assumes wf: "captcha_wf v" and e: "map_of (cap_challenges v) i = challenge_after answer t0 (cap_max_attempts v) gs"
    and now: "elapsed_since now t0 \<le> cap_ttl v" and u: "\<forall>c \<in> set answer. c < 0x110000" "\<forall>c \<in> set g. c < 0x110000"
  shows "fst (captcha_verify now i g v) =
      (if answer \<in> set gs \<or> length gs > cap_max_attempts v then Inl (Store ''challenge not found or expired'')
       else if length gs = cap_max_attempts v
       then Inl (Store (''too many attempts (max '' @ decimal (cap_max_attempts v) @ '')''))
       else Inr (trim g = answer))" (is ?result)
    and "map_of (cap_challenges (snd (captcha_verify now i g v))) i =
      challenge_after answer t0 (cap_max_attempts v) (gs @ [trim g])" (is ?entry)
proof -
  from u(2) set_trim [of g] have tg: "\<forall>c \<in> set (trim g). c < 0x110000" by blast
  have eq: "constant_time_eq (as_bytes answer) (as_bytes (trim g)) \<longleftrightarrow> trim g = answer"
    and eq': "as_bytes answer = as_bytes (trim g) \<longleftrightarrow> answer = trim g"
    using as_bytes_inj [OF u(1) tg] by (auto simp: constant_time_eq_iff)
  show ?result using e now by (simp add: captcha_verify_def challenge_after_def eq Let_def)
  have upd: "map_of (cap_challenges (v\<lparr>cap_challenges := AList.update i x (cap_challenges v)\<rparr>)) i = Some x" for x
    by (simp add: hm_simps)
  show ?entry using e now wf
    by (auto simp: captcha_verify_def challenge_after_def eq Let_def cleanup_lookup upd hm_simps constant_time_eq_iff eq')
qed

lemma verify_other:
  assumes wf: "captcha_wf v" and e: "map_of (cap_challenges v) i = challenge_after answer t0 m gs"
    and now: "elapsed_since now t0 \<le> cap_ttl v" and "i \<noteq> j"
  shows "map_of (cap_challenges (snd (captcha_verify now j g v))) i = challenge_after answer t0 m gs"
  using assms
  by (auto simp: captcha_verify_def Let_def cleanup_keeps hm_simps split: option.split)

definition text_ok :: "scalar list \<Rightarrow> bool" where
  "text_ok s \<longleftrightarrow> (\<forall>c \<in> set s. c < 0x110000)"

fun call_ok :: "captcha_call \<Rightarrow> bool" where
  "call_ok (Respond i g) \<longleftrightarrow> text_ok g"
| "call_ok _ \<longleftrightarrow> True"

lemma captcha_step_after:
  assumes wf: "captcha_wf v" and e: "map_of (cap_challenges v) i = challenge_after answer t0 (cap_max_attempts v) gs"
    and c: "\<not> generates i c" "elapsed_since now t0 \<le> cap_ttl v" "text_ok answer" "call_ok c"
  shows "map_of (cap_challenges (captcha_step (now, c) v)) i =
    challenge_after answer t0 (cap_max_attempts v) (gs @ responses i [(now, c)])"
proof (cases c)
  case (Generate a b j)
  with c have "i \<noteq> j" by simp
  with cleanup_keeps [OF wf e c(2)] show ?thesis
    by (simp add: Generate generate_challenge_def Let_def hm_simps)
next
  case (Respond j g)
  with c have u: "\<forall>c \<in> set answer. c < 0x110000" "\<forall>c \<in> set g. c < 0x110000" by (simp_all add: text_ok_def)
  show ?thesis
    using verify_own(2) [OF wf e c(2) u] verify_other [OF wf e c(2), of j g]
    by (cases "i = j") (simp_all add: Respond)
next
  case CleanUp
  with cleanup_keeps [OF wf e c(2)] show ?thesis by simp
qed

lemma responses_Cons: "responses i (c # cs) = responses i [c] @ responses i cs"
  by (cases "(i, c # cs)" rule: responses.cases) simp_all

lemma captcha_steps_after:
  "captcha_wf v \<Longrightarrow> map_of (cap_challenges v) i = challenge_after answer t0 (cap_max_attempts v) gs \<Longrightarrow> text_ok answer \<Longrightarrow>
     \<forall>(t, c) \<in> set cs. \<not> generates i c \<and> elapsed_since t t0 \<le> cap_ttl v \<and> call_ok c \<Longrightarrow>
   captcha_wf (fold captcha_step cs v) \<and> cap_ttl (fold captcha_step cs v) = cap_ttl v \<and>
   cap_max_attempts (fold captcha_step cs v) = cap_max_attempts v \<and>
   map_of (cap_challenges (fold captcha_step cs v)) i =
     challenge_after answer t0 (cap_max_attempts v) (gs @ responses i cs)"
proof (induction cs arbitrary: v gs)
  case (Cons d cs)
  obtain t c where d: "d = (t, c)" by force
  from Cons.prems(4) have c: "\<not> generates i c" "elapsed_since t t0 \<le> cap_ttl v" "call_ok c" by (simp_all add: d)
  note step = captcha_step_after [OF Cons.prems(1,2) c(1,2) Cons.prems(3) c(3)]
  note keep = captcha_step_simps(2,3) [of "(t, c)" v]
  have rest': "\<forall>(s, e) \<in> set cs. \<not> generates i e \<and> elapsed_since s t0 \<le> cap_ttl (captcha_step (t, c) v) \<and> call_ok e"
    using Cons.prems(4) by (auto simp: keep)
  from Cons.IH [OF captcha_step_simps(1) [OF Cons.prems(1)], of "(t, c)" "gs @ responses i [(t, c)]"] step rest' Cons.prems(3)
  show ?case using responses_Cons [of i d cs] by (simp add: d keep del: captcha_step.simps)
qed simp

lemma text_ok_ascii: "text_ok (ascii s)"
proof -
  have "(of_char c :: nat) < 0x110000" for c :: char
  proof -
    have "(of_char c :: nat) \<in> {0..<256}" using range_nat_of_char by blast
    then have "(of_char c :: nat) < 256" by (simp only: atLeastLessThan_iff)
    then show ?thesis by linarith
  qed
  then show ?thesis by (simp add: text_ok_def ascii_def)
qed

text \<open>
  The life of a challenge. Whatever is generated, answered and cleaned up in between,
  within its time to live a response to a challenge is answered in exactly one way: it counts as right
  if and only if, blanks around it aside, it is the decimal sum; after as many wrong responses as
  the verifier allows it is refused for good, and after a right one the challenge is gone.
\<close>

theorem captcha_exact:
  assumes "captcha_wf v" "0 \<le> cap_ttl v" "elapsed_since now t0 \<le> cap_ttl v" "text_ok g"
    and "\<forall>(t, c) \<in> set cs. \<not> generates i c \<and> elapsed_since t t0 \<le> cap_ttl v \<and> call_ok c"
  shows "fst (captcha_verify now i g (fold captcha_step cs (snd (generate_challenge t0 a b i v)))) =
    (if ascii (decimal (a + b)) \<in> set (responses i cs) \<or> length (responses i cs) > cap_max_attempts v
     then Inl (Store ''challenge not found or expired'')
     else if length (responses i cs) = cap_max_attempts v
     then Inl (Store (''too many attempts (max '' @ decimal (cap_max_attempts v) @ '')''))
     else Inr (trim g = ascii (decimal (a + b))))"
proof -
  let ?v = "snd (generate_challenge t0 a b i v)"
  let ?s = "fold captcha_step cs ?v"
  have keep: "cap_ttl ?v = cap_ttl v" "cap_max_attempts ?v = cap_max_attempts v"
    by (simp_all add: generate_challenge_def Let_def)
  have wf: "captcha_wf ?v" using assms(1) by (simp add: generate_challenge_def Let_def)
  have e: "map_of (cap_challenges ?v) i = challenge_after (ascii (decimal (a + b))) t0 (cap_max_attempts ?v) []"
    by (simp add: generate_challenge_def Let_def hm_simps challenge_after_def)
  from captcha_steps_after [OF wf e text_ok_ascii, of cs] assms(5)
  have s: "captcha_wf ?s" "cap_ttl ?s = cap_ttl v" "cap_max_attempts ?s = cap_max_attempts v"
    "map_of (cap_challenges ?s) i =
      challenge_after (ascii (decimal (a + b))) t0 (cap_max_attempts ?s) (responses i cs)"
    by (auto simp: keep)
  from verify_own(1) [OF s(1,4), of now g] assms(3,4) text_ok_ascii [of "decimal (a + b)"]
  show ?thesis by (simp add: s(2,3) text_ok_def)
qed

theorem captcha_exact_witness:
  "fst (captcha_verify 9 ''q'' (ascii ''10 '')
     (fold captcha_step [(5, Respond ''q'' (ascii ''11'')), (6, Generate 1 2 ''p''), (8, CleanUp)]
       (snd (generate_challenge 3 4 6 ''q'' captcha_new)))) = Inr True"
proof -
  have [simp]: "decimal 10 = ''10''" by (simp add: decimal.simps)
  have trim: "trim (ascii ''10 '') = ascii ''10''" "trim (ascii ''11'') = ascii ''11''"
    by (simp_all add: trim_def ascii_def is_whitespace_def)
  show ?thesis
    by (subst captcha_exact) (simp_all add: captcha_wf_def captcha_new_def elapsed_since_def text_ok_ascii trim
      DEFAULT_CAPTCHA_TTL_SECS_def DEFAULT_CAPTCHA_MAX_ATTEMPTS_def, simp_all add: ascii_def)
qed

text \<open>After its time a challenge is refused and forgotten.\<close>

lemma captcha_expires:
  assumes "map_of (cap_challenges v) i = Some e" "elapsed_since now (ce_created_at e) > cap_ttl v"
  shows "fst (captcha_verify now i g v) = Inl (Store ''challenge expired'') \<and>
    map_of (cap_challenges (snd (captcha_verify now i g v))) i = None"
  using assms by (simp add: captcha_verify_def)

end
