(* ===== verification/Allow_Lists.thy ===== *)
theory Allow_Lists
  imports Ip_Addresses One_Time
begin

unbundle bit_operations_syntax

text \<open>
  The allow lists: networks and addresses (\<^verbatim>\<open>src/service/verify/whitelist/network_source.rs\<close>),
  fingerprints of earlier credentials (\<^verbatim>\<open>previous_credential.rs\<close> beside it) and sources that are
  allowed for a time (\<^verbatim>\<open>src/auth/passport/temporary_whitelist.rs\<close>). A text is its bytes here. An
  instant plus a time to live is not bounded in the model; the code panics where
  \<^verbatim>\<open>Instant\<close> overflows.
\<close>

subsection \<open>Networks\<close>

datatype parsed_cidr =
    Cidr4 u32 u32
  | Cidr6 u128 u128
  | ExactIp ip_addr

definition parse_cidr :: "string \<Rightarrow> parsed_cidr option" where
  "parse_cidr cidr =
     (let parts = split_on CHR ''/'' cidr
      in if length parts \<noteq> 2
         then (case parse_ipv4 cidr of
                 Some v4 \<Rightarrow> Some (ExactIp (Ip4 v4))
               | None \<Rightarrow> map_option (\<lambda>v6. ExactIp (Ip6 v6)) (parse_ipv6 cidr))
         else
           (case parse_u32 (parts ! 1) of
              None \<Rightarrow> None
            | Some prefix_len \<Rightarrow>
                (case parse_ipv4 (parts ! 0) of
                   Some network \<Rightarrow>
                     if prefix_len > 32 then None
                     else Some (Cidr4 network (if prefix_len = 0 then 0 else push_bit (32 - prefix_len) (NOT 0)))
                 | None \<Rightarrow>
                     (case parse_ipv6 (parts ! 0) of
                        Some network \<Rightarrow>
                          if prefix_len > 128 then None
                          else Some (Cidr6 network (if prefix_len = 0 then 0 else push_bit (128 - prefix_len) (NOT 0)))
                      | None \<Rightarrow> None))))"

definition network_source_new :: "string list \<Rightarrow> parsed_cidr list" where
  "network_source_new allowed_networks = List.map_filter parse_cidr allowed_networks"

fun entry_allows :: "ip_addr \<Rightarrow> parsed_cidr \<Rightarrow> bool" where
  "entry_allows source_ip (ExactIp ip) \<longleftrightarrow> ip = source_ip"
| "entry_allows source_ip (Cidr4 network netmask) \<longleftrightarrow>
     (case source_ip of Ip4 bits \<Rightarrow> bits AND netmask = network AND netmask | Ip6 _ \<Rightarrow> False)"
| "entry_allows source_ip (Cidr6 network netmask) \<longleftrightarrow>
     (case source_ip of Ip6 bits \<Rightarrow> bits AND netmask = network AND netmask | Ip4 _ \<Rightarrow> False)"

definition is_allowed :: "parsed_cidr list \<Rightarrow> ip_addr \<Rightarrow> bool" where
  "is_allowed allowed_networks source_ip = list_ex (entry_allows source_ip) allowed_networks"

definition allowed_networks_count :: "parsed_cidr list \<Rightarrow> nat" where
  "allowed_networks_count allowed_networks = length allowed_networks"

subsection \<open>What a network denotes\<close>

datatype network =
    Host4 u32
  | Host6 u128
  | Net4 u32 nat
  | Net6 u128 nat

fun network_text :: "network \<Rightarrow> string" where
  "network_text (Host4 a) = ipv4_text a"
| "network_text (Host6 a) = ipv6_text a"
| "network_text (Net4 a p) = ipv4_text a @ ''/'' @ decimal p"
| "network_text (Net6 a p) = ipv6_text a @ ''/'' @ decimal p"

fun prefix_ok :: "network \<Rightarrow> bool" where
  "prefix_ok (Net4 a p) \<longleftrightarrow> p \<le> 32"
| "prefix_ok (Net6 a p) \<longleftrightarrow> p \<le> 128"
| "prefix_ok _ \<longleftrightarrow> True"

text \<open>The first bits of the address are those of the network.\<close>

fun covers :: "network \<Rightarrow> ip_addr \<Rightarrow> bool" where
  "covers (Host4 a) ip \<longleftrightarrow> ip = Ip4 a"
| "covers (Host6 a) ip \<longleftrightarrow> ip = Ip6 a"
| "covers (Net4 a p) (Ip4 b) \<longleftrightarrow> unat b div 2 ^ (32 - p) = unat a div 2 ^ (32 - p)"
| "covers (Net6 a p) (Ip6 b) \<longleftrightarrow> unat b div 2 ^ (128 - p) = unat a div 2 ^ (128 - p)"
| "covers _ _ \<longleftrightarrow> False"

lemma mask_eq_iff_div:
  fixes a b :: "'w::len word"
  assumes "0 < p" "p \<le> LENGTH('w)"
  shows "b AND push_bit (LENGTH('w) - p) (NOT 0) = a AND push_bit (LENGTH('w) - p) (NOT 0) \<longleftrightarrow>
    unat b div 2 ^ (LENGTH('w) - p) = unat a div 2 ^ (LENGTH('w) - p)"
proof -
  let ?k = "LENGTH('w) - p"
  have "b AND push_bit ?k (NOT 0) = a AND push_bit ?k (NOT 0) \<longleftrightarrow> drop_bit ?k b = drop_bit ?k a"
  proof
    assume eq: "b AND push_bit ?k (NOT 0) = a AND push_bit ?k (NOT 0)"
    have "drop_bit ?k (x AND push_bit ?k (NOT 0)) = drop_bit ?k x" for x :: "'w word"
      by (rule bit_eqI) (auto simp: bit_simps dest: bit_imp_le_length)
    with eq show "drop_bit ?k b = drop_bit ?k a" by metis
  next
    assume eq: "drop_bit ?k b = drop_bit ?k a"
    have "x AND push_bit ?k (NOT 0) = push_bit ?k (drop_bit ?k x)" for x :: "'w word"
    proof (rule bit_eqI)
      fix n
      show "bit (x AND push_bit ?k (NOT 0)) n \<longleftrightarrow> bit (push_bit ?k (drop_bit ?k x)) n"
        using assms by (cases "n < LENGTH('w)") (auto simp: bit_simps dest: bit_imp_le_length)
    qed
    with eq show "b AND push_bit ?k (NOT 0) = a AND push_bit ?k (NOT 0)" by metis
  qed
  also have "\<dots> \<longleftrightarrow> unat (drop_bit ?k b) = unat (drop_bit ?k a)" by (simp only: word_unat_eq_iff)
  finally show ?thesis
    by (simp only: unsigned_drop_bit_eq drop_bit_eq_div [where ?'a = nat]) (simp add: take_bit_nat_eq_self unsigned_less [where ?'a = nat])
qed

lemma decimal_no_slash: "CHR ''/'' \<notin> set (decimal n)"
  using set_decimal [of n] by auto

lemma separated_no_slash:
  "CHR ''/'' \<notin> set sep \<Longrightarrow> \<forall>x \<in> set xs. CHR ''/'' \<notin> set x \<Longrightarrow> CHR ''/'' \<notin> set (separated sep xs)"
  by (induction sep xs rule: separated.induct) auto

lemma ip_text_no_slash:
  "CHR ''/'' \<notin> set (ipv4_text a)"
  "CHR ''/'' \<notin> set (ipv6_text b)"
proof -
  have "CHR ''/'' \<notin> set (hex4 g)" for g
  proof -
    have "to_digit 16 c \<noteq> None" if "c \<in> set (hex4 g)" for c
      using that by (auto simp: hex4_def to_digit_16 dest: base_digits_less [rotated])
    moreover have "to_digit 16 CHR ''/'' = None" by (simp add: to_digit_def)
    ultimately show ?thesis by metis
  qed
  then show "CHR ''/'' \<notin> set (ipv4_text a)" "CHR ''/'' \<notin> set (ipv6_text b)"
    unfolding ipv4_text_def ipv6_text_def
    by (intro separated_no_slash; simp add: decimal_no_slash)+
qed

text \<open>
  An entry reads as a network: an address alone, or an address, one slash and a length that fits
  the family.
\<close>

inductive reads_as :: "string \<Rightarrow> network \<Rightarrow> bool" where
  host4: "parse_ipv4 t = Some a \<Longrightarrow> reads_as t (Host4 a)"
| host6: "parse_ipv6 t = Some a \<Longrightarrow> reads_as t (Host6 a)"
| net4: "parse_ipv4 t = Some a \<Longrightarrow> parse_u32 l = Some p \<Longrightarrow> p \<le> 32 \<Longrightarrow> reads_as (t @ ''/'' @ l) (Net4 a p)"
| net6: "parse_ipv6 t = Some a \<Longrightarrow> parse_u32 l = Some p \<Longrightarrow> p \<le> 128 \<Longrightarrow> reads_as (t @ ''/'' @ l) (Net6 a p)"

text \<open>Every network has an entry that reads as it; other spellings do too.\<close>

lemma network_text_reads: "prefix_ok n \<Longrightarrow> reads_as (network_text n) n"
  using reads_as.net4 [of "ipv4_text a" a "decimal p" p for a p] reads_as.net6 [of "ipv6_text a" a "decimal p" p for a p]
  by (cases n) (auto intro!: reads_as.host4 reads_as.host6)

lemma reads_as_examples:
  "reads_as ''::1/128'' (Net6 1 128)"
  "reads_as ''2001:db8::/32'' (Net6 0x20010db8000000000000000000000000 32)"
  "reads_as ''10.0.0.0/8'' (Net4 0x0A000000 8)"
  "reads_as ''192.168.1.7'' (Host4 0xC0A80107)"
proof -
  have "parse_ipv6 ''::1'' = Some 1" "parse_ipv6 ''2001:db8::'' = Some 0x20010db8000000000000000000000000"
    by (simp_all add: parse_ipv6_def parse_examples horner_def)
  moreover have "parse_ipv4 ''10.0.0.0'' = Some 0x0A000000" "parse_ipv4 ''192.168.1.7'' = Some 0xC0A80107"
    by (simp_all add: parse_ipv4_def read_ipv4_addr_def read_numeral read_separator_def read_number_def
      to_digit_def digits_value_def horner_def)
  moreover have "parse_u32 ''128'' = Some 128" "parse_u32 ''32'' = Some 32" "parse_u32 ''8'' = Some 8"
    by (simp_all add: parse_u32_def to_digit_def digits_value_def)
  ultimately show "reads_as ''::1/128'' (Net6 1 128)"
    "reads_as ''2001:db8::/32'' (Net6 0x20010db8000000000000000000000000 32)"
    "reads_as ''10.0.0.0/8'' (Net4 0x0A000000 8)" "reads_as ''192.168.1.7'' (Host4 0xC0A80107)"
    using reads_as.net6 [of "''::1''" 1 "''128''" 128] reads_as.net6 [of "''2001:db8::''" _ "''32''" 32]
      reads_as.net4 [of "''10.0.0.0''" _ "''8''" 8] reads_as.host4 by simp_all
qed

text \<open>No parser reads a slash.\<close>

lemma to_digit_slash: "radix \<le> 36 \<Longrightarrow> to_digit radix CHR ''/'' = None"
  by (simp add: to_digit_def)

lemma read_number_slash:
  assumes "read_number r m z b s = Some (n, s')" "r \<le> 36" "CHR ''/'' \<in> set s"
  shows "CHR ''/'' \<in> set s'"
proof -
  let ?ds = "takeWhile (\<lambda>c. to_digit r c \<noteq> None) s"
  have s': "s' = dropWhile (\<lambda>c. to_digit r c \<noteq> None) s"
    using assms(1) by (auto simp: read_number_def Let_def dropWhile_eq_drop split: if_splits)
  have "CHR ''/'' \<notin> set ?ds" using to_digit_slash [OF assms(2)] by (metis set_takeWhileD)
  with assms(3) s' show ?thesis by (metis Un_iff set_append takeWhile_dropWhile_id)
qed

lemma read_given_char_Some: "read_given_char c s = Some s' \<longleftrightarrow> s = c # s'"
  by (cases s) auto

lemma read_octets_slash:
  "read_octets k i s = Some (os, s') \<Longrightarrow> CHR ''/'' \<in> set s \<Longrightarrow> CHR ''/'' \<in> set s'"
proof (induction k i s arbitrary: os rule: read_octets.induct)
  case (2 k i s)
  then obtain n s1 os1 where r: "read_separator CHR ''.'' i (read_number 10 3 False 256) s = Some (n, s1)"
    "read_octets k (Suc i) s1 = Some (os1, s')"
    by (auto split: bind_splits)
  have "CHR ''/'' \<in> set s1"
    using r(1) 2(3) by (auto simp: read_separator_def read_given_char_Some dest: read_number_slash split: if_splits bind_splits)
  from 2(1) [OF r(1) refl r(2) this] show ?case .
qed simp

lemma read_ipv4_slash: "read_ipv4_addr s = Some (os, s') \<Longrightarrow> CHR ''/'' \<in> set s \<Longrightarrow> CHR ''/'' \<in> set s'"
  unfolding read_ipv4_addr_def by (rule read_octets_slash)

lemma read_groups_slash:
  "read_groups k i s = (gs, b, s') \<Longrightarrow> CHR ''/'' \<in> set s \<Longrightarrow> CHR ''/'' \<in> set s'"
proof (induction k i s arbitrary: gs rule: read_groups.induct)
  case (2 k i s)
  have sep: "CHR ''/'' \<in> set s1" if "read_separator CHR '':'' i (read_number 16 4 True 65536) s = Some (g, s1)" for g s1
    using that 2(3) by (auto simp: read_separator_def read_given_char_Some dest: read_number_slash split: if_splits bind_splits)
  have emb: "CHR ''/'' \<in> set s1" if "read_separator CHR '':'' i read_ipv4_addr s = Some (os, s1)" for os s1
    using that 2(3) by (auto simp: read_separator_def read_given_char_Some dest: read_ipv4_slash split: if_splits bind_splits)
  from 2 show ?case
    by (cases "read_groups k (Suc i) (snd (the (read_separator CHR '':'' i (read_number 16 4 True 65536) s)))")
      (auto dest: sep emb split: option.splits if_splits)
qed simp

lemma read_ipv6_slash: "read_ipv6_addr s = Some (gs, s') \<Longrightarrow> CHR ''/'' \<in> set s \<Longrightarrow> CHR ''/'' \<in> set s'"
  by (auto simp: read_ipv6_addr_def Let_def read_given_char_Some dest!: read_groups_slash
    split: prod.splits if_splits bind_splits)

lemma parsed_no_slash:
  "parse_ipv4 t = Some a \<Longrightarrow> CHR ''/'' \<notin> set t"
  "parse_ipv6 t = Some b \<Longrightarrow> CHR ''/'' \<notin> set t"
  "parse_u32 l = Some p \<Longrightarrow> CHR ''/'' \<notin> set l"
proof -
  show "parse_ipv4 t = Some a \<Longrightarrow> CHR ''/'' \<notin> set t"
    by (auto simp: parse_ipv4_def dest: read_ipv4_slash split: option.splits prod.splits list.splits if_splits)
  show "parse_ipv6 t = Some b \<Longrightarrow> CHR ''/'' \<notin> set t"
    by (auto simp: parse_ipv6_def dest: read_ipv6_slash split: option.splits prod.splits list.splits)
  show "parse_u32 l = Some p \<Longrightarrow> CHR ''/'' \<notin> set l"
    using to_digit_slash [of 10]
    by (auto simp: parse_u32_def Let_def list_all_iff split: list.splits if_splits)
qed

text \<open>A text is an address of one family at most.\<close>

lemma parse_ipv4_not_ipv6:
  assumes "parse_ipv4 t = Some a"
  shows "parse_ipv6 t = None"
proof -
  obtain os where os: "read_ipv4_addr t = Some (os, [])"
    using assms by (auto simp: parse_ipv4_def split: option.splits prod.splits list.splits if_splits)
  then have "read_groups 8 0 t = ([horner 256 (take 2 os), horner 256 (drop 2 os)], True, [])"
    by (simp add: read_numeral read_separator_def)
  then show ?thesis by (simp add: parse_ipv6_def read_ipv6_addr_def)
qed

lemma net_entry_covers:
  "p \<le> 32 \<Longrightarrow> entry_allows ip (Cidr4 a (if p = 0 then 0 else push_bit (32 - p) (NOT 0))) \<longleftrightarrow> covers (Net4 a p) ip"
  "p \<le> 128 \<Longrightarrow> entry_allows ip (Cidr6 b (if p = 0 then 0 else push_bit (128 - p) (NOT 0))) \<longleftrightarrow> covers (Net6 b p) ip"
proof -
  show "entry_allows ip (Cidr4 a (if p = 0 then 0 else push_bit (32 - p) (NOT 0))) \<longleftrightarrow> covers (Net4 a p) ip" if "p \<le> 32"
    using mask_eq_iff_div [of p, where 'w = 32] that unsigned_less [where ?'a = nat and ?'b = 32]
    by (cases ip) (auto simp: div_eq_0_iff)
  show "entry_allows ip (Cidr6 b (if p = 0 then 0 else push_bit (128 - p) (NOT 0))) \<longleftrightarrow> covers (Net6 b p) ip" if "p \<le> 128"
    using mask_eq_iff_div [of p, where 'w = 128] that unsigned_less [where ?'a = nat and ?'b = 128]
    by (cases ip) (auto simp: div_eq_0_iff)
qed


text \<open>The code's entry and the networks a text reads as allow the same addresses.\<close>

lemma parse_cidr_complete:
  assumes "reads_as c n"
  shows "\<exists>e. parse_cidr c = Some e \<and> (\<forall>ip. entry_allows ip e \<longleftrightarrow> covers n ip)"
  using assms
proof cases
  case (net4 t a l p)
  then show ?thesis
    using net_entry_covers(1) parsed_no_slash(1,3) parse_ipv4_not_ipv6
    by (auto simp: parse_cidr_def split_on_append split_on_name)
next
  case (net6 t a l p)
  then have "parse_ipv4 t = None" using parse_ipv4_not_ipv6 by fastforce
  with net6 show ?thesis
    using net_entry_covers(2) parsed_no_slash(2,3)
    by (auto simp: parse_cidr_def split_on_append split_on_name)
next
  case (host6 a)
  moreover from this have "parse_ipv4 c = None" using parse_ipv4_not_ipv6 by fastforce
  ultimately show ?thesis using parsed_no_slash(2) by (auto simp: parse_cidr_def split_on_name)
next
  case (host4 a)
  then show ?thesis using parsed_no_slash(1) by (auto simp: parse_cidr_def split_on_name)
qed

lemma split_on_not_Nil: "split_on c s \<noteq> []"
  by (cases s) (auto split: list.splits)

lemma split_on_single: "split_on c s = [x] \<Longrightarrow> s = x"
  by (induction s arbitrary: x) (auto simp: split_on_not_Nil split: list.splits if_splits)

lemma split_on_pair: "split_on c s = [x, y] \<Longrightarrow> s = x @ c # y"
  by (induction s arbitrary: x) (auto simp: split_on_not_Nil dest: split_on_single split: list.splits if_splits)

lemma parse_cidr_sound:
  assumes "parse_cidr c = Some e"
  shows "\<exists>n. reads_as c n \<and> (\<forall>ip. entry_allows ip e \<longleftrightarrow> covers n ip)"
proof (cases "length (split_on CHR ''/'' c) = 2")
  case False
  with assms show ?thesis
    by (auto simp: parse_cidr_def intro: reads_as.host4 reads_as.host6 split: option.splits)
next
  case True
  then obtain t l where parts: "split_on CHR ''/'' c = [t, l]"
    by (metis length_0_conv length_Suc_conv numeral_2_eq_2)
  then have c: "c = t @ ''/'' @ l" using split_on_pair by fastforce
  from assms obtain p where p: "parse_u32 l = Some p"
    by (auto simp: parse_cidr_def Let_def parts split: option.splits)
  show ?thesis
  proof (cases "parse_ipv4 t")
    case (Some a)
    with assms p have "p \<le> 32" "e = Cidr4 a (if p = 0 then 0 else push_bit (32 - p) (NOT 0))"
      by (simp_all add: parse_cidr_def Let_def parts split: if_splits)
    with c p Some reads_as.net4 net_entry_covers(1) show ?thesis by blast
  next
    case None
    with assms p obtain a where a: "parse_ipv6 t = Some a" "p \<le> 128"
      "e = Cidr6 a (if p = 0 then 0 else push_bit (128 - p) (NOT 0))"
      by (simp add: parse_cidr_def Let_def parts split: option.splits if_splits)
    with c p reads_as.net6 net_entry_covers(2) show ?thesis by blast
  qed
qed

text \<open>
  C28: a list of networks and addresses allows an address exactly when some entry of it reads as a
  network that covers the address. An entry reads as a host when it is an address of either
  family in any spelling the standard parser accepts, shorthand and embedded forms included, and
  as a network when it is an address, one slash and a length within the family's width; a host
  covers itself alone, and a network of length p every address of its own family whose first p
  bits are the network's. Entries that read as nothing admit no address, whatever stands beside
  them.
\<close>

theorem network_allow_exact:
  "is_allowed (network_source_new cs) ip \<longleftrightarrow> (\<exists>c n. c \<in> set cs \<and> reads_as c n \<and> covers n ip)"
proof -
  have "is_allowed (network_source_new cs) ip \<longleftrightarrow> (\<exists>c \<in> set cs. \<exists>e. parse_cidr c = Some e \<and> entry_allows ip e)"
    unfolding is_allowed_def network_source_new_def list_ex_iff Bex_def set_map_filter_iff by blast
  also have "\<dots> \<longleftrightarrow> (\<exists>c n. c \<in> set cs \<and> reads_as c n \<and> covers n ip)"
    using parse_cidr_complete parse_cidr_sound by (metis option.inject)
  finally show ?thesis .
qed

lemma network_allow_examples:
  "is_allowed (network_source_new [''not-a-cidr'', ''::1/128'']) (Ip6 1)"
  "is_allowed (network_source_new [''2001:db8::/32'']) (Ip6 0x20010db8000000000000000000000001)"
  "is_allowed (network_source_new [''10.0.0.0/8'']) (Ip4 0x0A2A0001)"
proof -
  note entry = is_allowed_def network_source_new_def list_ex_iff set_map_filter_iff
  have allows: "is_allowed (network_source_new cs) ip" if "reads_as c n" "c \<in> set cs" "covers n ip" for c n cs ip
    using parse_cidr_complete [OF that(1)] that(2,3) unfolding entry Bex_def by blast
  show "is_allowed (network_source_new [''not-a-cidr'', ''::1/128'']) (Ip6 1)"
    "is_allowed (network_source_new [''2001:db8::/32'']) (Ip6 0x20010db8000000000000000000000001)"
    "is_allowed (network_source_new [''10.0.0.0/8'']) (Ip4 0x0A2A0001)"
    by (rule allows, rule reads_as_examples, simp, simp)+
qed

subsection \<open>Earlier credentials\<close>

type_synonym previous_credentials = "(string, string) hash_map"

definition previous_register :: "string \<Rightarrow> string \<Rightarrow> previous_credentials \<Rightarrow> previous_credentials" where
  "previous_register uid credential_hash store = AList.update uid credential_hash store"

definition previous_verify :: "string \<Rightarrow> string \<Rightarrow> previous_credentials \<Rightarrow> bool result" where
  "previous_verify uid credential_hash store =
     (let stored = (case map_of store uid of Some s \<Rightarrow> str_bytes s | None \<Rightarrow> []);
          r = constant_time_eq stored (str_bytes credential_hash)
      in Inr (r \<and> stored \<noteq> []))"

definition previous_unregister :: "string \<Rightarrow> previous_credentials \<Rightarrow> previous_credentials" where
  "previous_unregister uid store = AList.delete uid store"

lemma str_bytes_eq_Nil: "str_bytes s = [] \<longleftrightarrow> s = []"
  by (simp add: str_bytes_def)

lemma previous_verify_iff:
  "previous_verify uid h store = Inr True \<longleftrightarrow> map_of store uid = Some h \<and> h \<noteq> []"
  by (auto simp: previous_verify_def Let_def constant_time_eq_iff str_bytes_eq_Nil split: option.split)

lemma previous_after:
  "previous_verify uid h (previous_register uid h' store) = Inr True \<longleftrightarrow> h = h' \<and> h \<noteq> []"
  "previous_verify uid h (previous_unregister uid store) = Inr False"
  by (auto simp: previous_verify_iff previous_register_def previous_verify_def previous_unregister_def hm_simps Let_def
    str_bytes_eq_Nil constant_time_eq_iff)

subsection \<open>Temporary sources\<close>

datatype client_source = SourceIp ip_addr | SourceMac string

record whitelist_entry =
  we_source :: client_source
  we_expires_at :: "instant option"

type_synonym whitelist = "whitelist_entry list"

fun is_whitelisted :: "instant \<Rightarrow> client_source \<Rightarrow> whitelist \<Rightarrow> bool result" where
  "is_whitelisted now source [] = Inr False"
| "is_whitelisted now source (entry # entries) =
     (if we_source entry = source \<and> (case we_expires_at entry of Some expires \<Rightarrow> now < expires | None \<Rightarrow> True)
      then Inr True else is_whitelisted now source entries)"

definition whitelist_add :: "instant \<Rightarrow> client_source \<Rightarrow> int option \<Rightarrow> whitelist \<Rightarrow> whitelist" where
  "whitelist_add now source lifetime entries =
     (let expires_at = map_option (\<lambda>d. now + d) lifetime
      in filter (\<lambda>e. we_source e \<noteq> source) entries @ [\<lparr>we_source = source, we_expires_at = expires_at\<rparr>])"

definition whitelist_remove :: "client_source \<Rightarrow> whitelist \<Rightarrow> whitelist" where
  "whitelist_remove source entries = filter (\<lambda>e. we_source e \<noteq> source) entries"

definition whitelist_cleanup_expired :: "instant \<Rightarrow> whitelist \<Rightarrow> nat \<times> whitelist" where
  "whitelist_cleanup_expired now entries =
     (let before = length entries
      in if before = 0 then (0, entries)
         else
           let entries' = filter (\<lambda>e. case we_expires_at e of None \<Rightarrow> True | Some expires \<Rightarrow> now < expires) entries
           in (before - length entries', entries'))"

definition whitelist_len :: "whitelist \<Rightarrow> nat" where "whitelist_len entries = length entries"
definition whitelist_is_empty :: "whitelist \<Rightarrow> bool" where "whitelist_is_empty entries \<longleftrightarrow> entries = []"

datatype whitelist_call =
    AddSource client_source "int option"
  | RemoveSource client_source
  | CleanSources

fun whitelist_step :: "instant \<times> whitelist_call \<Rightarrow> whitelist \<Rightarrow> whitelist" where
  "whitelist_step (now, AddSource src lifetime) s = whitelist_add now src lifetime s"
| "whitelist_step (now, RemoveSource src) s = whitelist_remove src s"
| "whitelist_step (now, CleanSources) s = snd (whitelist_cleanup_expired now s)"

text \<open>Whether a source is allowed by the last call that named it; the calls latest first.\<close>

fun allowed_by :: "instant \<Rightarrow> client_source \<Rightarrow> (instant \<times> whitelist_call) list \<Rightarrow> bool" where
  "allowed_by now src [] \<longleftrightarrow> False"
| "allowed_by now src ((t, AddSource s lifetime) # cs) \<longleftrightarrow>
     (if s = src then (case lifetime of None \<Rightarrow> True | Some d \<Rightarrow> now < t + d) else allowed_by now src cs)"
| "allowed_by now src ((t, RemoveSource s) # cs) \<longleftrightarrow> s \<noteq> src \<and> allowed_by now src cs"
| "allowed_by now src ((t, CleanSources) # cs) \<longleftrightarrow> allowed_by now src cs"

abbreviation live_at :: "instant \<Rightarrow> whitelist_entry \<Rightarrow> bool" where
  "live_at now e \<equiv> (case we_expires_at e of None \<Rightarrow> True | Some expires \<Rightarrow> now < expires)"

lemma is_whitelisted_iff:
  "is_whitelisted now src s = Inr (\<exists>e \<in> set s. we_source e = src \<and> live_at now e)"
  by (induction s) (auto split: option.splits)

lemma cleanup_snd: "snd (whitelist_cleanup_expired now s) = filter (live_at now) s"
  by (simp add: whitelist_cleanup_expired_def Let_def)

lemma allowed_after:
  assumes "t \<le> now"
  shows "(\<exists>e \<in> set (whitelist_step (t, c) s). we_source e = src \<and> live_at now e) \<longleftrightarrow>
    (case c of
       AddSource a lifetime \<Rightarrow>
         if a = src then (case lifetime of None \<Rightarrow> True | Some d \<Rightarrow> now < t + d)
         else (\<exists>e \<in> set s. we_source e = src \<and> live_at now e)
     | RemoveSource a \<Rightarrow> a \<noteq> src \<and> (\<exists>e \<in> set s. we_source e = src \<and> live_at now e)
     | CleanSources \<Rightarrow> (\<exists>e \<in> set s. we_source e = src \<and> live_at now e))"
proof (cases c)
  case (AddSource a lifetime)
  then show ?thesis by (cases lifetime) (auto simp: whitelist_add_def)
next
  case (RemoveSource a)
  then show ?thesis by (auto simp: whitelist_remove_def)
next
  case CleanSources
  have "live_at now e \<Longrightarrow> live_at t e" for e using assms by (auto split: option.splits)
  then show ?thesis by (auto simp: CleanSources cleanup_snd)
qed

text \<open>
  A source is allowed at a time exactly when the last call that named it added it, for
  good or for a time that is not over, however many sources were added, removed and cleaned
  up meanwhile.
\<close>

theorem temporary_whitelist_exact:
  assumes "\<forall>(t, c) \<in> set cs. t \<le> now"
  shows "is_whitelisted now src (fold whitelist_step cs []) = Inr (allowed_by now src (rev cs))"
proof -
  have "(\<exists>e \<in> set (fold whitelist_step cs []). we_source e = src \<and> live_at now e) \<longleftrightarrow> allowed_by now src (rev cs)"
    using assms
  proof (induction cs rule: rev_induct)
    case (snoc c cs)
    obtain t call where c: "c = (t, call)" by force
    from snoc.prems have "t \<le> now" by (simp add: c)
    with snoc show ?case by (simp add: c allowed_after del: whitelist_step.simps) (cases call; simp)
  qed simp
  then show ?thesis by (simp add: is_whitelisted_iff)
qed

theorem temporary_whitelist_exact_witness:
  "is_whitelisted 9 (SourceMac ''m'') (fold whitelist_step
     [(0, AddSource (SourceMac ''m'') (Some 10)), (1, AddSource (SourceIp (Ip4 7)) None), (2, CleanSources)] []) = Inr True"
  by (subst temporary_whitelist_exact) simp_all

end
