(* ===== verification/One_Time_Passwords.thy ===== *)
theory One_Time_Passwords
  imports Jwt_Credentials One_Time
begin

unbundle bit_operations_syntax

text \<open>
  \<^verbatim>\<open>src/auth/passport/dynamic_password.rs\<close>: one-time passwords from a clock (TOTP) and from a
  counter (HOTP). HMAC-SHA1 is a parameter; what is relied on is that it yields 20 bytes
  (\<open>mac_ok\<close>). The code is the 32-bit computation of the source. The compare-and-swap loop of
  HOTP runs concurrently: one step is one atomic operation of one thread, and a run is any
  schedule of threads. An overflowing counter wraps, as in a release build.
\<close>

subsection \<open>Codes\<close>

type_synonym mac = "byte list \<Rightarrow> byte list \<Rightarrow> string + byte list"

definition mac_ok :: "mac \<Rightarrow> bool" where
  "mac_ok hmac \<longleftrightarrow> (\<forall>k m bytes. hmac k m = Inr bytes \<longrightarrow> length bytes = 20)"

definition MAX_DIGITS :: nat where "MAX_DIGITS = 9"

definition clamp_digits :: "nat \<Rightarrow> nat" where
  "clamp_digits digits = min MAX_DIGITS (max 1 digits)"

definition to_be_bytes :: "u64 \<Rightarrow> byte list" where
  "to_be_bytes c = map (\<lambda>i. ucast (drop_bit (8 * i) c)) (rev [0..<8])"

definition dynamic_truncation :: "byte list \<Rightarrow> u32" where
  "dynamic_truncation bytes =
     (let offset = unat ((bytes ! 19) AND 0x0f)
      in push_bit 24 (ucast (bytes ! offset) AND 0x7f)
         OR push_bit 16 (ucast (bytes ! (offset + 1)) AND 0xff)
         OR push_bit 8 (ucast (bytes ! (offset + 2)) AND 0xff)
         OR (ucast (bytes ! (offset + 3)) AND 0xff))"

definition hotp_code :: "mac \<Rightarrow> byte list \<Rightarrow> u64 \<Rightarrow> nat \<Rightarrow> u32 result" where
  "hotp_code hmac secret counter digits =
     (let digits' = clamp_digits digits
      in case hmac secret (to_be_bytes counter) of
           Inl e \<Rightarrow> Inl (Store (''HMAC init failed: '' @ e))
         | Inr bytes \<Rightarrow> Inr (dynamic_truncation bytes mod 10 ^ digits'))"

definition format_code :: "u32 \<Rightarrow> nat \<Rightarrow> string" where
  "format_code code digits =
     (let s = decimal (unat code) in replicate (digits - length s) CHR ''0'' @ s)"

subsection \<open>TOTP\<close>

record totp_verifier =
  tv_secret :: "byte list"
  tv_digits :: nat
  tv_period_secs :: nat

definition totp_new :: "byte list \<Rightarrow> totp_verifier" where
  "totp_new secret = \<lparr>tv_secret = secret, tv_digits = 6, tv_period_secs = 30\<rparr>"

definition totp_with_options :: "byte list \<Rightarrow> nat \<Rightarrow> nat \<Rightarrow> totp_verifier" where
  "totp_with_options secret digits period_secs =
     \<lparr>tv_secret = secret, tv_digits = clamp_digits digits, tv_period_secs = max period_secs 1\<rparr>"

definition generate_at :: "mac \<Rightarrow> totp_verifier \<Rightarrow> u64 \<Rightarrow> string result" where
  "generate_at hmac tv counter =
     and_then (hotp_code hmac (tv_secret tv) counter (tv_digits tv)) (\<lambda>code. Inr (format_code code (tv_digits tv)))"

definition code_at :: "mac \<Rightarrow> totp_verifier \<Rightarrow> u64 \<Rightarrow> string result" where
  "code_at = generate_at"

definition time_step :: "totp_verifier \<Rightarrow> instant \<Rightarrow> u64" where
  "time_step tv now = of_int (timestamp now) div of_nat (tv_period_secs tv)"

definition saturating_pred :: "u64 \<Rightarrow> u64" where
  "saturating_pred c = (if c = 0 then 0 else c - 1)"

definition saturating_succ :: "u64 \<Rightarrow> u64" where
  "saturating_succ c = (if c = - 1 then c else c + 1)"

definition totp_verify :: "mac \<Rightarrow> totp_verifier \<Rightarrow> instant \<Rightarrow> string \<Rightarrow> bool result" where
  "totp_verify hmac tv now code =
     (let step = time_step tv now
      in and_then (generate_at hmac tv step) (\<lambda>generated.
         and_then (generate_at hmac tv (saturating_pred step)) (\<lambda>generated_prev.
         and_then (generate_at hmac tv (saturating_succ step)) (\<lambda>generated_next.
           Inr (constant_time_eq (str_bytes generated) (str_bytes code) \<or>
                constant_time_eq (str_bytes generated_prev) (str_bytes code) \<or>
                constant_time_eq (str_bytes generated_next) (str_bytes code))))))"

definition totp_generate :: "mac \<Rightarrow> totp_verifier \<Rightarrow> instant \<Rightarrow> string result" where
  "totp_generate hmac tv now = generate_at hmac tv (time_step tv now)"

subsection \<open>HOTP\<close>

definition MAX_VERIFY_RETRIES :: nat where "MAX_VERIFY_RETRIES = 3"

datatype hotp_thread =
    Load nat
  | Swap nat u64
  | Returned "bool result"

text \<open>
  The counter, what each thread does next, and, for the statements only, the threads that
  succeeded with the counter value each of them used up.
\<close>

record hotp_state =
  ho_counter :: u64
  ho_threads :: "nat \<Rightarrow> hotp_thread"
  ho_accepted :: "(nat \<times> u64) list"

definition hotp_new :: "u64 \<Rightarrow> hotp_state" where
  "hotp_new counter = \<lparr>ho_counter = counter, ho_threads = (\<lambda>_. Load 0), ho_accepted = []\<rparr>"

definition hotp_text :: "mac \<Rightarrow> byte list \<Rightarrow> u64 \<Rightarrow> string result" where
  "hotp_text hmac secret counter = and_then (hotp_code hmac secret counter 6) (\<lambda>c. Inr (format_code c 6))"

definition hotp_step :: "mac \<Rightarrow> byte list \<Rightarrow> (nat \<Rightarrow> string) \<Rightarrow> nat \<Rightarrow> hotp_state \<Rightarrow> hotp_state" where
  "hotp_step hmac secret presented i s =
     (case ho_threads s i of
        Load retries \<Rightarrow>
          let current = ho_counter s
          in s\<lparr>ho_threads := (ho_threads s)(i :=
               (case hotp_text hmac secret current of
                  Inl e \<Rightarrow> Returned (Inl e)
                | Inr formatted \<Rightarrow>
                    if constant_time_eq (str_bytes formatted) (str_bytes (presented i))
                    then Swap retries current else Returned (Inr False)))\<rparr>
      | Swap retries current \<Rightarrow>
          if ho_counter s = current
          then s\<lparr>ho_counter := current + 1, ho_threads := (ho_threads s)(i := Returned (Inr True)),
                 ho_accepted := ho_accepted s @ [(i, current)]\<rparr>
          else s\<lparr>ho_threads := (ho_threads s)(i :=
                 (if retries + 1 \<ge> MAX_VERIFY_RETRIES then Returned (Inr False) else Load (retries + 1)))\<rparr>
      | Returned r \<Rightarrow> s)"

subsection \<open>The text of a code\<close>

lemma format_code_shape:
  assumes "unat code < 10 ^ digits" "0 < digits"
  shows "length (format_code code digits) = digits" "set (format_code code digits) \<subseteq> set ''0123456789''"
proof -
  have "length (decimal (unat code)) \<le> digits" by (rule length_decimal [OF assms])
  then show "length (format_code code digits) = digits" by (simp add: format_code_def Let_def)
  show "set (format_code code digits) \<subseteq> set ''0123456789''"
    using set_decimal [of "unat code"] by (auto simp: format_code_def Let_def)
qed

lemma clamp_digits_range: "1 \<le> clamp_digits d" "clamp_digits d \<le> 9"
  by (simp_all add: clamp_digits_def MAX_DIGITS_def)

lemma clamp_digits_id: "1 \<le> d \<Longrightarrow> d \<le> 9 \<Longrightarrow> clamp_digits d = d"
  by (simp add: clamp_digits_def MAX_DIGITS_def)

lemma hotp_code_less:
  assumes "hotp_code hmac secret counter digits = Inr code"
  shows "unat code < 10 ^ clamp_digits digits"
proof -
  from assms obtain x :: u32 where code: "code = x mod 10 ^ clamp_digits digits"
    by (auto simp: hotp_code_def Let_def split: sum.splits)
  have "clamp_digits digits \<in> {1, 2, 3, 4, 5, 6, 7, 8, 9}"
    using clamp_digits_range [of digits] by (simp, presburger)
  then have "unat (10 ^ clamp_digits digits :: u32) = 10 ^ clamp_digits digits" by auto
  then have "unat code = unat x mod 10 ^ clamp_digits digits" by (simp add: code unat_mod_distrib)
  then show ?thesis by simp
qed

definition totp_wf :: "totp_verifier \<Rightarrow> bool" where
  "totp_wf tv \<longleftrightarrow> 1 \<le> tv_digits tv \<and> tv_digits tv \<le> 9 \<and> 1 \<le> tv_period_secs tv \<and> tv_period_secs tv < 2 ^ 32"

lemma totp_wf_new: "totp_wf (totp_new secret)"
  by (simp add: totp_wf_def totp_new_def)

lemma totp_wf_with_options: "period_secs < 2 ^ 32 \<Longrightarrow> totp_wf (totp_with_options secret digits period_secs)"
  using clamp_digits_range [of digits] by (simp add: totp_wf_def totp_with_options_def)

lemma generate_at_shape:
  assumes "totp_wf tv" "generate_at hmac tv counter = Inr code"
  shows "length code = tv_digits tv \<and> set code \<subseteq> set ''0123456789''"
proof -
  from assms(2) obtain c where c: "hotp_code hmac (tv_secret tv) counter (tv_digits tv) = Inr c"
    "code = format_code c (tv_digits tv)" by (auto simp: generate_at_def and_then_eq_Inr)
  from assms(1) have d: "clamp_digits (tv_digits tv) = tv_digits tv" "0 < tv_digits tv"
    by (simp_all add: totp_wf_def clamp_digits_id)
  from hotp_code_less [OF c(1)] format_code_shape [of c "tv_digits tv"] show ?thesis by (simp add: c(2) d)
qed

definition mac_total :: "mac \<Rightarrow> bool" where
  "mac_total hmac \<longleftrightarrow> (\<forall>k m. is_ok (hmac k m))"

lemma generate_at_total: "mac_total hmac \<Longrightarrow> \<exists>code. generate_at hmac tv counter = Inr code"
proof -
  assume "mac_total hmac"
  then obtain bytes where "hmac (tv_secret tv) (to_be_bytes counter) = Inr bytes"
    unfolding mac_total_def is_ok_iff by blast
  then show ?thesis by (simp add: generate_at_def hotp_code_def Let_def)
qed

lemma totp_verify_iff:
  assumes "mac_total hmac"
  shows "totp_verify hmac tv now code =
    Inr (\<exists>c \<in> {time_step tv now, saturating_pred (time_step tv now), saturating_succ (time_step tv now)}.
      generate_at hmac tv c = Inr code)"
proof -
  let ?c = "time_step tv now"
  obtain a b c where "generate_at hmac tv ?c = Inr a" "generate_at hmac tv (saturating_pred ?c) = Inr b"
    "generate_at hmac tv (saturating_succ ?c) = Inr c"
    using generate_at_total [OF assms] by metis
  then show ?thesis by (auto simp: totp_verify_def Let_def constant_time_eq_iff)
qed

text \<open>The step of a time after the epoch, as a number.\<close>

definition step_at :: "totp_verifier \<Rightarrow> instant \<Rightarrow> nat" where
  "step_at tv now = nat (timestamp now) div tv_period_secs tv"

lemma time_step_nat:
  assumes "totp_wf tv" "0 \<le> now" "timestamp now < 2 ^ 63"
  shows "time_step tv now = of_nat (step_at tv now)" "step_at tv now < 2 ^ 63"
proof -
  have ts: "0 \<le> timestamp now" using assms(2) by (simp add: timestamp_def pos_imp_zdiv_nonneg_iff)
  with assms(3) have n: "nat (timestamp now) < 2 ^ 63" by (simp add: nat_less_iff)
  have u: "unat (of_nat (nat (timestamp now)) :: u64) = nat (timestamp now)"
    using n by (simp add: unsigned_of_nat take_bit_nat_eq_self)
  have p: "unat (of_nat (tv_period_secs tv) :: u64) = tv_period_secs tv"
    using assms(1) by (simp add: totp_wf_def unsigned_of_nat take_bit_nat_eq_self)
  have "time_step tv now = of_nat (nat (timestamp now)) div of_nat (tv_period_secs tv)"
    using ts by (simp add: time_step_def)
  also have "\<dots> = of_nat (unat (of_nat (nat (timestamp now)) div of_nat (tv_period_secs tv) :: u64))" by simp
  also have "\<dots> = of_nat (step_at tv now)" by (simp only: unat_div_distrib u p step_at_def)
  finally show "time_step tv now = of_nat (step_at tv now)" .
  show "step_at tv now < 2 ^ 63"
    unfolding step_at_def by (rule le_less_trans [OF div_le_dividend n])
qed

lemma saturating_nat:
  assumes "n < 2 ^ 63"
  shows "saturating_pred (of_nat n) = of_nat (n - 1)" "saturating_succ (of_nat n) = of_nat (n + 1)"
proof -
  have u: "unat (of_nat n :: u64) = n" using assms by (simp add: unsigned_of_nat take_bit_nat_eq_self)
  show "saturating_pred (of_nat n) = of_nat (n - 1)"
  proof (cases n)
    case (Suc m)
    have "(of_nat n :: u64) \<noteq> 0" using u by (auto simp: Suc simp del: of_nat_Suc)
    then show ?thesis by (simp add: saturating_pred_def Suc)
  qed (simp add: saturating_pred_def)
  have "unat (- 1 :: u64) = 2 ^ 64 - 1" by (simp add: unsigned_minus_1_eq_mask mask_eq_exp_minus_1)
  with u assms have "(of_nat n :: u64) \<noteq> - 1" by auto
  then show "saturating_succ (of_nat n) = of_nat (n + 1)" by (simp add: saturating_succ_def)
qed


lemma step_at_bounds:
  assumes "totp_wf tv"
  shows "step_at tv t * tv_period_secs tv \<le> nat (timestamp t)"
    "nat (timestamp t) < (step_at tv t + 1) * tv_period_secs tv"
proof -
  show "step_at tv t * tv_period_secs tv \<le> nat (timestamp t)" by (simp add: step_at_def)
  have "0 < tv_period_secs tv" using assms by (simp add: totp_wf_def)
  then show "nat (timestamp t) < (step_at tv t + 1) * tv_period_secs tv"
    unfolding step_at_def by (simp only: Suc_eq_plus1 [symmetric] mult.commute [of _ "tv_period_secs tv"] dividend_less_times_div mult_Suc_right)
qed

text \<open>Times in the neighbouring steps of a moderate time are moderate too.\<close>

lemma neighbour_time:
  assumes wf: "totp_wf tv" and now: "0 \<le> now" "timestamp now < 2 ^ 62" and t: "0 \<le> t" "step_at tv t \<le> step_at tv now + 1"
  shows "timestamp t < 2 ^ 63"
proof -
  have p: "tv_period_secs tv < 2 ^ 32" using wf by (simp add: totp_wf_def)
  have "nat (timestamp t) < (step_at tv t + 1) * tv_period_secs tv" by (rule step_at_bounds(2) [OF wf])
  also have "\<dots> \<le> (step_at tv now + 2) * tv_period_secs tv" using t(2) by (intro mult_right_mono) simp_all
  also have "\<dots> \<le> nat (timestamp now) + 2 * tv_period_secs tv"
    using step_at_bounds(1) [OF wf, of now] by (simp add: algebra_simps)
  also have "\<dots> < 2 ^ 63" using now p by (simp add: nat_less_iff)
  finally show ?thesis by (simp add: nat_less_iff)
qed

lemma step_start:
  assumes "totp_wf tv"
  shows "step_at tv (int (m * tv_period_secs tv) * 1000000000) = m"
  using assms by (simp add: step_at_def timestamp_def totp_wf_def nat_mult_distrib)

text \<open>
  A time-based code is accepted exactly when it is the code of the current time step or of a
  neighbouring one: a code generated at a time is accepted until a whole period later
  and not once two step boundaries lie between, and nothing else is accepted. Every code
  has the configured number of decimal digits, leading zeros included.
\<close>

theorem totp_window_exact:
  assumes "mac_total hmac" "totp_wf tv" "0 \<le> now" "timestamp now < 2 ^ 62"
  shows "totp_verify hmac tv now code =
      Inr (\<exists>t. 0 \<le> t \<and> step_at tv t \<le> step_at tv now + 1 \<and> step_at tv now \<le> step_at tv t + 1 \<and>
        totp_generate hmac tv t = Inr code)
    \<and> (totp_verify hmac tv now code = Inr True \<longrightarrow>
        length code = tv_digits tv \<and> set code \<subseteq> set ''0123456789'')"
proof -
  let ?n = "step_at tv now"
  have n: "time_step tv now = of_nat ?n" "?n < 2 ^ 63"
    using time_step_nat [OF assms(2,3)] assms(4) by simp_all
  have steps: "{time_step tv now, saturating_pred (time_step tv now), saturating_succ (time_step tv now)} =
    {of_nat ?n, of_nat (?n - 1), of_nat (?n + 1)}"
    by (simp only: n(1) saturating_nat [OF n(2)])
  have gen: "totp_generate hmac tv t = generate_at hmac tv (of_nat (step_at tv t))"
    if "0 \<le> t" "step_at tv t \<le> ?n + 1" for t
    using time_step_nat(1) [OF assms(2) that(1)] neighbour_time [OF assms(2-4) that] by (simp add: totp_generate_def)
  have "(\<exists>c \<in> {of_nat ?n, of_nat (?n - 1), of_nat (?n + 1)}. generate_at hmac tv c = Inr code) \<longleftrightarrow>
    (\<exists>m. m \<le> ?n + 1 \<and> ?n \<le> m + 1 \<and> generate_at hmac tv (of_nat m) = Inr code)" (is "_ \<longleftrightarrow> ?rhs")
  proof
    assume ?rhs
    then obtain m where m: "m \<le> ?n + 1" "?n \<le> m + 1" "generate_at hmac tv (of_nat m) = Inr code" by blast
    then have "m = ?n \<or> m = ?n - 1 \<or> m = ?n + 1" by linarith
    with m(3) show "\<exists>c \<in> {of_nat ?n, of_nat (?n - 1), of_nat (?n + 1)}. generate_at hmac tv c = Inr code" by auto
  next
    assume "\<exists>c \<in> {of_nat ?n, of_nat (?n - 1), of_nat (?n + 1)}. generate_at hmac tv c = Inr code"
    then consider "generate_at hmac tv (of_nat ?n) = Inr code" | "generate_at hmac tv (of_nat (?n - 1)) = Inr code"
      | "generate_at hmac tv (of_nat (?n + 1)) = Inr code" by blast
    then show ?rhs
      by cases (fastforce intro: exI [of _ ?n] exI [of _ "?n - 1"] exI [of _ "?n + 1"])+
  qed
  also have "?rhs \<longleftrightarrow> (\<exists>t. 0 \<le> t \<and> step_at tv t \<le> ?n + 1 \<and> ?n \<le> step_at tv t + 1 \<and> totp_generate hmac tv t = Inr code)"
  proof
    assume ?rhs
    then obtain m where m: "m \<le> ?n + 1" "?n \<le> m + 1" "generate_at hmac tv (of_nat m) = Inr code" by blast
    let ?t = "int (m * tv_period_secs tv) * 1000000000"
    have "0 \<le> ?t" "step_at tv ?t = m" using step_start [OF assms(2)] by simp_all
    with m gen [of ?t] show "\<exists>t. 0 \<le> t \<and> step_at tv t \<le> ?n + 1 \<and> ?n \<le> step_at tv t + 1 \<and> totp_generate hmac tv t = Inr code"
      by (intro exI [of _ ?t]) simp
  qed (use gen in auto)
  finally have iff: "totp_verify hmac tv now code =
      Inr (\<exists>t. 0 \<le> t \<and> step_at tv t \<le> ?n + 1 \<and> ?n \<le> step_at tv t + 1 \<and> totp_generate hmac tv t = Inr code)"
    unfolding totp_verify_iff [OF assms(1)] steps by simp
  moreover have "length code = tv_digits tv \<and> set code \<subseteq> set ''0123456789''" if "totp_verify hmac tv now code = Inr True"
  proof -
    from that iff obtain t where "totp_generate hmac tv t = Inr code" by auto
    from generate_at_shape [OF assms(2) this [unfolded totp_generate_def]] show ?thesis .
  qed
  ultimately show ?thesis by blast
qed

definition zero_mac :: mac where
  "zero_mac k m = Inr (replicate 20 0)"

theorem totp_window_exact_witness:
  "totp_verify zero_mac (totp_new [1]) (59 * 1000000000) ''000000'' = Inr True"
proof -
  let ?tv = "totp_new [1]"
  have total: "mac_total zero_mac" by (simp add: mac_total_def zero_mac_def)
  have "totp_generate zero_mac ?tv 0 = Inr ''000000''"
  proof -
    have "dynamic_truncation (replicate 20 0) = 0" by (simp add: dynamic_truncation_def Let_def)
    then have "hotp_code zero_mac [1] c 6 = Inr 0" for c by (simp add: hotp_code_def zero_mac_def Let_def)
    moreover have "format_code 0 6 = ''000000''" by (simp add: format_code_def decimal.simps eval_nat_numeral)
    ultimately show ?thesis by (simp add: totp_generate_def generate_at_def totp_new_def)
  qed
  then have "\<exists>t. 0 \<le> t \<and> step_at ?tv t \<le> step_at ?tv (59 * 1000000000) + 1 \<and>
      step_at ?tv (59 * 1000000000) \<le> step_at ?tv t + 1 \<and> totp_generate zero_mac ?tv t = Inr ''000000''"
    by (intro exI [of _ 0]) (simp add: step_at_def timestamp_def totp_new_def)
  with totp_window_exact [OF total totp_wf_new, of "59 * 1000000000" "[1]" "''000000''"] show ?thesis
    by (simp add: timestamp_def)
qed

text \<open>The verifier keeps no record of the codes it accepted, so a code works again within its window.\<close>

lemma totp_code_works_again:
  assumes "mac_total hmac" "totp_verify hmac tv now code = Inr True" "time_step tv later = time_step tv now"
  shows "totp_verify hmac tv later code = Inr True"
  using assms(2) by (simp add: totp_verify_iff [OF assms(1)] assms(3))

subsection \<open>Concurrent verifications\<close>

definition hotp_run :: "mac \<Rightarrow> byte list \<Rightarrow> (nat \<Rightarrow> string) \<Rightarrow> nat list \<Rightarrow> hotp_state \<Rightarrow> hotp_state" where
  "hotp_run hmac secret presented schedule s = fold (hotp_step hmac secret presented) schedule s"

text \<open>What holds after any number of steps from a counter.\<close>

definition hotp_inv :: "mac \<Rightarrow> byte list \<Rightarrow> (nat \<Rightarrow> string) \<Rightarrow> u64 \<Rightarrow> hotp_state \<Rightarrow> bool" where
  "hotp_inv hmac secret presented c0 s \<longleftrightarrow>
     ho_counter s = c0 + of_nat (length (ho_accepted s)) \<and>
     map snd (ho_accepted s) = map (\<lambda>k. c0 + of_nat k) [0..<length (ho_accepted s)] \<and>
     distinct (map fst (ho_accepted s)) \<and>
     (\<forall>i. ho_threads s i = Returned (Inr True) \<longleftrightarrow> i \<in> fst ` set (ho_accepted s)) \<and>
     (\<forall>(i, c) \<in> set (ho_accepted s). hotp_text hmac secret c = Inr (presented i)) \<and>
     (\<forall>i r c. ho_threads s i = Swap r c \<longrightarrow> hotp_text hmac secret c = Inr (presented i)) \<and>
     (\<forall>i r. (ho_threads s i = Load r \<longrightarrow> r < MAX_VERIFY_RETRIES) \<and>
            (\<forall>c. ho_threads s i = Swap r c \<longrightarrow> r < MAX_VERIFY_RETRIES))"

lemma hotp_inv_new: "hotp_inv hmac secret presented c0 (hotp_new c0)"
  by (simp add: hotp_inv_def hotp_new_def MAX_VERIFY_RETRIES_def)

lemma hotp_inv_step:
  assumes inv: "hotp_inv hmac secret presented c0 s"
  shows "hotp_inv hmac secret presented c0 (hotp_step hmac secret presented i s)"
proof (cases "ho_threads s i")
  case (Load r)
  have "ho_threads s i = Returned (Inr True) \<longleftrightarrow> i \<in> fst ` set (ho_accepted s)"
    using inv unfolding hotp_inv_def by blast
  then have "i \<notin> fst ` set (ho_accepted s)" by (simp add: Load)
  moreover have "r < MAX_VERIFY_RETRIES" using inv Load unfolding hotp_inv_def by blast
  ultimately show ?thesis using inv
    by (auto simp: hotp_step_def Load Let_def hotp_inv_def constant_time_eq_iff split: sum.splits)
next
  case (Swap r c)
  have "ho_threads s i = Returned (Inr True) \<longleftrightarrow> i \<in> fst ` set (ho_accepted s)"
    using inv unfolding hotp_inv_def by blast
  then have i: "i \<notin> fst ` set (ho_accepted s)" by (simp add: Swap)
  show ?thesis
  proof (cases "ho_counter s = c")
    case True
    with inv i show ?thesis
      by (auto simp: hotp_step_def Swap hotp_inv_def image_iff split: prod.splits)
  next
    case False
    with inv i show ?thesis
      by (auto simp: hotp_step_def Swap hotp_inv_def)
  qed
next
  case (Returned x)
  with inv show ?thesis by (simp add: hotp_step_def)
qed

lemma hotp_inv_run:
  "hotp_inv hmac secret presented c0 s \<Longrightarrow> hotp_inv hmac secret presented c0 (hotp_run hmac secret presented schedule s)"
  unfolding hotp_run_def by (induction schedule arbitrary: s) (simp_all add: hotp_inv_step)

text \<open>
  C27: each value of the counter admits one verification, in every interleaving of the atomic steps
  of any threads: the threads that succeed do so one after the other on consecutive
  counter values, each with the code of its own value, and the counter is as far ahead as
  threads have succeeded. A code that is replayed is only accepted as the code of a later value.
\<close>

theorem hotp_counter_used_once:
  "let s = hotp_run hmac secret presented schedule (hotp_new c0); n = length (ho_accepted s)
   in ho_counter s = c0 + of_nat n \<and>
      map snd (ho_accepted s) = map (\<lambda>k. c0 + of_nat k) [0..<n] \<and>
      distinct (map fst (ho_accepted s)) \<and>
      {i. ho_threads s i = Returned (Inr True)} = fst ` set (ho_accepted s) \<and>
      list_all (\<lambda>(i, c). hotp_text hmac secret c = Inr (presented i)) (ho_accepted s)"
proof -
  have "hotp_inv hmac secret presented c0 (hotp_run hmac secret presented schedule (hotp_new c0))"
    by (rule hotp_inv_run [OF hotp_inv_new])
  then show ?thesis by (auto simp: hotp_inv_def Let_def list_all_iff)
qed

text \<open>Steps a thread has still to make at most.\<close>

fun steps_left :: "hotp_thread \<Rightarrow> nat" where
  "steps_left (Load r) = 2 * (MAX_VERIFY_RETRIES - r)"
| "steps_left (Swap r c) = 2 * (MAX_VERIFY_RETRIES - r) - 1"
| "steps_left (Returned r) = 0"

lemma steps_left_step:
  assumes "hotp_inv hmac secret presented c0 s"
  shows "steps_left (ho_threads (hotp_step hmac secret presented i s) j) \<le>
    steps_left (ho_threads s j) - (if i = j then 1 else 0)"
  by (cases "ho_threads s i") (auto simp: hotp_step_def Let_def split: sum.splits)

lemma steps_left_run:
  "hotp_inv hmac secret presented c0 s \<Longrightarrow>
   steps_left (ho_threads (hotp_run hmac secret presented schedule s) i) \<le>
     steps_left (ho_threads s i) - count_list schedule i"
proof (induction schedule arbitrary: s)
  case (Cons j schedule)
  from Cons.IH [OF hotp_inv_step [OF Cons.prems], of j] steps_left_step [OF Cons.prems, of j i]
  show ?case by (auto simp: hotp_run_def split: if_splits)
qed (simp add: hotp_run_def)

text \<open>
  A verification returns after at most six atomic steps of its own, whatever other threads do to
  the counter in between: the retries of a lost race are bounded.
\<close>

theorem hotp_verify_returns:
  assumes "6 \<le> count_list schedule i"
  shows "\<exists>r. ho_threads (hotp_run hmac secret presented schedule (hotp_new c0)) i = Returned r"
proof -
  let ?s = "hotp_run hmac secret presented schedule (hotp_new c0)"
  have "steps_left (ho_threads ?s i) = 0"
    using steps_left_run [OF hotp_inv_new [where ?hmac = hmac and ?secret = secret and ?presented = presented],
      of schedule c0 i] assms
    by (simp add: hotp_new_def MAX_VERIFY_RETRIES_def)
  moreover have "hotp_inv hmac secret presented c0 ?s" by (rule hotp_inv_run [OF hotp_inv_new])
  ultimately show ?thesis
    by (cases "ho_threads ?s i") (fastforce simp: hotp_inv_def)+
qed

theorem hotp_verify_returns_witness:
  "\<exists>r. ho_threads (hotp_run zero_mac [1] (\<lambda>_. ''000000'') [0, 1, 0, 0, 1, 0, 0, 1, 0] (hotp_new 5)) 0 = Returned r"
  by (rule hotp_verify_returns) simp

end
