(* ===== verification/Local_Passports.thy ===== *)
theory Local_Passports
  imports Kirino_Utils Float64
begin

text \<open>
  Two passports that need no store: the comparison of templates of \<^verbatim>\<open>src/auth/passport/biometric.rs\<close>, in the
  floats of \<open>Float64\<close>, and the message authentication of \<^verbatim>\<open>key_pair.rs\<close>, with HMAC-SHA256 and the random
  bytes as arguments. A length is below \<open>2 ^ 50\<close> where it is turned into a float exactly.
\<close>

unbundle bit_operations_syntax

subsection \<open>Templates\<close>

record biometric_verifier =
  bv_threshold :: f64

definition DEFAULT_BIOMETRIC_THRESHOLD :: f64 where
  "DEFAULT_BIOMETRIC_THRESHOLD = lit (85 / 100)"

definition biometric_new :: biometric_verifier where
  "biometric_new = \<lparr>bv_threshold = DEFAULT_BIOMETRIC_THRESHOLD\<rparr>"

definition with_threshold :: "f64 \<Rightarrow> biometric_verifier" where
  "with_threshold threshold = \<lparr>bv_threshold = f64_clamp threshold (lit 0) (lit 1)\<rparr>"

definition count_zeros :: "byte \<Rightarrow> nat" where
  "count_zeros b = length (filter (\<lambda>i. \<not> bit b i) [0..<8])"

definition matching_bits :: "byte list \<Rightarrow> byte list \<Rightarrow> nat" where
  "matching_bits a b = sum_list (map (\<lambda>(x, y). count_zeros (x XOR y)) (zip a b))"

definition compute_similarity :: "byte list \<Rightarrow> byte list \<Rightarrow> f64" where
  "compute_similarity a b =
     (if a = [] \<or> b = [] then lit 0
      else f64_div (f64_of_nat (matching_bits a b)) (f64_of_nat (max (length a) (length b) * 8)))"

definition biometric_verify :: "biometric_verifier \<Rightarrow> byte list \<Rightarrow> byte list \<Rightarrow> bool" where
  "biometric_verify v sample template =
     (if sample = [] \<or> template = [] then False
      else f64_le (bv_threshold v) (compute_similarity sample template))"

lemma count_zeros_le: "count_zeros b \<le> 8"
  using length_filter_le [of "\<lambda>i. \<not> bit b i" "[0..<8]"] by (simp add: count_zeros_def)

lemma count_zeros_all: "count_zeros (x XOR y) = 8 \<longleftrightarrow> x = y"
proof
  assume "count_zeros (x XOR y) = 8"
  then have "length (filter (\<lambda>i. \<not> bit (x XOR y) i) [0..<8]) = length [0..<8]" by (simp add: count_zeros_def)
  then have "\<forall>i \<in> set [0..<8]. \<not> bit (x XOR y) i"
    by (metis length_filter_less less_irrefl)
  then show "x = y" by (intro bit_word_eqI) (auto simp: bit_xor_iff)
qed (simp add: count_zeros_def)

lemma matching_bits_le: "matching_bits a b \<le> 8 * min (length a) (length b)"
proof (induction a arbitrary: b)
  case (Cons x a)
  show ?case
  proof (cases b)
    case (Cons y b')
    then show ?thesis using Cons.IH [of b'] count_zeros_le [of "x XOR y"] by (simp add: matching_bits_def)
  qed (simp add: matching_bits_def)
qed (simp add: matching_bits_def)

lemma matching_bits_eq: "length a = length b \<Longrightarrow> matching_bits a b = 8 * length a \<longleftrightarrow> a = b"
proof (induction a b rule: list_induct2)
  case (Cons x a y b)
  have "matching_bits a b \<le> 8 * length a" using matching_bits_le [of a b] Cons.hyps by simp
  then show ?case
    using Cons.IH count_zeros_le [of "x XOR y"] count_zeros_all [of x y] by (auto simp: matching_bits_def)
qed (simp add: matching_bits_def)

lemma matching_bits_total: "matching_bits a b = 8 * max (length a) (length b) \<longleftrightarrow> a = b"
proof (cases "length a = length b")
  case True
  then show ?thesis using matching_bits_eq by simp
next
  case False
  then have "matching_bits a b < 8 * max (length a) (length b)" using matching_bits_le [of a b] by linarith
  with False show ?thesis by auto
qed

lemma matching_bits_commute: "matching_bits a b = matching_bits b a"
  by (induction a b rule: list_induct2') (simp_all add: matching_bits_def xor.commute)

text \<open>A proper part of at most \<open>2 ^ 53\<close> stays below 1 when it is rounded.\<close>

lemma pow2_minus_53: "pow2 (- 53) * 2 ^ 53 = 1"
  using pow2_add [of "- 53" 53] pow2_nat [of 53] by simp

lemma proper_part_below_1:
  assumes "m < n" "n \<le> 2 ^ 53"
  shows "round_rat (of_nat m / of_nat n) < 1"
proof -
  define c where "c = pow2 (- 53)"
  define N where "N = (2 :: rat) ^ 53"
  have c: "c * N = 1" "0 < c" unfolding c_def N_def by (rule pow2_minus_53) simp
  have n: "(of_nat m :: rat) + 1 \<le> of_nat n" "(of_nat n :: rat) \<le> N" "0 < (of_nat n :: rat)"
    using assms of_nat_mono [of "Suc m" n, where 'a = rat] of_nat_mono [of n "2 ^ 53", where 'a = rat]
    by (simp_all add: N_def add.commute)
  have "c * of_nat n \<le> 1" using c n(2) mult_left_mono [of "of_nat n" N c] by simp
  with n(1) have "of_nat m \<le> (1 - c) * of_nat n" by (simp add: left_diff_distrib)
  with n(3) have "of_nat m / of_nat n \<le> 1 - c" by (simp add: pos_divide_le_eq)
  moreover have "representable (1 - c)"
  proof -
    have "(of_int (2 ^ 53 - 1) :: rat) = N - 1" unfolding N_def by simp
    moreover have "(N - 1) * c = 1 - c" unfolding left_diff_distrib mult_1 mult.commute [of N c] c(1) ..
    ultimately have eq: "1 - c = of_int (2 ^ 53 - 1) * pow2 (- 53)" by (simp only: c_def)
    have "\<bar>2 ^ 53 - 1 :: int\<bar> \<le> 2 ^ 53" "(- 1074 :: int) \<le> - 53" by simp_all
    with eq show ?thesis unfolding representable_def by blast
  qed
  ultimately have "round_rat (of_nat m / of_nat n) \<le> 1 - c" using round_rat_le by blast
  with c(2) show ?thesis by linarith
qed

text \<open>
  The similarity of two templates is a number between 0 and 1, whichever way round they are compared, and, rounding
  included, it is 1 exactly for equal templates: with the threshold 1 the verifier accepts the
  stored template only, however long and however close the sample; and no threshold makes it
  accept an empty one.
\<close>

theorem similarity_exact:
  assumes "length a \<le> 2 ^ 50" "length b \<le> 2 ^ 50"
  shows "unit_f64 (compute_similarity a b) \<and> compute_similarity a b = compute_similarity b a \<and>
    (biometric_verify (with_threshold (lit 1)) a b \<longleftrightarrow> a = b \<and> a \<noteq> []) \<and> \<not> biometric_verify v [] b \<and> \<not> biometric_verify v a []"
proof (cases "a = [] \<or> b = []")
  case True
  then show ?thesis by (auto simp: compute_similarity_def biometric_verify_def)
next
  case False
  let ?m = "matching_bits a b" and ?n = "max (length a) (length b) * 8"
  obtain q where q_def: "q = (of_nat ?m :: rat) / of_nat ?n" by blast
  have n: "0 < ?n" "?n \<le> 2 ^ 53" using False assms by (simp_all add: less_max_iff_disj)
  have m: "?m \<le> ?n" using matching_bits_le [of a b] by linarith
  have sim: "compute_similarity a b = rnd q"
    using False n rnd_of_nat [of ?m] rnd_of_nat [of ?n] le_trans [OF m n(2)]
    by (simp add: compute_similarity_def f64_of_nat_def q_def del: of_nat_mult)
  have q: "0 \<le> q" "q \<le> 1" using m n by (simp_all add: q_def divide_le_eq)
  have fin: "rnd q = Fin (round_rat q)"
    using q two_53_less [of "\<bar>q\<bar>"] by (intro rnd_Fin) simp
  have unit: "unit_f64 (rnd q)" using q by (rule unit_rnd)
  have one: "1 \<le> round_rat q \<longleftrightarrow> a = b"
  proof
    assume "1 \<le> round_rat q"
    then have "\<not> ?m < ?n" using proper_part_below_1 [of ?m ?n] n unfolding q_def by (metis not_le)
    then show "a = b" using m matching_bits_total [of a b] by (simp add: mult.commute)
  next
    assume "a = b"
    then have "?m = ?n" using matching_bits_total [of a b] by (simp add: mult.commute)
    moreover have "0 < (of_nat ?n :: rat)" using n(1) by (simp only: of_nat_0_less_iff)
    ultimately have "q = 1" unfolding q_def by (metis divide_self less_irrefl)
    then show "1 \<le> round_rat q" by (simp only: round_rat_id [OF representable_1] order_refl)
  qed
  have "compute_similarity b a = compute_similarity a b"
    by (simp add: compute_similarity_def matching_bits_commute [of b a] max.commute disj_commute)
  moreover have "bv_threshold (with_threshold (lit 1)) = Fin 1"
    by (simp add: with_threshold_def f64_clamp_def f64_lt_def)
  ultimately show ?thesis using False unit one by (simp add: sim fin biometric_verify_def)
qed

theorem similarity_exact_witness:
  "biometric_verify (with_threshold (lit 1)) [7] [7] \<and> \<not> biometric_verify (with_threshold (lit 1)) [7] [7, 0]"
  using similarity_exact [of "[7]" "[7]"] similarity_exact [of "[7]" "[7, 0]"] by simp

subsection \<open>Message authentication\<close>

type_synonym hmac_fn = "byte list \<Rightarrow> byte list \<Rightarrow> byte list result"

definition with_secret_key :: "byte list \<Rightarrow> byte list result" where
  "with_secret_key key = (if key = [] then Inl (Store ''secret key must not be empty'') else Inr key)"

definition mac_sign :: "hmac_fn \<Rightarrow> byte list \<Rightarrow> byte list \<Rightarrow> byte list result" where
  "mac_sign hmac key message = hmac key message"

definition mac_verify_signature :: "hmac_fn \<Rightarrow> byte list \<Rightarrow> byte list \<Rightarrow> byte list \<Rightarrow> bool result" where
  "mac_verify_signature hmac key message signature =
     and_then (hmac key message) (\<lambda>expected. Inr (constant_time_eq expected signature))"

definition derive_public :: "hmac_fn \<Rightarrow> byte list \<Rightarrow> byte list \<Rightarrow> byte list result" where
  "derive_public hmac key private_key = hmac key private_key"

definition generate_keypair :: "hmac_fn \<Rightarrow> byte list \<Rightarrow> byte list \<Rightarrow> (byte list \<times> byte list) result" where
  "generate_keypair hmac key random_bytes =
     (let private_key = take 32 random_bytes
      in and_then (derive_public hmac key private_key) (\<lambda>public_key. Inr (public_key, private_key)))"

text \<open>A signature is accepted exactly when it is the one the key makes; a library error is no acceptance.\<close>

lemma mac_verify_exact:
  "mac_verify_signature hmac key message signature = Inr True \<longleftrightarrow> mac_sign hmac key message = Inr signature"
  by (auto simp: mac_verify_signature_def mac_sign_def and_then_eq_Inr constant_time_eq_iff)

text \<open>
  The public key of a pair is a signature of its private key: whoever holds it can present it for that message.
\<close>

lemma public_key_is_a_signature:
  "generate_keypair hmac key random_bytes = Inr (pub, priv) \<Longrightarrow> mac_verify_signature hmac key priv pub = Inr True"
  by (auto simp: generate_keypair_def derive_public_def mac_verify_exact mac_sign_def and_then_eq_Inr Let_def)

end
