(* ===== verification/Visitor_Tickets.thy ===== *)
theory Visitor_Tickets
  imports User_Database Jwt_Credentials
begin

text \<open>
  Visitor tickets: \<^verbatim>\<open>src/auth/visitor.rs\<close> over the signed tokens of \<^verbatim>\<open>src/local.rs\<close> and the trait of
  \<^verbatim>\<open>src/auth/identity/temporary.rs\<close>. The JWT library and the text form of a \<^verbatim>\<open>Uuid\<close> are parameters;
  what is relied on is that a token decodes with its own key to the claims it was made of, an
  expired one only when expiry is not validated (\<open>local_jwt_ok\<close>), and that the text of an
  identifier parses to it. The trait \<^verbatim>\<open>TemporaryIdentityProvider\<close> is a record of its methods, its
  contract the locale \<open>temporary_store\<close>, interpreted by the in-memory store.
\<close>

subsection \<open>Local tokens\<close>

record ticket_claims =
  vc_sub :: string
  vc_typ :: string
  vc_tier :: string
  vc_iat :: int
  vc_exp :: int

record validation =
  val_leeway :: int
  val_exp :: bool

record local_jwt_lib =
  lj_encode :: "string \<Rightarrow> ticket_claims \<Rightarrow> string + string"
  lj_decode :: "validation \<Rightarrow> int \<Rightarrow> string \<Rightarrow> string \<Rightarrow> string + ticket_claims"

definition local_jwt_ok :: "local_jwt_lib \<Rightarrow> bool" where
  "local_jwt_ok lib \<longleftrightarrow> (\<forall>k c token v now. lj_encode lib k c = Inr token \<longrightarrow>
     lj_decode lib v now k token =
       (if val_exp v \<and> vc_exp c < now - val_leeway v then Inl ''ExpiredSignature'' else Inr c))"

datatype local_jwt_error =
    SignError string
  | VerifyError string
  | MissingExp

definition local_sign :: "local_jwt_lib \<Rightarrow> string \<Rightarrow> ticket_claims \<Rightarrow> local_jwt_error + string" where
  "local_sign lib secret claims =
     (if vc_exp claims \<le> 0 then Inl MissingExp
      else case lj_encode lib secret claims of Inl e \<Rightarrow> Inl (SignError e) | Inr token \<Rightarrow> Inr token)"

definition local_verify :: "local_jwt_lib \<Rightarrow> instant \<Rightarrow> string \<Rightarrow> string \<Rightarrow> local_jwt_error + ticket_claims" where
  "local_verify lib now secret token =
     (case lj_decode lib \<lparr>val_leeway = 60, val_exp = True\<rparr> (timestamp now) secret token of
        Inl e \<Rightarrow> Inl (VerifyError e) | Inr claims \<Rightarrow> Inr claims)"

definition local_verify_lenient :: "local_jwt_lib \<Rightarrow> instant \<Rightarrow> string \<Rightarrow> string \<Rightarrow> local_jwt_error + ticket_claims" where
  "local_verify_lenient lib now secret token =
     (case lj_decode lib \<lparr>val_leeway = 60, val_exp = False\<rparr> (timestamp now) secret token of
        Inl e \<Rightarrow> Inl (VerifyError e) | Inr claims \<Rightarrow> Inr claims)"

subsection \<open>Temporary identities\<close>

record 's temporary_ops =
  ti_create :: "uuid \<Rightarrow> instant \<Rightarrow> 's \<Rightarrow> identity result \<times> 's"
  ti_get :: "'s \<Rightarrow> uuid \<Rightarrow> identity option result"
  ti_is_expired :: "instant \<Rightarrow> 's \<Rightarrow> uuid \<Rightarrow> bool result"
  ti_revoke :: "uuid \<Rightarrow> 's \<Rightarrow> unit result \<times> 's"
  ti_is_revoked :: "'s \<Rightarrow> uuid \<Rightarrow> bool result"

record visitor_store =
  vs_identities :: "(uuid, identity) hash_map"
  vs_revoked :: "uuid set"

definition visitor_store_new :: visitor_store where
  "visitor_store_new = \<lparr>vs_identities = [], vs_revoked = {}\<rparr>"

definition mem_create_temporary :: "uuid \<Rightarrow> instant \<Rightarrow> visitor_store \<Rightarrow> identity result \<times> visitor_store" where
  "mem_create_temporary i expires_at s =
     (let identity = TemporaryIdentity i expires_at
      in (Inr identity, s\<lparr>vs_identities := AList.update i identity (vs_identities s)\<rparr>))"

definition mem_get_temporary :: "visitor_store \<Rightarrow> uuid \<Rightarrow> identity option result" where
  "mem_get_temporary s i = Inr (map_of (vs_identities s) i)"

definition mem_is_expired :: "instant \<Rightarrow> visitor_store \<Rightarrow> uuid \<Rightarrow> bool result" where
  "mem_is_expired now s i =
     Inr (case map_of (vs_identities s) i of Some (TemporaryIdentity _ expires_at) \<Rightarrow> expires_at < now | _ \<Rightarrow> False)"

definition mem_revoke_temporary :: "uuid \<Rightarrow> visitor_store \<Rightarrow> unit result \<times> visitor_store" where
  "mem_revoke_temporary i s = (Inr (), s\<lparr>vs_revoked := insert i (vs_revoked s)\<rparr>)"

definition mem_is_revoked :: "visitor_store \<Rightarrow> uuid \<Rightarrow> bool result" where
  "mem_is_revoked s i = Inr (i \<in> vs_revoked s)"

definition mem_temporary :: "visitor_store temporary_ops" where
  "mem_temporary = \<lparr>ti_create = mem_create_temporary, ti_get = mem_get_temporary, ti_is_expired = mem_is_expired,
     ti_revoke = mem_revoke_temporary, ti_is_revoked = mem_is_revoked\<rparr>"

subsection \<open>The manager\<close>

definition VISITOR_SUBJECT_PREFIX :: string where "VISITOR_SUBJECT_PREFIX = ''visitor:''"
definition TICKET_TOKEN_TYPE :: string where "TICKET_TOKEN_TYPE = ''temporary''"

datatype ticket_error =
    TicketExpired
  | PrincipalExpired
  | TicketRevoked
  | UnknownTicket
  | TicketInvalid string
  | TicketMint string
  | TicketStore kirino_error

record uuid_text =
  uuid_to_string :: "uuid \<Rightarrow> string"
  uuid_parse_str :: "string \<Rightarrow> uuid option"

definition uuid_text_ok :: "uuid_text \<Rightarrow> bool" where
  "uuid_text_ok u \<longleftrightarrow> (\<forall>i. uuid_parse_str u (uuid_to_string u i) = Some i)"

definition claims_ticket_id :: "uuid_text \<Rightarrow> ticket_claims \<Rightarrow> ticket_error + uuid" where
  "claims_ticket_id u claims =
     (case strip_prefix VISITOR_SUBJECT_PREFIX (vc_sub claims) of
        None \<Rightarrow> Inl (TicketInvalid (''subject lacks the prefix: '' @ vc_sub claims))
      | Some raw \<Rightarrow>
          (case uuid_parse_str u raw of
             None \<Rightarrow> Inl (TicketInvalid (''subject is not a UUID: '' @ raw))
           | Some i \<Rightarrow> Inr i))"

fun ticket_error_of :: "local_jwt_error \<Rightarrow> ticket_error" where
  "ticket_error_of MissingExp = TicketInvalid ''claims without a positive exp''"
| "ticket_error_of (SignError e) = TicketMint (''sign failed: '' @ e)"
| "ticket_error_of (VerifyError e) =
     (if e = ''ExpiredSignature'' then TicketExpired else TicketInvalid (''signature verification failed: '' @ e))"

fun temporary_id :: "identity \<Rightarrow> uuid option" where
  "temporary_id (TemporaryIdentity i _) = Some i"
| "temporary_id _ = None"

record ticket_config =
  tk_secret :: string
  tk_access_ttl :: int
  tk_inactivity_window :: int
  tk_tier :: string

definition ticket_config_new :: "string \<Rightarrow> ticket_config" where
  "ticket_config_new secret = \<lparr>tk_secret = secret, tk_access_ttl = hours 24, tk_inactivity_window = hours (90 * 24),
     tk_tier = ''anon''\<rparr>"

definition with_access_ttl :: "int \<Rightarrow> ticket_config \<Rightarrow> ticket_config" where
  "with_access_ttl d c = c\<lparr>tk_access_ttl := d\<rparr>"

definition with_inactivity_window :: "int \<Rightarrow> ticket_config \<Rightarrow> ticket_config" where
  "with_inactivity_window d c = c\<lparr>tk_inactivity_window := d\<rparr>"

definition with_tier :: "string \<Rightarrow> ticket_config \<Rightarrow> ticket_config" where
  "with_tier tier c = c\<lparr>tk_tier := tier\<rparr>"

record issued_ticket =
  it_token :: string
  it_ticket_id :: uuid
  it_identity :: identity
  it_access_expires_at :: instant

record verified_ticket =
  vt_claims :: ticket_claims
  vt_ticket_id :: uuid
  vt_identity :: identity
  vt_principal_expires_at :: instant

text \<open>The manager, with the libraries it calls.\<close>

record 's visitor_tickets =
  vm_lib :: local_jwt_lib
  vm_uuid :: uuid_text
  vm_store :: "'s temporary_ops"
  vm_config :: ticket_config

definition map_error :: "('e \<Rightarrow> 'f) \<Rightarrow> 'e + 'a \<Rightarrow> 'f + 'a" where
  "map_error f r = (case r of Inl e \<Rightarrow> Inl (f e) | Inr x \<Rightarrow> Inr x)"

definition ticket_claims_of :: "'s visitor_tickets \<Rightarrow> instant \<Rightarrow> uuid \<Rightarrow> ticket_claims" where
  "ticket_claims_of vm now i =
     \<lparr>vc_sub = VISITOR_SUBJECT_PREFIX @ uuid_to_string (vm_uuid vm) i, vc_typ = TICKET_TOKEN_TYPE,
      vc_tier = tk_tier (vm_config vm), vc_iat = timestamp now,
      vc_exp = timestamp (now + tk_access_ttl (vm_config vm))\<rparr>"

definition ticket_mint :: "'s visitor_tickets \<Rightarrow> instant \<Rightarrow> uuid \<Rightarrow> identity \<Rightarrow> ticket_error + issued_ticket" where
  "ticket_mint vm now i identity =
     (let access_expires_at = now + tk_access_ttl (vm_config vm)
      in and_then (map_error ticket_error_of (local_sign (vm_lib vm) (tk_secret (vm_config vm)) (ticket_claims_of vm now i)))
           (\<lambda>token. Inr \<lparr>it_token = token, it_ticket_id = i, it_identity = identity,
              it_access_expires_at = access_expires_at\<rparr>))"

definition ticket_issue :: "'s visitor_tickets \<Rightarrow> instant \<Rightarrow> uuid \<Rightarrow> 's \<Rightarrow> (ticket_error + issued_ticket) \<times> 's" where
  "ticket_issue vm now fresh s =
     (let (r, s') = ti_create (vm_store vm) fresh (now + tk_inactivity_window (vm_config vm)) s
      in (case r of
            Inl e \<Rightarrow> Inl (TicketStore e)
          | Inr identity \<Rightarrow>
              (case temporary_id identity of
                 None \<Rightarrow> Inl (TicketStore (Store ''store returned a non-temporary identity from create_temporary''))
               | Some i \<Rightarrow> ticket_mint vm now i identity), s'))"

definition ticket_admit :: "'s visitor_tickets \<Rightarrow> instant \<Rightarrow> ticket_claims \<Rightarrow> 's \<Rightarrow> ticket_error + verified_ticket" where
  "ticket_admit vm now claims s =
     (if vc_typ claims \<noteq> TICKET_TOKEN_TYPE then Inl (TicketInvalid (''unexpected token type: '' @ vc_typ claims))
      else and_then (claims_ticket_id (vm_uuid vm) claims) (\<lambda>i.
        and_then (map_error TicketStore (ti_get (vm_store vm) s i)) (\<lambda>found.
          case found of
            None \<Rightarrow> Inl UnknownTicket
          | Some identity \<Rightarrow>
              and_then (map_error TicketStore (ti_is_revoked (vm_store vm) s i)) (\<lambda>revoked.
                if revoked then Inl TicketRevoked
                else case identity of
                  TemporaryIdentity _ expires_at \<Rightarrow>
                    if expires_at < now then Inl PrincipalExpired
                    else Inr \<lparr>vt_claims = claims, vt_ticket_id = i, vt_identity = identity,
                      vt_principal_expires_at = expires_at\<rparr>
                | _ \<Rightarrow> Inl (TicketStore (Store ''store returned a non-temporary identity''))))))"

definition ticket_verify :: "'s visitor_tickets \<Rightarrow> instant \<Rightarrow> string \<Rightarrow> 's \<Rightarrow> ticket_error + verified_ticket" where
  "ticket_verify vm now token s =
     and_then (map_error ticket_error_of (local_verify (vm_lib vm) now (tk_secret (vm_config vm)) token))
       (\<lambda>claims. ticket_admit vm now claims s)"

definition ticket_renew :: "'s visitor_tickets \<Rightarrow> instant \<Rightarrow> string \<Rightarrow> 's \<Rightarrow> ticket_error + issued_ticket" where
  "ticket_renew vm now token s =
     and_then (map_error ticket_error_of (local_verify_lenient (vm_lib vm) now (tk_secret (vm_config vm)) token))
       (\<lambda>claims. and_then (ticket_admit vm now claims s)
          (\<lambda>verified. ticket_mint vm now (vt_ticket_id verified) (vt_identity verified)))"

definition ticket_revoke :: "'s visitor_tickets \<Rightarrow> uuid \<Rightarrow> 's \<Rightarrow> (ticket_error + unit) \<times> 's" where
  "ticket_revoke vm i s = apfst (map_error TicketStore) (ti_revoke (vm_store vm) i s)"

definition create_anonymous :: "'s visitor_tickets \<Rightarrow> instant \<Rightarrow> uuid \<Rightarrow> 's \<Rightarrow> (ticket_error + identity) \<times> 's" where
  "create_anonymous vm now fresh s = apfst (map_sum id it_identity) (ticket_issue vm now fresh s)"

definition get_anonymous :: "'s visitor_tickets \<Rightarrow> 's \<Rightarrow> uuid \<Rightarrow> identity option result" where
  "get_anonymous vm s i = ti_get (vm_store vm) s i"

subsection \<open>The contract of a store\<close>

locale temporary_store =
  fixes ops :: "'s temporary_ops"
    and ok :: "'s \<Rightarrow> bool"
    and known :: "'s \<Rightarrow> uuid \<Rightarrow> identity option"
    and revoked :: "'s \<Rightarrow> uuid set"
  assumes create: "ok s \<Longrightarrow> \<exists>s'. ti_create ops i e s = (Inr (TemporaryIdentity i e), s') \<and> ok s' \<and>
      known s' = (known s)(i \<mapsto> TemporaryIdentity i e) \<and> revoked s' = revoked s"
    and get: "ok s \<Longrightarrow> ti_get ops s i = Inr (known s i)"
    and revoke: "ok s \<Longrightarrow> \<exists>s'. ti_revoke ops i s = (Inr (), s') \<and> ok s' \<and>
      known s' = known s \<and> revoked s' = insert i (revoked s)"
    and is_revoked: "ok s \<Longrightarrow> ti_is_revoked ops s i = Inr (i \<in> revoked s)"
begin

text \<open>A claim is admitted exactly under these conditions.\<close>

lemma admit_iff:
  assumes "ok s" "vm_store vm = ops"
  shows "ticket_admit vm now claims s = Inr v \<longleftrightarrow>
    vc_typ claims = TICKET_TOKEN_TYPE \<and> claims_ticket_id (vm_uuid vm) claims = Inr (vt_ticket_id v) \<and>
    vt_ticket_id v \<notin> revoked s \<and>
    (\<exists>j e. known s (vt_ticket_id v) = Some (TemporaryIdentity j e) \<and> now \<le> e \<and>
      v = \<lparr>vt_claims = claims, vt_ticket_id = vt_ticket_id v, vt_identity = TemporaryIdentity j e,
        vt_principal_expires_at = e\<rparr>)"
proof (cases "vc_typ claims = TICKET_TOKEN_TYPE")
  case True
  note is_ticket = True
  show ?thesis
  proof (cases "claims_ticket_id (vm_uuid vm) claims")
    case (Inr i)
    with assms is_ticket have adm: "ticket_admit vm now claims s =
      (case known s i of
         None \<Rightarrow> Inl UnknownTicket
       | Some identity \<Rightarrow>
           if i \<in> revoked s then Inl TicketRevoked
           else case identity of
             TemporaryIdentity _ e \<Rightarrow>
               if e < now then Inl PrincipalExpired
               else Inr \<lparr>vt_claims = claims, vt_ticket_id = i, vt_identity = identity, vt_principal_expires_at = e\<rparr>
           | _ \<Rightarrow> Inl (TicketStore (Store ''store returned a non-temporary identity'')))"
      by (simp add: ticket_admit_def get is_revoked map_error_def)
    show ?thesis
    proof (cases "known s i")
      case (Some identity)
      with adm Inr is_ticket show ?thesis by (cases identity) auto
    qed (use adm Inr is_ticket in auto)
  qed (use is_ticket in \<open>simp add: ticket_admit_def\<close>)
qed (simp add: ticket_admit_def)

text \<open>The claims that the manager itself mints.\<close>

lemma admit_minted:
  assumes "ok s" "vm_store vm = ops" "uuid_text_ok (vm_uuid vm)" "known s i = Some (TemporaryIdentity i e)"
  shows "ticket_admit vm now (ticket_claims_of vm t i) s =
    (if i \<in> revoked s then Inl TicketRevoked
     else if e < now then Inl PrincipalExpired
     else Inr \<lparr>vt_claims = ticket_claims_of vm t i, vt_ticket_id = i, vt_identity = TemporaryIdentity i e,
       vt_principal_expires_at = e\<rparr>)"
proof -
  have "claims_ticket_id (vm_uuid vm) (ticket_claims_of vm t i) = Inr i"
    using assms(3) by (simp add: claims_ticket_id_def ticket_claims_of_def strip_prefix_def uuid_text_ok_def)
  moreover have "vc_typ (ticket_claims_of vm t i) = TICKET_TOKEN_TYPE" by (simp add: ticket_claims_of_def)
  ultimately show ?thesis using assms(1,2,4) by (simp add: ticket_admit_def get is_revoked map_error_def)
qed

lemma issue_store:
  assumes "ok s" "vm_store vm = ops"
  obtains s' where "ticket_issue vm now i s =
      (ticket_mint vm now i (TemporaryIdentity i (now + tk_inactivity_window (vm_config vm))), s')"
    "ok s'" "known s' = (known s)(i \<mapsto> TemporaryIdentity i (now + tk_inactivity_window (vm_config vm)))"
    "revoked s' = revoked s"
  using create [OF assms(1), of i "now + tk_inactivity_window (vm_config vm)"] assms(2)
  by (auto simp: ticket_issue_def)

lemma revoke_store:
  assumes "ok s" "vm_store vm = ops"
  obtains s' where "ticket_revoke vm i s = (Inr (), s')" "ok s'" "known s' = known s" "revoked s' = insert i (revoked s)"
  using revoke [OF assms(1), of i] assms(2) by (auto simp: ticket_revoke_def map_error_def)

end

lemma mem_temporary_sel [simp]:
  "ti_create mem_temporary = mem_create_temporary" "ti_get mem_temporary = mem_get_temporary"
  "ti_is_expired mem_temporary = mem_is_expired" "ti_revoke mem_temporary = mem_revoke_temporary"
  "ti_is_revoked mem_temporary = mem_is_revoked"
  by (simp_all add: mem_temporary_def)

interpretation vts: temporary_store mem_temporary "\<lambda>_. True" "\<lambda>s. map_of (vs_identities s)" vs_revoked
  by unfold_locales
    (auto simp: mem_create_temporary_def mem_get_temporary_def mem_revoke_temporary_def mem_is_revoked_def Let_def hm_simps)

subsection \<open>Histories of tickets\<close>

datatype visitor_call =
    IssueTicket uuid
  | RenewTicket string
  | RevokeTicket uuid

fun visitor_step :: "visitor_store visitor_tickets \<Rightarrow> instant \<times> visitor_call \<Rightarrow> visitor_store \<Rightarrow> visitor_store" where
  "visitor_step vm (now, IssueTicket i) s = snd (ticket_issue vm now i s)"
| "visitor_step vm (now, RenewTicket token) s = s"
| "visitor_step vm (now, RevokeTicket i) s = snd (ticket_revoke vm i s)"

lemma visitor_step_state:
  assumes "vm_store vm = mem_temporary"
  shows "map_of (vs_identities (visitor_step vm (t, c) s)) =
      (case c of IssueTicket i \<Rightarrow>
         (map_of (vs_identities s))(i \<mapsto> TemporaryIdentity i (t + tk_inactivity_window (vm_config vm)))
       | _ \<Rightarrow> map_of (vs_identities s))"
    and "vs_revoked (visitor_step vm (t, c) s) =
      (case c of RevokeTicket i \<Rightarrow> insert i (vs_revoked s) | _ \<Rightarrow> vs_revoked s)"
  by (cases c; simp add: assms ticket_issue_def ticket_revoke_def mem_create_temporary_def mem_revoke_temporary_def
    Let_def hm_simps fun_eq_iff)+

lemma visitor_history:
  assumes "vm_store vm = mem_temporary"
  shows "vs_revoked (fold (visitor_step vm) cs s) = vs_revoked s \<union> {i. \<exists>t. (t, RevokeTicket i) \<in> set cs}"
    and "map_of (vs_identities (fold (visitor_step vm) cs s)) i = Some x \<Longrightarrow>
      map_of (vs_identities s) i = Some x \<or>
      (\<exists>t. (t, IssueTicket i) \<in> set cs \<and> x = TemporaryIdentity i (t + tk_inactivity_window (vm_config vm)))"
    and "\<forall>t. (t, IssueTicket i) \<notin> set cs \<Longrightarrow>
      map_of (vs_identities (fold (visitor_step vm) cs s)) i = map_of (vs_identities s) i"
proof -
  note step = visitor_step_state [OF assms]
  show "vs_revoked (fold (visitor_step vm) cs s) = vs_revoked s \<union> {i. \<exists>t. (t, RevokeTicket i) \<in> set cs}"
    by (induction cs arbitrary: s) (auto simp: step split: visitor_call.splits simp del: visitor_step.simps)
  show "map_of (vs_identities (fold (visitor_step vm) cs s)) i = Some x \<Longrightarrow>
      map_of (vs_identities s) i = Some x \<or>
      (\<exists>t. (t, IssueTicket i) \<in> set cs \<and> x = TemporaryIdentity i (t + tk_inactivity_window (vm_config vm)))"
  proof (induction cs arbitrary: s)
    case (Cons e cs)
    obtain t c where e: "e = (t, c)" by force
    from Cons.prems have "map_of (vs_identities (fold (visitor_step vm) cs (visitor_step vm (t, c) s))) i = Some x"
      by (simp add: e del: visitor_step.simps)
    from Cons.IH [OF this] show ?case
      by (auto simp: e step split: visitor_call.splits if_splits simp del: visitor_step.simps)
  qed simp
  show "\<forall>t. (t, IssueTicket i) \<notin> set cs \<Longrightarrow>
      map_of (vs_identities (fold (visitor_step vm) cs s)) i = map_of (vs_identities s) i"
    by (induction cs arbitrary: s) (auto simp: step split: visitor_call.splits simp del: visitor_step.simps)
qed

text \<open>
  C30: no principal outlives its window or its revocation. Whatever tickets were issued, renewed and
  revoked, in any order, and whatever token is presented: when it is admitted, directly or to be renewed,
  the identifier in it was issued, is still within the inactivity window of that issue however often
  it was renewed, and was never revoked; unknown identifiers are never admitted.
\<close>

theorem admitted_ticket_is_issued:
  assumes "vm_store vm = mem_temporary"
    and "ticket_admit vm now claims (fold (visitor_step vm) cs visitor_store_new) = Inr v"
  shows "(\<exists>t. (t, IssueTicket (vt_ticket_id v)) \<in> set cs \<and>
      vt_identity v = TemporaryIdentity (vt_ticket_id v) (t + tk_inactivity_window (vm_config vm)) \<and>
      now \<le> t + tk_inactivity_window (vm_config vm)) \<and>
    \<not> (\<exists>t. (t, RevokeTicket (vt_ticket_id v)) \<in> set cs)"
proof -
  let ?s = "fold (visitor_step vm) cs visitor_store_new"
  from assms(2) [unfolded vts.admit_iff [OF TrueI assms(1)]]
  obtain j e where v: "vt_ticket_id v \<notin> vs_revoked ?s" "now \<le> e"
    "map_of (vs_identities ?s) (vt_ticket_id v) = Some (TemporaryIdentity j e)"
    "vt_identity v = TemporaryIdentity j e" by (metis verified_ticket.select_convs(3))
  from visitor_history(2) [OF assms(1) v(3)] v(2,4)
  have "\<exists>t. (t, IssueTicket (vt_ticket_id v)) \<in> set cs \<and>
      vt_identity v = TemporaryIdentity (vt_ticket_id v) (t + tk_inactivity_window (vm_config vm)) \<and>
      now \<le> t + tk_inactivity_window (vm_config vm)"
    by (auto simp: visitor_store_new_def)
  moreover have "\<not> (\<exists>t. (t, RevokeTicket (vt_ticket_id v)) \<in> set cs)"
    using v(1) by (simp add: visitor_history(1) [OF assms(1)])
  ultimately show ?thesis ..
qed

text \<open>A library for examples: a token is its claims' subject, tier and times, in clear text.\<close>

definition demo_uuid :: uuid_text where
  "demo_uuid = \<lparr>uuid_to_string = (\<lambda>i. replicate i CHR ''a''), uuid_parse_str = (\<lambda>s. Some (length s))\<rparr>"

definition demo_claims :: ticket_claims where
  "demo_claims = \<lparr>vc_sub = ''visitor:aa'', vc_typ = ''temporary'', vc_tier = ''anon'', vc_iat = 5, vc_exp = 86405\<rparr>"

definition demo_local_jwt :: local_jwt_lib where
  "demo_local_jwt = \<lparr>lj_encode = (\<lambda>k c. if c = demo_claims then Inr ''token'' else Inl ''json''),
     lj_decode = (\<lambda>v now k token.
       if token \<noteq> ''token'' then Inl ''InvalidToken''
       else if val_exp v \<and> 86405 < now - val_leeway v then Inl ''ExpiredSignature''
       else Inr demo_claims)\<rparr>"

definition demo_visitors :: "visitor_store visitor_tickets" where
  "demo_visitors = \<lparr>vm_lib = demo_local_jwt, vm_uuid = demo_uuid, vm_store = mem_temporary,
     vm_config = ticket_config_new ''secret''\<rparr>"

lemma demo_visitors_ok [simp]:
  "local_jwt_ok demo_local_jwt" "uuid_text_ok demo_uuid" "vm_store demo_visitors = mem_temporary"
  "vm_lib demo_visitors = demo_local_jwt" "vm_uuid demo_visitors = demo_uuid"
  by (auto simp: local_jwt_ok_def demo_local_jwt_def uuid_text_ok_def demo_uuid_def demo_visitors_def demo_claims_def
    split: if_splits)

lemma demo_config:
  "tk_access_ttl (vm_config demo_visitors) = hours 24"
  "tk_inactivity_window (vm_config demo_visitors) = hours (90 * 24)"
  by (simp_all add: demo_visitors_def ticket_config_new_def)

lemma demo_minted_claims: "ticket_claims_of demo_visitors 5000000000 2 = demo_claims"
  by (simp add: ticket_claims_of_def demo_claims_def demo_visitors_def demo_uuid_def ticket_config_new_def
    VISITOR_SUBJECT_PREFIX_def TICKET_TOKEN_TYPE_def timestamp_def hours_def numeral_2_eq_2)

theorem admitted_ticket_is_issued_witness:
  "\<exists>v. ticket_admit demo_visitors 7000000000 demo_claims
      (fold (visitor_step demo_visitors) [(5000000000, IssueTicket 2), (6000000000, RevokeTicket 3)] visitor_store_new) = Inr v \<and>
    \<not> (\<exists>t. (t, RevokeTicket (vt_ticket_id v)) \<in> set [(5000000000 :: instant, IssueTicket 2), (6000000000, RevokeTicket 3)])"
proof -
  let ?cs = "[(5000000000, IssueTicket 2), (6000000000, RevokeTicket 3)]"
  let ?s = "fold (visitor_step demo_visitors) ?cs visitor_store_new"
  have known: "map_of (vs_identities ?s) 2 = Some (TemporaryIdentity 2 (5000000000 + hours (90 * 24)))"
    by (simp add: visitor_step_state visitor_store_new_def demo_config del: visitor_step.simps)
  have "2 \<notin> vs_revoked ?s" unfolding visitor_history(1) [OF demo_visitors_ok(3)] by (simp add: visitor_store_new_def)
  with vts.admit_minted [OF TrueI demo_visitors_ok(3) _ known, of 7000000000 5000000000]
  obtain v where v: "ticket_admit demo_visitors 7000000000 demo_claims ?s = Inr v"
    by (simp add: demo_minted_claims hours_def del: fold.simps)
  from admitted_ticket_is_issued [OF demo_visitors_ok(3) v] v show ?thesis by blast
qed

text \<open>A minted token, decoded.\<close>

lemma minted_decodes:
  assumes "local_jwt_ok (vm_lib vm)" "ticket_mint vm t i identity = Inr tk"
  shows "lj_decode (vm_lib vm) v now (tk_secret (vm_config vm)) (it_token tk) =
    (if val_exp v \<and> timestamp (t + tk_access_ttl (vm_config vm)) < now - val_leeway v then Inl ''ExpiredSignature''
     else Inr (ticket_claims_of vm t i))"
proof -
  from assms(2) have "lj_encode (vm_lib vm) (tk_secret (vm_config vm)) (ticket_claims_of vm t i) = Inr (it_token tk)"
    by (auto simp: ticket_mint_def and_then_eq_Inr map_error_def local_sign_def split: sum.splits if_splits)
  with assms(1) show ?thesis by (simp add: local_jwt_ok_def ticket_claims_of_def)
qed

lemma ticket_life_steps:
  assumes "local_jwt_ok (vm_lib vm)" "uuid_text_ok (vm_uuid vm)" "vm_store vm = mem_temporary"
    and "i \<notin> vs_revoked s0"
    and "ticket_mint vm t1 i (TemporaryIdentity i (t0 + tk_inactivity_window (vm_config vm))) = Inr tk"
  shows "ticket_verify vm now (it_token tk) (snd (ticket_issue vm t0 i s0)) =
    (if timestamp (t1 + tk_access_ttl (vm_config vm)) < timestamp now - 60 then Inl TicketExpired
     else if t0 + tk_inactivity_window (vm_config vm) < now then Inl PrincipalExpired
     else Inr \<lparr>vt_claims = ticket_claims_of vm t1 i, vt_ticket_id = i,
       vt_identity = TemporaryIdentity i (t0 + tk_inactivity_window (vm_config vm)),
       vt_principal_expires_at = t0 + tk_inactivity_window (vm_config vm)\<rparr>)"
proof -
  define until where "until = t0 + tk_inactivity_window (vm_config vm)"
  obtain s1 where s1: "snd (ticket_issue vm t0 i s0) = s1"
    "map_of (vs_identities s1) = (map_of (vs_identities s0))(i \<mapsto> TemporaryIdentity i until)" "vs_revoked s1 = vs_revoked s0"
    using vts.issue_store [OF TrueI assms(3), of t0 i s0] unfolding until_def by (metis snd_conv)
  then have "map_of (vs_identities s1) i = Some (TemporaryIdentity i until)" by simp
  from vts.admit_minted [OF TrueI assms(3,2) this] assms(4) show ?thesis
    by (simp add: ticket_verify_def local_verify_def minted_decodes [OF assms(1,5)] map_error_def s1 flip: until_def)
qed

text \<open>
  The life of a ticket, through any later calls on other tickets: a token minted for a
  principal, when it was issued or at a renewal, is accepted exactly until its own
  expiry and 60 seconds have passed, the principal is revoked or its window is over, and refused
  with that reason afterwards; its renewal does not look at the token's expiry, only at the principal.
\<close>

theorem ticket_life_exact:
  assumes "local_jwt_ok (vm_lib vm)" "uuid_text_ok (vm_uuid vm)" "vm_store vm = mem_temporary"
    and "i \<notin> vs_revoked s0" "\<forall>t. (t, IssueTicket i) \<notin> set cs"
    and "ticket_mint vm t1 i (TemporaryIdentity i (t0 + tk_inactivity_window (vm_config vm))) = Inr tk"
  shows "let s = fold (visitor_step vm) cs (snd (ticket_issue vm t0 i s0));
             until = t0 + tk_inactivity_window (vm_config vm); revoked = (\<exists>t. (t, RevokeTicket i) \<in> set cs)
    in ticket_verify vm now (it_token tk) s =
         (if timestamp (t1 + tk_access_ttl (vm_config vm)) < timestamp now - 60 then Inl TicketExpired
          else if revoked then Inl TicketRevoked
          else if until < now then Inl PrincipalExpired
          else Inr \<lparr>vt_claims = ticket_claims_of vm t1 i, vt_ticket_id = i, vt_identity = TemporaryIdentity i until,
            vt_principal_expires_at = until\<rparr>) \<and>
       ticket_renew vm now (it_token tk) s =
         (if revoked then Inl TicketRevoked
          else if until < now then Inl PrincipalExpired
          else ticket_mint vm now i (TemporaryIdentity i until))"
proof -
  define until where "until = t0 + tk_inactivity_window (vm_config vm)"
  define s where "s = fold (visitor_step vm) cs (snd (ticket_issue vm t0 i s0))"
  obtain s1 where s1: "snd (ticket_issue vm t0 i s0) = s1"
    "map_of (vs_identities s1) = (map_of (vs_identities s0))(i \<mapsto> TemporaryIdentity i until)" "vs_revoked s1 = vs_revoked s0"
    using vts.issue_store [OF TrueI assms(3), of t0 i s0] unfolding until_def by (metis snd_conv)
  have "map_of (vs_identities s) i = Some (TemporaryIdentity i until)"
    using visitor_history(3) [OF assms(3,5)] by (simp add: s_def s1)
  from vts.admit_minted [OF TrueI assms(3,2) this] visitor_history(1) [OF assms(3)] assms(4)
  have admit: "ticket_admit vm now (ticket_claims_of vm t1 i) s =
    (if \<exists>t. (t, RevokeTicket i) \<in> set cs then Inl TicketRevoked
     else if until < now then Inl PrincipalExpired
     else Inr \<lparr>vt_claims = ticket_claims_of vm t1 i, vt_ticket_id = i, vt_identity = TemporaryIdentity i until,
       vt_principal_expires_at = until\<rparr>)"
    by (simp add: s_def s1)
  note decode = minted_decodes [OF assms(1,6)]
  have "ticket_verify vm now (it_token tk) s =
      (if timestamp (t1 + tk_access_ttl (vm_config vm)) < timestamp now - 60 then Inl TicketExpired
       else ticket_admit vm now (ticket_claims_of vm t1 i) s)"
    by (simp add: ticket_verify_def local_verify_def decode map_error_def)
  moreover have "ticket_renew vm now (it_token tk) s =
      and_then (ticket_admit vm now (ticket_claims_of vm t1 i) s)
        (\<lambda>v. ticket_mint vm now (vt_ticket_id v) (vt_identity v))"
    by (simp add: ticket_renew_def local_verify_lenient_def decode map_error_def)
  ultimately show ?thesis by (simp add: admit flip: s_def until_def)
qed

theorem ticket_life_exact_witness:
  "ticket_verify demo_visitors (86465 * 1000000000) ''token''
     (fold (visitor_step demo_visitors) [(6000000000, RevokeTicket 3)] (snd (ticket_issue demo_visitors 5000000000 2 visitor_store_new))) =
   Inr \<lparr>vt_claims = demo_claims, vt_ticket_id = 2, vt_identity = TemporaryIdentity 2 (5000000000 + hours (90 * 24)),
     vt_principal_expires_at = 5000000000 + hours (90 * 24)\<rparr>"
proof -
  have mint: "ticket_mint demo_visitors 5000000000 2 identity =
      Inr \<lparr>it_token = ''token'', it_ticket_id = 2, it_identity = identity,
        it_access_expires_at = 5000000000 + hours 24\<rparr>" for identity
    by (simp add: ticket_mint_def local_sign_def demo_minted_claims demo_config map_error_def demo_local_jwt_def)
      (simp add: demo_claims_def)
  from ticket_life_exact [of demo_visitors 2 visitor_store_new "[(6000000000, RevokeTicket 3)]", OF _ _ _ _ _ mint,
      of 5000000000 "86465 * 1000000000"]
  show ?thesis by (simp add: demo_minted_claims demo_config visitor_store_new_def Let_def timestamp_def hours_def del: fold.simps)
qed

text \<open>
  The field \<^verbatim>\<open>access_expires_at\<close> is not the time at which the token stops verifying: it
  verifies for another minute, and when the principal's window is shorter than the token's
  lifetime it stops verifying before.
\<close>

lemma access_expires_at_is_not_the_end:
  assumes "local_jwt_ok (vm_lib vm)" "uuid_text_ok (vm_uuid vm)" "vm_store vm = mem_temporary"
    and "i \<notin> vs_revoked s0"
    and tk: "ticket_mint vm t0 i (TemporaryIdentity i (t0 + tk_inactivity_window (vm_config vm))) = Inr tk"
  shows "tk_access_ttl (vm_config vm) + 60 * 1000000000 \<le> tk_inactivity_window (vm_config vm) \<Longrightarrow>
      is_ok (ticket_verify vm (it_access_expires_at tk + 60 * 1000000000) (it_token tk) (snd (ticket_issue vm t0 i s0)))"
    and "tk_inactivity_window (vm_config vm) < tk_access_ttl (vm_config vm) \<Longrightarrow>
      ticket_verify vm (it_access_expires_at tk) (it_token tk) (snd (ticket_issue vm t0 i s0)) = Inl PrincipalExpired"
proof -
  have e: "it_access_expires_at tk = t0 + tk_access_ttl (vm_config vm)"
    using tk by (auto simp: ticket_mint_def and_then_eq_Inr)
  have ts: "timestamp (x + 60000000000) = timestamp x + 60" for x by (simp add: timestamp_def)
  note life = ticket_life_steps [OF assms(1-4) tk]
  show "tk_access_ttl (vm_config vm) + 60 * 1000000000 \<le> tk_inactivity_window (vm_config vm) \<Longrightarrow>
      is_ok (ticket_verify vm (it_access_expires_at tk + 60 * 1000000000) (it_token tk) (snd (ticket_issue vm t0 i s0)))"
    by (simp add: life e ts)
  show "tk_inactivity_window (vm_config vm) < tk_access_ttl (vm_config vm) \<Longrightarrow>
      ticket_verify vm (it_access_expires_at tk) (it_token tk) (snd (ticket_issue vm t0 i s0)) = Inl PrincipalExpired"
    by (simp add: life e)
qed

end
