(* ===== verification/Identities.thy ===== *)
theory Identities
  imports Visitor_Tickets Rbac_Engine
begin

text \<open>
  Identities and the subjects made of them: the in-memory provider of \<^verbatim>\<open>src/auth/identity/basic.rs\<close>
  and \<^verbatim>\<open>src/rbac/identity_subject.rs\<close>, \<^verbatim>\<open>src/rbac/subject.rs\<close>. The datatype of identities is in
  \<open>User_Database\<close>. A subject is what the trait \<^verbatim>\<open>Subject\<close> shows of it: its identifier and its type.
  The stores, the engine and its cache key on the identifier alone.
\<close>

subsection \<open>The provider\<close>

fun identity_id :: "identity \<Rightarrow> uuid" where
  "identity_id (BasicIdentity i _) = i"
| "identity_id (AnonymousIdentity i _) = i"
| "identity_id (TemporaryIdentity i _) = i"
| "identity_id (ServiceIdentity i _ _) = i"

record identity_record =
  ir_identity :: identity
  ir_username :: string
  ir_password_hash :: string
  ir_is_active :: bool
  ir_created_at :: instant
  ir_updated_at :: instant

type_synonym identity_provider = "identity_record list"

definition provider_create :: "identity_record \<Rightarrow> identity_provider \<Rightarrow> unit result \<times> identity_provider" where
  "provider_create record records =
     (if list_ex (\<lambda>r. ir_username r = ir_username record) records
      then (Inl (Validation ''username already exists''), records)
      else if list_ex (\<lambda>r. identity_id (ir_identity r) = identity_id (ir_identity record)) records
      then (Inl (Validation ''identity already exists''), records)
      else (Inr (), records @ [record]))"

definition provider_get :: "uuid \<Rightarrow> identity_provider \<Rightarrow> identity_record option" where
  "provider_get i records = find (\<lambda>r. identity_id (ir_identity r) = i) records"

definition provider_find_by_username :: "string \<Rightarrow> identity_provider \<Rightarrow> identity_record option" where
  "provider_find_by_username username records = find (\<lambda>r. ir_username r = username) records"

definition provider_delete :: "uuid \<Rightarrow> identity_provider \<Rightarrow> bool \<times> identity_provider" where
  "provider_delete i records =
     (let before = length records; records' = filter (\<lambda>r. identity_id (ir_identity r) \<noteq> i) records
      in (length records' < before, records'))"

definition provider_list :: "identity_provider \<Rightarrow> identity_record list" where
  "provider_list records = records"

text \<open>Usernames and identifiers name at most one record each.\<close>

definition provider_wf :: "identity_provider \<Rightarrow> bool" where
  "provider_wf rs \<longleftrightarrow> distinct (map ir_username rs) \<and> distinct (map (identity_id \<circ> ir_identity) rs)"

lemma find_distinct:
  "distinct (map f rs) \<Longrightarrow> find (\<lambda>r. f r = k) rs = Some r \<longleftrightarrow> r \<in> set rs \<and> f r = k"
  by (induction rs) (auto simp: image_iff)

lemma provider_get_iff:
  "provider_wf rs \<Longrightarrow> provider_get i rs = Some r \<longleftrightarrow> r \<in> set rs \<and> identity_id (ir_identity r) = i"
  using find_distinct [of "identity_id \<circ> ir_identity" rs i r] by (simp add: provider_wf_def provider_get_def)

lemma provider_find_iff:
  "provider_wf rs \<Longrightarrow> provider_find_by_username name rs = Some r \<longleftrightarrow> r \<in> set rs \<and> ir_username r = name"
  by (simp add: provider_wf_def provider_find_by_username_def find_distinct)

datatype provider_call =
    CreateRecord identity_record
  | DeleteRecord uuid

fun provider_step :: "provider_call \<Rightarrow> identity_provider \<Rightarrow> identity_provider" where
  "provider_step (CreateRecord r) rs = snd (provider_create r rs)"
| "provider_step (DeleteRecord i) rs = snd (provider_delete i rs)"

lemma provider_wf_step: "provider_wf rs \<Longrightarrow> provider_wf (provider_step c rs)"
proof (cases c)
  case (DeleteRecord i)
  assume wf: "provider_wf rs"
  then show ?thesis by (simp add: DeleteRecord provider_delete_def provider_wf_def Let_def distinct_map_filter)
qed (auto simp: provider_create_def provider_wf_def list_ex_iff)

lemma provider_wf_steps: "provider_wf rs \<Longrightarrow> provider_wf (fold provider_step cs rs)"
  by (induction cs arbitrary: rs) (simp_all add: provider_wf_step)

text \<open>
  The provider behaves as two maps with one set of records behind them: after any history
  every lookup, by identifier or by name, finds exactly the one stored record with that key; a
  creation is refused exactly when the name or the identifier is taken, the name being looked at
  first, and a deletion says whether there was something to delete.
\<close>

theorem provider_is_two_maps:
  "let rs = fold provider_step cs [] in
     (provider_get i rs = Some r \<longleftrightarrow> r \<in> set rs \<and> identity_id (ir_identity r) = i) \<and>
     (provider_find_by_username name rs = Some r \<longleftrightarrow> r \<in> set rs \<and> ir_username r = name) \<and>
     fst (provider_create q rs) =
       (if provider_find_by_username (ir_username q) rs \<noteq> None then Inl (Validation ''username already exists'')
        else if provider_get (identity_id (ir_identity q)) rs \<noteq> None then Inl (Validation ''identity already exists'')
        else Inr ()) \<and>
     set (snd (provider_create q rs)) = (if is_ok (fst (provider_create q rs)) then insert q (set rs) else set rs) \<and>
     (fst (provider_delete i rs) \<longleftrightarrow> provider_get i rs \<noteq> None) \<and>
     set (snd (provider_delete i rs)) = {r \<in> set rs. identity_id (ir_identity r) \<noteq> i}"
proof -
  let ?rs = "fold provider_step cs []"
  have wf: "provider_wf ?rs" by (rule provider_wf_steps) (simp add: provider_wf_def)
  have "fst (provider_delete i ?rs) \<longleftrightarrow> provider_get i ?rs \<noteq> None"
    by (simp add: provider_delete_def provider_get_def Let_def length_filter_less_iff find_None_iff Bex_def)
  then show ?thesis using provider_get_iff [OF wf] provider_find_iff [OF wf]
    by (auto simp: Let_def provider_create_def list_ex_iff provider_find_by_username_def provider_get_def find_None_iff
      provider_delete_def)
qed

subsection \<open>Subjects\<close>

record subject =
  sj_id :: string
  sj_type :: string

record identity_subject =
  is_identity :: identity
  is_id_str :: string
  is_type_str :: string

fun identity_type :: "identity \<Rightarrow> string" where
  "identity_type (AnonymousIdentity _ _) = ''anonymous''"
| "identity_type (BasicIdentity _ _) = ''user''"
| "identity_type (TemporaryIdentity _ _) = ''temporary''"
| "identity_type (ServiceIdentity _ _ _) = ''service''"

definition identity_subject_new :: "uuid_text \<Rightarrow> identity \<Rightarrow> identity_subject" where
  "identity_subject_new u identity =
     \<lparr>is_identity = identity, is_id_str = uuid_to_string u (identity_id identity), is_type_str = identity_type identity\<rparr>"

definition identity_subject_user :: "uuid_text \<Rightarrow> instant \<Rightarrow> string \<Rightarrow> identity_subject result" where
  "identity_subject_user u now i =
     (case uuid_parse_str u i of
        None \<Rightarrow> Inl (Store (''invalid user UUID '' @ i))
      | Some uuid \<Rightarrow> Inr (identity_subject_new u (BasicIdentity uuid now)))"

definition subject_is_expired :: "instant \<Rightarrow> identity_subject \<Rightarrow> bool" where
  "subject_is_expired now s = (case is_identity s of TemporaryIdentity _ expires_at \<Rightarrow> expires_at < now | _ \<Rightarrow> False)"

definition subject_eq :: "identity_subject \<Rightarrow> identity_subject \<Rightarrow> bool" where
  "subject_eq s t \<longleftrightarrow> is_id_str s = is_id_str t \<and> is_type_str s = is_type_str t"

definition as_subject :: "identity_subject \<Rightarrow> subject" where
  "as_subject s = \<lparr>sj_id = is_id_str s, sj_type = is_type_str s\<rparr>"

definition string_subject :: "string \<Rightarrow> subject" where
  "string_subject i = \<lparr>sj_id = i, sj_type = ''user''\<rparr>"

definition try_from_subject_id :: "uuid_text \<Rightarrow> instant \<Rightarrow> string \<Rightarrow> identity_subject result" where
  "try_from_subject_id u now i =
     (case uuid_parse_str u i of
        None \<Rightarrow> Inl (Store (''invalid subject UUID '' @ i))
      | Some uuid \<Rightarrow> Inr (identity_subject_new u (BasicIdentity uuid now)))"

definition from_subject_id :: "uuid_text \<Rightarrow> instant \<Rightarrow> string \<Rightarrow> identity_subject" where
  "from_subject_id u now i =
     (case try_from_subject_id u now i of
        Inr s \<Rightarrow> s
      | Inl e \<Rightarrow> identity_subject_new u (AnonymousIdentity 0 now))"

definition can_delegate_to :: "uuid_text \<Rightarrow> identity_subject \<Rightarrow> subject \<Rightarrow> bool" where
  "can_delegate_to u s delegate =
     (case is_identity s of
        ServiceIdentity _ caller _ \<Rightarrow> sj_id delegate = uuid_to_string u caller \<and> sj_type delegate = ''user''
      | _ \<Rightarrow> False)"

lemma uuid_to_string_inject: "uuid_text_ok u \<Longrightarrow> uuid_to_string u i = uuid_to_string u j \<longleftrightarrow> i = j"
  unfolding uuid_text_ok_def by (metis option.inject)

text \<open>
  Authority passes on only from a service to the user it was called by: among subjects of
  identities the delegate must be a basic identity with the caller's identifier, so delegation
  never chains, and a subject rebuilt from an identifier, well-formed or not, delegates to nobody
  and is never expired.
\<close>

theorem delegation_exact:
  assumes "uuid_text_ok u"
  shows "(can_delegate_to u (identity_subject_new u a) (as_subject (identity_subject_new u b)) \<longleftrightarrow>
      (\<exists>i caller t t'. a = ServiceIdentity i caller t \<and> b = BasicIdentity caller t')) \<and>
    \<not> can_delegate_to u (from_subject_id u now s) d \<and>
    \<not> (can_delegate_to u (identity_subject_new u a) (as_subject (identity_subject_new u b)) \<and>
       can_delegate_to u (identity_subject_new u b) d) \<and>
    \<not> subject_is_expired now' (from_subject_id u now s)"
proof -
  have "(can_delegate_to u (identity_subject_new u a) (as_subject (identity_subject_new u b)) \<longleftrightarrow>
      (\<exists>i caller t t'. a = ServiceIdentity i caller t \<and> b = BasicIdentity caller t'))"
    by (cases a; cases b)
      (auto simp: can_delegate_to_def identity_subject_new_def as_subject_def uuid_to_string_inject [OF assms])
  then show ?thesis
    by (auto simp: from_subject_id_def try_from_subject_id_def can_delegate_to_def identity_subject_new_def
      subject_is_expired_def split: option.split)
qed

theorem delegation_exact_witness:
  "can_delegate_to demo_uuid (identity_subject_new demo_uuid (ServiceIdentity 1 2 0))
     (as_subject (identity_subject_new demo_uuid (BasicIdentity 2 5)))"
  using delegation_exact [OF demo_visitors_ok(2), of "ServiceIdentity 1 2 0" "BasicIdentity 2 5"] by blast

text \<open>
  Equality of subjects tells kinds of identity apart, the key of the stores does not: the engine
  decides for an anonymous or temporary identity as for the user with the same identifier.
\<close>

lemma kinds_differ_but_share_grants:
  assumes "uuid_text_ok u"
  shows "\<not> subject_eq (identity_subject_new u (AnonymousIdentity i t)) (identity_subject_new u (BasicIdentity i t'))"
    and "check eng now (sj_id (as_subject (identity_subject_new u (AnonymousIdentity i t)))) p c =
      check eng now (sj_id (as_subject (identity_subject_new u (BasicIdentity i t')))) p c"
  by (simp_all add: subject_eq_def identity_subject_new_def as_subject_def)

end
