(* ===== verification/Webauthn_Data.thy ===== *)
theory Webauthn_Data
  imports Ip_Addresses
begin

unbundle bit_operations_syntax

text \<open>
  \<^verbatim>\<open>src/auth/passport/webauthn/auth_data.rs\<close>: the walk over one CBOR item and the parser of
  authenticator data. The walk is bounded by the nesting depth, its only recursion, so the model
  recurses on the levels left. Both are shown to accept exactly the format: a CBOR item of definite
  lengths nested at most 32 deep, and the layout of the standard.
\<close>

subsection \<open>Measuring a CBOR item\<close>

definition MAX_CBOR_DEPTH :: nat where "MAX_CBOR_DEPTH = 32"

text \<open>\<^verbatim>\<open>from_be_bytes\<close> as a number.\<close>

definition be_value :: "byte list \<Rightarrow> nat" where
  "be_value bs = horner 256 (map unat bs)"

definition cbor_arg :: "nat \<Rightarrow> byte list \<Rightarrow> (nat \<times> nat) option" where
  "cbor_arg info rest =
     (if info \<le> 23 then Some (0, info)
      else if info = 24 then (if length rest < 1 then None else Some (1, be_value (take 1 rest)))
      else if info = 25 then (if length rest < 2 then None else Some (2, be_value (take 2 rest)))
      else if info = 26 then (if length rest < 4 then None else Some (4, be_value (take 4 rest)))
      else if info = 27 then (if length rest < 8 then None else Some (8, be_value (take 8 rest)))
      else None)"

text \<open>Some items in a row: \<open>input.get(consumed..)\<close>, measured and added.\<close>

fun cbor_items :: "(byte list \<Rightarrow> nat option) \<Rightarrow> nat \<Rightarrow> byte list \<Rightarrow> nat \<Rightarrow> nat option" where
  "cbor_items item 0 input consumed = Some consumed"
| "cbor_items item (Suc n) input consumed =
     (if consumed > length input then None
      else case item (drop consumed input) of
             None \<Rightarrow> None
           | Some k \<Rightarrow> cbor_items item n input (consumed + k))"

primrec cbor_item_len_depth :: "nat \<Rightarrow> byte list \<Rightarrow> nat option" where
  "cbor_item_len_depth 0 input = None"
| "cbor_item_len_depth (Suc levels) input =
     (case input of
        [] \<Rightarrow> None
      | first # rest \<Rightarrow>
          let major = unat (drop_bit 5 first); info = unat (first AND 31)
          in case cbor_arg info rest of
               None \<Rightarrow> None
             | Some (hdr_extra, value) \<Rightarrow>
                 let payload_start = 1 + hdr_extra
                 in if value > length input \<and> (major = 2 \<or> major = 3) then None
                    else
                      (case (if major = 0 \<or> major = 1 \<or> major = 7 then Some payload_start
                             else if major = 2 \<or> major = 3 then Some (payload_start + value)
                             else if major = 4 then cbor_items (cbor_item_len_depth levels) value input payload_start
                             else if major = 6 then
                               (if hdr_extra > length rest then None
                                else map_option ((+) payload_start) (cbor_item_len_depth levels (drop hdr_extra rest)))
                             else if major = 5 then
                               cbor_items (cbor_item_len_depth levels) (2 * value) input payload_start
                             else None) of
                         None \<Rightarrow> None
                       | Some len \<Rightarrow> if len > length input then None else Some len))"

definition cbor_item_len :: "byte list \<Rightarrow> nat option" where
  "cbor_item_len input = cbor_item_len_depth (MAX_CBOR_DEPTH + 1) input"

subsection \<open>What an item is\<close>

text \<open>The head of an item: its major type and the argument, in the initial byte or in the bytes after it.\<close>

definition cbor_head :: "nat \<Rightarrow> nat \<Rightarrow> byte list \<Rightarrow> bool" where
  "cbor_head major value bs \<longleftrightarrow>
     (\<exists>first args. bs = first # args \<and> major = unat first div 32 \<and>
        (let info = unat first mod 32
         in info \<le> 23 \<and> args = [] \<and> value = info \<or>
            24 \<le> info \<and> info \<le> 27 \<and> length args = 2 ^ (info - 24) \<and> value = be_value args))"

inductive cbor_item :: "nat \<Rightarrow> byte list \<Rightarrow> bool" where
  atom: "cbor_head major v bs \<Longrightarrow> major \<in> {0, 1, 7} \<Longrightarrow> cbor_item (Suc d) bs"
| string: "cbor_head major (length s) bs \<Longrightarrow> major \<in> {2, 3} \<Longrightarrow> cbor_item (Suc d) (bs @ s)"
| array: "cbor_head 4 (length items) bs \<Longrightarrow> \<forall>i \<in> set items. cbor_item d i \<Longrightarrow> cbor_item (Suc d) (bs @ concat items)"
| map: "cbor_head 5 v bs \<Longrightarrow> length items = 2 * v \<Longrightarrow> \<forall>i \<in> set items. cbor_item d i \<Longrightarrow>
    cbor_item (Suc d) (bs @ concat items)"
| tag: "cbor_head 6 v bs \<Longrightarrow> cbor_item d i \<Longrightarrow> cbor_item (Suc d) (bs @ i)"

inductive_cases cbor_item_SucE: "cbor_item (Suc d) bs"
inductive_cases cbor_item_0E: "cbor_item 0 bs"

lemma major_info:
  "unat (drop_bit 5 (b :: byte)) = unat b div 32" "unat (b AND 31) = unat b mod 32"
proof -
  show "unat (drop_bit 5 b) = unat b div 32"
    using unsigned_less [of b, where ?'a = nat]
    by (simp add: unsigned_drop_bit_eq drop_bit_eq_div [where ?'a = nat] take_bit_nat_eq_self)
  have "b AND 31 = b mod 32" by (simp add: take_bit_eq_mask mask_numeral flip: take_bit_eq_mod [where n = 5, simplified])
  then show "unat (b AND 31) = unat b mod 32" by (simp add: unat_mod_distrib)
qed

text \<open>Reading a head off an input.\<close>

lemma cbor_arg_iff:
  "cbor_arg info rest = Some (k, v) \<longleftrightarrow>
     info \<le> 23 \<and> k = 0 \<and> v = info \<or>
     24 \<le> info \<and> info \<le> 27 \<and> k = 2 ^ (info - 24) \<and> k \<le> length rest \<and> v = be_value (take k rest)"
proof -
  have "info \<le> 23 \<or> info = 24 \<or> info = 25 \<or> info = 26 \<or> info = 27 \<or> 28 \<le> info" by linarith
  then show ?thesis by (elim disjE) (auto simp: cbor_arg_def Suc_le_eq)
qed

lemma head_of_arg:
  assumes "cbor_arg (unat first mod 32) rest = Some (k, v)"
  shows "cbor_head (unat first div 32) v (first # take k rest)" "k \<le> length rest"
  using assms by (auto simp: cbor_arg_iff cbor_head_def Let_def)

lemma arg_of_head:
  assumes "cbor_head major v bs"
  obtains first args where "bs = first # args" "major = unat first div 32"
    "\<And>r. cbor_arg (unat first mod 32) (args @ r) = Some (length args, v)"
proof -
  from assms obtain first args where f: "bs = first # args" "major = unat first div 32"
    "unat first mod 32 \<le> 23 \<and> args = [] \<and> v = unat first mod 32 \<or>
     24 \<le> unat first mod 32 \<and> unat first mod 32 \<le> 27 \<and> length args = 2 ^ (unat first mod 32 - 24) \<and> v = be_value args"
    unfolding cbor_head_def Let_def by blast
  then have "cbor_arg (unat first mod 32) (args @ r) = Some (length args, v)" for r
    by (auto simp: cbor_arg_iff)
  with f(1,2) that show thesis by blast
qed

lemma cbor_items_sound:
  assumes item: "\<And>input k. f input = Some k \<Longrightarrow> k \<le> length input \<and> P (take k input)"
  shows "cbor_items f n input consumed = Some len \<Longrightarrow>
    \<exists>items. length items = n \<and> (\<forall>i \<in> set items. P i) \<and> len = consumed + length (concat items) \<and>
      (consumed \<le> length input \<longrightarrow> len \<le> length input \<and> take (len - consumed) (drop consumed input) = concat items)"
proof (induction n arbitrary: consumed)
  case (Suc n)
  then obtain k where le: "consumed \<le> length input" and k: "f (drop consumed input) = Some k"
    and rest: "cbor_items f n input (consumed + k) = Some len"
    by (auto split: if_splits option.splits)
  from item [OF k] have kl: "consumed + k \<le> length input" and P: "P (take k (drop consumed input))" using le by auto
  from Suc.IH [OF rest] kl obtain items where i: "length items = n" "\<forall>i \<in> set items. P i"
    "len = consumed + k + length (concat items)" "len \<le> length input"
    "take (len - (consumed + k)) (drop (consumed + k) input) = concat items" by auto
  have "take (len - consumed) (drop consumed input) = take k (drop consumed input) @ concat items"
    using i(3,5) take_add [of k "length (concat items)" "drop consumed input"] by (simp add: add.commute)
  with i P kl show ?case by (intro exI [of _ "take k (drop consumed input) # items"]) (auto simp: min_def)
qed auto

lemma cbor_items_complete:
  assumes item: "\<And>i r. P i \<Longrightarrow> f (i @ r) = Some (length i)"
  shows "\<forall>i \<in> set items. P i \<Longrightarrow>
    cbor_items f (length items) (p @ concat items @ r) (length p) = Some (length p + length (concat items))"
proof (induction items arbitrary: p)
  case (Cons i items)
  from Cons.prems item have "f (i @ concat items @ r) = Some (length i)" by simp
  with Cons.IH [of "p @ i"] Cons.prems show ?case by (simp add: add.assoc)
qed simp

text \<open>One level of the walk, by the major type.\<close>

definition cbor_level :: "nat \<Rightarrow> nat \<Rightarrow> nat \<Rightarrow> nat \<Rightarrow> byte list \<Rightarrow> nat option" where
  "cbor_level d major start v input =
     (if major = 0 \<or> major = 1 \<or> major = 7 then Some start
      else if major = 2 \<or> major = 3 then Some (start + v)
      else if major = 4 then cbor_items (cbor_item_len_depth d) v input start
      else if major = 6 then map_option ((+) start) (cbor_item_len_depth d (drop start input))
      else if major = 5 then cbor_items (cbor_item_len_depth d) (2 * v) input start
      else None)"

lemma cbor_step:
  assumes "cbor_arg (unat first mod 32) rest = Some (k, v)"
  shows "cbor_item_len_depth (Suc d) (first # rest) = Some n \<longleftrightarrow>
    n \<le> length (first # rest) \<and> cbor_level d (unat first div 32) (Suc k) v (first # rest) = Some n"
proof -
  have k: "k \<le> length rest" by (rule head_of_arg(2) [OF assms])
  show ?thesis
    unfolding cbor_level_def using assms k
    by (auto simp: major_info Let_def simp del: cbor_items.simps split: option.split)
qed

lemma cbor_len_sound:
  "cbor_item_len_depth d input = Some n \<Longrightarrow> n \<le> length input \<and> cbor_item d (take n input)"
proof (induction d arbitrary: input n)
  case (Suc d)
  from Suc.prems obtain first rest where input: "input = first # rest" by (auto split: list.splits)
  let ?major = "unat first div 32"
  from Suc.prems obtain k v where arg: "cbor_arg (unat first mod 32) rest = Some (k, v)"
    by (auto simp: input major_info Let_def split: option.splits)
  define h where "h = first # take k rest"
  from head_of_arg [OF arg] have head: "cbor_head ?major v h" and k: "k \<le> length rest" by (simp_all add: h_def)
  then have h: "length h = Suc k" "input = h @ drop k rest" "drop k rest = drop (Suc k) input"
    by (simp_all add: h_def input)
  from Suc.prems have n: "n \<le> length input" "cbor_level d ?major (Suc k) v input = Some n"
    unfolding input cbor_step [OF arg] by simp_all
  note n(2) [unfolded cbor_level_def]
  note n = n(1) this
  have items: "\<exists>items. length items = c \<and> (\<forall>i \<in> set items. cbor_item d i) \<and> take n input = h @ concat items"
    if "cbor_items (cbor_item_len_depth d) c input (Suc k) = Some n" for c
  proof -
    from cbor_items_sound [of "cbor_item_len_depth d" "cbor_item d", OF Suc.IH that]
    obtain items where i: "length items = c" "\<forall>i \<in> set items. cbor_item d i" "n = Suc k + length (concat items)"
      "Suc k \<le> length input \<longrightarrow> take (n - Suc k) (drop (Suc k) input) = concat items" by metis
    have "Suc k \<le> length input" using k by (simp add: input)
    with i have "take (length (concat items)) (drop (Suc k) input) = concat items" by simp
    moreover have "take (Suc k) input = h" by (simp add: h_def input)
    ultimately have "take n input = h @ concat items" by (simp only: i(3) take_add)
    with i(1,2) show ?thesis by blast
  qed
  have "?major < 8" using unsigned_less [of first, where ?'a = nat] by simp
  then consider "?major \<in> {0, 1, 7}" | "?major \<in> {2, 3}" | "?major = 4" | "?major = 5" | "?major = 6" by force
  then have "cbor_item (Suc d) (take n input)"
  proof cases
    case 1
    then have "n = Suc k" using n(2) by (auto split: if_splits)
    then have "take n input = h" by (simp add: h_def input)
    with cbor_item.atom [OF head 1] show ?thesis by simp
  next
    case 2
    then have n': "n = Suc k + v" using n(2) by auto
    let ?s = "take v (drop k rest)"
    have "length ?s = v" using n(1) n' k by (simp add: input)
    moreover have "take n input = h @ ?s" by (simp add: n' h_def input take_add)
    ultimately show ?thesis using cbor_item.string [of ?major ?s h d] head 2 by simp
  next
    case 3
    with n(2) items [of v] obtain js where "length js = v" "\<forall>i \<in> set js. cbor_item d i" "take n input = h @ concat js"
      by auto
    with cbor_item.array [of js h d] head 3 show ?thesis by simp
  next
    case 4
    with n(2) items [of "2 * v"] obtain js where "length js = 2 * v" "\<forall>i \<in> set js. cbor_item d i"
      "take n input = h @ concat js" by auto
    with cbor_item.map [of v h js d] head 4 show ?thesis by simp
  next
    case 5
    with n(2) obtain m where m: "cbor_item_len_depth d (drop k rest) = Some m" "n = Suc k + m"
      by (auto simp: h(3) [symmetric])
    have "take n input = h @ take m (drop k rest)" by (simp add: m(2) h_def input take_add)
    with cbor_item.tag [of v h d] Suc.IH [OF m(1)] head 5 show ?thesis by simp
  qed
  with n(1) show ?case by simp
qed simp

lemma cbor_len_complete:
  "cbor_item d i \<Longrightarrow> cbor_item_len_depth d (i @ r) = Some (length i)"
proof (induction d arbitrary: i r)
  case 0
  then show ?case by (auto elim: cbor_item_0E)
next
  case (Suc d)
  have run: "cbor_item_len_depth (Suc d) (bs @ r') = Some n \<longleftrightarrow>
      n \<le> length (bs @ r') \<and> cbor_level d major (length bs) v (bs @ r') = Some n"
    if "cbor_head major v bs" for major v bs r' n
  proof -
    from arg_of_head [OF that] obtain first args where b: "bs = first # args" "major = unat first div 32"
      "cbor_arg (unat first mod 32) (args @ r') = Some (length args, v)" by metis
    show ?thesis using cbor_step [OF b(3), of d n] by (simp only: b(1,2) append_Cons list.size add_Suc_right)
      (simp del: cbor_item_len_depth.simps)
  qed
  from Suc.prems show ?case
  proof (rule cbor_item_SucE)
    fix major v assume "cbor_head major v i" "major = 0 \<or> major = Suc 0 \<or> major = 7"
    then show ?thesis using run [of major v i r] by (auto simp: cbor_level_def simp del: cbor_item_len_depth.simps)
  next
    fix major s bs assume "i = bs @ s" "cbor_head major (length s) bs" "major = 2 \<or> major = 3"
    then show ?thesis using run [of major "length s" bs "s @ r"]
      by (auto simp: cbor_level_def simp del: cbor_item_len_depth.simps)
  next
    fix items bs assume a: "i = bs @ concat items" "cbor_head 4 (length items) bs" "\<forall>i \<in> set items. cbor_item d i"
    from cbor_items_complete [of "cbor_item d" "cbor_item_len_depth d", OF Suc.IH a(3), of bs r]
    show ?thesis using run [OF a(2), of "concat items @ r"]
      by (simp add: a(1) cbor_level_def del: cbor_item_len_depth.simps)
  next
    fix v bs items assume a: "i = bs @ concat items" "cbor_head 5 v bs" "length items = 2 * v"
      "\<forall>i \<in> set items. cbor_item d i"
    from cbor_items_complete [of "cbor_item d" "cbor_item_len_depth d", OF Suc.IH a(4), of bs r]
    show ?thesis using run [OF a(2), of "concat items @ r"]
      by (simp add: a(1,3) cbor_level_def del: cbor_item_len_depth.simps)
  next
    fix v bs j assume a: "i = bs @ j" "cbor_head 6 v bs" "cbor_item d j"
    from Suc.IH [OF a(3), of r] show ?thesis using run [OF a(2), of "j @ r"]
      by (simp add: a(1) cbor_level_def del: cbor_item_len_depth.simps)
  qed
qed

lemma cbor_item_len_exact_lemma:
  "cbor_item_len input = Some n \<longleftrightarrow> n \<le> length input \<and> cbor_item 33 (take n input)"
proof
  assume "cbor_item_len input = Some n"
  then show "n \<le> length input \<and> cbor_item 33 (take n input)"
    using cbor_len_sound [of 33 input n] by (simp add: cbor_item_len_def MAX_CBOR_DEPTH_def del: cbor_item_len_depth.simps)
next
  assume n: "n \<le> length input \<and> cbor_item 33 (take n input)"
  with cbor_len_complete [of 33 "take n input" "drop n input"] show "cbor_item_len input = Some n"
    by (simp add: cbor_item_len_def MAX_CBOR_DEPTH_def min_absorb2 del: cbor_item_len_depth.simps)
qed

text \<open>
  The walk over the first item of an input measures exactly the CBOR items of the format: it
  yields a length if and only if that many bytes are there and form one item of definite lengths,
  nested at most 32 deep, whatever follows them; so the length is unique and no input can send it
  past the end.
\<close>

theorem cbor_item_len_exact:
  "cbor_item_len input = Some n \<longleftrightarrow> n \<le> length input \<and> cbor_item 33 (take n input)"
  by (rule cbor_item_len_exact_lemma)

subsection \<open>Authenticator data\<close>

definition FLAG_UP :: byte where "FLAG_UP = 0x01"
definition FLAG_UV :: byte where "FLAG_UV = 0x04"
definition FLAG_BE :: byte where "FLAG_BE = 0x08"
definition FLAG_BS :: byte where "FLAG_BS = 0x10"
definition FLAG_AT :: byte where "FLAG_AT = 0x40"
definition FLAG_ED :: byte where "FLAG_ED = 0x80"

definition HEADER_LEN :: nat where "HEADER_LEN = 37"
definition AAGUID_LEN :: nat where "AAGUID_LEN = 16"
definition MAX_CREDENTIAL_ID_LEN :: nat where "MAX_CREDENTIAL_ID_LEN = 2048"

record attested_credential_data =
  ac_aaguid :: "byte list"
  ac_credential_id :: "byte list"
  ac_public_key_cbor :: "byte list"

record authenticator_data =
  ad_raw :: "byte list"
  ad_rp_id_hash :: "byte list"
  ad_flags :: byte
  ad_sign_count :: nat
  ad_attested :: "attested_credential_data option"

definition slice :: "nat \<Rightarrow> nat \<Rightarrow> byte list \<Rightarrow> byte list" where
  "slice from to raw = take (to - from) (drop from raw)"

definition parse_attested :: "byte list \<Rightarrow> nat \<Rightarrow> (attested_credential_data \<times> nat) result" where
  "parse_attested raw cursor =
     (if length raw < cursor + AAGUID_LEN + 2 then Inl (Store ''attested credential data truncated at AAGUID'')
      else
        let aaguid = slice cursor (cursor + AAGUID_LEN) raw;
            cursor1 = cursor + AAGUID_LEN;
            cred_len = be_value [raw ! cursor1, raw ! (cursor1 + 1)]
        in if cred_len = 0 then Inl (Store ''credential id must not be empty'')
           else if cred_len > MAX_CREDENTIAL_ID_LEN then Inl (Store ''credential id length exceeds limit'')
           else
             let cursor2 = cursor1 + 2
             in if cursor2 + cred_len > length raw then Inl (Store ''attested credential id truncated'')
                else
                  let credential_id = slice cursor2 (cursor2 + cred_len) raw; key_start = cursor2 + cred_len
                  in case cbor_item_len (drop key_start raw) of
                       None \<Rightarrow> Inl (Store ''credential public key CBOR truncated'')
                     | Some n \<Rightarrow>
                         let key_end = n + key_start
                         in if key_end > length raw then Inl (Store ''credential public key CBOR overruns buffer'')
                            else Inr (\<lparr>ac_aaguid = aaguid, ac_credential_id = credential_id,
                                   ac_public_key_cbor = slice key_start key_end raw\<rparr>, key_end))"

definition auth_data_parse :: "byte list \<Rightarrow> authenticator_data result" where
  "auth_data_parse raw =
     (if length raw < HEADER_LEN then Inl (Store ''authenticatorData too short'')
      else
        let flags = raw ! 32; sign_count = be_value (slice 33 37 raw); cursor = HEADER_LEN
        in and_then
             (if flags AND FLAG_AT \<noteq> 0 then and_then (parse_attested raw cursor) (\<lambda>(a, c). Inr (Some a, c))
              else Inr (None, cursor))
             (\<lambda>(attested, cursor').
               and_then
                 (if flags AND FLAG_ED \<noteq> 0
                  then (case cbor_item_len (drop cursor' raw) of
                          None \<Rightarrow> Inl (Store ''extension data CBOR truncated'')
                        | Some n \<Rightarrow> Inr (cursor' + n))
                  else Inr cursor')
                 (\<lambda>cursor''.
                   if cursor'' \<noteq> length raw then Inl (Store ''trailing bytes after authenticatorData'')
                   else Inr \<lparr>ad_raw = raw, ad_rp_id_hash = take 32 raw, ad_flags = flags,
                     ad_sign_count = sign_count, ad_attested = attested\<rparr>)))"

definition user_present :: "authenticator_data \<Rightarrow> bool" where
  "user_present ad \<longleftrightarrow> ad_flags ad AND FLAG_UP \<noteq> 0"

definition user_verified :: "authenticator_data \<Rightarrow> bool" where
  "user_verified ad \<longleftrightarrow> ad_flags ad AND FLAG_UV \<noteq> 0"

definition backup_eligible :: "authenticator_data \<Rightarrow> bool" where
  "backup_eligible ad \<longleftrightarrow> ad_flags ad AND FLAG_BE \<noteq> 0"

definition backup_state :: "authenticator_data \<Rightarrow> bool" where
  "backup_state ad \<longleftrightarrow> ad_flags ad AND FLAG_BS \<noteq> 0"

subsection \<open>The layout\<close>

definition attested_bytes :: "attested_credential_data \<Rightarrow> byte list" where
  "attested_bytes a = ac_aaguid a @ map of_nat (base_digits 256 2 (length (ac_credential_id a))) @
     ac_credential_id a @ ac_public_key_cbor a"

definition attested_ok :: "attested_credential_data \<Rightarrow> bool" where
  "attested_ok a \<longleftrightarrow> length (ac_aaguid a) = 16 \<and> 1 \<le> length (ac_credential_id a) \<and>
     length (ac_credential_id a) \<le> 2048 \<and> cbor_item 33 (ac_public_key_cbor a)"

text \<open>The bytes of authenticator data with its extension data, and what its fields satisfy.\<close>

definition auth_data_bytes :: "authenticator_data \<Rightarrow> byte list \<Rightarrow> byte list" where
  "auth_data_bytes ad ext =
     ad_rp_id_hash ad @ ad_flags ad # map of_nat (base_digits 256 4 (ad_sign_count ad)) @
     (case ad_attested ad of None \<Rightarrow> [] | Some a \<Rightarrow> attested_bytes a) @ ext"

definition auth_data_ok :: "authenticator_data \<Rightarrow> byte list \<Rightarrow> bool" where
  "auth_data_ok ad ext \<longleftrightarrow> length (ad_rp_id_hash ad) = 32 \<and> ad_sign_count ad < 2 ^ 32 \<and>
     (ad_attested ad \<noteq> None \<longleftrightarrow> ad_flags ad AND FLAG_AT \<noteq> 0) \<and>
     (case ad_attested ad of None \<Rightarrow> True | Some a \<Rightarrow> attested_ok a) \<and>
     (if ad_flags ad AND FLAG_ED \<noteq> 0 then cbor_item 33 ext else ext = [])"

lemma be_value_less: "be_value bs < 256 ^ length bs"
proof (induction bs rule: rev_induct)
  case (snoc b bs)
  have b: "unat b < 256" using unsigned_less [of b, where ?'a = nat] by simp
  from snoc have "be_value bs + 1 \<le> 256 ^ length bs" by simp
  then have "(be_value bs + 1) * 256 \<le> 256 ^ length bs * 256" by (rule mult_right_mono) simp
  moreover have "be_value (bs @ [b]) = be_value bs * 256 + unat b" by (simp add: be_value_def)
  ultimately show ?case using b by simp
qed (simp add: be_value_def horner_def)

lemma be_value_digits:
  "be_value (map of_nat (base_digits 256 k n)) = n mod 256 ^ k"
proof -
  have "map unat (map of_nat (base_digits 256 k n) :: byte list) = base_digits 256 k n"
    by (simp add: map_idI unsigned_of_nat take_bit_nat_eq_self base_digits_less)
  then show ?thesis by (simp add: be_value_def horner_base_digits)
qed

lemma digits_be_value: "map of_nat (base_digits 256 (length bs) (be_value bs)) = bs"
proof (induction bs rule: rev_induct)
  case (snoc b bs)
  have b: "unat b < 256" using unsigned_less [of b, where ?'a = nat] by simp
  have "be_value (bs @ [b]) = be_value bs * 256 + unat b" by (simp add: be_value_def)
  with b snoc show ?case by simp
qed simp

lemma parse_attested_split:
  assumes "length g = 16" and n_def: "n = be_value [b0, b1]"
  shows "parse_attested (p @ g @ b0 # b1 # t) (length p) = Inr (a, e) \<longleftrightarrow>
    1 \<le> n \<and> n \<le> 2048 \<and> n \<le> length t \<and>
    (\<exists>k. cbor_item_len (drop n t) = Some k \<and>
      a = \<lparr>ac_aaguid = g, ac_credential_id = take n t, ac_public_key_cbor = take k (drop n t)\<rparr> \<and>
      e = length p + 18 + n + k)"
proof -
  define raw where "raw = p @ g @ b0 # b1 # t"
  have bytes: "raw ! (length p + 16) = b0" "raw ! (length p + 16 + 1) = b1"
    using assms(1) by (simp_all add: raw_def nth_append)
  have slices: "slice (length p) (length p + 16) raw = g"
    "slice (length p + 16 + 2) (length p + 16 + 2 + n) raw = take n t"
    "drop (length p + 16 + 2 + n) raw = drop n t"
    "slice (length p + 16 + 2 + n) (k + (length p + 16 + 2 + n)) raw = take k (drop n t)" for k
    using assms(1) by (simp_all add: raw_def slice_def drop_Cons' add.commute)
  have len: "length raw = length p + 18 + length t" using assms(1) by (simp add: raw_def)
  have over: "\<not> length t < n + k" if "cbor_item_len (drop n t) = Some k" "n \<le> length t" for k
    using that by (auto simp: cbor_item_len_exact_lemma)
  have "parse_attested raw (length p) =
    (if n = 0 then Inl (Store ''credential id must not be empty'')
     else if n > 2048 then Inl (Store ''credential id length exceeds limit'')
     else if length t < n then Inl (Store ''attested credential id truncated'')
     else case cbor_item_len (drop n t) of None \<Rightarrow> Inl (Store ''credential public key CBOR truncated'')
       | Some k \<Rightarrow> Inr (\<lparr>ac_aaguid = g, ac_credential_id = take n t,
              ac_public_key_cbor = take k (drop n t)\<rparr>, length p + 18 + n + k))"
    unfolding parse_attested_def Let_def AAGUID_LEN_def MAX_CREDENTIAL_ID_LEN_def bytes n_def [symmetric] slices
    using over by (auto simp: len split: option.split)
  then show ?thesis unfolding raw_def by (auto split: option.splits)
qed

lemma length_two: "length xs = 2 \<Longrightarrow> \<exists>a b. xs = [a, b]"
  by (cases xs; cases "tl xs") auto

lemma parse_attested_iff:
  "parse_attested (p @ r) (length p) = Inr (a, e) \<longleftrightarrow>
    (\<exists>s. r = attested_bytes a @ s \<and> attested_ok a \<and> e = length p + length (attested_bytes a))"
proof
  assume ok: "parse_attested (p @ r) (length p) = Inr (a, e)"
  then have "18 \<le> length r"
    by (auto simp: parse_attested_def AAGUID_LEN_def split: if_splits)
  then obtain b0 b1 where two: "take 2 (drop 16 r) = [b0, b1]"
    using length_two [of "take 2 (drop 16 r)"] by auto
  define g t where "g = take 16 r" and "t = drop 18 r"
  have "r = take 16 r @ take 2 (drop 16 r) @ drop 2 (drop 16 r)" by (simp only: append_take_drop_id)
  then have r: "r = g @ b0 # b1 # t" by (simp add: two g_def t_def)
  have g: "length g = 16" using \<open>18 \<le> length r\<close> by (simp add: g_def)
  define n where "n = be_value [b0, b1]"
  from ok obtain k where k: "1 \<le> n" "n \<le> 2048" "n \<le> length t" "cbor_item_len (drop n t) = Some k"
    "a = \<lparr>ac_aaguid = g, ac_credential_id = take n t, ac_public_key_cbor = take k (drop n t)\<rparr>"
    "e = length p + 18 + n + k"
    unfolding r parse_attested_split [OF g n_def] by blast
  from k(4) have k': "k + n \<le> length t" "cbor_item 33 (take k (drop n t))"
    using k(3) by (auto simp: cbor_item_len_exact_lemma)
  have "map of_nat (base_digits 256 2 n) = [b0, b1]" using digits_be_value [of "[b0, b1]"]
    by (simp add: n_def numeral_2_eq_2)
  then have whole: "r = attested_bytes a @ drop (n + k) t"
    using k(3) by (simp add: r attested_bytes_def k(5) min_absorb2 del: base_digits.simps)
      (metis append_take_drop_id drop_drop add.commute)
  show "\<exists>s. r = attested_bytes a @ s \<and> attested_ok a \<and> e = length p + length (attested_bytes a)"
  proof (intro exI conjI)
    show "attested_ok a" using k k' g by (auto simp: attested_ok_def min_absorb2)
    show "e = length p + length (attested_bytes a)" using k k' g by (simp add: attested_bytes_def min_absorb2)
  qed (rule whole)
next
  assume "\<exists>s. r = attested_bytes a @ s \<and> attested_ok a \<and> e = length p + length (attested_bytes a)"
  then obtain s where s: "r = attested_bytes a @ s" "attested_ok a" "e = length p + length (attested_bytes a)" by blast
  let ?n = "length (ac_credential_id a)"
  obtain b0 b1 where b: "map of_nat (base_digits 256 2 ?n) = [b0, b1 :: byte]"
    using length_two [of "map of_nat (base_digits 256 2 ?n) :: byte list"] by auto
  have n: "?n = be_value [b0, b1]"
    using be_value_digits [of 2 ?n] s(2) by (simp add: b attested_ok_def)
  have r: "r = ac_aaguid a @ b0 # b1 # ac_credential_id a @ ac_public_key_cbor a @ s"
    by (simp add: s(1) attested_bytes_def b)
  show "parse_attested (p @ r) (length p) = Inr (a, e)"
    unfolding r using s(2)
    by (subst parse_attested_split [OF _ n]) (auto simp: attested_ok_def s(3) attested_bytes_def b cbor_item_len_exact_lemma
      intro!: exI [of _ "length (ac_public_key_cbor a)"])
qed

lemma auth_data_split:
  assumes "length h = 32" "length c = 4"
  shows "auth_data_parse (h @ f # c @ r) = Inr ad \<longleftrightarrow> (\<exists>att q e.
    (if f AND FLAG_AT \<noteq> 0 then \<exists>a. att = Some a \<and> parse_attested (h @ f # c @ r) 37 = Inr (a, q)
     else att = None \<and> q = 37) \<and>
    (if f AND FLAG_ED \<noteq> 0 then \<exists>k. cbor_item_len (drop q (h @ f # c @ r)) = Some k \<and> e = q + k else e = q) \<and>
    e = length (h @ f # c @ r) \<and>
    ad = \<lparr>ad_raw = h @ f # c @ r, ad_rp_id_hash = h, ad_flags = f, ad_sign_count = be_value c,
      ad_attested = att\<rparr>)"
proof -
  define raw where "raw = h @ f # c @ r"
  have parts: "slice 33 37 raw = c" "take 32 raw = h" "raw ! 32 = f" "length raw < 37 \<longleftrightarrow> False"
    using assms by (simp_all add: raw_def slice_def nth_append)
  show ?thesis
    unfolding raw_def [symmetric] auth_data_parse_def Let_def HEADER_LEN_def parts if_False and_then_eq_Inr
    by (force simp: and_then_eq_Inr split: option.splits if_splits)
qed

abbreviation att_bytes :: "attested_credential_data option \<Rightarrow> byte list" where
  "att_bytes att \<equiv> (case att of None \<Rightarrow> [] | Some a \<Rightarrow> attested_bytes a)"

lemma attested_step:
  assumes "length p = 37"
  shows "(if at then \<exists>a. att = Some a \<and> parse_attested (p @ r) 37 = Inr (a, q) else att = None \<and> q = 37) \<longleftrightarrow>
    (\<exists>s. r = att_bytes att @ s \<and> q = 37 + length (att_bytes att) \<and> (att \<noteq> None \<longleftrightarrow> at) \<and>
      (case att of None \<Rightarrow> True | Some a \<Rightarrow> attested_ok a))"
  using parse_attested_iff [of p r] assms by (cases att) auto

lemma ext_step:
  assumes "length p = 37" "q = 37 + length a"
  shows "(if ed then \<exists>k. cbor_item_len (drop q (p @ a @ s)) = Some k \<and> e = q + k else e = q) \<and>
      e = length (p @ a @ s) \<longleftrightarrow>
    e = length (p @ a @ s) \<and> (if ed then cbor_item 33 s else s = [])"
  using assms by (auto simp: cbor_item_len_exact_lemma)

lemma auth_data_parts:
  assumes "length h = 32" "length c = 4"
  shows "auth_data_parse (h @ f # c @ r) = Inr ad \<longleftrightarrow> (\<exists>att ext. r = att_bytes att @ ext \<and>
    (att \<noteq> None \<longleftrightarrow> f AND FLAG_AT \<noteq> 0) \<and> (case att of None \<Rightarrow> True | Some a \<Rightarrow> attested_ok a) \<and>
    (if f AND FLAG_ED \<noteq> 0 then cbor_item 33 ext else ext = []) \<and>
    ad = \<lparr>ad_raw = h @ f # c @ r, ad_rp_id_hash = h, ad_flags = f, ad_sign_count = be_value c,
      ad_attested = att\<rparr>)" (is "_ = ?rhs")
proof -
  define p where "p = h @ f # c"
  have p: "length p = 37" using assms by (simp add: p_def)
  have raw: "h @ f # c @ r = p @ r" by (simp add: p_def)
  let ?ad = "\<lambda>att. \<lparr>ad_raw = p @ r, ad_rp_id_hash = h, ad_flags = f, ad_sign_count = be_value c, ad_attested = att\<rparr>"
  note split = auth_data_split [OF assms, of f r ad, unfolded raw attested_step [OF p]]
  show ?thesis unfolding raw
  proof
    assume "auth_data_parse (p @ r) = Inr ad"
    then obtain att e s where s: "r = att_bytes att @ s" "(att \<noteq> None) = (f AND FLAG_AT \<noteq> 0)"
      "case att of None \<Rightarrow> True | Some a \<Rightarrow> attested_ok a" "ad = ?ad att"
      and e: "if f AND FLAG_ED \<noteq> 0 then \<exists>k. cbor_item_len (drop (37 + length (att_bytes att)) (p @ r)) = Some k \<and>
          e = 37 + length (att_bytes att) + k else e = 37 + length (att_bytes att)" "e = length (p @ r)"
      unfolding split by blast
    from e ext_step [OF p refl, of "f AND FLAG_ED \<noteq> 0" "att_bytes att" s e]
    have "if f AND FLAG_ED \<noteq> 0 then cbor_item 33 s else s = []" by (simp only: s(1) simp_thms)
    with s show "\<exists>att ext. r = att_bytes att @ ext \<and>
      (att \<noteq> None) = (f AND FLAG_AT \<noteq> 0) \<and> (case att of None \<Rightarrow> True | Some a \<Rightarrow> attested_ok a) \<and>
      (if f AND FLAG_ED \<noteq> 0 then cbor_item 33 ext else ext = []) \<and> ad = ?ad att" by blast
  next
    assume "\<exists>att ext. r = att_bytes att @ ext \<and>
      (att \<noteq> None) = (f AND FLAG_AT \<noteq> 0) \<and> (case att of None \<Rightarrow> True | Some a \<Rightarrow> attested_ok a) \<and>
      (if f AND FLAG_ED \<noteq> 0 then cbor_item 33 ext else ext = []) \<and> ad = ?ad att"
    then obtain att s where s: "r = att_bytes att @ s" "(att \<noteq> None) = (f AND FLAG_AT \<noteq> 0)"
      "case att of None \<Rightarrow> True | Some a \<Rightarrow> attested_ok a" "ad = ?ad att"
      and ed: "if f AND FLAG_ED \<noteq> 0 then cbor_item 33 s else s = []" by blast
    from ed ext_step [OF p refl, of "f AND FLAG_ED \<noteq> 0" "att_bytes att" s "length (p @ r)"]
    have "if f AND FLAG_ED \<noteq> 0 then \<exists>k. cbor_item_len (drop (37 + length (att_bytes att)) (p @ r)) = Some k \<and>
        length (p @ r) = 37 + length (att_bytes att) + k else length (p @ r) = 37 + length (att_bytes att)"
      by (simp only: s(1) simp_thms)
    with s show "auth_data_parse (p @ r) = Inr ad" unfolding split by blast
  qed
qed

text \<open>
  C29: parsing authenticator data is exactly the reading of its layout: an input parses if and only
  if it is the hash of the relying party (32 bytes), the flags, the big-endian counter (4 bytes), the
  attested credential (identifier of the model, length, credential identifier of 1 to 2048
  bytes, one CBOR item for the key) exactly when flag AT is set, one CBOR item of extensions exactly
  when flag ED is set, and nothing after them; the fields are then those bytes.
\<close>

theorem auth_data_exact:
  "auth_data_parse raw = Inr ad \<longleftrightarrow>
    ad_raw ad = raw \<and> (\<exists>ext. auth_data_ok ad ext \<and> raw = auth_data_bytes ad ext)"
proof
  assume ok: "auth_data_parse raw = Inr ad"
  then have "37 \<le> length raw" by (auto simp: auth_data_parse_def HEADER_LEN_def split: if_splits)
  define h c r f where "h = take 32 raw" and "c = take 4 (drop 33 raw)" and "r = drop 37 raw" and "f = raw ! 32"
  have len: "length h = 32" "length c = 4" using \<open>37 \<le> length raw\<close> by (simp_all add: h_def c_def)
  have "drop 33 raw = c @ r" using append_take_drop_id [of 4 "drop 33 raw"] by (simp add: c_def r_def)
  then have raw: "raw = h @ f # c @ r"
    using id_take_nth_drop [of 32 raw] \<open>37 \<le> length raw\<close> by (simp add: h_def f_def)
  have c: "be_value c < 2 ^ 32" "map of_nat (base_digits 256 4 (be_value c)) = c"
    using be_value_less [of c] digits_be_value [of c] by (simp_all add: len)
  from ok show "ad_raw ad = raw \<and> (\<exists>ext. auth_data_ok ad ext \<and> raw = auth_data_bytes ad ext)"
    unfolding raw auth_data_parts [OF len] using c len
    by (force simp: auth_data_ok_def auth_data_bytes_def)
next
  assume "ad_raw ad = raw \<and> (\<exists>ext. auth_data_ok ad ext \<and> raw = auth_data_bytes ad ext)"
  then obtain ext where e: "ad_raw ad = raw" "auth_data_ok ad ext" "raw = auth_data_bytes ad ext" by blast
  define c :: "byte list" where "c = map of_nat (base_digits 256 4 (ad_sign_count ad))"
  have c: "be_value c = ad_sign_count ad" "length c = 4"
    using e(2) be_value_digits [of 4 "ad_sign_count ad"] by (simp_all add: c_def auth_data_ok_def)
  have raw: "raw = ad_rp_id_hash ad @ ad_flags ad # c @ att_bytes (ad_attested ad) @ ext"
    by (simp add: e(3) auth_data_bytes_def c_def)
  have len: "length (ad_rp_id_hash ad) = 32" using e(2) by (simp add: auth_data_ok_def)
  show "auth_data_parse raw = Inr ad"
    unfolding raw auth_data_parts [OF len c(2)]
    using e by (intro exI [of _ "ad_attested ad"] exI [of _ ext]) (simp add: auth_data_ok_def c raw)
qed

end
