(* ===== verification/Webauthn_Challenge.thy ===== *)
theory Webauthn_Challenge
  imports Webauthn_Data Proof_Of_Work
begin

text \<open>
  \<^verbatim>\<open>challenge.rs\<close> and \<^verbatim>\<open>client_data.rs\<close> of \<^verbatim>\<open>src/auth/passport/webauthn\<close>: the store of
  single-use challenges and the expectations on the data of the client. Issuing a challenge takes
  the lock twice, to prune and to insert; the two are calls of their own, so that histories
  interleave them. The hash, the random bytes and the JSON parser are parameters.
\<close>

subsection \<open>The store\<close>

datatype challenge_purpose = Register | Authenticate

datatype challenge_error = ChallengeNotFound | ChallengeExpired | PurposeMismatch | UserMismatch

record challenge_entry =
  che_issued_at :: instant
  che_purpose :: challenge_purpose
  che_user_id :: "string option"

record challenge_store =
  chs_entries :: "(string, challenge_entry) hash_map"
  chs_ttl :: int
  chs_cap :: nat

definition challenge_with_limits :: "int \<Rightarrow> nat \<Rightarrow> challenge_store" where
  "challenge_with_limits ttl cap = \<lparr>chs_entries = [], chs_ttl = ttl, chs_cap = cap\<rparr>"

definition challenge_new :: challenge_store where
  "challenge_new = \<lparr>chs_entries = [], chs_ttl = 180 * 1000000000, chs_cap = 10000\<rparr>"

definition challenge_prune :: "instant \<Rightarrow> challenge_store \<Rightarrow> challenge_store" where
  "challenge_prune now st =
     st\<lparr>chs_entries := filter (\<lambda>(_, e). elapsed_since now (che_issued_at e) \<le> chs_ttl st) (chs_entries st)\<rparr>"

definition challenge_evict :: "challenge_store \<Rightarrow> (string, challenge_entry) hash_map" where
  "challenge_evict st =
     (if length (chs_entries st) \<ge> chs_cap st
      then let v = sort_key snd (map (\<lambda>(k, e). (k, che_issued_at e)) (chs_entries st));
               drop_n = length v - (chs_cap st - 1)
           in fold (\<lambda>(k, _). AList.delete k) (take drop_n v) (chs_entries st)
      else chs_entries st)"

definition challenge_insert ::
  "instant \<Rightarrow> string \<Rightarrow> challenge_purpose \<Rightarrow> string option \<Rightarrow> challenge_store \<Rightarrow> challenge_store" where
  "challenge_insert now key purpose user st =
     st\<lparr>chs_entries := AList.update key
        \<lparr>che_issued_at = now, che_purpose = purpose, che_user_id = user\<rparr> (challenge_evict st)\<rparr>"

definition challenge_issue ::
  "(byte list \<Rightarrow> byte list) \<Rightarrow> instant \<Rightarrow> byte list \<Rightarrow> instant \<Rightarrow> challenge_purpose \<Rightarrow> string option \<Rightarrow>
   challenge_store \<Rightarrow> (challenge_error + string) \<times> challenge_store" where
  "challenge_issue sha pruned_at raw now purpose user st =
     (let st1 = challenge_prune pruned_at st; encoded = b64_encode (sha raw)
      in (Inr encoded, challenge_insert now encoded purpose user st1))"

definition challenge_verify ::
  "instant \<Rightarrow> string \<Rightarrow> challenge_purpose \<Rightarrow> string option \<Rightarrow> challenge_store \<Rightarrow>
   (challenge_error + unit) \<times> challenge_store" where
  "challenge_verify now key purpose user st =
     (let st' = st\<lparr>chs_entries := AList.delete key (chs_entries st)\<rparr>
      in case map_of (chs_entries st) key of
           None \<Rightarrow> (Inl ChallengeNotFound, st')
         | Some e \<Rightarrow>
             (if elapsed_since now (che_issued_at e) > chs_ttl st then Inl ChallengeExpired
              else if che_purpose e \<noteq> purpose then Inl PurposeMismatch
              else case (che_user_id e, user) of
                     (Some bound, Some want) \<Rightarrow> if bound \<noteq> want then Inl UserMismatch else Inr ()
                   | (Some _, None) \<Rightarrow> Inl UserMismatch
                   | (None, Some _) \<Rightarrow> Inl UserMismatch
                   | (None, None) \<Rightarrow> Inr (), st'))"

lemma challenge_verify_ok:
  "fst (challenge_verify now key purpose user st) = Inr () \<longleftrightarrow>
    (\<exists>t. map_of (chs_entries st) key = Some \<lparr>che_issued_at = t, che_purpose = purpose, che_user_id = user\<rparr> \<and>
      elapsed_since now t \<le> chs_ttl st)"
proof (cases "map_of (chs_entries st) key")
  case (Some e)
  then show ?thesis by (cases e) (auto simp: challenge_verify_def Let_def split: option.splits)
qed (simp add: challenge_verify_def Let_def)

lemma challenge_verify_state:
  "snd (challenge_verify now key purpose user st) = st\<lparr>chs_entries := AList.delete key (chs_entries st)\<rparr>"
  by (simp add: challenge_verify_def Let_def split: option.split)

subsection \<open>Eviction\<close>

lemma fold_deletes:
  "fold (\<lambda>(k, _). AList.delete k) ks m = filter (\<lambda>(k, _). k \<notin> fst ` set ks) m"
proof (induction ks arbitrary: m)
  case (Cons a ks)
  then show ?case by (cases a) (auto simp: AList.delete_eq intro!: filter_cong)
qed simp

lemma challenge_evict_filter:
  "\<exists>P. challenge_evict st = filter P (chs_entries st)"
proof (cases "length (chs_entries st) \<ge> chs_cap st")
  case True
  then show ?thesis unfolding challenge_evict_def Let_def fold_deletes by auto
next
  case False
  then have "challenge_evict st = filter (\<lambda>_. True) (chs_entries st)" by (simp add: challenge_evict_def)
  then show ?thesis by blast
qed

lemma challenge_evict_length:
  assumes wf: "hm_wf (chs_entries st)" and len: "length (chs_entries st) \<le> max 1 (chs_cap st)"
  shows "length (challenge_evict st) \<le> chs_cap st - 1"
proof (cases "length (chs_entries st) \<ge> chs_cap st")
  case True
  define v where "v = sort_key snd (map (\<lambda>(k, e). (k, che_issued_at e)) (chs_entries st))"
  define n where "n = length v - (chs_cap st - 1)"
  have keys: "mset (map fst v) = mset (map fst (chs_entries st))"
    by (simp add: v_def image_mset.compositionality comp_def case_prod_beta)
  then have dv: "distinct (map fst v)" using wf unfolding hm_wf_def by (metis mset_eq_imp_distinct_iff)
  have ks: "fst ` set v = fst ` set (chs_entries st)" using mset_eq_setD [OF keys] by simp
  have disj: "fst ` set (take n v) \<inter> fst ` set (drop n v) = {}"
    using dv append_take_drop_id [of n v] by (metis distinct_append map_append set_map)
  have ev: "challenge_evict st = filter (\<lambda>(k, _). k \<notin> fst ` set (take n v)) (chs_entries st)"
    using True by (simp add: challenge_evict_def Let_def fold_deletes v_def n_def)
  have "fst ` set (challenge_evict st) \<subseteq> fst ` set (drop n v)"
  proof
    fix k assume "k \<in> fst ` set (challenge_evict st)"
    then have "k \<in> fst ` set v" "k \<notin> fst ` set (take n v)" by (force simp: ev ks)+
    moreover have "set v = set (take n v) \<union> set (drop n v)" by (metis append_take_drop_id set_append)
    ultimately show "k \<in> fst ` set (drop n v)" by auto
  qed
  then have "card (fst ` set (challenge_evict st)) \<le> card (set (drop n v))"
    by (meson card_image_le card_mono finite_imageI finite_set le_trans)
  also have "\<dots> \<le> length (drop n v)" by (rule card_length)
  also have "\<dots> \<le> chs_cap st - 1" by (simp add: n_def)
  finally have "card (fst ` set (challenge_evict st)) \<le> chs_cap st - 1" .
  moreover have "distinct (map fst (challenge_evict st))"
    using wf unfolding ev hm_wf_def by (rule distinct_map_filter)
  ultimately show ?thesis by (metis distinct_card length_map set_map)
next
  case False
  then show ?thesis by (simp add: challenge_evict_def)
qed

subsection \<open>Histories of the store\<close>

datatype challenge_call =
    PruneChallenges
  | InsertChallenge string challenge_purpose "string option"
  | VerifyChallenge string challenge_purpose "string option"

fun challenge_step :: "instant \<times> challenge_call \<Rightarrow> challenge_store \<Rightarrow> challenge_store" where
  "challenge_step (now, PruneChallenges) st = challenge_prune now st"
| "challenge_step (now, InsertChallenge k p u) st = challenge_insert now k p u st"
| "challenge_step (now, VerifyChallenge k p u) st = snd (challenge_verify now k p u st)"

text \<open>Calls that replace or consume the challenge.\<close>

fun touches_challenge :: "string \<Rightarrow> challenge_call \<Rightarrow> bool" where
  "touches_challenge k PruneChallenges \<longleftrightarrow> False"
| "touches_challenge k (InsertChallenge k' p u) \<longleftrightarrow> k' = k"
| "touches_challenge k (VerifyChallenge k' p u) \<longleftrightarrow> k' = k"

abbreviation challenge_run :: "(instant \<times> challenge_call) list \<Rightarrow> int \<Rightarrow> nat \<Rightarrow> challenge_store" where
  "challenge_run cs ttl cap \<equiv> fold challenge_step cs (challenge_with_limits ttl cap)"

lemma challenge_run_limits [simp]:
  "chs_ttl (challenge_run cs ttl cap) = ttl" "chs_cap (challenge_run cs ttl cap) = cap"
proof -
  have "chs_ttl (challenge_step c st) = chs_ttl st \<and> chs_cap (challenge_step c st) = chs_cap st" for c st
    by (cases "(c, st)" rule: challenge_step.cases)
      (simp_all add: challenge_prune_def challenge_insert_def challenge_verify_state)
  then have "chs_ttl (fold challenge_step cs st) = chs_ttl st \<and> chs_cap (fold challenge_step cs st) = chs_cap st" for st
    by (induction cs arbitrary: st) simp_all
  then show "chs_ttl (challenge_run cs ttl cap) = ttl" "chs_cap (challenge_run cs ttl cap) = cap"
    by (simp_all add: challenge_with_limits_def)
qed

lemma challenge_evict_wf: "hm_wf (chs_entries st) \<Longrightarrow> hm_wf (challenge_evict st)"
  using challenge_evict_filter [of st] by auto

lemma challenge_run_bounded:
  "hm_wf (chs_entries (challenge_run cs ttl cap)) \<and> length (chs_entries (challenge_run cs ttl cap)) \<le> max 1 cap"
proof (induction cs rule: rev_induct)
  case (snoc c cs)
  let ?st = "challenge_run cs ttl cap"
  note ev = challenge_evict_length [of ?st] and wf = challenge_evict_wf [of ?st]
  show ?case
  proof (cases "(c, ?st)" rule: challenge_step.cases)
    case (1 now st)
    have "length (filter P (chs_entries ?st)) \<le> max 1 cap" for P
      using snoc length_filter_le [of P "chs_entries ?st"] by linarith
    with 1 snoc show ?thesis by (simp add: challenge_prune_def)
  next
    case (2 now k p u st)
    with snoc ev wf length_update_le [of k "\<lparr>che_issued_at = now, che_purpose = p, che_user_id = u\<rparr>" "challenge_evict ?st"]
    show ?thesis by (simp add: challenge_insert_def)
  next
    case (3 now k p u st)
    with snoc length_delete_le [of k "chs_entries ?st"] show ?thesis by (simp add: challenge_verify_state)
  qed
qed (simp add: challenge_with_limits_def)

lemma challenge_run_origin:
  assumes "map_of (chs_entries (challenge_run cs ttl cap)) k = Some e"
  shows "\<exists>pre post. cs = pre @ (che_issued_at e, InsertChallenge k (che_purpose e) (che_user_id e)) # post \<and>
    (\<forall>c \<in> set post. \<not> touches_challenge k (snd c))"
  using assms
proof (induction cs rule: rev_induct)
  case (snoc c cs)
  let ?st = "challenge_run cs ttl cap"
  note wf = conjunct1 [OF challenge_run_bounded, of cs ttl cap]
  have older: ?case if "map_of (chs_entries ?st) k = Some e" "\<not> touches_challenge k (snd c)"
  proof -
    from snoc.IH [OF that(1)] obtain pre post where
      "cs = pre @ (che_issued_at e, InsertChallenge k (che_purpose e) (che_user_id e)) # post"
      "\<forall>c \<in> set post. \<not> touches_challenge k (snd c)" by blast
    with that(2) show ?thesis by (intro exI [of _ pre] exI [of _ "post @ [c]"]) auto
  qed
  show ?case
  proof (cases "(c, ?st)" rule: challenge_step.cases)
    case (1 now st)
    with snoc.prems wf have "map_of (chs_entries ?st) k = Some e"
      by (auto simp: challenge_prune_def hm_simps split: option.splits if_splits)
    with older 1 show ?thesis by simp
  next
    case (2 now k' p u st)
    show ?thesis
    proof (cases "k' = k")
      case True
      with 2 snoc.prems have "e = \<lparr>che_issued_at = now, che_purpose = p, che_user_id = u\<rparr>"
        by (simp add: challenge_insert_def hm_simps)
      with 2 True show ?thesis by (intro exI [of _ cs] exI [of _ "[]"]) simp
    next
      case False
      obtain P where P: "challenge_evict ?st = filter P (chs_entries ?st)" using challenge_evict_filter by blast
      from 2 False snoc.prems have "map_of (challenge_evict ?st) k = Some e"
        by (simp add: challenge_insert_def hm_simps)
      then have "map_of (chs_entries ?st) k = Some e"
        using wf by (auto simp: P hm_simps split: option.splits if_splits)
      with older 2 False show ?thesis by simp
    qed
  next
    case (3 now k' p u st)
    with snoc.prems have "k' \<noteq> k" "map_of (chs_entries ?st) k = Some e"
      by (auto simp: challenge_verify_state hm_simps split: if_splits)
    with older 3 show ?thesis by simp
  qed
qed (simp add: challenge_with_limits_def)

text \<open>
  C34: a challenge answers for one ceremony only. Whatever was issued, pruned, evicted and verified
  before, by any interleaving of callers: when a verification succeeds, the challenge was
  issued for the same purpose and the same user, no longer ago than the time to live, and nobody
  has presented it since, successfully or not; right after it the challenge is unknown; and the
  store never holds more than its capacity (or one).
\<close>

theorem challenge_answers_once:
  assumes "fst (challenge_verify now k p u (challenge_run cs ttl cap)) = Inr ()"
  shows "(\<exists>t pre post. cs = pre @ (t, InsertChallenge k p u) # post \<and>
      (\<forall>c \<in> set post. \<not> touches_challenge k (snd c)) \<and> elapsed_since now t \<le> ttl) \<and>
    (\<forall>now' p' u'. fst (challenge_verify now' k p' u' (snd (challenge_verify now k p u (challenge_run cs ttl cap)))) =
      Inl ChallengeNotFound) \<and>
    length (chs_entries (challenge_run cs ttl cap)) \<le> max 1 cap"
proof (intro conjI)
  from assms obtain t where t: "map_of (chs_entries (challenge_run cs ttl cap)) k =
      Some \<lparr>che_issued_at = t, che_purpose = p, che_user_id = u\<rparr>" "elapsed_since now t \<le> ttl"
    by (auto simp: challenge_verify_ok)
  from challenge_run_origin [OF t(1)] t(2)
  show "\<exists>t pre post. cs = pre @ (t, InsertChallenge k p u) # post \<and>
      (\<forall>c \<in> set post. \<not> touches_challenge k (snd c)) \<and> elapsed_since now t \<le> ttl" by auto
  show "length (chs_entries (challenge_run cs ttl cap)) \<le> max 1 cap" by (rule conjunct2 [OF challenge_run_bounded])
qed (simp add: challenge_verify_state challenge_verify_def [of _ _ _ _ "_\<lparr>chs_entries := _\<rparr>"] hm_simps Let_def)

theorem challenge_answers_once_witness:
  "\<exists>t pre post. [(5, InsertChallenge ''c'' Register (Some ''u'')), (6, PruneChallenges)] =
     pre @ (t, InsertChallenge ''c'' Register (Some ''u'')) # post \<and> elapsed_since 9 t \<le> 7"
proof -
  let ?cs = "[(5, InsertChallenge ''c'' Register (Some ''u'')), (6, PruneChallenges)]"
  have "fst (challenge_verify 9 ''c'' Register (Some ''u'') (challenge_run ?cs 7 2)) = Inr ()"
    by (simp add: challenge_verify_def challenge_insert_def challenge_prune_def challenge_evict_def
      challenge_with_limits_def elapsed_since_def Let_def)
  from challenge_answers_once [OF this] show ?thesis by blast
qed

end
