(* ===== verification/Webauthn_Ceremony.thy ===== *)
theory Webauthn_Ceremony
  imports Webauthn_Challenge
begin

text \<open>
  \<^verbatim>\<open>client_data.rs\<close>, \<^verbatim>\<open>assertion.rs\<close>, \<^verbatim>\<open>assertion_legacy.rs\<close> and \<^verbatim>\<open>attestation.rs\<close> of
  \<^verbatim>\<open>src/auth/passport/webauthn\<close>: the checks of a login and of a registration with a passkey. The
  record \<open>webauthn_lib\<close> holds the libraries: the hash, the JSON, CBOR and COSE parsers, points
  and signatures of the curve. A text is the list of its bytes.
\<close>

subsection \<open>Client data\<close>

record client_data =
  cd_typ :: string
  cd_challenge :: string
  cd_origin :: string
  cd_cross_origin :: bool

definition TYPE_CREATE :: string where "TYPE_CREATE = ''webauthn.create''"
definition TYPE_GET :: string where "TYPE_GET = ''webauthn.get''"

definition base64url_decode :: "string \<Rightarrow> challenge_error + byte list" where
  "base64url_decode s = (case b64_decode s of Inl _ \<Rightarrow> Inl ChallengeNotFound | Inr bytes \<Rightarrow> Inr bytes)"

text \<open>\<^verbatim>\<open>to_ascii_lowercase\<close>.\<close>

definition ascii_lower :: "string \<Rightarrow> string" where
  "ascii_lower = map (\<lambda>c. let n = of_char c :: nat in if 65 \<le> n \<and> n \<le> 90 then char_of (n + 32) else c)"

definition verify_expectations :: "client_data \<Rightarrow> string \<Rightarrow> string \<Rightarrow> string list \<Rightarrow> unit result" where
  "verify_expectations cd expected_type expected_challenge_b64 allowed_origins =
     (if cd_typ cd \<noteq> expected_type then Inl (Store ''clientData type mismatch'')
      else case base64url_decode expected_challenge_b64 of
             Inl _ \<Rightarrow> Inl (Store ''issued challenge is not valid base64url'')
           | Inr issued \<Rightarrow>
               (case base64url_decode (cd_challenge cd) of
                  Inl _ \<Rightarrow> Inl (Store ''presented challenge is not valid base64url'')
                | Inr presented \<Rightarrow>
                    if \<not> constant_time_eq issued presented then Inl (Store ''clientData challenge mismatch'')
                    else if cd_cross_origin cd then Inl (Store ''cross_origin ceremonies are not accepted'')
                    else
                      let origin = ascii_lower (cd_origin cd)
                      in if \<not> (\<exists>o' \<in> set allowed_origins. ascii_lower o' = origin)
                         then Inl (Store ''origin not in allowlist'') else Inr ()))"

subsection \<open>Libraries\<close>

text \<open>The CBOR values that the code tells apart, and COSE keys with their registered labels.\<close>

datatype cbor_value =
    CborInteger int
  | CborBytes "byte list"
  | CborText string
  | CborMap "(cbor_value \<times> cbor_value) list"
  | CborOther nat

datatype cose_label = LabelInt int | LabelText string

datatype registered = Assigned int | PrivateUse int | RegisteredText string

record cose_key =
  ck_kty :: registered
  ck_alg :: "registered option"
  ck_params :: "(cose_label \<times> cbor_value) list"

record ('vk, 'sig) webauthn_lib =
  wl_sha256 :: "byte list \<Rightarrow> byte list"
  wl_client_data :: "byte list \<Rightarrow> client_data option"
  wl_cbor :: "byte list \<Rightarrow> cbor_value option"
  wl_cose_key :: "byte list \<Rightarrow> cose_key option"
  wl_sec1 :: "byte list \<Rightarrow> 'vk option"
  wl_der :: "byte list \<Rightarrow> 'sig option"
  wl_verify :: "'vk \<Rightarrow> byte list \<Rightarrow> 'sig \<Rightarrow> bool"

text \<open>The numbers of the IANA registry that the code names.\<close>

definition EC2 :: int where "EC2 = 2"
definition ES256 :: int where "ES256 = - 7"
definition P_256 :: int where "P_256 = 1"
definition EC2_CRV :: int where "EC2_CRV = - 1"
definition EC2_X :: int where "EC2_X = - 2"
definition EC2_Y :: int where "EC2_Y = - 3"

fun as_integer :: "cbor_value \<Rightarrow> int option" where
  "as_integer (CborInteger i) = Some i"
| "as_integer _ = None"

fun as_bytes_value :: "cbor_value \<Rightarrow> byte list option" where
  "as_bytes_value (CborBytes b) = Some b"
| "as_bytes_value _ = None"

subsection \<open>Keys\<close>

fun assigned :: "registered option \<Rightarrow> int option" where
  "assigned (Some (Assigned a)) = Some a"
| "assigned _ = None"

definition validate_supported_key :: "cose_key \<Rightarrow> unit result" where
  "validate_supported_key key =
     (case assigned (ck_alg key) of
        None \<Rightarrow> Inl (Store ''missing or unassigned algorithm'')
      | Some alg \<Rightarrow> if alg \<noteq> ES256 then Inl (Store ''unsupported algorithm'') else Inr ())"

definition get_param :: "cose_key \<Rightarrow> int \<Rightarrow> cbor_value option" where
  "get_param key label = map_option snd (find (\<lambda>(l, _). l = LabelInt label) (ck_params key))"

definition get_param_int :: "cose_key \<Rightarrow> int \<Rightarrow> int option" where
  "get_param_int key label =
     (case Option.bind (get_param key label) as_integer of
        Some i \<Rightarrow> if - (2 ^ 63) \<le> i \<and> i < 2 ^ 63 then Some i else None
      | None \<Rightarrow> None)"

definition get_param_bytes :: "cose_key \<Rightarrow> int \<Rightarrow> byte list option" where
  "get_param_bytes key label = Option.bind (get_param key label) as_bytes_value"

definition key_from_cose :: "('vk, 'sig) webauthn_lib \<Rightarrow> byte list \<Rightarrow> 'vk result" where
  "key_from_cose lib cose_key_bytes =
     (case wl_cose_key lib cose_key_bytes of
        None \<Rightarrow> Inl (Store ''invalid COSE key'')
      | Some key \<Rightarrow>
          if ck_kty key \<noteq> Assigned EC2 then Inl (Store ''unsupported key type'')
          else case assigned (ck_alg key) of
                 None \<Rightarrow> Inl (Store ''missing or unassigned algorithm'')
               | Some alg \<Rightarrow>
                   if alg \<noteq> ES256 then Inl (Store ''unsupported algorithm'')
                   else case get_param_int key EC2_CRV of
                          None \<Rightarrow> Inl (Store ''missing curve parameter'')
                        | Some crv \<Rightarrow>
                            if crv \<noteq> P_256 then Inl (Store ''unsupported curve'')
                            else case get_param_bytes key EC2_X of
                                   None \<Rightarrow> Inl (Store ''missing EC x-coordinate'')
                                 | Some x \<Rightarrow>
                                     (case get_param_bytes key EC2_Y of
                                        None \<Rightarrow> Inl (Store ''missing EC y-coordinate'')
                                      | Some y \<Rightarrow>
                                          (case wl_sec1 lib (0x04 # x @ y) of
                                             None \<Rightarrow> Inl (Store ''invalid EC public key'')
                                           | Some vk \<Rightarrow> Inr vk)))"

subsection \<open>Assertions\<close>

record assertion_expectations =
  ae_rp_id :: string
  ae_challenge_b64 :: string
  ae_allowed_origins :: "string list"
  ae_require_user_verification :: bool

record assertion_outcome =
  ao_sign_count :: nat
  ao_user_verified :: bool
  ao_backup_state :: bool

definition MAX_SIGN_COUNT_GAP :: nat where "MAX_SIGN_COUNT_GAP = 1024"

definition counter_policy :: "nat \<Rightarrow> nat \<Rightarrow> nat result" where
  "counter_policy stored auth =
     (if auth \<noteq> 0 \<or> stored \<noteq> 0 then
        if auth \<le> stored then Inl (Store ''sign_count not incremented'')
        else if auth - stored > MAX_SIGN_COUNT_GAP then Inl (Store ''sign_count gap too large'')
        else Inr auth
      else Inr 0)"

definition verify_signature ::
  "('vk, 'sig) webauthn_lib \<Rightarrow> byte list \<Rightarrow> byte list \<Rightarrow> byte list \<Rightarrow> byte list \<Rightarrow> unit result" where
  "verify_signature lib cose signature raw client_data_json =
     and_then (key_from_cose lib cose) (\<lambda>vk.
       let signed_data = raw @ wl_sha256 lib client_data_json
       in case wl_der lib signature of
            None \<Rightarrow> Inl (Store ''invalid DER signature'')
          | Some sig \<Rightarrow>
              if \<not> wl_verify lib vk signed_data sig then Inl (Store ''signature verification failed'') else Inr ())"

definition verify_assertion ::
  "('vk, 'sig) webauthn_lib \<Rightarrow> byte list \<Rightarrow> byte list \<Rightarrow> nat \<Rightarrow> byte list \<Rightarrow> byte list \<Rightarrow> byte list \<Rightarrow>
   byte list \<Rightarrow> assertion_expectations \<Rightarrow> assertion_outcome result" where
  "verify_assertion lib stored_credential_id stored_public_key_cose stored_sign_count
     response_credential_id authenticator_data signature client_data_json ex =
     (case wl_client_data lib client_data_json of
        None \<Rightarrow> Inl (Store ''invalid clientDataJSON'')
      | Some cd \<Rightarrow>
          and_then (verify_expectations cd TYPE_GET (ae_challenge_b64 ex) (ae_allowed_origins ex)) (\<lambda>_.
          and_then (auth_data_parse authenticator_data) (\<lambda>ad.
            if \<not> user_present ad then Inl (Store ''UP flag not set'')
            else if ae_require_user_verification ex \<and> \<not> user_verified ad
            then Inl (Store ''UV flag required but not set'')
            else if ad_rp_id_hash ad \<noteq> wl_sha256 lib (str_bytes (ae_rp_id ex)) then Inl (Store ''rpIdHash mismatch'')
            else if response_credential_id = [] \<or> stored_credential_id = []
            then Inl (Store ''credential id must not be empty'')
            else if \<not> constant_time_eq response_credential_id stored_credential_id
            then Inl (Store ''credential_id mismatch'')
            else
              and_then (verify_signature lib stored_public_key_cose signature (ad_raw ad) client_data_json) (\<lambda>_.
              and_then (counter_policy stored_sign_count (ad_sign_count ad)) (\<lambda>new_count.
                Inr \<lparr>ao_sign_count = new_count, ao_user_verified = user_verified ad,
                  ao_backup_state = backup_state ad\<rparr>)))))"

text \<open>The verifier of earlier releases: it takes the counter from its caller.\<close>

record webauthn_verifier =
  wv_credential_id :: "byte list"
  wv_public_key_cose :: "byte list"
  wv_sign_count :: nat

definition legacy_verify ::
  "('vk, 'sig) webauthn_lib \<Rightarrow> webauthn_verifier \<Rightarrow> byte list \<Rightarrow> byte list \<Rightarrow> byte list \<Rightarrow> byte list \<Rightarrow> nat \<Rightarrow>
   nat result" where
  "legacy_verify lib v credential_id authenticator_data client_data_json signature auth_sign_count =
     (if \<not> constant_time_eq credential_id (wv_credential_id v) then Inl (Store ''credential_id mismatch'')
      else
        and_then (counter_policy (wv_sign_count v) auth_sign_count) (\<lambda>_.
        and_then (verify_signature lib (wv_public_key_cose v) signature authenticator_data client_data_json) (\<lambda>_.
          Inr auth_sign_count)))"

subsection \<open>Registrations\<close>

record attested_credential =
  at_credential_id :: "byte list"
  at_public_key_cose :: "byte list"
  at_aaguid :: "byte list"
  at_backup_eligible :: bool
  at_backup_state :: bool

record registration_outputs =
  ro_rp_id_hash :: "byte list"
  ro_credential :: attested_credential
  ro_sign_count :: nat
  ro_user_verified :: bool

record attestation_policy =
  ap_require_user_verification :: bool
  ap_allowed_origins :: "string list"

record attestation_fields =
  af_fmt :: "string option"
  af_auth_data :: "byte list option"
  af_stmt_empty :: bool

text \<open>The loop over the entries of the map; a later entry of a key replaces an earlier one.\<close>

fun attestation_loop ::
  "(cbor_value \<times> cbor_value) list \<Rightarrow> attestation_fields \<Rightarrow> attestation_fields result" where
  "attestation_loop [] a = Inr a"
| "attestation_loop ((k, v) # rest) a =
     (case k of
        CborText field \<Rightarrow>
          if field = ''fmt'' then
            (case v of
               CborText f \<Rightarrow> attestation_loop rest (a\<lparr>af_fmt := Some f\<rparr>)
             | _ \<Rightarrow> Inl (Store ''fmt must be text''))
          else if field = ''attStmt'' then
            (case v of
               CborMap [] \<Rightarrow> attestation_loop rest (a\<lparr>af_stmt_empty := True\<rparr>)
             | _ \<Rightarrow> Inl (Store ''attStmt must be an empty map for fmt=none''))
          else if field = ''authData'' then
            (case v of
               CborBytes b \<Rightarrow> attestation_loop rest (a\<lparr>af_auth_data := Some b\<rparr>)
             | _ \<Rightarrow> Inl (Store ''authData must be bytes''))
          else attestation_loop rest a
      | _ \<Rightarrow> Inl (Store ''non-text map key in attestationObject''))"

definition parse_attestation_object ::
  "('vk, 'sig) webauthn_lib \<Rightarrow> byte list \<Rightarrow> (string \<times> byte list) result" where
  "parse_attestation_object lib bytes =
     (case wl_cbor lib bytes of
        None \<Rightarrow> Inl (Store ''attestationObject CBOR invalid'')
      | Some (CborMap m) \<Rightarrow>
          and_then (attestation_loop m \<lparr>af_fmt = None, af_auth_data = None, af_stmt_empty = False\<rparr>) (\<lambda>a.
            case (af_fmt a, af_stmt_empty a, af_auth_data a) of
              (Some fmt, True, Some auth_data) \<Rightarrow> Inr (fmt, auth_data)
            | (_, False, _) \<Rightarrow> Inl (Store ''missing or non-empty attStmt for fmt=none'')
            | (None, _, _) \<Rightarrow> Inl (Store ''missing fmt'')
            | (_, _, None) \<Rightarrow> Inl (Store ''missing authData''))
      | Some _ \<Rightarrow> Inl (Store ''attestationObject is not a CBOR map''))"

definition verify_attestation_none ::
  "('vk, 'sig) webauthn_lib \<Rightarrow> byte list \<Rightarrow> client_data \<Rightarrow> string \<Rightarrow> registration_outputs result" where
  "verify_attestation_none lib attestation_object cd rp_id =
     and_then (parse_attestation_object lib attestation_object) (\<lambda>(fmt, auth_data_bytes).
       if fmt \<noteq> ''none'' then Inl (Store ''unsupported attestation format'')
       else
         and_then (auth_data_parse auth_data_bytes) (\<lambda>ad.
           if \<not> user_present ad then Inl (Store ''UP flag not set at registration'')
           else if ad_rp_id_hash ad \<noteq> wl_sha256 lib (str_bytes rp_id) then Inl (Store ''rpIdHash mismatch'')
           else if ad_flags ad AND FLAG_AT = 0 then Inl (Store ''AT flag not set or credential data missing'')
           else case ad_attested ad of
                  None \<Rightarrow> Inl (Store ''AT flag not set or credential data missing'')
                | Some attested \<Rightarrow>
                    (case wl_cose_key lib (ac_public_key_cbor attested) of
                       None \<Rightarrow> Inl (Store ''credential public key CBOR invalid'')
                     | Some cose \<Rightarrow>
                         and_then (validate_supported_key cose) (\<lambda>_.
                           Inr \<lparr>ro_rp_id_hash = ad_rp_id_hash ad,
                             ro_credential = \<lparr>at_credential_id = ac_credential_id attested,
                               at_public_key_cose = ac_public_key_cbor attested, at_aaguid = ac_aaguid attested,
                               at_backup_eligible = backup_eligible ad, at_backup_state = backup_state ad\<rparr>,
                             ro_sign_count = ad_sign_count ad, ro_user_verified = user_verified ad\<rparr>))))"

definition verify_attestation_none_with_policy ::
  "('vk, 'sig) webauthn_lib \<Rightarrow> byte list \<Rightarrow> client_data \<Rightarrow> string \<Rightarrow> attestation_policy \<Rightarrow>
   registration_outputs result" where
  "verify_attestation_none_with_policy lib attestation_object client_data rp_id policy =
     and_then (if ap_allowed_origins policy \<noteq> []
               then verify_expectations client_data ''webauthn.create'' (cd_challenge client_data)
                 (ap_allowed_origins policy)
               else Inr ()) (\<lambda>_.
     and_then (verify_attestation_none lib attestation_object client_data rp_id) (\<lambda>outputs.
       if ap_require_user_verification policy \<and> \<not> ro_user_verified outputs
       then Inl (Store ''UV flag not set at registration'') else Inr outputs))"

subsection \<open>When the checks pass\<close>

lemma verify_expectations_ok:
  "verify_expectations cd t c os = Inr () \<longleftrightarrow>
    cd_typ cd = t \<and> (\<exists>b. b64_decode c = Inr b \<and> b64_decode (cd_challenge cd) = Inr b) \<and>
    \<not> cd_cross_origin cd \<and> (\<exists>allowed \<in> set os. ascii_lower allowed = ascii_lower (cd_origin cd))"
  by (auto simp: verify_expectations_def base64url_decode_def constant_time_eq_iff Let_def split: sum.splits)

lemma counter_policy_ok:
  "counter_policy stored auth = Inr n \<longleftrightarrow>
    n = auth \<and> (auth = 0 \<and> stored = 0 \<or> stored < auth \<and> auth \<le> stored + 1024)"
  by (auto simp: counter_policy_def MAX_SIGN_COUNT_GAP_def)

lemma verify_signature_ok:
  "verify_signature lib cose signature raw json = Inr () \<longleftrightarrow>
    (\<exists>vk sig. key_from_cose lib cose = Inr vk \<and> wl_der lib signature = Some sig \<and>
      wl_verify lib vk (raw @ wl_sha256 lib json) sig)"
  by (auto simp: verify_signature_def and_then_eq_Inr Let_def split: option.splits)

lemma auth_data_raw: "auth_data_parse raw = Inr ad \<Longrightarrow> ad_raw ad = raw"
  by (auto simp: auth_data_parse_def and_then_eq_Inr Let_def split: if_splits)

lemma verify_assertion_ok:
  "verify_assertion lib cid key stored resp_id auth signature json ex = Inr out \<longleftrightarrow>
    (\<exists>cd ad. wl_client_data lib json = Some cd \<and>
      verify_expectations cd TYPE_GET (ae_challenge_b64 ex) (ae_allowed_origins ex) = Inr () \<and>
      auth_data_parse auth = Inr ad \<and> user_present ad \<and>
      (ae_require_user_verification ex \<longrightarrow> user_verified ad) \<and>
      ad_rp_id_hash ad = wl_sha256 lib (str_bytes (ae_rp_id ex)) \<and> resp_id = cid \<and> cid \<noteq> [] \<and>
      verify_signature lib key signature auth json = Inr () \<and>
      counter_policy stored (ad_sign_count ad) = Inr (ao_sign_count out) \<and>
      out = \<lparr>ao_sign_count = ad_sign_count ad, ao_user_verified = user_verified ad,
        ao_backup_state = backup_state ad\<rparr>)"
  (is "?l \<longleftrightarrow> ?r")
proof
  assume ?l
  then obtain cd where cd: "wl_client_data lib json = Some cd"
    "verify_expectations cd TYPE_GET (ae_challenge_b64 ex) (ae_allowed_origins ex) = Inr ()"
    by (auto simp: verify_assertion_def and_then_eq_Inr split: option.splits)
  with \<open>?l\<close> obtain ad n where ad: "auth_data_parse auth = Inr ad" "user_present ad"
    "ae_require_user_verification ex \<longrightarrow> user_verified ad"
    "ad_rp_id_hash ad = wl_sha256 lib (str_bytes (ae_rp_id ex))" "resp_id = cid" "cid \<noteq> []"
    "verify_signature lib key signature (ad_raw ad) json = Inr ()"
    "counter_policy stored (ad_sign_count ad) = Inr n"
    "out = \<lparr>ao_sign_count = n, ao_user_verified = user_verified ad, ao_backup_state = backup_state ad\<rparr>"
    by (auto simp: verify_assertion_def and_then_eq_Inr constant_time_eq_iff split: if_splits)
  with cd auth_data_raw [OF ad(1)] show ?r by (auto simp: counter_policy_ok)
next
  assume ?r
  then show ?l
    using auth_data_raw [of auth]
    by (auto simp: verify_assertion_def constant_time_eq_iff)
qed

subsection \<open>Registration\<close>

text \<open>What an entry of the attestation object must be, and the value that a key has at the end.\<close>

definition entry_typed :: "cbor_value \<times> cbor_value \<Rightarrow> bool" where
  "entry_typed e = (case e of (CborText field, v) \<Rightarrow>
     (field = ''fmt'' \<longrightarrow> (\<exists>f. v = CborText f)) \<and> (field = ''attStmt'' \<longrightarrow> v = CborMap []) \<and>
     (field = ''authData'' \<longrightarrow> (\<exists>b. v = CborBytes b)) | _ \<Rightarrow> False)"

definition last_entry :: "string \<Rightarrow> (cbor_value \<times> cbor_value) list \<Rightarrow> cbor_value option" where
  "last_entry field m = map_of (rev m) (CborText field)"

lemma last_entry_simps:
  "last_entry field [] = None"
  "last_entry field ((k, v) # m) = (case last_entry field m of None \<Rightarrow> if k = CborText field then Some v else None | Some w \<Rightarrow> Some w)"
  by (auto simp: last_entry_def map_add_def split: option.split)

lemma last_entry_typed:
  assumes "\<forall>e \<in> set m. entry_typed e" "last_entry field m = Some v"
  shows "entry_typed (CborText field, v)"
  using assms map_of_SomeD [of "rev m"] by (fastforce simp: last_entry_def)

definition text_of :: "cbor_value option \<Rightarrow> string option" where
  "text_of v = (case v of Some (CborText f) \<Rightarrow> Some f | _ \<Rightarrow> None)"

definition bytes_of :: "cbor_value option \<Rightarrow> byte list option" where
  "bytes_of v = (case v of Some (CborBytes b) \<Rightarrow> Some b | _ \<Rightarrow> None)"

lemma value_of_simps:
  "text_of None = None" "text_of (Some (CborText f)) = Some f"
  "bytes_of None = None" "bytes_of (Some (CborBytes b)) = Some b"
  by (simp_all add: text_of_def bytes_of_def)

definition fields_after :: "(cbor_value \<times> cbor_value) list \<Rightarrow> attestation_fields \<Rightarrow> attestation_fields" where
  "fields_after m a =
    \<lparr>af_fmt = (case text_of (last_entry ''fmt'' m) of None \<Rightarrow> af_fmt a | Some f \<Rightarrow> Some f),
     af_auth_data = (case bytes_of (last_entry ''authData'' m) of None \<Rightarrow> af_auth_data a | Some b \<Rightarrow> Some b),
     af_stmt_empty = (last_entry ''attStmt'' m \<noteq> None \<or> af_stmt_empty a)\<rparr>"

lemma attestation_loop_step:
  assumes "entry_typed e"
  shows "attestation_loop (e # m) a = attestation_loop m (fields_after [e] a)"
proof -
  from assms obtain field v where e: "e = (CborText field, v)"
    by (cases e) (auto simp: entry_typed_def split: cbor_value.splits)
  consider "field = ''fmt''" | "field = ''attStmt''" | "field = ''authData''"
    | "field \<noteq> ''fmt''" "field \<noteq> ''attStmt''" "field \<noteq> ''authData''" by blast
  then show ?thesis
    using assms
    by cases (auto simp: e entry_typed_def fields_after_def last_entry_simps value_of_simps
      intro!: arg_cong [where f = "attestation_loop m"] attestation_fields.equality)
qed

lemma attestation_loop_stuck:
  assumes "\<not> entry_typed e"
  shows "attestation_loop (e # m) a \<noteq> Inr a'"
  using assms by (cases e) (auto simp: entry_typed_def split: cbor_value.splits list.splits if_splits)

lemma fields_after_Cons:
  assumes "\<forall>e \<in> set m. entry_typed e" "entry_typed e"
  shows "fields_after m (fields_after [e] a) = fields_after (e # m) a"
proof -
  obtain k v where e: "e = (k, v)" by force
  have fmt: "last_entry ''fmt'' m = None \<or> (\<exists>f. last_entry ''fmt'' m = Some (CborText f))"
    and auth: "last_entry ''authData'' m = None \<or> (\<exists>b. last_entry ''authData'' m = Some (CborBytes b))"
    using last_entry_typed [OF assms(1), of "''fmt''"] last_entry_typed [OF assms(1), of "''authData''"]
    by (cases "last_entry ''fmt'' m"; cases "last_entry ''authData'' m"; fastforce simp: entry_typed_def)+
  have "af_fmt (fields_after m (fields_after [e] a)) = af_fmt (fields_after (e # m) a)"
    using fmt by (auto simp: fields_after_def last_entry_simps e value_of_simps)
  moreover have "af_auth_data (fields_after m (fields_after [e] a)) = af_auth_data (fields_after (e # m) a)"
    using auth by (auto simp: fields_after_def last_entry_simps e value_of_simps)
  moreover have "af_stmt_empty (fields_after m (fields_after [e] a)) = af_stmt_empty (fields_after (e # m) a)"
    by (auto simp: fields_after_def last_entry_simps e split: option.split)
  ultimately show ?thesis by (simp add: fields_after_def)
qed

lemma attestation_loop_ok:
  "attestation_loop m a = Inr a' \<longleftrightarrow> (\<forall>e \<in> set m. entry_typed e) \<and> a' = fields_after m a"
proof (induction m arbitrary: a)
  case Nil
  then show ?case by (auto simp: fields_after_def last_entry_simps value_of_simps)
next
  case (Cons e m)
  show ?case
  proof (cases "entry_typed e")
    case True
    then show ?thesis
      using fields_after_Cons [of m e a] by (auto simp: attestation_loop_step Cons.IH)
  next
    case False
    then show ?thesis using attestation_loop_stuck [OF False] by auto
  qed
qed

text \<open>The attestation object, read from its map.\<close>

definition attestation_object_of :: "(cbor_value \<times> cbor_value) list \<Rightarrow> string \<Rightarrow> byte list \<Rightarrow> bool" where
  "attestation_object_of m fmt auth \<longleftrightarrow> (\<forall>e \<in> set m. entry_typed e) \<and>
     last_entry ''fmt'' m = Some (CborText fmt) \<and> last_entry ''attStmt'' m = Some (CborMap []) \<and>
     last_entry ''authData'' m = Some (CborBytes auth)"

lemma parse_attestation_object_ok:
  "parse_attestation_object lib bytes = Inr (fmt, auth) \<longleftrightarrow>
    (\<exists>m. wl_cbor lib bytes = Some (CborMap m) \<and> attestation_object_of m fmt auth)"
proof (cases "wl_cbor lib bytes")
  case (Some v)
  show ?thesis
  proof (cases v)
    case (CborMap m)
    let ?a = "fields_after m \<lparr>af_fmt = None, af_auth_data = None, af_stmt_empty = False\<rparr>"
    have "parse_attestation_object lib bytes = Inr (fmt, auth) \<longleftrightarrow> (\<forall>e \<in> set m. entry_typed e) \<and>
        af_fmt ?a = Some fmt \<and> af_stmt_empty ?a \<and> af_auth_data ?a = Some auth"
      by (auto simp: parse_attestation_object_def Some CborMap and_then_eq_Inr attestation_loop_ok
        split: option.splits bool.splits)
    also have "\<dots> \<longleftrightarrow> attestation_object_of m fmt auth"
    proof -
      have "text_of v = Some f \<longleftrightarrow> v = Some (CborText f)" "bytes_of v = Some b \<longleftrightarrow> v = Some (CborBytes b)" for v f b
        by (auto simp: text_of_def bytes_of_def split: option.splits cbor_value.splits)
      moreover have "last_entry ''attStmt'' m = Some (CborMap [])"
        if "\<forall>e \<in> set m. entry_typed e" "last_entry ''attStmt'' m = Some v" for v
        using last_entry_typed [OF that] that(2) by (simp add: entry_typed_def)
      ultimately show ?thesis
        by (auto simp: attestation_object_of_def fields_after_def value_of_simps split: option.splits)
    qed
    finally show ?thesis by (simp add: Some CborMap)
  qed (simp_all add: parse_attestation_object_def Some)
qed (simp add: parse_attestation_object_def)

lemma attested_flag:
  "auth_data_parse raw = Inr ad \<Longrightarrow> ad_flags ad AND FLAG_AT \<noteq> 0 \<longleftrightarrow> ad_attested ad \<noteq> None"
  by (auto simp: auth_data_parse_def and_then_eq_Inr Let_def split: if_splits)

lemma validate_supported_key_ok: "validate_supported_key key = Inr () \<longleftrightarrow> ck_alg key = Some (Assigned ES256)"
  by (cases "ck_alg key" rule: assigned.cases) (auto simp: validate_supported_key_def)

lemma verify_attestation_none_ok:
  "verify_attestation_none lib obj cd rp = Inr ro \<longleftrightarrow>
    (\<exists>m auth ad a key. wl_cbor lib obj = Some (CborMap m) \<and> attestation_object_of m ''none'' auth \<and>
      auth_data_parse auth = Inr ad \<and> user_present ad \<and> ad_rp_id_hash ad = wl_sha256 lib (str_bytes rp) \<and>
      ad_attested ad = Some a \<and> wl_cose_key lib (ac_public_key_cbor a) = Some key \<and>
      ck_alg key = Some (Assigned ES256) \<and>
      ro = \<lparr>ro_rp_id_hash = ad_rp_id_hash ad,
        ro_credential = \<lparr>at_credential_id = ac_credential_id a, at_public_key_cose = ac_public_key_cbor a,
          at_aaguid = ac_aaguid a, at_backup_eligible = backup_eligible ad, at_backup_state = backup_state ad\<rparr>,
        ro_sign_count = ad_sign_count ad, ro_user_verified = user_verified ad\<rparr>)" (is "?l \<longleftrightarrow> ?r")
proof
  assume ?l
  then obtain m auth ad where p: "wl_cbor lib obj = Some (CborMap m)" "attestation_object_of m ''none'' auth"
    "auth_data_parse auth = Inr ad"
    by (auto simp: verify_attestation_none_def and_then_eq_Inr parse_attestation_object_ok split: if_splits)
  then have "parse_attestation_object lib obj = Inr (''none'', auth)" by (auto simp: parse_attestation_object_ok)
  with \<open>?l\<close> p(3) obtain a key where "user_present ad" "ad_rp_id_hash ad = wl_sha256 lib (str_bytes rp)"
      "ad_attested ad = Some a" "wl_cose_key lib (ac_public_key_cbor a) = Some key"
      "validate_supported_key key = Inr ()"
      "ro = \<lparr>ro_rp_id_hash = ad_rp_id_hash ad,
        ro_credential = \<lparr>at_credential_id = ac_credential_id a, at_public_key_cose = ac_public_key_cbor a,
          at_aaguid = ac_aaguid a, at_backup_eligible = backup_eligible ad, at_backup_state = backup_state ad\<rparr>,
        ro_sign_count = ad_sign_count ad, ro_user_verified = user_verified ad\<rparr>"
    by (auto simp: verify_attestation_none_def and_then_eq_Inr split: if_splits option.splits)
  with p show ?r by (auto simp: validate_supported_key_ok)
next
  assume ?r
  then obtain m auth ad a key where p: "wl_cbor lib obj = Some (CborMap m)" "attestation_object_of m ''none'' auth"
    and q: "auth_data_parse auth = Inr ad" "user_present ad" "ad_rp_id_hash ad = wl_sha256 lib (str_bytes rp)"
      "ad_attested ad = Some a" "wl_cose_key lib (ac_public_key_cbor a) = Some key"
      "validate_supported_key key = Inr ()"
      "ro = \<lparr>ro_rp_id_hash = ad_rp_id_hash ad,
        ro_credential = \<lparr>at_credential_id = ac_credential_id a, at_public_key_cose = ac_public_key_cbor a,
          at_aaguid = ac_aaguid a, at_backup_eligible = backup_eligible ad, at_backup_state = backup_state ad\<rparr>,
        ro_sign_count = ad_sign_count ad, ro_user_verified = user_verified ad\<rparr>"
    by (auto simp: validate_supported_key_ok)
  have "parse_attestation_object lib obj = Inr (''none'', auth)" using p by (auto simp: parse_attestation_object_ok)
  with q attested_flag [OF q(1)] show ?l by (simp add: verify_attestation_none_def)
qed

subsection \<open>Logins\<close>

text \<open>
  C32: a login with a passkey is accepted exactly when the client data are those of a login
  for the issued challenge from an allowed origin and not across origins, the authenticator data parse, say
  that the user was present (and verified, when demanded) and are bound to the relying party, the
  credential is the stored one, the stored key signed authenticator data and client data, and the
  counter is 0 on both sides or has grown by 1 to 1024; the outcome is read from the signed bytes.
\<close>

theorem assertion_exact:
  "verify_assertion lib cid key stored resp_id auth signature json ex = Inr out \<longleftrightarrow>
    (\<exists>cd challenge ad vk sig. wl_client_data lib json = Some cd \<and> cd_typ cd = ''webauthn.get'' \<and>
      b64_decode (ae_challenge_b64 ex) = Inr challenge \<and> b64_decode (cd_challenge cd) = Inr challenge \<and>
      \<not> cd_cross_origin cd \<and>
      (\<exists>allowed \<in> set (ae_allowed_origins ex). ascii_lower allowed = ascii_lower (cd_origin cd)) \<and>
      auth_data_parse auth = Inr ad \<and> user_present ad \<and>
      (ae_require_user_verification ex \<longrightarrow> user_verified ad) \<and>
      ad_rp_id_hash ad = wl_sha256 lib (str_bytes (ae_rp_id ex)) \<and> resp_id = cid \<and> cid \<noteq> [] \<and>
      key_from_cose lib key = Inr vk \<and> wl_der lib signature = Some sig \<and>
      wl_verify lib vk (auth @ wl_sha256 lib json) sig \<and>
      (ad_sign_count ad = 0 \<and> stored = 0 \<or> stored < ad_sign_count ad \<and> ad_sign_count ad \<le> stored + 1024) \<and>
      out = \<lparr>ao_sign_count = ad_sign_count ad, ao_user_verified = user_verified ad,
        ao_backup_state = backup_state ad\<rparr>)"
proof -
  have "out = \<lparr>ao_sign_count = n, ao_user_verified = v, ao_backup_state = b\<rparr> \<Longrightarrow>
    counter_policy stored n = Inr (ao_sign_count out) \<longleftrightarrow> (n = 0 \<and> stored = 0 \<or> stored < n \<and> n \<le> stored + 1024)" for n v b
    by (auto simp: counter_policy_ok)
  then show ?thesis
    unfolding verify_assertion_ok verify_expectations_ok verify_signature_ok TYPE_GET_def by blast
qed

text \<open>A library to run the checks on: the signature of a message is the message.\<close>

definition demo_cose :: cose_key where
  "demo_cose = \<lparr>ck_kty = Assigned 2, ck_alg = Some (Assigned (- 7)),
     ck_params = [(LabelInt (- 1), CborInteger 1), (LabelInt (- 2), CborBytes [1]), (LabelInt (- 3), CborBytes [2])]\<rparr>"

definition demo_lib :: "(byte list, byte list) webauthn_lib" where
  "demo_lib = \<lparr>wl_sha256 = \<lambda>m. replicate 32 (of_nat (length m)),
     wl_client_data = \<lambda>json. Some \<lparr>cd_typ = ''webauthn.get'', cd_challenge = ''QUJD'',
       cd_origin = ''https://a.example'', cd_cross_origin = False\<rparr>,
     wl_cbor = \<lambda>_. None, wl_cose_key = \<lambda>b. if b = [1] then Some demo_cose else None,
     wl_sec1 = Some, wl_der = Some, wl_verify = \<lambda>_ m s. s = m\<rparr>"

definition demo_auth :: "byte list" where
  "demo_auth = replicate 32 2 @ [5, 0, 0, 0, 7]"

definition demo_ex :: assertion_expectations where
  "demo_ex = \<lparr>ae_rp_id = ''ab'', ae_challenge_b64 = ''QUJD'', ae_allowed_origins = [''HTTPS://A.example''],
     ae_require_user_verification = True\<rparr>"

lemma demo_login:
  "verify_assertion demo_lib [9] [1] 3 [9] demo_auth (demo_auth @ replicate 32 1) [0] demo_ex =
    Inr \<lparr>ao_sign_count = 7, ao_user_verified = True, ao_backup_state = False\<rparr>"
  by code_simp

theorem assertion_exact_witness:
  "\<exists>ad. auth_data_parse demo_auth = Inr ad \<and> user_verified ad \<and> ad_sign_count ad \<le> 3 + 1024"
proof -
  from demo_login [unfolded assertion_exact] show ?thesis by (auto simp: demo_ex_def)
qed

subsection \<open>Histories of logins\<close>

text \<open>
  An attempt is what a browser sends, with the expectations of its ceremony; a caller stores the
  counter of each accepted one.
\<close>

record login_attempt =
  la_credential_id :: "byte list"
  la_authenticator_data :: "byte list"
  la_signature :: "byte list"
  la_client_data_json :: "byte list"
  la_expectations :: assertion_expectations

definition attempt_result ::
  "('vk, 'sig) webauthn_lib \<Rightarrow> byte list \<Rightarrow> byte list \<Rightarrow> nat \<Rightarrow> login_attempt \<Rightarrow> assertion_outcome result" where
  "attempt_result lib cid key stored l = verify_assertion lib cid key stored (la_credential_id l)
     (la_authenticator_data l) (la_signature l) (la_client_data_json l) (la_expectations l)"

definition attempt_step ::
  "('vk, 'sig) webauthn_lib \<Rightarrow> byte list \<Rightarrow> byte list \<Rightarrow> login_attempt \<Rightarrow> nat \<Rightarrow> nat" where
  "attempt_step lib cid key l stored =
     (case attempt_result lib cid key stored l of Inl _ \<Rightarrow> stored | Inr out \<Rightarrow> ao_sign_count out)"

lemma attempt_result_ok:
  assumes "attempt_result lib cid key stored l = Inr out"
  shows "\<exists>ad. auth_data_parse (la_authenticator_data l) = Inr ad \<and> ao_sign_count out = ad_sign_count ad \<and>
    (ad_sign_count ad = 0 \<and> stored = 0 \<or> stored < ad_sign_count ad \<and> ad_sign_count ad \<le> stored + 1024)"
  using assms unfolding attempt_result_def verify_assertion_ok counter_policy_ok by auto

lemma attempt_step_bounds:
  "stored \<le> attempt_step lib cid key l stored \<and> attempt_step lib cid key l stored \<le> stored + 1024"
  using attempt_result_ok [of lib cid key stored l] by (auto simp: attempt_step_def split: sum.split)

lemma attempts_bounds:
  "stored \<le> fold (attempt_step lib cid key) ls stored \<and>
    fold (attempt_step lib cid key) ls stored \<le> stored + 1024 * length ls"
proof (induction ls arbitrary: stored)
  case (Cons l ls)
  from Cons.IH [of "attempt_step lib cid key l stored"] attempt_step_bounds [of stored lib cid key l]
  show ?case by auto
qed simp

text \<open>
  C31: a passkey with a counter cannot be replayed or rolled back. After an accepted login whose counter
  is not 0, and any further attempts whatever they contain, authenticator data that carry
  that counter or a lower one are refused, with whatever client data, signature and expectations; and the
  stored counter never falls and grows by at most 1024 with each attempt.
\<close>

theorem accepted_assertion_is_spent:
  assumes "attempt_result lib cid key stored l = Inr out" "ao_sign_count out \<noteq> 0"
    and "auth_data_parse (la_authenticator_data l') = Inr ad'" "ad_sign_count ad' \<le> ao_sign_count out"
  shows "\<not> is_ok (attempt_result lib cid key (fold (attempt_step lib cid key) ls (ao_sign_count out)) l') \<and>
    ao_sign_count out \<le> fold (attempt_step lib cid key) ls (ao_sign_count out) \<and>
    fold (attempt_step lib cid key) ls (ao_sign_count out) \<le> stored + 1024 * Suc (length ls)"
proof -
  let ?n = "fold (attempt_step lib cid key) ls (ao_sign_count out)"
  note bounds = attempts_bounds [of "ao_sign_count out" lib cid key ls]
  have "\<not> is_ok (attempt_result lib cid key ?n l')"
    using attempt_result_ok [of lib cid key ?n l'] assms(2-4) bounds by (auto simp: is_ok_iff)
  moreover have "ao_sign_count out \<le> stored + 1024" using attempt_result_ok [OF assms(1)] by auto
  ultimately show ?thesis using bounds by auto
qed

theorem accepted_assertion_is_spent_witness:
  "\<not> is_ok (attempt_result demo_lib [9] [1] 7
     \<lparr>la_credential_id = [9], la_authenticator_data = demo_auth, la_signature = demo_auth @ replicate 32 1,
       la_client_data_json = [0], la_expectations = demo_ex\<rparr>)"
proof -
  let ?l = "\<lparr>la_credential_id = [9], la_authenticator_data = demo_auth, la_signature = demo_auth @ replicate 32 1,
    la_client_data_json = [0], la_expectations = demo_ex\<rparr>"
  let ?out = "\<lparr>ao_sign_count = 7, ao_user_verified = True, ao_backup_state = False\<rparr>"
  have ok: "attempt_result demo_lib [9] [1] 3 ?l = Inr ?out" by (simp add: attempt_result_def demo_login)
  from attempt_result_ok [OF this] obtain ad where ad: "auth_data_parse demo_auth = Inr ad" "ad_sign_count ad = 7" by auto
  from accepted_assertion_is_spent [OF ok, of ?l ad "[]"] ad show ?thesis by simp
qed

text \<open>
  The full check refines the one of earlier releases: what it accepts, the earlier verifier
  accepts with the counter of the signed bytes and the same result. The converse fails: the earlier
  one takes any counter its caller names that passes the policy, for the same signature.
\<close>

theorem full_check_refines_legacy:
  assumes "verify_assertion lib cid key stored resp_id auth signature json ex = Inr out"
  shows "legacy_verify lib \<lparr>wv_credential_id = cid, wv_public_key_cose = key, wv_sign_count = stored\<rparr>
      resp_id auth json signature (ao_sign_count out) = Inr (ao_sign_count out) \<and>
    (counter_policy stored n = Inr n \<longleftrightarrow>
      legacy_verify lib \<lparr>wv_credential_id = cid, wv_public_key_cose = key, wv_sign_count = stored\<rparr>
        resp_id auth json signature n = Inr n)"
proof -
  from assms have "resp_id = cid" "verify_signature lib key signature auth json = Inr ()"
    "counter_policy stored (ao_sign_count out) = Inr (ao_sign_count out)"
    unfolding verify_assertion_ok by (auto simp: counter_policy_ok)
  then show ?thesis by (auto simp: legacy_verify_def constant_time_eq_iff and_then_eq_Inr counter_policy_ok)
qed

theorem full_check_refines_legacy_witness:
  "legacy_verify demo_lib \<lparr>wv_credential_id = [9], wv_public_key_cose = [1], wv_sign_count = 3\<rparr>
     [9] demo_auth [0] (demo_auth @ replicate 32 1) 900 = Inr 900"
  using full_check_refines_legacy [OF demo_login, of 900] by (simp add: counter_policy_ok)

subsection \<open>Registrations under a policy\<close>

lemma registration_accepted_iff:
  "verify_attestation_none_with_policy lib obj cd rp policy = Inr ro \<longleftrightarrow>
    (\<exists>m auth ad a key. wl_cbor lib obj = Some (CborMap m) \<and> attestation_object_of m ''none'' auth \<and>
      auth_data_parse auth = Inr ad \<and> user_present ad \<and> ad_rp_id_hash ad = wl_sha256 lib (str_bytes rp) \<and>
      ad_attested ad = Some a \<and> wl_cose_key lib (ac_public_key_cbor a) = Some key \<and>
      ck_alg key = Some (Assigned (- 7)) \<and>
      (ap_require_user_verification policy \<longrightarrow> user_verified ad) \<and>
      (ap_allowed_origins policy = [] \<or> cd_typ cd = ''webauthn.create'' \<and>
        is_ok (b64_decode (cd_challenge cd)) \<and> \<not> cd_cross_origin cd \<and>
        (\<exists>allowed \<in> set (ap_allowed_origins policy). ascii_lower allowed = ascii_lower (cd_origin cd))) \<and>
      ro = \<lparr>ro_rp_id_hash = ad_rp_id_hash ad,
        ro_credential = \<lparr>at_credential_id = ac_credential_id a, at_public_key_cose = ac_public_key_cbor a,
          at_aaguid = ac_aaguid a, at_backup_eligible = backup_eligible ad, at_backup_state = backup_state ad\<rparr>,
        ro_sign_count = ad_sign_count ad, ro_user_verified = user_verified ad\<rparr>)" (is "?l \<longleftrightarrow> ?r")
proof -
  let ?origins = "ap_allowed_origins policy = [] \<or> cd_typ cd = ''webauthn.create'' \<and>
    is_ok (b64_decode (cd_challenge cd)) \<and> \<not> cd_cross_origin cd \<and>
    (\<exists>allowed \<in> set (ap_allowed_origins policy). ascii_lower allowed = ascii_lower (cd_origin cd))"
  have "?l \<longleftrightarrow> ?origins \<and> verify_attestation_none lib obj cd rp = Inr ro \<and>
    (ap_require_user_verification policy \<longrightarrow> ro_user_verified ro)"
    by (auto simp: verify_attestation_none_with_policy_def and_then_eq_Inr verify_expectations_ok is_ok_iff)
  also have "\<dots> \<longleftrightarrow> ?r"
    unfolding verify_attestation_none_ok ES256_def by (rule iffI; elim exE conjE; (intro exI conjI)?; (assumption | simp))
  finally show ?thesis .
qed

definition demo_reg_auth :: "byte list" where
  "demo_reg_auth = replicate 32 2 @ [0x45, 0, 0, 0, 3] @ replicate 16 0 @ [0, 1, 9] @ [1]"

definition demo_reg_lib :: "(byte list, byte list) webauthn_lib" where
  "demo_reg_lib = demo_lib\<lparr>wl_cbor := \<lambda>_. Some (CborMap [(CborText ''fmt'', CborText ''none''),
     (CborText ''attStmt'', CborMap []), (CborText ''authData'', CborBytes demo_reg_auth)])\<rparr>"

definition demo_outputs :: registration_outputs where
  "demo_outputs = \<lparr>ro_rp_id_hash = replicate 32 2,
     ro_credential = \<lparr>at_credential_id = [9], at_public_key_cose = [1], at_aaguid = replicate 16 0,
       at_backup_eligible = False, at_backup_state = False\<rparr>, ro_sign_count = 3, ro_user_verified = True\<rparr>"

definition demo_client_data :: client_data where
  "demo_client_data = \<lparr>cd_typ = ''webauthn.create'', cd_challenge = ''QUJD'', cd_origin = ''https://a.example'',
     cd_cross_origin = False\<rparr>"

lemma demo_registration:
  "verify_attestation_none_with_policy demo_reg_lib [] demo_client_data ''ab''
     \<lparr>ap_require_user_verification = True, ap_allowed_origins = [''https://a.example'']\<rparr> = Inr demo_outputs"
  by code_simp

text \<open>
  What a registration has to be: the attestation object is a map with text keys whose format is none,
  whose statement is empty and whose authenticator data carry the credential, say that the user
  was present, and that she was verified if the policy demands it, and hold the hash of the relying
  party's identifier; and, where the policy lists origins, the client data are those of a registration
  from one of them, not across origins.
\<close>

definition registration_meets ::
  "('vk, 'sig) webauthn_lib \<Rightarrow> byte list \<Rightarrow> client_data \<Rightarrow> string \<Rightarrow> attestation_policy \<Rightarrow>
    authenticator_data \<Rightarrow> attested_credential_data \<Rightarrow> bool" where
  "registration_meets lib obj cd rp policy ad a \<longleftrightarrow>
     (\<exists>m auth. wl_cbor lib obj = Some (CborMap m) \<and> attestation_object_of m ''none'' auth \<and>
       auth_data_parse auth = Inr ad) \<and>
     ad_attested ad = Some a \<and> user_present ad \<and> (ap_require_user_verification policy \<longrightarrow> user_verified ad) \<and>
     ad_rp_id_hash ad = wl_sha256 lib (str_bytes rp) \<and>
     (ap_allowed_origins policy = [] \<or> cd_typ cd = ''webauthn.create'' \<and> \<not> cd_cross_origin cd \<and>
       (\<exists>allowed \<in> set (ap_allowed_origins policy). ascii_lower allowed = ascii_lower (cd_origin cd)))"

definition registered_as :: "authenticator_data \<Rightarrow> attested_credential_data \<Rightarrow> registration_outputs" where
  "registered_as ad a = \<lparr>ro_rp_id_hash = ad_rp_id_hash ad,
     ro_credential = \<lparr>at_credential_id = ac_credential_id a, at_public_key_cose = ac_public_key_cbor a,
       at_aaguid = ac_aaguid a, at_backup_eligible = backup_eligible ad, at_backup_state = backup_state ad\<rparr>,
     ro_sign_count = ad_sign_count ad, ro_user_verified = user_verified ad\<rparr>"

text \<open>The key an assertion can use declares the algorithm that a registration asks for.\<close>

lemma key_from_cose_alg:
  "key_from_cose lib k = Inr vk \<Longrightarrow> \<exists>key. wl_cose_key lib k = Some key \<and> ck_alg key = Some (Assigned (- 7))"
  by (auto simp: key_from_cose_def ES256_def elim!: assigned.elims split: if_splits option.splits)

text \<open>
  C33: no credential is registered under a foreign binding. Whatever is accepted is bound to the ceremony:
  it meets the policy, the relying party and, where the policy lists origins, the origin, with a present user
  and a statement that is empty, and what is handed out for storage are the fields of those
  authenticator data; its key declares the algorithm ES256. In the other direction every registration
  that is so bound, whose key the assertion check can use and whose challenge is the encoding of
  some bytes, as browsers send it, is accepted with those outputs.
\<close>

theorem accepted_registration_is_bound:
  "(verify_attestation_none_with_policy lib obj cd rp policy = Inr ro \<longrightarrow>
      (\<exists>ad a key. registration_meets lib obj cd rp policy ad a \<and> ro = registered_as ad a \<and>
        wl_cose_key lib (ac_public_key_cbor a) = Some key \<and> ck_alg key = Some (Assigned (- 7)))) \<and>
   (registration_meets lib obj cd rp policy ad a \<and> key_from_cose lib (ac_public_key_cbor a) = Inr vk \<and>
      cd_challenge cd = b64_encode challenge \<longrightarrow>
      verify_attestation_none_with_policy lib obj cd rp policy = Inr (registered_as ad a))"
proof (intro conjI impI)
  assume "verify_attestation_none_with_policy lib obj cd rp policy = Inr ro"
  then show "\<exists>ad a key. registration_meets lib obj cd rp policy ad a \<and> ro = registered_as ad a \<and>
        wl_cose_key lib (ac_public_key_cbor a) = Some key \<and> ck_alg key = Some (Assigned (- 7))"
    unfolding registration_accepted_iff registration_meets_def registered_as_def by blast
next
  assume meets: "registration_meets lib obj cd rp policy ad a \<and> key_from_cose lib (ac_public_key_cbor a) = Inr vk \<and>
      cd_challenge cd = b64_encode challenge"
  then have "is_ok (b64_decode (cd_challenge cd))" using b64_decode_encode by (simp add: is_ok_iff)
  with meets key_from_cose_alg [of lib "ac_public_key_cbor a" vk]
  show "verify_attestation_none_with_policy lib obj cd rp policy = Inr (registered_as ad a)"
    unfolding registration_accepted_iff registration_meets_def registered_as_def by blast
qed

theorem accepted_registration_is_bound_witness:
  "\<exists>ad a. registration_meets demo_reg_lib [] demo_client_data ''ab''
       \<lparr>ap_require_user_verification = True, ap_allowed_origins = [''https://a.example'']\<rparr> ad a \<and>
     demo_outputs = registered_as ad a"
  using conjunct1 [OF accepted_registration_is_bound, THEN mp, OF demo_registration] by blast

text \<open>
  The key of a registration is checked for its algorithm only. A key of another type is registered,
  and no login with it ever succeeds.
\<close>

lemma unverifiable_key_is_registered:
  assumes "wl_cose_key lib k = Some \<lparr>ck_kty = Assigned 1, ck_alg = Some (Assigned ES256), ck_params = ps\<rparr>"
  shows "validate_supported_key \<lparr>ck_kty = Assigned 1, ck_alg = Some (Assigned ES256), ck_params = ps\<rparr> = Inr () \<and>
    \<not> is_ok (verify_assertion lib cid k stored resp_id auth signature json ex)"
proof -
  have "key_from_cose lib k \<noteq> Inr vk" for vk using assms by (simp add: key_from_cose_def EC2_def)
  then show ?thesis
    by (auto simp: validate_supported_key_ok is_ok_iff verify_assertion_ok verify_signature_ok)
qed

text \<open>The client data play no part in the check of an attestation object.\<close>

lemma attestation_ignores_client_data:
  "verify_attestation_none lib obj cd rp = verify_attestation_none lib obj cd' rp"
  by (simp add: verify_attestation_none_def)

text \<open>A policy with origins refuses client data whose challenge does not decode.\<close>

lemma policy_decodes_challenge:
  assumes "ap_allowed_origins policy \<noteq> []" "\<not> is_ok (b64_decode (cd_challenge cd))"
  shows "\<not> is_ok (verify_attestation_none_with_policy lib obj cd rp policy)"
  using assms
  by (auto simp: is_ok_iff verify_attestation_none_with_policy_def and_then_eq_Inr verify_expectations_ok)

end
