(* ===== verification/Spec2Isabelle.thy ===== *)
theory Spec2Isabelle
  imports
    Rbac_Engine
    Grant_Resolution
    Db_Session
    Workspace_Guard
    Password_Texts
    Audit_Analysis
    Token_Export
    Web_Tokens
    Presence
    Invitations
    Invitation_Codes
    Login_Security
    Verification_Codes
    Proof_Of_Work
    Arbiter_Safety
    Captcha
    Allow_Lists
    One_Time_Passwords
    Local_Passports
    Identities
    Webauthn_Ceremony
begin

text \<open>
  A verification library for kirino, an authentication and authorization toolkit in Rust
  (paths below are relative to the repository's root).

  \<^bold>\<open>The program and its parts.\<close> The root crate decides permissions. An engine
  (\<^verbatim>\<open>src/rbac/engine.rs\<close>) reads a subject's roles, extra grants and denials from an assignment
  store, role definitions from a registry, walks a role hierarchy, and remembers decisions in
  a cache with a time to live. Beside it stand two other ways to decide: scoped grants
  (\<^verbatim>\<open>src/rbac/scope.rs\<close>), which a \<^verbatim>\<open>GrantResolver\<close> evaluates for a permission context, and flat
  grant rows (\<^verbatim>\<open>src/rbac/grant_resolution.rs\<close>), which are folded by tier. Constraints
  (separation of duty, cardinality, prerequisites, time windows) gate the assignment of roles
  and their activation in sessions; a workspace guard, a password policy and an audit trail
  with alert rules complete it. Beside these static rules stands a dynamic arbiter
  (\<^verbatim>\<open>src/rbac/dynamic\<close>): it scores a request on five dimensions (who asks, how much it is
  trusted, how sensitive the action is, whether it lies in the task's domain, how unusual it
  is) in floating-point arithmetic, maps the score to a level of autonomy and learns trust
  from the outcomes it is told. The crate \<^verbatim>\<open>packages/session\<close> issues and verifies signed
  tokens, and holds two replay stores: one for rotated refresh tokens, one for one-shot tokens.

  \<^bold>\<open>The theories.\<close>
  \<^item> \<open>Kirino_Prelude\<close>: \<^verbatim>\<open>src/error.rs\<close>, results, the model of \<^verbatim>\<open>HashMap\<close>, shared lemmas.
  \<^item> \<open>Rbac_Traits\<close>: \<^verbatim>\<open>src/rbac/traits.rs\<close>; a trait is a record of its methods.
  \<^item> \<open>Rbac_Stores\<close>: \<^verbatim>\<open>src/rbac/store/memory.rs\<close> and \<^verbatim>\<open>registry.rs\<close>, with the locale
    \<open>assignment_store\<close>, the contract of the trait \<^verbatim>\<open>AssignmentStore\<close>.
  \<^item> \<open>Permission_Cache\<close>: \<^verbatim>\<open>src/rbac/cache.rs\<close>, with the locale \<open>permission_cache\<close>, what the
    engine relies on, interpreted by the model of \<^verbatim>\<open>TtlPermissionCache\<close>.
  \<^item> \<open>Role_Hierarchy\<close>: \<^verbatim>\<open>src/rbac/hierarchy/mod.rs\<close> over the locale \<open>finite_registry\<close>.
  \<^item> \<open>Rbac_Engine\<close>: \<^verbatim>\<open>src/rbac/engine.rs\<close>, one definition per method; the engine's lemmas are
    proved for any cache of the locale.
  \<^item> \<open>Scoped_Grants\<close>: \<^verbatim>\<open>src/rbac/scope.rs\<close>.
  \<^item> \<open>Permission_Catalog\<close>: \<^verbatim>\<open>packages/kirino-macro/src/lib.rs\<close> and \<^verbatim>\<open>src/rbac/permission.rs\<close>.
  \<^item> \<open>Grant_Resolution\<close>: \<^verbatim>\<open>src/rbac/grant_resolution.rs\<close>.
  \<^item> \<open>Constraints\<close>: \<^verbatim>\<open>src/rbac/constraints\<close>; \<open>Rbac_Session\<close>: \<^verbatim>\<open>src/rbac/session/mod.rs\<close>, with
    reachability over all operations of the manager; \<open>Db_Session\<close>: \<^verbatim>\<open>src/rbac/session/db.rs\<close>,
    the manager over a store that replicas share, with their reads and writes interleaved.
  \<^item> \<open>Workspace_Guard\<close>, \<open>Password_Policy\<close>, \<open>Audit_Trail\<close>: the files of these names in \<^verbatim>\<open>src/rbac\<close>
    (\<^verbatim>\<open>policy.rs\<close> for the second, \<^verbatim>\<open>audit.rs\<close> for the third); \<open>Password_Texts\<close> and
    \<open>Audit_Analysis\<close> hold the rest of these files, the printed forms and the analyzer.
  \<^item> \<open>Replay_Stores\<close>: \<^verbatim>\<open>revocation.rs\<close> and \<^verbatim>\<open>one_shot.rs\<close> of \<^verbatim>\<open>packages/session/src\<close>, over the
    locale \<open>replay_guard\<close>; \<open>Token_Manager\<close>: \<^verbatim>\<open>manager.rs\<close>, \<^verbatim>\<open>token.rs\<close>, \<^verbatim>\<open>config.rs\<close>;
    \<open>Token_Export\<close>: its published key set and its reading without verification;
    \<open>Web_Tokens\<close>: \<^verbatim>\<open>middleware\<close>, how a request is authenticated;
    \<open>Presence\<close>: \<^verbatim>\<open>presence.rs\<close>.
  \<^item> \<open>Kirino_Utils\<close>: \<^verbatim>\<open>src/utils.rs\<close>; \<open>Invitations\<close> and \<open>Invitation_Codes\<close>: \<^verbatim>\<open>src/invitation\<close>;
    \<open>Unicode_Text\<close>: the texts of the standard library, for the components that look at characters.
  \<^item> \<open>Jwt_Credentials\<close>: \<^verbatim>\<open>src/auth/credential/basic.rs\<close>, with the locale \<open>revocation_backend\<close>;
    \<open>User_Database\<close>: \<^verbatim>\<open>src/database/memory.rs\<close>, with the locale \<open>user_database\<close>;
    \<open>Login_Policy\<close>, \<open>Rate_Limiter\<close>, \<open>Login_Service\<close>: \<^verbatim>\<open>src/service/login\<close> and the temporary
    passwords of \<^verbatim>\<open>src/auth/passport/static_password.rs\<close>; \<open>Login_Security\<close>: histories of logins,
    password changes and concurrent registrations.
  \<^item> \<open>Metering\<close>: the locale \<open>metered\<close>, for tokens that are spent; \<open>One_Time\<close>:
    \<^verbatim>\<open>src/auth/credential/one_time.rs\<close> and \<^verbatim>\<open>service.rs\<close>; \<open>Verification_Codes\<close>:
    \<^verbatim>\<open>src/service/verify/verification\<close>; \<open>Proof_Of_Work\<close>: \<^verbatim>\<open>src/auth/passport/pow.rs\<close>.
  \<^item> \<open>Float64\<close>: the IEEE numbers of \<^verbatim>\<open>f64\<close>, rational and rounded to 53 bits, with the laws that
    the arbiter needs (rounding is monotone, so comparisons survive it);
    \<open>Dynamic_Trust\<close>, \<open>Dynamic_Domain\<close>, \<open>Dynamic_Anomaly\<close>, \<open>Dynamic_Policy\<close> and
    \<open>Dynamic_Arbiter\<close>: the files of \<^verbatim>\<open>src/rbac/dynamic\<close> (\<^verbatim>\<open>delegator.rs\<close> and \<^verbatim>\<open>metrics.rs\<close> are
    with the domain, \<^verbatim>\<open>verdict.rs\<close> is with the policy); \<open>Arbiter_Safety\<close>: histories of calls to the
    arbiter.
  \<^item> \<open>Captcha\<close>, \<open>One_Time_Passwords\<close>: \<^verbatim>\<open>captcha.rs\<close> and \<^verbatim>\<open>dynamic_password.rs\<close> of
    \<^verbatim>\<open>src/auth/passport\<close>; \<open>Local_Passports\<close>: \<^verbatim>\<open>biometric.rs\<close> and \<^verbatim>\<open>key_pair.rs\<close> there; \<open>Ip_Addresses\<close>: how the standard library reads addresses;
    \<open>Allow_Lists\<close>: \<^verbatim>\<open>src/service/verify/whitelist\<close> and \<^verbatim>\<open>src/auth/passport/temporary_whitelist.rs\<close>.
  \<^item> \<open>Visitor_Tickets\<close>: \<^verbatim>\<open>src/local.rs\<close> and \<^verbatim>\<open>src/auth/visitor.rs\<close>, over the locale
    \<open>temporary_store\<close> for the trait of \<^verbatim>\<open>src/auth/identity/temporary.rs\<close>; \<open>Identities\<close>:
    \<^verbatim>\<open>src/auth/identity/basic.rs\<close>, \<^verbatim>\<open>src/rbac/identity_subject.rs\<close> and \<^verbatim>\<open>subject.rs\<close>.
  \<^item> \<open>Webauthn_Data\<close>: \<^verbatim>\<open>src/auth/passport/webauthn/auth_data.rs\<close>, with the grammar of the CBOR items
    it measures and the layout of the data it parses; \<open>Webauthn_Challenge\<close> and
    \<open>Webauthn_Ceremony\<close>: the other files of that directory, the challenges (their histories
    interleave pruning and insertion, two locks of one call) and the checks of registration and login.
\<close>

text \<open>
  \<^bold>\<open>How the code is read.\<close> A method that holds one lock for its whole body is one function
  from the old state to a result and the new state. A \<^verbatim>\<open>Result\<close> is a sum with the error on the
  left, an \<^verbatim>\<open>Option\<close> an option. A \<^verbatim>\<open>HashMap\<close> is an association list with distinct keys, whose
  order stands for the unspecified iteration order. The clock and random values are arguments.
  Integers that can wrap keep their width (versions and token times are 64-bit words, days are
  32-bit words); lengths and counters that cannot reach their bound are natural numbers.
  Concurrency is modelled where the code runs operations concurrently on shared state: the
  batch of checks is a step relation in which the checks in flight finish in any order.

  \<^bold>\<open>What the lemmas show.\<close> Each component has its well-formedness invariant and its
  preservation, an abstract specification (\<open>authorized\<close>, \<open>inherited_permissions\<close>, \<open>effective\<close>,
  \<open>session_ok\<close>, \<open>admitted_once\<close>) and the theorem that the detailed definitions implement it,
  error paths included. Theorems on executions (a disciplined history of checks and writes, a
  reachable session manager, a sequence of presentations or rotations) are by induction over
  the execution. Where the code does not do what its documentation says, a theorem states what
  it does.

  \<^bold>\<open>Bounds and termination.\<close> The cycle detection of the role hierarchy runs its depth-first
  search with fuel one above the number of roles; \<open>detect_cycle_exact\<close> shows that this is enough
  on every registry. No other fuel is used. The walk of the role hierarchy, a loop that need
  not end on an infinite registry, is a \<open>partial_function (option)\<close>; that it returns is proved
  for every registry with finitely many roles, cyclic ones included. Cache, audit sink and
  replay stores have the code's bounds as constants or fields.

  \<^bold>\<open>Clocks and steps within an operation.\<close> Where an operation reads the clock more than once and
  the readings matter, it takes them apart (the rotation of a refresh token verifies, records and
  issues at three readings); readings in the same few instructions (a cache write) are one instant.
  Where an operation awaits between its accesses to shared state and a claim depends on it, the
  accesses are steps of their own (a password change checks, revokes and stores; a shared session is
  read, then written), and the whole operation is their composition.

  \<^bold>\<open>Parameters.\<close> Code outside the repository is an argument: \<open>jose_lib\<close> (the signing and
  encoding libraries of the token manager), \<open>score_ops\<close> (the floating-point scores of audit
  entries), the text form of a number in the arbiter's evidence, and the predicates on dates
  that may panic. \<open>webauthn_lib\<close> holds the parsers and the
  curve behind a passkey, \<open>local_jwt_lib\<close> the token library of visitor tickets; hash functions are
  arguments where one is used. A trait object that a client may
  implement (resolver, registry, store) is an argument too.

  \<^bold>\<open>Not modelled.\<close> Database and mail I/O, the plumbing of the web frameworks, serialization derived by serde,
  logging, password hashing and the spawning of background tasks. The SQL-backed stores
  (\<^verbatim>\<open>src/database/db_session.rs\<close>, \<^verbatim>\<open>db_revocation.rs\<close>, \<^verbatim>\<open>packages/session/src/store.rs\<close>)
  hold their state in a library that is not in the repository; the traits of the services and of
  anonymous identities have no implementation in it.
\<close>

end
